(* ===== verification/Prelude.thy ===== *)
theory Prelude
  imports Main "HOL-Library.Char_ord" "HOL-Library.List_Lexorder"
begin

text \<open>
  Shared ground of the development: the vocabulary of SQL statements over a table held as a
  list of rows, the few operations of Rust's string library that the sources use, decimal
  printing, and the lemma collections the component theories draw on.

  Text is a list of bytes (\<open>string\<close>), as Rust's \<open>str\<close> is UTF-8.  Whitespace is ASCII
  whitespace; the multi-byte Unicode spaces that \<open>str::trim\<close> also strips are not modelled.
\<close>

named_theorems row_simps "rewrite rules for reading tables after an update"
named_theorems frame_simps "tables an operation leaves alone"

section \<open>Tables\<close>

text \<open>
  \<open>UPDATE t SET .. WHERE P\<close>, \<open>DELETE FROM t WHERE P\<close>, the affected-row count, and
  \<open>SELECT .. WHERE key = k\<close>.
\<close>

definition update_where :: "('r \<Rightarrow> bool) \<Rightarrow> ('r \<Rightarrow> 'r) \<Rightarrow> 'r list \<Rightarrow> 'r list" where
  "update_where P f rows = map (\<lambda>r. if P r then f r else r) rows"

definition delete_where :: "('r \<Rightarrow> bool) \<Rightarrow> 'r list \<Rightarrow> 'r list" where
  "delete_where P rows = filter (\<lambda>r. \<not> P r) rows"

definition rows_affected :: "('r \<Rightarrow> bool) \<Rightarrow> 'r list \<Rightarrow> nat" where
  "rows_affected P rows = length (filter P rows)"

text \<open>\<open>SELECT .. WHERE P ORDER BY key ASC LIMIT 1\<close> and its \<open>DESC\<close> twin.\<close>

definition select_first :: "('r \<Rightarrow> 'k::linorder) \<Rightarrow> ('r \<Rightarrow> bool) \<Rightarrow> 'r list \<Rightarrow> 'r option" where
  "select_first key P rows =
     (case sort_key key (filter P rows) of [] \<Rightarrow> None | r # _ \<Rightarrow> Some r)"

definition select_last :: "('r \<Rightarrow> 'k::linorder) \<Rightarrow> ('r \<Rightarrow> bool) \<Rightarrow> 'r list \<Rightarrow> 'r option" where
  "select_last key P rows =
     (case rev (sort_key key (filter P rows)) of [] \<Rightarrow> None | r # _ \<Rightarrow> Some r)"

lemma update_where_simps [simp]:
  "update_where P f [] = []"
  "update_where P f (r # rs) = (if P r then f r else r) # update_where P f rs"
  by (simp_all add: update_where_def)

lemma length_update_where [simp]: "length (update_where P f rows) = length rows"
  by (simp add: update_where_def)

lemma set_update_where: "set (update_where P f rows) = (\<lambda>r. if P r then f r else r) ` set rows"
  by (simp add: update_where_def)

lemma set_delete_where [simp]: "set (delete_where P rows) = {r \<in> set rows. \<not> P r}"
  by (simp add: delete_where_def)

lemma update_where_none: "(\<And>r. r \<in> set rows \<Longrightarrow> \<not> P r) \<Longrightarrow> update_where P f rows = rows"
  by (induction rows) auto

lemma rows_affected_zero: "rows_affected P rows = 0 \<longleftrightarrow> (\<forall>r\<in>set rows. \<not> P r)"
  by (simp add: rows_affected_def filter_empty_conv)

text \<open>An update that keeps a column keeps the column's list, so keys stay distinct.\<close>

lemma map_update_where [row_simps]:
  "(\<And>r. key (f r) = key r) \<Longrightarrow> map key (update_where P f rows) = map key rows"
  by (induction rows) auto

lemma find_update_where:
  assumes "\<And>r. key (f r) = key r"
  shows "find (\<lambda>r. key r = k) (update_where P f rows) =
           map_option (\<lambda>r. if P r then f r else r) (find (\<lambda>r. key r = k) rows)"
  using assms by (induction rows) auto

lemma find_append: "find P (xs @ ys) = (case find P xs of Some x \<Rightarrow> Some x | None \<Rightarrow> find P ys)"
  by (induction xs) auto

lemma find_SomeD: "find P xs = Some x \<Longrightarrow> x \<in> set xs \<and> P x"
  by (induction xs) (auto split: if_splits)

lemma find_None: "find P xs = None \<longleftrightarrow> (\<forall>x\<in>set xs. \<not> P x)"
  by (induction xs) auto

lemma find_distinct:
  "distinct (map key rows) \<Longrightarrow> r \<in> set rows \<Longrightarrow> key r = k \<Longrightarrow> find (\<lambda>r. key r = k) rows = Some r"
  by (induction rows) (auto simp: image_iff)

lemma distinct_key_eq:
  "distinct (map key rows) \<Longrightarrow> r \<in> set rows \<Longrightarrow> s \<in> set rows \<Longrightarrow> key r = key s \<Longrightarrow> r = s"
  by (induction rows) (auto simp: image_iff dest: sym)

lemma select_first_Some:
  assumes "select_first key P rows = Some r"
  shows "r \<in> set rows" and "P r" and "\<And>s. s \<in> set rows \<Longrightarrow> P s \<Longrightarrow> key r \<le> key s"
proof -
  from assms obtain rs where rs: "sort_key key (filter P rows) = r # rs"
    by (auto simp: select_first_def split: list.splits)
  have set_eq: "set (r # rs) = {x \<in> set rows. P x}"
    by (metis rs set_filter set_sort)
  then show "r \<in> set rows" "P r" by auto
  have "sorted (map key (r # rs))" by (metis rs sorted_sort_key)
  then show "key r \<le> key s" if "s \<in> set rows" "P s" for s
    using set_eq that by auto
qed

lemma select_first_None: "select_first key P rows = None \<longleftrightarrow> (\<forall>r\<in>set rows. \<not> P r)"
proof -
  have "select_first key P rows = None \<longleftrightarrow> sort_key key (filter P rows) = []"
    by (simp add: select_first_def split: list.splits)
  also have "\<dots> \<longleftrightarrow> {r \<in> set rows. P r} = {}"
    by (metis set_empty set_filter set_sort)
  finally show ?thesis by auto
qed

lemma select_last_Some:
  assumes "select_last key P rows = Some r"
  shows "r \<in> set rows" and "P r" and "\<And>s. s \<in> set rows \<Longrightarrow> P s \<Longrightarrow> key s \<le> key r"
proof -
  from assms obtain rs where "rev (sort_key key (filter P rows)) = r # rs"
    by (auto simp: select_last_def split: list.splits)
  then have rs: "sort_key key (filter P rows) = rev rs @ [r]"
    by (metis rev.simps(2) rev_rev_ident)
  have set_eq: "set (rev rs @ [r]) = {x \<in> set rows. P x}"
    by (metis rs set_filter set_sort)
  then show "r \<in> set rows" "P r" by auto
  have "sorted (map key (rev rs @ [r]))" by (metis rs sorted_sort_key)
  then show "key s \<le> key r" if "s \<in> set rows" "P s" for s
    using set_eq that by (auto simp: sorted_append)
qed

lemma select_last_None: "select_last key P rows = None \<longleftrightarrow> (\<forall>r\<in>set rows. \<not> P r)"
proof -
  have "select_last key P rows = None \<longleftrightarrow> rev (sort_key key (filter P rows)) = []"
    unfolding select_last_def by (cases "rev (sort_key key (filter P rows))") auto
  also have "\<dots> \<longleftrightarrow> {r \<in> set rows. P r} = {}"
    by (metis rev_is_Nil_conv set_empty set_filter set_sort)
  finally show ?thesis by auto
qed

section \<open>Strings\<close>

text \<open>\<open>str::strip_prefix\<close>, \<open>str::starts_with\<close>, \<open>str::contains\<close>, \<open>str::trim_start\<close>/\<open>trim_end\<close>/\<open>trim\<close>.\<close>

fun strip_prefix :: "string \<Rightarrow> string \<Rightarrow> string option" where
  "strip_prefix [] s = Some s"
| "strip_prefix (p # ps) [] = None"
| "strip_prefix (p # ps) (c # cs) = (if p = c then strip_prefix ps cs else None)"

definition starts_with :: "string \<Rightarrow> string \<Rightarrow> bool" where
  "starts_with p s = (strip_prefix p s \<noteq> None)"

fun contains_str :: "string \<Rightarrow> string \<Rightarrow> bool" where
  "contains_str [] pat = (pat = [])"
| "contains_str (c # cs) pat = (starts_with pat (c # cs) \<or> contains_str cs pat)"

definition is_ws :: "char \<Rightarrow> bool" where
  "is_ws c = (c \<in> {CHR '' '', CHR 0x09, CHR 0x0A, CHR 0x0B, CHR 0x0C, CHR 0x0D})"

definition trim_start :: "string \<Rightarrow> string" where
  "trim_start s = dropWhile is_ws s"

definition trim_end :: "string \<Rightarrow> string" where
  "trim_end s = rev (dropWhile is_ws (rev s))"

definition trim :: "string \<Rightarrow> string" where
  "trim s = trim_end (trim_start s)"

lemma strip_prefix_Some [simp]: "strip_prefix p s = Some r \<longleftrightarrow> s = p @ r"
  by (induction p s rule: strip_prefix.induct) auto

lemma strip_prefix_None: "strip_prefix p s = None \<longleftrightarrow> (\<nexists>r. s = p @ r)"
  by (metis not_None_eq strip_prefix_Some)

lemma starts_with_iff: "starts_with p s \<longleftrightarrow> (\<exists>r. s = p @ r)"
  by (metis not_None_eq starts_with_def strip_prefix_Some)

lemma contains_str_iff: "contains_str s pat \<longleftrightarrow> (\<exists>u v. s = u @ pat @ v)"
proof (induction s)
  case Nil
  then show ?case by auto
next
  case (Cons c cs)
  have "(\<exists>u v. c # cs = u @ pat @ v) \<longleftrightarrow> (\<exists>r. c # cs = pat @ r) \<or> (\<exists>u v. cs = u @ pat @ v)"
    (is "?l = ?r")
  proof
    assume ?l
    then obtain u v where "c # cs = u @ pat @ v" by blast
    then show ?r by (cases u) auto
  next
    assume ?r
    then show ?l by (metis append_Cons append_Nil)
  qed
  with Cons show ?case by (simp add: starts_with_iff)
qed

text \<open>\<open>str::split(sep)\<close> on one byte, and \<open>[String]::join(sep)\<close>.\<close>

fun split_on :: "char \<Rightarrow> string \<Rightarrow> string list" where
  "split_on sep [] = [[]]"
| "split_on sep (c # cs) =
     (if c = sep then [] # split_on sep cs
      else (case split_on sep cs of [] \<Rightarrow> [[c]] | w # ws \<Rightarrow> (c # w) # ws))"

fun join_with :: "string \<Rightarrow> string list \<Rightarrow> string" where
  "join_with sep [] = []"
| "join_with sep [w] = w"
| "join_with sep (w # v # ws) = w @ sep @ join_with sep (v # ws)"

lemma split_on_nonempty [simp]: "split_on sep s \<noteq> []"
  by (induction s) (auto split: list.splits)

lemma split_on_notin: "sep \<notin> set w \<Longrightarrow> split_on sep w = [w]"
  by (induction w) auto

lemma split_on_append: "sep \<notin> set w \<Longrightarrow> split_on sep (w @ sep # s) = w # split_on sep s"
  by (induction w) auto

lemma split_join:
  "ws \<noteq> [] \<Longrightarrow> \<forall>w\<in>set ws. sep \<notin> set w \<Longrightarrow> split_on sep (join_with [sep] ws) = ws"
  by (induction "[sep]" ws rule: join_with.induct) (auto simp: split_on_notin split_on_append)

section \<open>Decimal printing\<close>

text \<open>\<open>Display\<close> of the integer types.\<close>

definition digit_char :: "nat \<Rightarrow> char" where
  "digit_char d = char_of (48 + d)"

fun nat_str :: "nat \<Rightarrow> string" where
  "nat_str n = (if n < 10 then [digit_char n] else nat_str (n div 10) @ [digit_char (n mod 10)])"

declare nat_str.simps [simp del]

definition int_str :: "int \<Rightarrow> string" where
  "int_str i = (if i < 0 then CHR ''-'' # nat_str (nat (- i)) else nat_str (nat i))"

definition digits_value :: "string \<Rightarrow> nat" where
  "digits_value = foldl (\<lambda>acc c. 10 * acc + (of_char c - 48)) 0"

lemma digits_value_snoc: "digits_value (s @ [c]) = 10 * digits_value s + (of_char c - 48)"
  by (simp add: digits_value_def)

lemma of_char_digit [simp]: "d < 10 \<Longrightarrow> of_char (digit_char d) = (48 + d :: nat)"
  by (simp add: digit_char_def)

lemma digits_value_nat_str [simp]: "digits_value (nat_str n) = n"
proof (induction n rule: nat_str.induct)
  case (1 n)
  show ?case
  proof (cases "n < 10")
    case True
    then show ?thesis by (subst nat_str.simps) (simp add: digits_value_def)
  next
    case False
    with 1 show ?thesis by (subst nat_str.simps) (simp add: digits_value_snoc)
  qed
qed

lemma nat_str_inject [simp]: "nat_str m = nat_str n \<longleftrightarrow> m = n"
  by (metis digits_value_nat_str)

lemma nat_str_digits: "\<forall>c\<in>set (nat_str n). \<exists>d<10. c = digit_char d"
proof (induction n rule: nat_str.induct)
  case (1 n)
  show ?case
  proof (cases "n < 10")
    case True
    then show ?thesis by (subst nat_str.simps) auto
  next
    case False
    moreover have "n mod 10 < 10" by simp
    ultimately show ?thesis using 1 by (subst nat_str.simps) (auto simp del: mod_less_divisor)
  qed
qed

lemma nat_str_no_char: "of_char c < (48::nat) \<or> of_char c > (57::nat) \<Longrightarrow> c \<notin> set (nat_str n)"
  using nat_str_digits [of n] by fastforce

lemma nat_str_nonempty [simp]: "nat_str n \<noteq> []"
  by (subst nat_str.simps) simp

lemma int_str_inject [simp]: "int_str i = int_str j \<longleftrightarrow> i = j"
proof -
  have minus: "CHR ''-'' \<notin> set (nat_str n)" for n by (rule nat_str_no_char) simp
  have "CHR ''-'' # s \<noteq> nat_str n" for s n using minus by (metis list.set_intros(1))
  then show ?thesis by (auto simp: int_str_def dest: sym)
qed

lemma int_str_no_char:
  "of_char c \<noteq> (45::nat) \<Longrightarrow> of_char c < (48::nat) \<or> of_char c > (57::nat) \<Longrightarrow> c \<notin> set (int_str i)"
  by (auto simp: int_str_def nat_str_no_char)

end
