(* ===== verification/Json.thy ===== *)
theory Json
  imports Complex_Main Prelude
begin

text \<open>
  \<open>serde_json::Value\<close> as the sources match on it: its six variants, the accessors
  (\<open>get\<close>, \<open>as_str\<close>, \<open>as_i64\<close>, ...) as the pattern matches they are documented to be, and
  its object map.  The crate is built without \<open>preserve_order\<close>, so an object is an
  association list kept in ascending byte order of its keys, as its \<open>BTreeMap\<close> iterates.

  Printing (\<open>to_string\<close>) and parsing (\<open>from_str\<close>) are the crate's own code and stay
  parameters wherever they are used.  An integer is any value of \<open>i64\<close> or \<open>u64\<close>; a float is
  the rational number it denotes.
\<close>

datatype json =
    JNull
  | JBool bool
  | JInt int
  | JFloat rat
  | JStr string
  | JArr "json list"
  | JObj "(string \<times> json) list"

section \<open>Accessors\<close>

fun as_str :: "json \<Rightarrow> string option" where
  "as_str (JStr s) = Some s"
| "as_str _ = None"

fun as_bool :: "json \<Rightarrow> bool option" where
  "as_bool (JBool b) = Some b"
| "as_bool _ = None"

fun as_i64 :: "json \<Rightarrow> int option" where
  "as_i64 (JInt i) = (if - (2 ^ 63) \<le> i \<and> i < 2 ^ 63 then Some i else None)"
| "as_i64 _ = None"

fun as_u64 :: "json \<Rightarrow> int option" where
  "as_u64 (JInt i) = (if 0 \<le> i \<and> i < 2 ^ 64 then Some i else None)"
| "as_u64 _ = None"

fun as_array :: "json \<Rightarrow> json list option" where
  "as_array (JArr a) = Some a"
| "as_array _ = None"

fun as_object :: "json \<Rightarrow> (string \<times> json) list option" where
  "as_object (JObj m) = Some m"
| "as_object _ = None"

definition jget :: "string \<Rightarrow> json \<Rightarrow> json option" where
  "jget k v = (case v of JObj m \<Rightarrow> map_of m k | _ \<Rightarrow> None)"

definition jget_idx :: "nat \<Rightarrow> json \<Rightarrow> json option" where
  "jget_idx i v = (case v of JArr a \<Rightarrow> (if i < length a then Some (a ! i) else None) | _ \<Rightarrow> None)"

text \<open>\<open>v.get(k).and_then(f)\<close>\<close>

definition get_as :: "(json \<Rightarrow> 'a option) \<Rightarrow> string \<Rightarrow> json \<Rightarrow> 'a option" where
  "get_as f k v = Option.bind (jget k v) f"

section \<open>Objects\<close>

text \<open>\<open>Map::insert\<close> of the ordered map: the new value replaces an old one of the same key.\<close>

fun obj_insert :: "string \<Rightarrow> json \<Rightarrow> (string \<times> json) list \<Rightarrow> (string \<times> json) list" where
  "obj_insert k v [] = [(k, v)]"
| "obj_insert k v ((k', v') # m) =
     (if k < k' then (k, v) # (k', v') # m
      else if k = k' then (k, v) # m
      else (k', v') # obj_insert k v m)"

text \<open>A \<open>json!({..})\<close> literal: the pairs inserted in the order they are written.\<close>

definition mk_obj :: "(string \<times> json) list \<Rightarrow> json" where
  "mk_obj kvs = JObj (fold (\<lambda>(k, v) m. obj_insert k v m) kvs [])"

text \<open>\<open>o[k] = v\<close> on an object.\<close>

fun set_key :: "string \<Rightarrow> json \<Rightarrow> json \<Rightarrow> json" where
  "set_key k v (JObj m) = JObj (obj_insert k v m)"
| "set_key k v j = j"

definition jopt :: "('a \<Rightarrow> json) \<Rightarrow> 'a option \<Rightarrow> json" where
  "jopt f x = (case x of None \<Rightarrow> JNull | Some y \<Rightarrow> f y)"

definition obj_ok :: "(string \<times> json) list \<Rightarrow> bool" where
  "obj_ok m = (sorted (map fst m) \<and> distinct (map fst m))"

lemma map_of_obj_insert [simp]: "map_of (obj_insert k v m) = (map_of m)(k \<mapsto> v)"
proof (induction k v m rule: obj_insert.induct)
  case (2 k v k' v' m)
  then show ?case by (auto simp: fun_eq_iff)
qed simp

lemma keys_obj_insert [simp]: "fst ` set (obj_insert k v m) = insert k (fst ` set m)"
  by (induction k v m rule: obj_insert.induct) auto

lemma obj_ok_insert: "obj_ok m \<Longrightarrow> obj_ok (obj_insert k v m)"
proof (induction k v m rule: obj_insert.induct)
  case (2 k v k' v' m)
  then have ok: "obj_ok m" by (simp add: obj_ok_def)
  consider "k < k'" | "k = k'" | "k' < k" by fastforce
  then show ?case
  proof cases
    case 1
    then show ?thesis using "2.prems" by (force simp: obj_ok_def)
  next
    case 2
    then show ?thesis using "2.prems" by (simp add: obj_ok_def)
  next
    case 3
    then have "obj_ok (obj_insert k v m)" using "2.IH" ok by auto
    then show ?thesis using 3 "2.prems" keys_obj_insert [of k v m]
      by (auto simp: obj_ok_def simp flip: set_map)
  qed
qed (simp add: obj_ok_def)

lemma map_of_fold_insert:
  "map_of (fold (\<lambda>(k, v) m. obj_insert k v m) kvs m) = map_of m ++ map_of (rev kvs)"
  by (induction kvs arbitrary: m) (auto simp: map_add_def fun_eq_iff split: option.splits)

lemma jget_mk_obj [simp]: "jget k (mk_obj kvs) = map_of (rev kvs) k"
  by (simp add: jget_def mk_obj_def map_of_fold_insert)

lemma jget_set_key [simp]:
  "jget k (set_key k' v (JObj m)) = (if k = k' then Some v else jget k (JObj m))"
  by (simp add: jget_def)

lemma jget_nonobj: "as_object v = None \<Longrightarrow> jget k v = None"
  by (cases v) (simp_all add: jget_def)

text \<open>An ordered map is determined by its lookups.\<close>

lemma assoc_list_from_map:
  "distinct (map fst m) \<Longrightarrow> m = map (\<lambda>k. (k, the (map_of m k))) (map fst m)"
proof (induction m)
  case (Cons x m)
  then have ne: "\<And>y. y \<in> set m \<Longrightarrow> fst y \<noteq> fst x" and IH: "m = map (\<lambda>k. (k, the (map_of m k))) (map fst m)"
    by (auto simp: image_iff)
  have "map (\<lambda>y. (fst y, the (map_of (x # m) (fst y)))) m = map (\<lambda>y. (fst y, the (map_of m (fst y)))) m"
    using ne by (intro map_cong) auto
  with IH show ?case by (simp add: comp_def)
qed simp

lemma obj_ok_unique:
  assumes "obj_ok m" "obj_ok n" "map_of m = map_of n"
  shows "m = n"
proof -
  have "set (map fst m) = set (map fst n)"
    using assms(3) by (metis dom_map_of_conv_image_fst set_map)
  then have "map fst m = map fst n"
    using assms(1,2) by (simp add: obj_ok_def sorted_distinct_set_unique)
  then show ?thesis
    using assms assoc_list_from_map [of m] assoc_list_from_map [of n] by (simp add: obj_ok_def)
qed

section \<open>The \<open>prev_result\<close> injection\<close>

text \<open>
  A script with \<open>feed_prev_result\<close> gets its last structured result as a field of its input.
  The worker, a flow step and a compensation all do it with the same lines.
\<close>

definition with_prev_result :: "json \<Rightarrow> json option \<Rightarrow> json" where
  "with_prev_result input prev =
     (case input of
        JObj m \<Rightarrow> JObj (obj_insert ''prev_result'' (case prev of Some p \<Rightarrow> p | None \<Rightarrow> JNull) m)
      | _ \<Rightarrow> mk_obj [(''input'', input), (''prev_result'', jopt id prev)])"

lemma with_prev_result_field:
  "jget ''prev_result'' (with_prev_result input prev) = Some (jopt id prev)"
  by (cases input) (auto simp: with_prev_result_def jget_def mk_obj_def jopt_def split: option.splits)

end
