(* ===== verification/Schema.thy ===== *)
theory Schema
  imports Json
begin

text \<open>
  The Postgres schema of \<open>migrations.sql\<close>: one record per table row, one record for the whole
  database.  A table is the list of its rows in insertion order; \<open>BIGSERIAL\<close> columns draw from
  the sequence fields of the database record.  A nullable column is an \<open>option\<close>.  Time is
  Postgres's: microseconds, as \<open>int\<close>; statements that call \<open>now()\<close> take it as an argument.
\<close>

type_synonym time = int

definition secs :: "int \<Rightarrow> time" where
  "secs n = n * 1000000"

section \<open>Statuses\<close>

text \<open>
  The \<open>status\<close> columns are \<open>TEXT\<close>; these are the only values the statements write.
\<close>

datatype run_status = Pending | Running | Succeeded | Failed | Canceled

fun status_str :: "run_status \<Rightarrow> string" where
  "status_str Pending = ''pending''"
| "status_str Running = ''running''"
| "status_str Succeeded = ''succeeded''"
| "status_str Failed = ''failed''"
| "status_str Canceled = ''canceled''"

datatype step_status = SPending | SRunning | SSucceeded | SFailed | SSkipped | SExpanded

datatype flow_status = FPending | FRunning | FSucceeded | FFailed | FCompFailed

text \<open>The errors a statement itself can end in; a lost connection is not modelled.\<close>

datatype db_error = FkViolation string | UniqueViolation string | RowNotFound

section \<open>Rows\<close>

record script =
  sc_id :: int
  sc_name :: string
  sc_runtime :: string
  sc_source :: string
  sc_description :: "string option"
  sc_created_by :: "string option"
  sc_network :: bool
  sc_mem_limit_mb :: "int option"
  sc_cpu_limit :: "rat option"
  sc_feed_prev_result :: bool
  sc_timeout_secs :: "int option"
  sc_version :: int
  sc_secrets_allowlist :: "string list option"

record run =
  r_id :: int
  r_script_id :: int
  r_status :: run_status
  r_input :: "json option"
  r_exit_code :: "int option"
  r_error :: "string option"
  r_attempts :: int
  r_created_at :: time
  r_started_at :: "time option"
  r_finished_at :: "time option"
  r_heartbeat_at :: "time option"
  r_result :: "json option"
  r_progress :: "string option"
  r_receipt :: "json option"
  r_idempotency_key :: "string option"
  r_cache_key :: "string option"
  r_agent_id :: "string option"
  r_input_blobs :: "json option"
  r_capture_output :: bool
  r_output_blobs :: "json option"

record log_row =
  l_run_id :: int
  l_seq :: int
  l_stream :: string
  l_line :: string

record schedule =
  sd_id :: int
  sd_script_id :: int
  sd_cron :: string
  sd_input :: "json option"
  sd_enabled :: bool
  sd_agent_id :: "string option"
  sd_input_blobs :: "json option"
  sd_capture_output :: bool
  sd_idempotency :: bool
  sd_timezone :: "string option"

record flow_run =
  fr_id :: int
  fr_flow_id :: int
  fr_status :: flow_status
  fr_input :: "json option"
  fr_started_at :: "time option"
  fr_finished_at :: "time option"
  fr_idempotency_key :: "string option"

record flow_step =
  fs_flow_run :: int
  fs_step_id :: string
  fs_script_id :: int
  fs_input :: "json option"
  fs_depends_on :: "string list"
  fs_status :: step_status
  fs_run_id :: "int option"
  fs_output :: "string option"
  fs_when_cond :: "json option"
  fs_map_ref :: "string option"
  fs_compensate :: "int option"
  fs_compensated :: bool
  fs_finished_at :: "time option"
  fs_retries :: "int option"
  fs_cache :: bool

record trigger =
  tg_id :: int
  tg_source :: int
  tg_predicate :: json
  tg_target :: int
  tg_agent_id :: "string option"
  tg_enabled :: bool

record webhook =
  wh_id :: int
  wh_token :: string
  wh_kind :: string
  wh_target_id :: int
  wh_agent_id :: "string option"

record blob =
  b_sha :: string
  b_bytes :: string
  b_size :: int
  b_last_used_at :: time

record executor =
  ex_id :: string
  ex_host :: string
  ex_caps :: string
  ex_last_seen :: time

record db =
  scripts :: "script list"
  runs :: "run list"
  logs :: "log_row list"
  schedules :: "schedule list"
  flows :: "(int \<times> json) list"
  flow_runs :: "flow_run list"
  flow_steps :: "flow_step list"
  secrets :: "(string \<times> string) list"
  agent_secrets :: "((string \<times> string) \<times> string) list"
  triggers :: "trigger list"
  webhooks :: "webhook list"
  blobs :: "blob list"
  executors :: "executor list"
  secrets_generation :: int
  script_seq :: int
  run_seq :: int
  schedule_seq :: int
  flow_seq :: int
  flow_run_seq :: int
  trigger_seq :: int
  webhook_seq :: int

definition empty_db :: db where
  "empty_db =
     \<lparr>scripts = [], runs = [], logs = [], schedules = [], flows = [], flow_runs = [],
      flow_steps = [], secrets = [], agent_secrets = [], triggers = [], webhooks = [],
      blobs = [], executors = [], secrets_generation = 0,
      script_seq = 1, run_seq = 1, schedule_seq = 1, flow_seq = 1, flow_run_seq = 1,
      trigger_seq = 1, webhook_seq = 1\<rparr>"

section \<open>Primary-key lookups\<close>

definition run_by_id :: "int \<Rightarrow> db \<Rightarrow> run option" where
  "run_by_id i d = find (\<lambda>r. r_id r = i) (runs d)"

definition get_script :: "int \<Rightarrow> db \<Rightarrow> script option" where
  "get_script i d = find (\<lambda>s. sc_id s = i) (scripts d)"

definition flow_run_by_id :: "int \<Rightarrow> db \<Rightarrow> flow_run option" where
  "flow_run_by_id i d = find (\<lambda>f. fr_id f = i) (flow_runs d)"

lemma run_by_idD: "run_by_id i d = Some r \<Longrightarrow> r \<in> set (runs d) \<and> r_id r = i"
  by (auto simp: run_by_id_def dest: find_SomeD)

lemma get_scriptD: "get_script i d = Some s \<Longrightarrow> s \<in> set (scripts d) \<and> sc_id s = i"
  by (auto simp: get_script_def dest: find_SomeD)

lemma run_by_id_update:
  "(\<And>r. r_id (f r) = r_id r) \<Longrightarrow>
   run_by_id i (d\<lparr>runs := update_where P f (runs d)\<rparr>) =
     map_option (\<lambda>r. if P r then f r else r) (run_by_id i d)"
  by (simp add: run_by_id_def find_update_where [where key = r_id])

lemma run_by_id_cong: "runs d = runs d' \<Longrightarrow> run_by_id i d = run_by_id i d'"
  by (simp add: run_by_id_def)

lemma get_script_cong: "scripts d = scripts d' \<Longrightarrow> get_script i d = get_script i d'"
  by (simp add: get_script_def)

end
