(* ===== verification/Db_Runs.thy ===== *)
theory Db_Runs
  imports Schema
begin

text \<open>
  The run queue of \<open>src/db.rs\<close>: every statement that reads or writes the \<open>runs\<close> table.
  A statement is a function of the database (and of \<open>now()\<close>); one call is one atomic step.
\<close>

section \<open>Enqueue\<close>

definition new_run :: "int \<Rightarrow> int \<Rightarrow> json \<Rightarrow> string option \<Rightarrow> time \<Rightarrow> run" where
  "new_run i sid input agent now =
     \<lparr>r_id = i, r_script_id = sid, r_status = Pending, r_input = Some input, r_exit_code = None,
      r_error = None, r_attempts = 0, r_created_at = now, r_started_at = None,
      r_finished_at = None, r_heartbeat_at = None, r_result = None, r_progress = None,
      r_receipt = None, r_idempotency_key = None, r_cache_key = None, r_agent_id = agent,
      r_input_blobs = None, r_capture_output = False, r_output_blobs = None\<rparr>"

definition insert_run_with_blobs ::
    "time \<Rightarrow> int \<Rightarrow> json \<Rightarrow> string option \<Rightarrow> json option \<Rightarrow> bool \<Rightarrow> db \<Rightarrow> db_error + int \<times> db" where
  "insert_run_with_blobs now sid input agent inb cap d =
     (if get_script sid d = None then Inl (FkViolation ''runs_script_id_fkey'')
      else Inr (run_seq d,
        d\<lparr>runs := runs d @ [(new_run (run_seq d) sid input agent now)
                             \<lparr>r_input_blobs := inb, r_capture_output := cap\<rparr>],
          run_seq := run_seq d + 1\<rparr>))"

definition insert_run :: "time \<Rightarrow> int \<Rightarrow> json \<Rightarrow> string option \<Rightarrow> db \<Rightarrow> db_error + int \<times> db" where
  "insert_run now sid input agent d = insert_run_with_blobs now sid input agent None False d"

text \<open>
  \<open>ON CONFLICT (idempotency_key) .. DO NOTHING\<close>: the sequence value is drawn before the
  conflict is seen, so a recalled enqueue leaves a gap in the ids.
\<close>

definition has_idem_key :: "string \<Rightarrow> db \<Rightarrow> bool" where
  "has_idem_key key d = (\<exists>r\<in>set (runs d). r_idempotency_key r = Some key)"

text \<open>
  The insert under a key is \<open>ON CONFLICT DO NOTHING\<close> and then, on a conflict, the query for the row that
  has the key: two statements, taken as one step here.  A row whose script is deleted exactly between
  them makes the source return an error instead of the id of a row that is gone.
\<close>

definition insert_run_idempotent ::
    "time \<Rightarrow> int \<Rightarrow> json \<Rightarrow> string option \<Rightarrow> json option \<Rightarrow> bool \<Rightarrow> string \<Rightarrow> db
     \<Rightarrow> db_error + (int \<times> bool) \<times> db" where
  "insert_run_idempotent now sid input agent inb cap key d =
     (if has_idem_key key d then
        (case find (\<lambda>r. r_idempotency_key r = Some key) (runs d) of
           Some r \<Rightarrow> Inr ((r_id r, False), d\<lparr>run_seq := run_seq d + 1\<rparr>)
         | None \<Rightarrow> Inl RowNotFound)
      else if get_script sid d = None then Inl (FkViolation ''runs_script_id_fkey'')
      else Inr ((run_seq d, True),
        d\<lparr>runs := runs d @ [(new_run (run_seq d) sid input agent now)
                             \<lparr>r_input_blobs := inb, r_capture_output := cap,
                              r_idempotency_key := Some key\<rparr>],
          run_seq := run_seq d + 1\<rparr>))"

definition insert_refused_run ::
    "time \<Rightarrow> int \<Rightarrow> json \<Rightarrow> string option \<Rightarrow> string \<Rightarrow> string option \<Rightarrow> db
     \<Rightarrow> db_error + int option \<times> db" where
  "insert_refused_run now sid input agent reason key d =
     (if (case key of Some k \<Rightarrow> has_idem_key k d | None \<Rightarrow> False) then Inr (None, d\<lparr>run_seq := run_seq d + 1\<rparr>)
      else if get_script sid d = None then Inl (FkViolation ''runs_script_id_fkey'')
      else Inr (Some (run_seq d),
        d\<lparr>runs := runs d @ [(new_run (run_seq d) sid input agent now)
                             \<lparr>r_status := Failed, r_error := Some reason,
                              r_finished_at := Some now, r_idempotency_key := key\<rparr>],
          run_seq := run_seq d + 1\<rparr>))"

lemma refused_key [simp]:
  "(case key of Some k \<Rightarrow> has_idem_key k d | None \<Rightarrow> False) \<longleftrightarrow> (\<exists>k. key = Some k \<and> has_idem_key k d)"
  by (cases key) simp_all

section \<open>Claim, heartbeat, finish\<close>

record claimed_job =
  cj_run_id :: int
  cj_script_id :: int
  cj_runtime :: string
  cj_source :: string
  cj_input :: json
  cj_agent_id :: "string option"
  cj_network :: bool
  cj_mem_limit_mb :: "int option"
  cj_cpu_limit :: "rat option"
  cj_feed_prev_result :: bool
  cj_input_blobs :: "json option"
  cj_capture_output :: bool
  cj_timeout_secs :: "int option"

text \<open>
  \<open>.. WHERE r.status = 'pending' AND s.runtime = ANY(caps) ORDER BY r.id FOR UPDATE OF r SKIP
  LOCKED LIMIT 1\<close>: \<open>locked\<close> holds the ids other transactions have locked at that moment.
\<close>

definition claimable :: "string list \<Rightarrow> int list \<Rightarrow> db \<Rightarrow> run \<Rightarrow> bool" where
  "claimable caps locked d r =
     (r_status r = Pending \<and> r_id r \<notin> set locked \<and>
      (case get_script (r_script_id r) d of Some s \<Rightarrow> sc_runtime s \<in> set caps | None \<Rightarrow> False))"

definition start_run :: "time \<Rightarrow> run \<Rightarrow> run" where
  "start_run now r =
     r\<lparr>r_status := Running, r_started_at := Some now, r_heartbeat_at := Some now\<rparr>"

definition job_of :: "run \<Rightarrow> script \<Rightarrow> claimed_job" where
  "job_of r s =
     \<lparr>cj_run_id = r_id r, cj_script_id = r_script_id r, cj_runtime = sc_runtime s,
      cj_source = sc_source s,
      cj_input = (case r_input r of Some i \<Rightarrow> i | None \<Rightarrow> JObj []),
      cj_agent_id = r_agent_id r, cj_network = sc_network s,
      cj_mem_limit_mb = sc_mem_limit_mb s, cj_cpu_limit = sc_cpu_limit s,
      cj_feed_prev_result = sc_feed_prev_result s, cj_input_blobs = r_input_blobs r,
      cj_capture_output = r_capture_output r, cj_timeout_secs = sc_timeout_secs s\<rparr>"

definition claim_run :: "time \<Rightarrow> string list \<Rightarrow> int list \<Rightarrow> db \<Rightarrow> claimed_job option \<times> db" where
  "claim_run now caps locked d =
     (case select_first r_id (claimable caps locked d) (runs d) of
        None \<Rightarrow> (None, d)
      | Some r \<Rightarrow>
          (map_option (job_of r) (get_script (r_script_id r) d),
           d\<lparr>runs := update_where (\<lambda>q. r_id q = r_id r) (start_run now) (runs d)\<rparr>))"

definition mark_attempt :: "int \<Rightarrow> db \<Rightarrow> db_error + int \<times> db" where
  "mark_attempt rid d =
     (case run_by_id rid d of
        None \<Rightarrow> Inl RowNotFound
      | Some r \<Rightarrow> Inr (r_attempts r + 1,
          d\<lparr>runs := update_where (\<lambda>q. r_id q = rid) (\<lambda>q. q\<lparr>r_attempts := r_attempts q + 1\<rparr>) (runs d)\<rparr>))"

definition touch_run :: "time \<Rightarrow> int \<Rightarrow> db \<Rightarrow> db" where
  "touch_run now rid d =
     d\<lparr>runs := update_where (\<lambda>q. r_id q = rid \<and> r_status q = Running)
                             (\<lambda>q. q\<lparr>r_heartbeat_at := Some now\<rparr>) (runs d)\<rparr>"

definition finish_run :: "time \<Rightarrow> int \<Rightarrow> run_status \<Rightarrow> int option \<Rightarrow> string option \<Rightarrow> db \<Rightarrow> db" where
  "finish_run now rid st code err d =
     d\<lparr>runs := update_where (\<lambda>q. r_id q = rid \<and> r_status q \<noteq> Canceled)
        (\<lambda>q. q\<lparr>r_status := st, r_exit_code := code, r_error := err, r_finished_at := Some now\<rparr>)
        (runs d)\<rparr>"

definition cancel_run :: "time \<Rightarrow> int \<Rightarrow> string \<Rightarrow> db \<Rightarrow> bool \<times> db" where
  "cancel_run now rid reason d =
     (0 < rows_affected (\<lambda>q. r_id q = rid \<and> r_status q \<noteq> Succeeded) (runs d),
      d\<lparr>runs := update_where (\<lambda>q. r_id q = rid \<and> r_status q \<noteq> Succeeded)
        (\<lambda>q. q\<lparr>r_status := Canceled, r_error := Some reason, r_finished_at := Some now\<rparr>)
        (runs d)\<rparr>)"

definition back_to_pending :: "run \<Rightarrow> run" where
  "back_to_pending q = q\<lparr>r_status := Pending, r_started_at := None, r_heartbeat_at := None\<rparr>"

definition requeue :: "int \<Rightarrow> db \<Rightarrow> db" where
  "requeue rid d = d\<lparr>runs := update_where (\<lambda>q. r_id q = rid) back_to_pending (runs d)\<rparr>"

text \<open>
  \<open>COALESCE(heartbeat_at, started_at) < now() - lease\<close>; with both NULL the comparison is NULL
  and the row is left alone.
\<close>

definition lease_expired :: "time \<Rightarrow> time \<Rightarrow> run \<Rightarrow> bool" where
  "lease_expired now lease r =
     (case (case r_heartbeat_at r of Some h \<Rightarrow> Some h | None \<Rightarrow> r_started_at r) of
        None \<Rightarrow> False | Some t \<Rightarrow> t < now - lease)"

definition reap_orphan_runs :: "time \<Rightarrow> time \<Rightarrow> db \<Rightarrow> nat \<times> db" where
  "reap_orphan_runs now lease d =
     (let P = (\<lambda>q. r_status q = Running \<and> lease_expired now lease q)
      in (rows_affected P (runs d), d\<lparr>runs := update_where P back_to_pending (runs d)\<rparr>))"

definition fail_stale_pending :: "time \<Rightarrow> time \<Rightarrow> db \<Rightarrow> nat \<times> db" where
  "fail_stale_pending now max_age d =
     (let P = (\<lambda>q. r_status q = Pending \<and> r_created_at q < now - max_age)
      in (rows_affected P (runs d),
          d\<lparr>runs := update_where P
             (\<lambda>q. q\<lparr>r_status := Failed, r_error := Some ''unclaimed: pending past timeout'',
                    r_finished_at := Some now\<rparr>) (runs d)\<rparr>))"

section \<open>Columns written on their own\<close>

definition set_run_result :: "int \<Rightarrow> json \<Rightarrow> db \<Rightarrow> db" where
  "set_run_result rid v d =
     d\<lparr>runs := update_where (\<lambda>q. r_id q = rid) (\<lambda>q. q\<lparr>r_result := Some v\<rparr>) (runs d)\<rparr>"

definition set_run_output_blobs :: "int \<Rightarrow> json \<Rightarrow> db \<Rightarrow> db" where
  "set_run_output_blobs rid v d =
     d\<lparr>runs := update_where (\<lambda>q. r_id q = rid) (\<lambda>q. q\<lparr>r_output_blobs := Some v\<rparr>) (runs d)\<rparr>"

definition set_run_receipt :: "int \<Rightarrow> json \<Rightarrow> db \<Rightarrow> db" where
  "set_run_receipt rid v d =
     d\<lparr>runs := update_where (\<lambda>q. r_id q = rid) (\<lambda>q. q\<lparr>r_receipt := Some v\<rparr>) (runs d)\<rparr>"

definition update_run_progress :: "int \<Rightarrow> string \<Rightarrow> db \<Rightarrow> db" where
  "update_run_progress rid msg d =
     d\<lparr>runs := update_where (\<lambda>q. r_id q = rid) (\<lambda>q. q\<lparr>r_progress := Some msg\<rparr>) (runs d)\<rparr>"

definition set_run_cache_key :: "int \<Rightarrow> string \<Rightarrow> db \<Rightarrow> db" where
  "set_run_cache_key rid key d =
     d\<lparr>runs := update_where (\<lambda>q. r_id q = rid) (\<lambda>q. q\<lparr>r_cache_key := Some key\<rparr>) (runs d)\<rparr>"

section \<open>Reads\<close>

definition get_run_status :: "int \<Rightarrow> db \<Rightarrow> run_status option" where
  "get_run_status rid d = map_option r_status (run_by_id rid d)"

definition run_outcome :: "int \<Rightarrow> db \<Rightarrow> (run_status \<times> int option) option" where
  "run_outcome rid d = map_option (\<lambda>r. (r_status r, r_exit_code r)) (run_by_id rid d)"

definition run_error :: "int \<Rightarrow> db \<Rightarrow> string option" where
  "run_error rid d = Option.bind (run_by_id rid d) r_error"

definition run_result :: "int \<Rightarrow> db \<Rightarrow> json option" where
  "run_result rid d = Option.bind (run_by_id rid d) r_result"

definition run_receipt :: "int \<Rightarrow> db \<Rightarrow> json option" where
  "run_receipt rid d = Option.bind (run_by_id rid d) r_receipt"

definition find_run_by_idempotency :: "string \<Rightarrow> db \<Rightarrow> (int \<times> run_status) option" where
  "find_run_by_idempotency key d =
     map_option (\<lambda>r. (r_id r, r_status r))
       (select_last r_id (\<lambda>r. r_idempotency_key r = Some key) (runs d))"

definition find_cached_run :: "string \<Rightarrow> db \<Rightarrow> (int \<times> int option \<times> json option) option" where
  "find_cached_run key d =
     map_option (\<lambda>r. (r_id r, r_exit_code r, r_result r))
       (select_last r_id (\<lambda>r. r_cache_key r = Some key \<and> r_status r = Succeeded) (runs d))"

definition last_result_for_script :: "int \<Rightarrow> int \<Rightarrow> db \<Rightarrow> json option" where
  "last_result_for_script sid before d =
     Option.bind
       (select_last r_id (\<lambda>r. r_script_id r = sid \<and> r_id r < before \<and> r_result r \<noteq> None) (runs d))
       r_result"

definition agent_running_count :: "string \<Rightarrow> db \<Rightarrow> int" where
  "agent_running_count aid d =
     int (length (filter (\<lambda>r. r_agent_id r = Some aid \<and> r_status r \<in> {Pending, Running}) (runs d)))"

text \<open>Service time in seconds; a NULL \<open>finished_at\<close> or \<open>started_at\<close> excludes the row.\<close>

definition agent_compute_seconds :: "time \<Rightarrow> string \<Rightarrow> int \<Rightarrow> db \<Rightarrow> rat" where
  "agent_compute_seconds now aid window d =
     sum_list (map (\<lambda>r. case (r_started_at r, r_finished_at r) of
                          (Some s, Some f) \<Rightarrow>
                            (if r_agent_id r = Some aid \<and> f > now - secs window
                             then of_int (f - s) / 1000000 else 0)
                        | _ \<Rightarrow> 0) (runs d))"

definition arrivals_last_secs :: "time \<Rightarrow> int \<Rightarrow> db \<Rightarrow> int" where
  "arrivals_last_secs now window d =
     int (length (filter (\<lambda>r. r_created_at r > now - secs window) (runs d)))"

definition list_runs :: "run_status option \<Rightarrow> int option \<Rightarrow> nat \<Rightarrow> db \<Rightarrow> run list" where
  "list_runs st sid limit d =
     take limit (rev (sort_key r_id (filter
       (\<lambda>r. (case st of None \<Rightarrow> True | Some s \<Rightarrow> r_status r = s) \<and>
            (case sid of None \<Rightarrow> True | Some i \<Rightarrow> r_script_id r = i) \<and>
            get_script (r_script_id r) d \<noteq> None) (runs d))))"

text \<open>The coarse outcome of a run, on the strings the source compares.\<close>

definition classify_outcome :: "string \<Rightarrow> int option \<Rightarrow> string" where
  "classify_outcome st code =
     (if st = ''succeeded'' then ''ok''
      else if st = ''failed'' then
        (case code of
           Some n \<Rightarrow> if n = 0 then ''ok'' else if 1 \<le> n \<and> n \<le> 127 then ''verdict'' else ''error''
         | None \<Rightarrow> ''error'')
      else if st = ''canceled'' then ''canceled''
      else if st = ''running'' then ''running''
      else ''pending'')"

definition outcome_of :: "run \<Rightarrow> string" where
  "outcome_of r = classify_outcome (status_str (r_status r)) (r_exit_code r)"

end
