(* ===== verification/Db_Store.thy ===== *)
theory Db_Store
  imports Db_Runs "HOL-Library.AList"
begin

text \<open>
  The other tables of \<open>src/db.rs\<close>: scripts, logs, content-addressed blobs, secrets, triggers,
  schedules, webhooks and executors, and the retention sweeps that cut across them.
\<close>

section \<open>Scripts\<close>

definition insert_script ::
    "string \<Rightarrow> string \<Rightarrow> string \<Rightarrow> string option \<Rightarrow> string option \<Rightarrow> bool \<Rightarrow> int option \<Rightarrow> rat option
     \<Rightarrow> bool \<Rightarrow> int option \<Rightarrow> db \<Rightarrow> (int \<times> int) \<times> db" where
  "insert_script name runtime source desc creator network mem cpu feed timeout d =
     ((script_seq d, 1),
      d\<lparr>scripts := scripts d @
          [\<lparr>sc_id = script_seq d, sc_name = name, sc_runtime = runtime, sc_source = source,
            sc_description = desc, sc_created_by = creator, sc_network = network,
            sc_mem_limit_mb = mem, sc_cpu_limit = cpu, sc_feed_prev_result = feed,
            sc_timeout_secs = timeout, sc_version = 1, sc_secrets_allowlist = None\<rparr>],
        script_seq := script_seq d + 1\<rparr>)"

definition find_script_by_name :: "string \<Rightarrow> db \<Rightarrow> (int \<times> string \<times> int) option" where
  "find_script_by_name name d =
     map_option (\<lambda>s. (sc_id s, sc_source s, sc_version s))
       (select_last sc_id (\<lambda>s. sc_name s = name) (scripts d))"

definition update_script ::
    "int \<Rightarrow> string \<Rightarrow> string \<Rightarrow> string option \<Rightarrow> string option \<Rightarrow> bool \<Rightarrow> int option \<Rightarrow> rat option
     \<Rightarrow> bool \<Rightarrow> int option \<Rightarrow> db \<Rightarrow> db_error + int \<times> db" where
  "update_script i runtime source desc creator network mem cpu feed timeout d =
     (case get_script i d of
        None \<Rightarrow> Inl RowNotFound
      | Some s \<Rightarrow> Inr (sc_version s + 1,
          d\<lparr>scripts := update_where (\<lambda>s. sc_id s = i)
             (\<lambda>s. s\<lparr>sc_runtime := runtime, sc_source := source, sc_description := desc,
                    sc_created_by := creator, sc_network := network, sc_mem_limit_mb := mem,
                    sc_cpu_limit := cpu, sc_feed_prev_result := feed,
                    sc_timeout_secs := timeout, sc_version := sc_version s + 1\<rparr>) (scripts d)\<rparr>))"

text \<open>\<open>IS DISTINCT FROM\<close> is inequality that treats NULL as a value.\<close>

definition update_script_meta ::
    "int \<Rightarrow> string \<Rightarrow> string option \<Rightarrow> string option \<Rightarrow> bool \<Rightarrow> int option \<Rightarrow> rat option
     \<Rightarrow> bool \<Rightarrow> int option \<Rightarrow> db \<Rightarrow> bool \<times> db" where
  "update_script_meta i runtime desc creator network mem cpu feed timeout d =
     (let P = (\<lambda>s. sc_id s = i \<and>
            (sc_runtime s \<noteq> runtime \<or> sc_description s \<noteq> desc \<or> sc_created_by s \<noteq> creator \<or>
             sc_network s \<noteq> network \<or> sc_mem_limit_mb s \<noteq> mem \<or> sc_cpu_limit s \<noteq> cpu \<or>
             sc_feed_prev_result s \<noteq> feed \<or> sc_timeout_secs s \<noteq> timeout))
      in (0 < rows_affected P (scripts d),
          d\<lparr>scripts := update_where P
             (\<lambda>s. s\<lparr>sc_runtime := runtime, sc_description := desc, sc_created_by := creator,
                    sc_network := network, sc_mem_limit_mb := mem, sc_cpu_limit := cpu,
                    sc_feed_prev_result := feed, sc_timeout_secs := timeout\<rparr>) (scripts d)\<rparr>))"

definition set_script_secrets :: "int \<Rightarrow> string list option \<Rightarrow> db \<Rightarrow> db" where
  "set_script_secrets i names d =
     d\<lparr>scripts := update_where (\<lambda>s. sc_id s = i) (\<lambda>s. s\<lparr>sc_secrets_allowlist := names\<rparr>) (scripts d)\<rparr>"

definition run_secrets_allowlist :: "int \<Rightarrow> db \<Rightarrow> string list option" where
  "run_secrets_allowlist rid d =
     (case run_by_id rid d of None \<Rightarrow> None
      | Some r \<Rightarrow> Option.bind (get_script (r_script_id r) d) sc_secrets_allowlist)"

definition list_scripts :: "nat \<Rightarrow> db \<Rightarrow> script list \<times> nat" where
  "list_scripts limit d = (take limit (rev (sort_key sc_id (scripts d))), length (scripts d))"

datatype delete_result = NotFound | BlockedByFlow int | Deleted nat "int list"

text \<open>
  One transaction.  \<open>triggers\<close> references \<open>scripts\<close> and the transaction does not remove its rows, so a
  script that a trigger names fails the last \<open>DELETE\<close> and the transaction rolls back.
\<close>

definition delete_script :: "int \<Rightarrow> db \<Rightarrow> db_error + delete_result \<times> db" where
  "delete_script i d =
     (if get_script i d = None then Inr (NotFound, d)
      else let refs = rows_affected (\<lambda>s. fs_script_id s = i) (flow_steps d) in
        if 0 < refs then Inr (BlockedByFlow (int refs), d)
        else let scheds = map sd_id (filter (\<lambda>s. sd_script_id s = i) (schedules d));
                 gone = map r_id (filter (\<lambda>r. r_script_id r = i) (runs d));
                 d' = d\<lparr>logs := delete_where (\<lambda>l. l_run_id l \<in> set gone) (logs d),
                        runs := delete_where (\<lambda>r. r_script_id r = i) (runs d),
                        schedules := delete_where (\<lambda>s. sd_script_id s = i) (schedules d)\<rparr>
             in if \<exists>t\<in>set (triggers d). tg_source t = i \<or> tg_target t = i
                then Inl (FkViolation ''triggers_script_id_fkey'')
                else Inr (Deleted (rows_affected (\<lambda>r. r_script_id r = i) (runs d)) scheds,
                          d'\<lparr>scripts := delete_where (\<lambda>s. sc_id s = i) (scripts d)\<rparr>))"

section \<open>Logs\<close>

definition log_key_taken :: "int \<Rightarrow> int \<Rightarrow> db \<Rightarrow> bool" where
  "log_key_taken rid seq d = (\<exists>l\<in>set (logs d). l_run_id l = rid \<and> l_seq l = seq)"

text \<open>
  A text column cannot hold a NUL byte, and the statement fails on a line with one; that error is not
  modelled, lines are taken to be free of it.
\<close>

definition append_log :: "int \<Rightarrow> int \<Rightarrow> string \<Rightarrow> string \<Rightarrow> db \<Rightarrow> db_error + db" where
  "append_log rid seq stream line d =
     (if log_key_taken rid seq d then Inr d
      else if run_by_id rid d = None then Inl (FkViolation ''logs_run_id_fkey'')
      else Inr (d\<lparr>logs := logs d @
             [\<lparr>l_run_id = rid, l_seq = seq, l_stream = stream, l_line = line\<rparr>]\<rparr>))"

fun append_logs_batch :: "int \<Rightarrow> (int \<times> string \<times> string) list \<Rightarrow> db \<Rightarrow> db_error + db" where
  "append_logs_batch rid [] d = Inr d"
| "append_logs_batch rid ((seq, stream, line) # rows) d =
     (case append_log rid seq stream line d of
        Inl e \<Rightarrow> Inl e
      | Inr d' \<Rightarrow> append_logs_batch rid rows d')"

definition run_logs :: "int \<Rightarrow> db \<Rightarrow> log_row list" where
  "run_logs rid d = filter (\<lambda>l. l_run_id l = rid) (logs d)"

definition read_logs_after :: "int \<Rightarrow> int \<Rightarrow> nat \<Rightarrow> db \<Rightarrow> log_row list" where
  "read_logs_after rid after limit d =
     take limit (sort_key l_seq (filter (\<lambda>l. l_run_id l = rid \<and> after < l_seq l) (logs d)))"

definition last_stdout :: "int \<Rightarrow> db \<Rightarrow> string option" where
  "last_stdout rid d =
     map_option l_line (select_last l_seq (\<lambda>l. l_run_id l = rid \<and> l_stream l = ''stdout'') (logs d))"

definition max_log_seq :: "int \<Rightarrow> db \<Rightarrow> int" where
  "max_log_seq rid d =
     (case select_last l_seq (\<lambda>l. l_run_id l = rid) (logs d) of None \<Rightarrow> 0 | Some l \<Rightarrow> l_seq l)"

section \<open>Blobs\<close>

text \<open>\<open>sha\<close> is \<open>receipt::sha256_hex\<close>.\<close>

definition blob_exists :: "string \<Rightarrow> db \<Rightarrow> bool" where
  "blob_exists h d = (\<exists>b\<in>set (blobs d). b_sha b = h)"

definition put_blob :: "(string \<Rightarrow> string) \<Rightarrow> time \<Rightarrow> string \<Rightarrow> db \<Rightarrow> (string \<times> int) \<times> db" where
  "put_blob sha now bytes d =
     ((sha bytes, int (length bytes)),
      if blob_exists (sha bytes) d
      then d\<lparr>blobs := update_where (\<lambda>b. b_sha b = sha bytes) (\<lambda>b. b\<lparr>b_last_used_at := now\<rparr>) (blobs d)\<rparr>
      else d\<lparr>blobs := blobs d @ [\<lparr>b_sha = sha bytes, b_bytes = bytes,
                                  b_size = int (length bytes), b_last_used_at = now\<rparr>]\<rparr>)"

definition get_blob :: "time \<Rightarrow> string \<Rightarrow> db \<Rightarrow> string option \<times> db" where
  "get_blob now h d =
     (case find (\<lambda>b. b_sha b = h) (blobs d) of
        None \<Rightarrow> (None, d)
      | Some b \<Rightarrow> (Some (b_bytes b),
          d\<lparr>blobs := update_where (\<lambda>b. b_sha b = h) (\<lambda>b. b\<lparr>b_last_used_at := now\<rparr>) (blobs d)\<rparr>))"

section \<open>Secrets\<close>

text \<open>\<open>seal\<close> and \<open>unseal\<close> are \<open>SecretCrypto::encrypt\<close> and \<open>decrypt\<close> under the daemon's key.\<close>

definition upsert_secret ::
    "(string \<Rightarrow> string) \<Rightarrow> string \<Rightarrow> string \<Rightarrow> string option \<Rightarrow> db \<Rightarrow> db" where
  "upsert_secret seal name val agent d =
     (let d' = (case agent of
           Some aid \<Rightarrow> d\<lparr>agent_secrets := AList.update (aid, name) (seal val) (agent_secrets d)\<rparr>
         | None \<Rightarrow> d\<lparr>secrets := AList.update name (seal val) (secrets d)\<rparr>)
      in d'\<lparr>secrets_generation := secrets_generation d + 1\<rparr>)"

definition agent_scoped :: "string \<Rightarrow> db \<Rightarrow> (string \<times> string) list" where
  "agent_scoped aid d =
     map (\<lambda>((a, n), v). (n, v)) (filter (\<lambda>((a, n), v). a = aid) (agent_secrets d))"

definition secret_names :: "string option \<Rightarrow> db \<Rightarrow> string list" where
  "secret_names agent d =
     (let names = sort (map fst (secrets d)) in
      case agent of None \<Rightarrow> names
      | Some aid \<Rightarrow> names @ filter (\<lambda>s. s \<notin> set names) (sort (map fst (agent_scoped aid d))))"

text \<open>The result is a \<open>HashMap\<close> turned into a list: a map, whatever its order.\<close>

definition load_secrets_for :: "(string \<Rightarrow> string) \<Rightarrow> string option \<Rightarrow> db \<Rightarrow> (string \<times> string) list" where
  "load_secrets_for unseal agent d =
     (let globals = map (\<lambda>(n, v). (n, unseal v)) (secrets d) in
      case agent of None \<Rightarrow> globals
      | Some aid \<Rightarrow> fold (\<lambda>(n, v) m. AList.update n (unseal v) m) (agent_scoped aid d) globals)"

record secrets_cache =
  cache_generation :: int
  cache_by_agent :: "(string option \<times> (string \<times> string) list) list"

definition empty_cache :: secrets_cache where
  "empty_cache = \<lparr>cache_generation = - 1, cache_by_agent = []\<rparr>"

definition all_secrets_for ::
    "(string \<Rightarrow> string) \<Rightarrow> string option \<Rightarrow> db \<Rightarrow> secrets_cache \<Rightarrow> (string \<times> string) list \<times> secrets_cache" where
  "all_secrets_for unseal agent d c =
     (case (if cache_generation c = secrets_generation d then map_of (cache_by_agent c) agent else None) of
        Some v \<Rightarrow> (v, c)
      | None \<Rightarrow>
          let merged = load_secrets_for unseal agent d;
              c' = (if cache_generation c \<noteq> secrets_generation d
                    then \<lparr>cache_generation = secrets_generation d, cache_by_agent = []\<rparr> else c)
          in (merged, c'\<lparr>cache_by_agent := AList.update agent merged (cache_by_agent c')\<rparr>))"

section \<open>Triggers\<close>

definition insert_trigger :: "int \<Rightarrow> json \<Rightarrow> int \<Rightarrow> string option \<Rightarrow> db \<Rightarrow> db_error + int \<times> db" where
  "insert_trigger src pred tgt agent d =
     (if get_script src d = None \<or> get_script tgt d = None
      then Inl (FkViolation ''triggers_script_id_fkey'')
      else Inr (trigger_seq d,
        d\<lparr>triggers := triggers d @ [\<lparr>tg_id = trigger_seq d, tg_source = src, tg_predicate = pred,
             tg_target = tgt, tg_agent_id = agent, tg_enabled = True\<rparr>],
          trigger_seq := trigger_seq d + 1\<rparr>))"

definition delete_trigger :: "int \<Rightarrow> db \<Rightarrow> bool \<times> db" where
  "delete_trigger i d =
     (0 < rows_affected (\<lambda>t. tg_id t = i) (triggers d),
      d\<lparr>triggers := delete_where (\<lambda>t. tg_id t = i) (triggers d)\<rparr>)"

text \<open>
  \<open>INSERT INTO runs .. SELECT\<close>: one row per enabled trigger of the run's script whose
  predicate the result contains; \<open>contains\<close> is Postgres's \<open>@>\<close> on \<open>jsonb\<close>.
\<close>

definition trigger_fires :: "(json \<Rightarrow> json \<Rightarrow> bool) \<Rightarrow> int \<Rightarrow> json \<Rightarrow> db \<Rightarrow> trigger \<Rightarrow> bool" where
  "trigger_fires contains rid result d t =
     (tg_enabled t \<and> Some (tg_source t) = map_option r_script_id (run_by_id rid d) \<and>
      contains result (tg_predicate t))"

fun enqueue_targets :: "time \<Rightarrow> json \<Rightarrow> trigger list \<Rightarrow> db \<Rightarrow> int list \<times> db" where
  "enqueue_targets now input [] d = ([], d)"
| "enqueue_targets now input (t # ts) d =
     (let (ids, d') = enqueue_targets now input ts
            (d\<lparr>runs := runs d @ [new_run (run_seq d) (tg_target t) input (tg_agent_id t) now],
               run_seq := run_seq d + 1\<rparr>)
      in (run_seq d # ids, d'))"

definition fire_triggers ::
    "(json \<Rightarrow> json \<Rightarrow> bool) \<Rightarrow> time \<Rightarrow> int \<Rightarrow> json \<Rightarrow> db \<Rightarrow> int list \<times> db" where
  "fire_triggers contains now rid result d =
     enqueue_targets now
       (mk_obj [(''trigger_result'', result), (''source_run_id'', JInt rid)])
       (filter (trigger_fires contains rid result d) (triggers d)) d"

section \<open>Schedules\<close>

record schedule_opts =
  so_agent_id :: "string option"
  so_input_blobs :: "json option"
  so_capture_output :: bool
  so_idempotency :: bool
  so_timezone :: "string option"

definition insert_schedule :: "int \<Rightarrow> string \<Rightarrow> json \<Rightarrow> schedule_opts \<Rightarrow> db \<Rightarrow> db_error + int \<times> db" where
  "insert_schedule sid cron input opts d =
     (if get_script sid d = None then Inl (FkViolation ''schedules_script_id_fkey'')
      else Inr (schedule_seq d,
        d\<lparr>schedules := schedules d @
            [\<lparr>sd_id = schedule_seq d, sd_script_id = sid, sd_cron = cron, sd_input = Some input,
              sd_enabled = True, sd_agent_id = so_agent_id opts,
              sd_input_blobs = so_input_blobs opts, sd_capture_output = so_capture_output opts,
              sd_idempotency = so_idempotency opts, sd_timezone = so_timezone opts\<rparr>],
          schedule_seq := schedule_seq d + 1\<rparr>))"

definition get_schedule :: "int \<Rightarrow> db \<Rightarrow> schedule option" where
  "get_schedule i d =
     (case find (\<lambda>s. sd_id s = i) (schedules d) of
        Some s \<Rightarrow> if get_script (sd_script_id s) d = None then None else Some s
      | None \<Rightarrow> None)"

definition enabled_schedules :: "db \<Rightarrow> schedule list" where
  "enabled_schedules d =
     sort_key sd_id (filter (\<lambda>s. sd_enabled s \<and> get_script (sd_script_id s) d \<noteq> None) (schedules d))"

definition set_schedule_enabled :: "int \<Rightarrow> bool \<Rightarrow> db \<Rightarrow> nat \<times> db" where
  "set_schedule_enabled i en d =
     (rows_affected (\<lambda>s. sd_id s = i) (schedules d),
      d\<lparr>schedules := update_where (\<lambda>s. sd_id s = i) (\<lambda>s. s\<lparr>sd_enabled := en\<rparr>) (schedules d)\<rparr>)"

definition list_schedules :: "db \<Rightarrow> schedule list" where
  "list_schedules d =
     take 50 (rev (sort_key sd_id
       (filter (\<lambda>s. sd_enabled s \<and> get_script (sd_script_id s) d \<noteq> None) (schedules d))))"

section \<open>Webhooks and executors\<close>

definition insert_webhook :: "string \<Rightarrow> string \<Rightarrow> int \<Rightarrow> string option \<Rightarrow> db \<Rightarrow> db_error + int \<times> db" where
  "insert_webhook token kind target agent d =
     (if \<exists>w\<in>set (webhooks d). wh_token w = token then Inl (UniqueViolation ''webhooks_token_key'')
      else Inr (webhook_seq d,
        d\<lparr>webhooks := webhooks d @ [\<lparr>wh_id = webhook_seq d, wh_token = token, wh_kind = kind,
             wh_target_id = target, wh_agent_id = agent\<rparr>],
          webhook_seq := webhook_seq d + 1\<rparr>))"

definition find_webhook_by_token :: "string \<Rightarrow> db \<Rightarrow> (string \<times> int \<times> string option) option" where
  "find_webhook_by_token token d =
     map_option (\<lambda>w. (wh_kind w, wh_target_id w, wh_agent_id w))
       (find (\<lambda>w. wh_token w = token) (webhooks d))"

definition delete_webhook :: "int \<Rightarrow> db \<Rightarrow> bool \<times> db" where
  "delete_webhook i d =
     (0 < rows_affected (\<lambda>w. wh_id w = i) (webhooks d),
      d\<lparr>webhooks := delete_where (\<lambda>w. wh_id w = i) (webhooks d)\<rparr>)"

definition executor_heartbeat :: "time \<Rightarrow> string \<Rightarrow> string \<Rightarrow> string \<Rightarrow> db \<Rightarrow> db" where
  "executor_heartbeat now i host caps d =
     (if \<exists>e\<in>set (executors d). ex_id e = i
      then d\<lparr>executors := update_where (\<lambda>e. ex_id e = i)
               (\<lambda>e. e\<lparr>ex_last_seen := now, ex_host := host, ex_caps := caps\<rparr>) (executors d)\<rparr>
      else d\<lparr>executors := executors d @ [\<lparr>ex_id = i, ex_host = host, ex_caps = caps, ex_last_seen = now\<rparr>]\<rparr>)"

definition list_executors :: "time \<Rightarrow> int \<Rightarrow> db \<Rightarrow> (executor \<times> bool) list" where
  "list_executors now live d =
     map (\<lambda>e. (e, ex_last_seen e > now - secs live)) (rev (sort_key ex_last_seen (executors d)))"

section \<open>Retention\<close>

text \<open>\<open>finished_at IS NOT NULL AND finished_at < now() - days\<close>\<close>

definition run_expired :: "time \<Rightarrow> rat \<Rightarrow> run \<Rightarrow> bool" where
  "run_expired now days r =
     (case r_finished_at r of None \<Rightarrow> False
      | Some f \<Rightarrow> of_int f < of_int now - days * 86400 * 1000000)"

definition gc_logs :: "time \<Rightarrow> rat \<Rightarrow> db \<Rightarrow> nat \<times> db" where
  "gc_logs now days d =
     (let old = map r_id (filter (run_expired now days) (runs d));
          P = (\<lambda>l. l_run_id l \<in> set old)
      in (rows_affected P (logs d), d\<lparr>logs := delete_where P (logs d)\<rparr>))"

definition gc_old :: "time \<Rightarrow> rat \<Rightarrow> db \<Rightarrow> (nat \<times> nat) \<times> db" where
  "gc_old now days d =
     (let (n_logs, d') = gc_logs now days d
      in ((rows_affected (run_expired now days) (runs d'), n_logs),
          d'\<lparr>runs := delete_where (run_expired now days) (runs d')\<rparr>))"

text \<open>\<open>jsonb_each_text(coalesce(m, '{}'))\<close> has a row whose value is \<open>h\<close>.\<close>

definition blob_map_has :: "string \<Rightarrow> json option \<Rightarrow> bool" where
  "blob_map_has h m =
     (case m of Some (JObj kvs) \<Rightarrow> \<exists>kv\<in>set kvs. snd kv = JStr h | _ \<Rightarrow> False)"

definition blob_referenced :: "db \<Rightarrow> string \<Rightarrow> bool" where
  "blob_referenced d h =
     ((\<exists>r\<in>set (runs d). blob_map_has h (r_input_blobs r)) \<or>
      (\<exists>r\<in>set (runs d). blob_map_has h (r_output_blobs r)) \<or>
      (\<exists>s\<in>set (schedules d). sd_enabled s \<and> blob_map_has h (sd_input_blobs s)))"

definition gc_blobs :: "time \<Rightarrow> rat \<Rightarrow> db \<Rightarrow> nat \<times> db" where
  "gc_blobs now days d =
     (let P = (\<lambda>b. of_int (b_last_used_at b) < of_int now - days * 86400 * 1000000 \<and>
                   \<not> blob_referenced d (b_sha b))
      in (rows_affected P (blobs d), d\<lparr>blobs := delete_where P (blobs d)\<rparr>))"

text \<open>The hourly sweep of \<open>main.rs\<close>: runs and logs first, then the blobs they released.\<close>

definition retention_sweep :: "time \<Rightarrow> rat \<Rightarrow> db \<Rightarrow> db" where
  "retention_sweep now days d = snd (gc_blobs now days (snd (gc_old now days d)))"

end
