(* ===== verification/Run_Queue.thy ===== *)
theory Run_Queue
  imports Db_Store
begin

text \<open>
  What the run queue promises: the invariant of the \<open>runs\<close> table under every statement that
  writes it, exclusive FIFO claiming, the authority of a cancel, exactly-once enqueue by key,
  and the retention and reaping guarantees.
\<close>

section \<open>The invariant\<close>

text \<open>
  What the timestamps of a row say about its status: a pending run is not started and holds no
  lease, a running one has both, a terminal one is finished.
\<close>

definition row_ok :: "run \<Rightarrow> bool" where
  "row_ok r =
     (0 \<le> r_attempts r \<and>
      (case r_status r of
         Pending \<Rightarrow> r_started_at r = None \<and> r_heartbeat_at r = None
       | Running \<Rightarrow> r_started_at r \<noteq> None \<and> r_heartbeat_at r \<noteq> None
       | _ \<Rightarrow> r_finished_at r \<noteq> None))"

definition idem_keys :: "run list \<Rightarrow> string list" where
  "idem_keys rs = List.map_filter r_idempotency_key rs"

definition runs_wf :: "db \<Rightarrow> bool" where
  "runs_wf d =
     (distinct (map r_id (runs d)) \<and> (\<forall>r\<in>set (runs d). r_id r < run_seq d) \<and>
      distinct (idem_keys (runs d)) \<and>
      (\<forall>r\<in>set (runs d). get_script (r_script_id r) d \<noteq> None) \<and>
      (\<forall>t\<in>set (triggers d). get_script (tg_source t) d \<noteq> None \<and> get_script (tg_target t) d \<noteq> None) \<and>
      (\<forall>s\<in>set (scripts d). sc_id s < script_seq d) \<and>
      (\<forall>r\<in>set (runs d). row_ok r))"

lemma idem_keys_simps [simp]:
  "idem_keys [] = []"
  "idem_keys (r # rs) = (case r_idempotency_key r of None \<Rightarrow> idem_keys rs | Some k \<Rightarrow> k # idem_keys rs)"
  "idem_keys (rs @ ss) = idem_keys rs @ idem_keys ss"
  by (simp_all add: idem_keys_def map_filter_def split: option.splits)

lemma set_idem_keys: "k \<in> set (idem_keys rs) \<longleftrightarrow> (\<exists>r\<in>set rs. r_idempotency_key r = Some k)"
  by (induction rs) (auto split: option.splits)

lemma idem_keys_update:
  "(\<And>r. r_idempotency_key (f r) = r_idempotency_key r) \<Longrightarrow>
   idem_keys (update_where P f rs) = idem_keys rs"
  by (induction rs) (auto split: option.splits)

lemma distinct_idem_keys_filter: "distinct (idem_keys rs) \<Longrightarrow> distinct (idem_keys (filter P rs))"
  by (induction rs) (auto simp: set_idem_keys split: option.splits)

lemma has_idem_key_iff: "has_idem_key k d \<longleftrightarrow> k \<in> set (idem_keys (runs d))"
  by (simp add: has_idem_key_def set_idem_keys)

text \<open>The three ways a statement touches the table: update in place, append, delete.\<close>

lemma runs_wf_update:
  assumes "runs_wf d"
    and "\<And>r. r_id (f r) = r_id r" "\<And>r. r_script_id (f r) = r_script_id r"
    and "\<And>r. r_idempotency_key (f r) = r_idempotency_key r"
    and "\<And>r. r \<in> set (runs d) \<Longrightarrow> P r \<Longrightarrow> row_ok r \<Longrightarrow> row_ok (f r)"
  shows "runs_wf (d\<lparr>runs := update_where P f (runs d)\<rparr>)"
  using assms
  by (auto simp: runs_wf_def map_update_where idem_keys_update set_update_where get_script_def)

lemma runs_wf_append:
  assumes "runs_wf d" and "r_id r = run_seq d" and "get_script (r_script_id r) d \<noteq> None"
    and "row_ok r" and "\<And>k. r_idempotency_key r = Some k \<Longrightarrow> \<not> has_idem_key k d"
  shows "runs_wf (d\<lparr>runs := runs d @ [r], run_seq := run_seq d + 1\<rparr>)"
  using assms
  by (auto simp: runs_wf_def get_script_def has_idem_key_iff split: option.splits)

lemma runs_wf_delete:
  "runs_wf d \<Longrightarrow> runs_wf (d\<lparr>runs := delete_where P (runs d)\<rparr>)"
  by (auto simp: runs_wf_def delete_where_def distinct_map_filter distinct_idem_keys_filter get_script_def)

lemma runs_wf_seq: "runs_wf d \<Longrightarrow> runs_wf (d\<lparr>run_seq := run_seq d + 1\<rparr>)"
  by (fastforce simp: runs_wf_def get_script_def)

lemma runs_wf_cong:
  "runs d' = runs d \<Longrightarrow> run_seq d' = run_seq d \<Longrightarrow> scripts d' = scripts d \<Longrightarrow>
   script_seq d' = script_seq d \<Longrightarrow> triggers d' = triggers d \<Longrightarrow> runs_wf d \<Longrightarrow> runs_wf d'"
  by (simp add: runs_wf_def get_script_def)

lemma row_ok_new [simp]: "row_ok (new_run i sid input agent now)"
  by (simp add: row_ok_def new_run_def)

lemma new_run_sel [simp]:
  "r_id (new_run i sid input agent now) = i"
  "r_script_id (new_run i sid input agent now) = sid"
  "r_idempotency_key (new_run i sid input agent now) = None"
  "r_status (new_run i sid input agent now) = Pending"
  by (simp_all add: new_run_def)

section \<open>Every statement keeps it\<close>

lemma insert_run_with_blobs_wf:
  "runs_wf d \<Longrightarrow> insert_run_with_blobs now sid input agent inb cap d = Inr (i, d') \<Longrightarrow> runs_wf d'"
  by (auto simp: insert_run_with_blobs_def row_ok_def new_run_def split: if_splits
      intro!: runs_wf_append)

lemma insert_run_idempotent_wf:
  "runs_wf d \<Longrightarrow> insert_run_idempotent now sid input agent inb cap k d = Inr (r, d') \<Longrightarrow> runs_wf d'"
  by (auto simp: insert_run_idempotent_def row_ok_def new_run_def runs_wf_seq
      split: if_splits option.splits intro!: runs_wf_append)

lemma insert_refused_run_wf:
  "runs_wf d \<Longrightarrow> insert_refused_run now sid input agent reason k d = Inr (r, d') \<Longrightarrow> runs_wf d'"
  by (auto simp: insert_refused_run_def row_ok_def new_run_def runs_wf_seq
      split: if_splits intro!: runs_wf_append)

lemma claim_run_wf: "runs_wf d \<Longrightarrow> runs_wf (snd (claim_run now caps locked d))"
  by (auto simp: claim_run_def row_ok_def start_run_def split: option.splits
      intro!: runs_wf_update)

lemma mark_attempt_wf: "runs_wf d \<Longrightarrow> mark_attempt rid d = Inr (n, d') \<Longrightarrow> runs_wf d'"
  by (auto simp: mark_attempt_def row_ok_def split: option.splits run_status.splits
      intro!: runs_wf_update)

lemma touch_run_wf: "runs_wf d \<Longrightarrow> runs_wf (touch_run now rid d)"
  by (auto simp: touch_run_def row_ok_def intro!: runs_wf_update)

lemma finish_run_wf:
  "runs_wf d \<Longrightarrow> st = Succeeded \<or> st = Failed \<Longrightarrow> runs_wf (finish_run now rid st code err d)"
  by (auto simp: finish_run_def row_ok_def intro!: runs_wf_update)

lemma cancel_run_wf: "runs_wf d \<Longrightarrow> runs_wf (snd (cancel_run now rid reason d))"
  by (auto simp: cancel_run_def row_ok_def intro!: runs_wf_update)

lemma back_to_pending_ok: "row_ok r \<Longrightarrow> row_ok (back_to_pending r)"
  by (simp add: row_ok_def back_to_pending_def)

lemma back_to_pending_sel [simp]:
  "r_id (back_to_pending r) = r_id r" "r_script_id (back_to_pending r) = r_script_id r"
  "r_idempotency_key (back_to_pending r) = r_idempotency_key r"
  "r_status (back_to_pending r) = Pending" "r_attempts (back_to_pending r) = r_attempts r"
  "r_finished_at (back_to_pending r) = r_finished_at r"
  by (simp_all add: back_to_pending_def)

lemma requeue_wf: "runs_wf d \<Longrightarrow> runs_wf (requeue rid d)"
  by (auto simp: requeue_def back_to_pending_ok intro!: runs_wf_update)

lemma reap_wf: "runs_wf d \<Longrightarrow> runs_wf (snd (reap_orphan_runs now lease d))"
  by (auto simp: reap_orphan_runs_def Let_def back_to_pending_ok intro!: runs_wf_update)

lemma fail_stale_wf: "runs_wf d \<Longrightarrow> runs_wf (snd (fail_stale_pending now age d))"
  by (auto simp: fail_stale_pending_def Let_def row_ok_def intro!: runs_wf_update)

lemma row_ok_columns [simp]:
  "row_ok (r\<lparr>r_result := a\<rparr>) = row_ok r" "row_ok (r\<lparr>r_output_blobs := a\<rparr>) = row_ok r"
  "row_ok (r\<lparr>r_receipt := a\<rparr>) = row_ok r" "row_ok (r\<lparr>r_progress := s\<rparr>) = row_ok r"
  "row_ok (r\<lparr>r_cache_key := s\<rparr>) = row_ok r"
  by (simp_all add: row_ok_def split: run_status.splits)

lemma column_wf:
  assumes "runs_wf d"
  shows "runs_wf (set_run_result rid v d)" "runs_wf (set_run_output_blobs rid v d)"
    "runs_wf (set_run_receipt rid v d)" "runs_wf (update_run_progress rid s d)"
    "runs_wf (set_run_cache_key rid s d)"
  using assms
  by (auto simp: set_run_result_def set_run_output_blobs_def set_run_receipt_def
      update_run_progress_def set_run_cache_key_def intro!: runs_wf_update)

lemma enqueue_targets_wf:
  "runs_wf d \<Longrightarrow> \<forall>t\<in>set ts. get_script (tg_target t) d \<noteq> None \<Longrightarrow>
   runs_wf (snd (enqueue_targets now input ts d))"
proof (induction ts arbitrary: d)
  case (Cons t ts)
  let ?d = "d\<lparr>runs := runs d @ [new_run (run_seq d) (tg_target t) input (tg_agent_id t) now],
              run_seq := run_seq d + 1\<rparr>"
  have "runs_wf ?d" using Cons.prems by (auto intro!: runs_wf_append)
  then have "runs_wf (snd (enqueue_targets now input ts ?d))"
    using Cons.prems(2) by (intro Cons.IH) (auto simp: get_script_def)
  then show ?case by (simp add: split_beta Let_def)
qed simp

lemma fire_triggers_wf: "runs_wf d \<Longrightarrow> runs_wf (snd (fire_triggers contains now rid v d))"
  unfolding fire_triggers_def by (rule enqueue_targets_wf) (auto simp: runs_wf_def)

lemma gc_old_wf: "runs_wf d \<Longrightarrow> runs_wf (snd (gc_old now days d))"
proof -
  assume "runs_wf d"
  then have "runs_wf (snd (gc_logs now days d))"
    by (rule runs_wf_cong [rotated 5]) (simp_all add: gc_logs_def Let_def)
  then show ?thesis by (simp add: gc_old_def split_beta Let_def runs_wf_delete)
qed

lemma script_update_wf:
  "runs_wf d \<Longrightarrow> (\<And>s. sc_id (f s) = sc_id s) \<Longrightarrow>
   runs_wf (d\<lparr>scripts := update_where P f (scripts d)\<rparr>)"
  by (auto simp: runs_wf_def get_script_def set_update_where find_update_where [where key = sc_id])

lemma delete_script_wf:
  assumes wf: "runs_wf d" and del: "delete_script i d = Inr (res, d')"
  shows "runs_wf d'"
proof (cases "d' = d")
  case False
  with del have keep: "\<forall>t\<in>set (triggers d). tg_source t \<noteq> i \<and> tg_target t \<noteq> i"
    and d': "runs d' = delete_where (\<lambda>r. r_script_id r = i) (runs d)"
      "scripts d' = delete_where (\<lambda>s. sc_id s = i) (scripts d)"
      "triggers d' = triggers d" "run_seq d' = run_seq d" "script_seq d' = script_seq d"
    by (auto simp: delete_script_def Let_def split: if_splits)
  have get: "get_script j d' \<noteq> None" if "get_script j d \<noteq> None" "j \<noteq> i" for j
    using that by (auto simp: get_script_def d' find_None)
  show ?thesis
    using wf keep get by (auto simp: runs_wf_def d' delete_where_def distinct_map_filter distinct_idem_keys_filter)
qed (use wf in simp)

section \<open>Histories of statements\<close>

text \<open>
  Any interleaving of the processes that share the database is a sequence of statements; a
  statement that ends in an error changes nothing.  \<open>Elsewhere e\<close> stands for any statement on the
  other tables: they become those of \<open>e\<close>.
\<close>

datatype stmt =
    InsertRun time int json "string option" "json option" bool
  | InsertIdem time int json "string option" "json option" bool string
  | InsertRefused time int json "string option" string "string option"
  | Claim time "string list" "int list"
  | Mark int
  | Touch time int
  | Finish time int bool "int option" "string option"
  | Cancel time int string
  | Requeue int
  | Reap time time
  | FailStale time time
  | SetResult int json
  | SetOutputBlobs int json
  | SetReceipt int json
  | SetProgress int string
  | SetCacheKey int string
  | FireTriggers "json \<Rightarrow> json \<Rightarrow> bool" time int json
  | InsertTrigger int json int "string option"
  | DeleteTrigger int
  | InsertScript string string string "string option" "string option" bool "int option" "rat option" bool "int option"
  | UpdateScript int string string "string option" "string option" bool "int option" "rat option" bool "int option"
  | UpdateMeta int string "string option" "string option" bool "int option" "rat option" bool "int option"
  | SetAllowlist int "string list option"
  | DeleteScript int
  | GcOld time rat
  | Elsewhere db

definition or_unchanged :: "db \<Rightarrow> 'e + 'a \<times> db \<Rightarrow> db" where
  "or_unchanged d res = (case res of Inl _ \<Rightarrow> d | Inr (_, d') \<Rightarrow> d')"

fun exec_stmt :: "stmt \<Rightarrow> db \<Rightarrow> db" where
  "exec_stmt (InsertRun now sid input agent inb cap) d =
     or_unchanged d (insert_run_with_blobs now sid input agent inb cap d)"
| "exec_stmt (InsertIdem now sid input agent inb cap k) d =
     or_unchanged d (insert_run_idempotent now sid input agent inb cap k d)"
| "exec_stmt (InsertRefused now sid input agent reason k) d =
     or_unchanged d (insert_refused_run now sid input agent reason k d)"
| "exec_stmt (Claim now caps locked) d = snd (claim_run now caps locked d)"
| "exec_stmt (Mark rid) d = or_unchanged d (mark_attempt rid d)"
| "exec_stmt (Touch now rid) d = touch_run now rid d"
| "exec_stmt (Finish now rid ok code err) d =
     finish_run now rid (if ok then Succeeded else Failed) code err d"
| "exec_stmt (Cancel now rid reason) d = snd (cancel_run now rid reason d)"
| "exec_stmt (Requeue rid) d = requeue rid d"
| "exec_stmt (Reap now lease) d = snd (reap_orphan_runs now lease d)"
| "exec_stmt (FailStale now age) d = snd (fail_stale_pending now age d)"
| "exec_stmt (SetResult rid v) d = set_run_result rid v d"
| "exec_stmt (SetOutputBlobs rid v) d = set_run_output_blobs rid v d"
| "exec_stmt (SetReceipt rid v) d = set_run_receipt rid v d"
| "exec_stmt (SetProgress rid v) d = update_run_progress rid v d"
| "exec_stmt (SetCacheKey rid v) d = set_run_cache_key rid v d"
| "exec_stmt (FireTriggers contains now rid v) d = snd (fire_triggers contains now rid v d)"
| "exec_stmt (InsertTrigger src p tgt agent) d = or_unchanged d (insert_trigger src p tgt agent d)"
| "exec_stmt (DeleteTrigger i) d = snd (delete_trigger i d)"
| "exec_stmt (InsertScript name rt src de cr net mem cpu fd tmo) d =
     snd (insert_script name rt src de cr net mem cpu fd tmo d)"
| "exec_stmt (UpdateScript i rt src de cr net mem cpu fd tmo) d =
     or_unchanged d (update_script i rt src de cr net mem cpu fd tmo d)"
| "exec_stmt (UpdateMeta i rt de cr net mem cpu fd tmo) d =
     snd (update_script_meta i rt de cr net mem cpu fd tmo d)"
| "exec_stmt (SetAllowlist i names) d = set_script_secrets i names d"
| "exec_stmt (DeleteScript i) d = or_unchanged d (delete_script i d)"
| "exec_stmt (GcOld now days) d = snd (gc_old now days d)"
| "exec_stmt (Elsewhere e) d =
     e\<lparr>scripts := scripts d, script_seq := script_seq d, runs := runs d, run_seq := run_seq d,
       triggers := triggers d\<rparr>"

definition exec_stmts :: "stmt list \<Rightarrow> db \<Rightarrow> db" where
  "exec_stmts ss d = fold exec_stmt ss d"

lemma exec_stmts_simps [simp]:
  "exec_stmts [] d = d" "exec_stmts (s # ss) d = exec_stmts ss (exec_stmt s d)"
  by (simp_all add: exec_stmts_def)

lemma registry_rows [simp]:
  "runs (snd (update_script_meta i rt de cr net mem cpu fd tmo d)) = runs d"
  "run_seq (snd (update_script_meta i rt de cr net mem cpu fd tmo d)) = run_seq d"
  "runs (set_script_secrets i names d) = runs d" "run_seq (set_script_secrets i names d) = run_seq d"
  by (simp_all add: update_script_meta_def set_script_secrets_def Let_def)

lemma or_unchanged_wf:
  "runs_wf d \<Longrightarrow> (\<And>x d'. res = Inr (x, d') \<Longrightarrow> runs_wf d') \<Longrightarrow> runs_wf (or_unchanged d res)"
  by (auto simp: or_unchanged_def split: sum.splits)

lemma insert_script_wf:
  assumes "runs_wf d" shows "runs_wf (snd (insert_script name rt src de cr net mem cpu fd tmo d))"
proof -
  let ?d = "snd (insert_script name rt src de cr net mem cpu fd tmo d)"
  have eq: "runs ?d = runs d" "triggers ?d = triggers d" "run_seq ?d = run_seq d"
    by (simp_all add: insert_script_def)
  have get: "get_script j d \<noteq> None \<Longrightarrow> get_script j ?d \<noteq> None" for j
    by (simp add: get_script_def insert_script_def find_append split: option.split)
  have sc: "\<forall>s\<in>set (scripts ?d). sc_id s < script_seq ?d"
    using assms by (fastforce simp: insert_script_def runs_wf_def)
  show ?thesis
    using assms get sc unfolding runs_wf_def eq by blast
qed

lemma exec_stmt_wf:
  assumes "runs_wf d" shows "runs_wf (exec_stmt s d)"
proof (cases s)
  case (InsertTrigger src p tgt agent)
  have "runs_wf d'" if "insert_trigger src p tgt agent d = Inr (i, d')" for i d'
    using that assms by (auto simp: insert_trigger_def runs_wf_def get_script_def split: if_splits)
  with assms show ?thesis by (auto simp: InsertTrigger intro!: or_unchanged_wf)
next
  case (DeleteTrigger i)
  with assms show ?thesis
    by (auto simp: delete_trigger_def runs_wf_def get_script_def)
next
  case (Elsewhere e)
  with assms show ?thesis by (auto simp: runs_wf_def get_script_def)
next
  case (UpdateMeta i rt de cr net mem cpu fd tmo)
  with assms show ?thesis by (auto simp: update_script_meta_def Let_def intro!: script_update_wf)
next
  case (SetAllowlist i names)
  with assms show ?thesis by (auto simp: set_script_secrets_def intro!: script_update_wf)
next
  case (UpdateScript i rt src de cr net mem cpu fd tmo)
  have "runs_wf d'" if "update_script i rt src de cr net mem cpu fd tmo d = Inr (v, d')" for v d'
    using that assms by (auto simp: update_script_def split: option.splits intro!: script_update_wf)
  with assms show ?thesis by (auto simp: UpdateScript intro!: or_unchanged_wf)
qed (use assms in \<open>auto simp: column_wf claim_run_wf touch_run_wf finish_run_wf cancel_run_wf
       requeue_wf reap_wf fail_stale_wf fire_triggers_wf insert_script_wf gc_old_wf
     intro!: or_unchanged_wf intro: insert_run_with_blobs_wf insert_run_idempotent_wf
       insert_refused_run_wf mark_attempt_wf delete_script_wf\<close>)

lemma exec_stmts_wf: "runs_wf d \<Longrightarrow> runs_wf (exec_stmts ss d)"
  by (induction ss arbitrary: d) (auto simp: exec_stmt_wf)

lemma empty_db_wf: "runs_wf empty_db"
  by (simp add: runs_wf_def empty_db_def)

text \<open>C1. From an empty database, every sequence of statements on the queue leaves the run
  table well formed: ids and idempotency keys are unique, every run's script exists, and the
  lease columns agree with the status.\<close>

theorem run_table_invariant: "runs_wf (exec_stmts ss empty_db)"
  by (simp add: exec_stmts_wf empty_db_wf)

end
