(* ===== verification/Queue_Laws.thy ===== *)
theory Queue_Laws
  imports Run_Queue
begin

text \<open>
  What the run queue promises its clients, over arbitrary interleavings of statements: the life
  cycle of a run, exclusive and oldest-first claiming, the authority of a cancel, the lease,
  and exactly-once enqueue by idempotency key.
\<close>

section \<open>The life cycle of a run\<close>

text \<open>The status changes each statement can make to the run \<open>i\<close>.\<close>

fun moves :: "stmt \<Rightarrow> int \<Rightarrow> run_status \<Rightarrow> run_status \<Rightarrow> bool" where
  "moves (Claim now caps locked) i a b = (a = Pending \<and> b = Running)"
| "moves (Finish now j ok code err) i a b =
     (i = j \<and> a \<noteq> Canceled \<and> b = (if ok then Succeeded else Failed))"
| "moves (Cancel now j reason) i a b = (i = j \<and> a \<noteq> Succeeded \<and> b = Canceled)"
| "moves (Requeue j) i a b = (i = j \<and> b = Pending)"
| "moves (Reap now lease) i a b = (a = Running \<and> b = Pending)"
| "moves (FailStale now age) i a b = (a = Pending \<and> b = Failed)"
| "moves _ i a b = False"

definition follows :: "stmt \<Rightarrow> db \<Rightarrow> run \<Rightarrow> bool" where
  "follows s d r' =
     (run_seq d \<le> r_id r' \<or>
      (\<exists>r\<in>set (runs d). r_id r = r_id r' \<and>
         (r_status r' = r_status r \<or> moves s (r_id r) (r_status r) (r_status r'))))"

lemma follows_old: "r \<in> set (runs d) \<Longrightarrow> follows s d r"
  by (auto simp: follows_def)

lemma follows_update:
  assumes "\<And>r. r_id (f r) = r_id r"
    and "\<And>r. r \<in> set (runs d) \<Longrightarrow> P r \<Longrightarrow>
      r_status (f r) = r_status r \<or> moves s (r_id r) (r_status r) (r_status (f r))"
    and "r' \<in> set (update_where P f (runs d))"
  shows "follows s d r'"
proof -
  from assms(3) obtain r where r: "r \<in> set (runs d)" "r' = (if P r then f r else r)"
    unfolding set_update_where by blast
  show ?thesis
  proof (cases "P r")
    case True
    with r assms(1) [of r] assms(2) [of r] show ?thesis by (auto simp: follows_def)
  next
    case False
    with r show ?thesis by (simp add: follows_old)
  qed
qed

lemma enqueue_targets_rows:
  "r' \<in> set (runs (snd (enqueue_targets now input ts d))) \<Longrightarrow> r' \<in> set (runs d) \<or> run_seq d \<le> r_id r'"
proof (induction ts arbitrary: d)
  case (Cons t ts)
  let ?d = "d\<lparr>runs := runs d @ [new_run (run_seq d) (tg_target t) input (tg_agent_id t) now],
              run_seq := run_seq d + 1\<rparr>"
  from Cons.prems have "r' \<in> set (runs (snd (enqueue_targets now input ts ?d)))"
    by (simp add: split_beta Let_def)
  from Cons.IH [OF this] show ?case by auto
qed simp

lemma insert_seq:
  "insert_run_with_blobs now sid input agent inb cap d = Inr (i, d') \<Longrightarrow>
     set (runs d') \<subseteq> set (runs d) \<union> {r. run_seq d \<le> r_id r} \<and> run_seq d \<le> run_seq d'"
  "insert_run_idempotent now sid input agent inb cap k d = Inr (x, d') \<Longrightarrow>
     set (runs d') \<subseteq> set (runs d) \<union> {r. run_seq d \<le> r_id r} \<and> run_seq d \<le> run_seq d'"
  "insert_refused_run now sid input agent reason ko d = Inr (y, d') \<Longrightarrow>
     set (runs d') \<subseteq> set (runs d) \<union> {r. run_seq d \<le> r_id r} \<and> run_seq d \<le> run_seq d'"
  by (auto simp: insert_run_with_blobs_def insert_run_idempotent_def insert_refused_run_def
      new_run_def split: if_splits option.splits)

lemma delete_script_rows: "delete_script i d = Inr (x, d') \<Longrightarrow> set (runs d') \<subseteq> set (runs d) \<and> run_seq d' = run_seq d"
  by (auto simp: delete_script_def Let_def split: if_splits)

lemma gc_old_rows: "set (runs (snd (gc_old now days d))) \<subseteq> set (runs d)" "run_seq (snd (gc_old now days d)) = run_seq d"
  by (auto simp: gc_old_def gc_logs_def Let_def)

lemma exec_stmt_follows:
  assumes wf: "runs_wf d" and r': "r' \<in> set (runs (exec_stmt s d))"
  shows "follows s d r'"
proof (cases s)
  case (Claim now caps locked)
  show ?thesis
  proof (cases "select_first r_id (claimable caps locked d) (runs d)")
    case None
    with r' Claim show ?thesis by (auto simp: claim_run_def intro: follows_old)
  next
    case (Some r)
    then have r: "r \<in> set (runs d)" "r_status r = Pending"
      using select_first_Some(1,2) [OF Some] by (auto simp: claimable_def)
    have uniq: "q = r" if "q \<in> set (runs d)" "r_id q = r_id r" for q
      using wf r(1) that by (auto simp: runs_wf_def dest: distinct_key_eq)
    from r' Some Claim have "r' \<in> set (update_where (\<lambda>q. r_id q = r_id r) (start_run now) (runs d))"
      by (simp add: claim_run_def)
    then show ?thesis
      by (rule follows_update [rotated 2]) (use r uniq Claim in \<open>auto simp: start_run_def\<close>)
  qed
next
  case (FireTriggers contains now rid v)
  with r' show ?thesis
    using enqueue_targets_rows [of r' now] by (force simp: fire_triggers_def follows_def)
next
  case (GcOld now days)
  with r' show ?thesis using gc_old_rows(1) by (auto intro!: follows_old)
next
  case (InsertRun x1 x2 x3 x4 x5 x6)
  with r' show ?thesis by (auto simp: or_unchanged_def follows_def split: sum.splits dest: insert_seq)
next
  case (InsertIdem x1 x2 x3 x4 x5 x6 x7)
  with r' show ?thesis by (auto simp: or_unchanged_def follows_def split: sum.splits dest: insert_seq)
next
  case (InsertRefused x1 x2 x3 x4 x5 x6)
  with r' show ?thesis by (auto simp: or_unchanged_def follows_def split: sum.splits dest: insert_seq)
next
  case (DeleteScript i)
  with r' show ?thesis
    by (auto simp: or_unchanged_def split: sum.splits dest!: delete_script_rows intro!: follows_old)
next
  case (Mark i)
  with r' show ?thesis
    by (auto simp: mark_attempt_def or_unchanged_def intro: follows_old split: option.splits
        elim!: follows_update [rotated 2])
next
  case (InsertTrigger x1 x2 x3 x4)
  with r' show ?thesis by (auto simp: or_unchanged_def insert_trigger_def split: sum.splits if_splits intro: follows_old)
next
  case (UpdateScript x1 x2 x3 x4 x5 x6 x7 x8 x9 x10)
  with r' show ?thesis
    by (auto simp: or_unchanged_def update_script_def split: sum.splits option.splits if_splits intro: follows_old)
qed (use r' in \<open>auto simp: touch_run_def finish_run_def cancel_run_def requeue_def
       reap_orphan_runs_def Let_def fail_stale_pending_def set_run_result_def
       set_run_output_blobs_def set_run_receipt_def update_run_progress_def set_run_cache_key_def
       delete_trigger_def insert_script_def intro: follows_old elim!: follows_update [rotated 2]\<close>)

lemma exec_stmt_seq: "run_seq d \<le> run_seq (exec_stmt s d)"
proof -
  have fire: "run_seq d \<le> run_seq (snd (enqueue_targets now input ts d))" for now input ts d
  proof (induction ts arbitrary: d)
    case (Cons t ts)
    let ?d = "d\<lparr>runs := runs d @ [new_run (run_seq d) (tg_target t) input (tg_agent_id t) now],
                run_seq := run_seq d + 1\<rparr>"
    show ?case using Cons.IH [of ?d] by (simp add: split_beta Let_def)
  qed simp
  show ?thesis
  proof (cases s)
    case (FireTriggers contains now rid v)
    then show ?thesis by (simp add: fire_triggers_def fire)
  qed (auto simp: or_unchanged_def claim_run_def touch_run_def finish_run_def cancel_run_def
      requeue_def reap_orphan_runs_def Let_def fail_stale_pending_def set_run_result_def
      set_run_output_blobs_def set_run_receipt_def update_run_progress_def set_run_cache_key_def
      delete_trigger_def insert_script_def mark_attempt_def insert_trigger_def update_script_def
      gc_old_rows(2)
      split: sum.splits option.splits if_splits dest!: insert_seq delete_script_rows)
qed

lemma run_by_id_in: "runs_wf d \<Longrightarrow> r \<in> set (runs d) \<Longrightarrow> run_by_id (r_id r) d = Some r"
  by (simp add: run_by_id_def runs_wf_def find_distinct)

text \<open>The status of one run across one statement.\<close>

lemma status_step:
  assumes wf: "runs_wf d" and st: "get_run_status i d = Some a"
    and st': "get_run_status i (exec_stmt s d) = Some b"
  shows "b = a \<or> moves s i a b"
proof -
  from st obtain r where r: "r \<in> set (runs d)" "r_id r = i" "r_status r = a"
    by (auto simp: get_run_status_def dest!: run_by_idD)
  from st' obtain r' where r': "r' \<in> set (runs (exec_stmt s d))" "r_id r' = i" "r_status r' = b"
    by (auto simp: get_run_status_def dest!: run_by_idD)
  from exec_stmt_follows [OF wf r'(1)] show ?thesis
  proof (unfold follows_def, elim disjE bexE conjE)
    assume "run_seq d \<le> r_id r'"
    with wf r r'(2) show ?thesis by (force simp: runs_wf_def)
  next
    fix q assume q: "q \<in> set (runs d)" "r_id q = r_id r'"
    then have "q = r" using wf r r'(2) by (auto simp: runs_wf_def dest: distinct_key_eq)
    moreover assume "r_status r' = r_status q"
    ultimately show ?thesis using r r' by simp
  next
    fix q assume q: "q \<in> set (runs d)" "r_id q = r_id r'"
    then have "q = r" using wf r r'(2) by (auto simp: runs_wf_def dest: distinct_key_eq)
    moreover assume "moves s (r_id q) (r_status q) (r_status r')"
    ultimately show ?thesis using r r' by simp
  qed
qed

text \<open>A deleted or unborn id: an id below the sequence that has no row never gets one.\<close>

lemma gone_step:
  assumes wf: "runs_wf d" and gone: "get_run_status i d = None" "i < run_seq d"
  shows "get_run_status i (exec_stmt s d) = None"
proof (rule ccontr)
  assume "get_run_status i (exec_stmt s d) \<noteq> None"
  then obtain r' where r': "r' \<in> set (runs (exec_stmt s d))" "r_id r' = i"
    by (auto simp: get_run_status_def dest!: run_by_idD)
  from exec_stmt_follows [OF wf r'(1)] r'(2) gone show False
    by (auto simp: follows_def get_run_status_def run_by_id_def find_None)
qed


text \<open>A one-script, one-run database, for the concrete instances below.\<close>

definition sample_db :: db where
  "sample_db = exec_stmts [InsertScript ''s'' ''python'' ''print(1)'' None None False None None False None,
                           InsertRun 0 1 (JObj []) None None False] empty_db"

lemma sample_wf: "runs_wf sample_db"
  unfolding sample_db_def by (rule exec_stmts_wf [OF empty_db_wf])

lemmas sample_simps = sample_db_def empty_db_def or_unchanged_def insert_script_def
  insert_run_with_blobs_def new_run_def get_script_def get_run_status_def run_by_id_def
  claim_run_def claimable_def select_first_def start_run_def job_of_def finish_run_def
  cancel_run_def rows_affected_def requeue_def back_to_pending_def reap_orphan_runs_def Let_def
  lease_expired_def touch_run_def

text \<open>On every reachable database, one statement either leaves a run's status alone or
  takes it along an edge of the life cycle: only a claim starts a run, only the reaper or a
  requeue takes it back, and a finish never overwrites a cancel.\<close>

theorem run_lifecycle:
  assumes "d = exec_stmts ss empty_db" and "get_run_status i d = Some a"
    and "get_run_status i (exec_stmt s d) = Some b"
  shows "b = a \<or> moves s i a b"
  using assms exec_stmts_wf [OF empty_db_wf] status_step by blast

theorem run_lifecycle_witness:
  "Running = Pending \<or> moves (Claim 5 [''python''] []) 1 Pending Running"
  by (rule run_lifecycle [OF sample_db_def]) (simp_all add: sample_simps)

section \<open>Claiming\<close>

text \<open>A claim takes the oldest claimable run: the job it returns is the run with the least
  id among the pending, unlocked ones of a served runtime; that run becomes running with a
  fresh lease and no other row changes.  It returns nothing only when there is none.\<close>

theorem claim_oldest:
  assumes "runs_wf d" and "claim_run now caps locked d = (job, d')"
  shows "case job of
      None \<Rightarrow> d' = d \<and> (\<forall>r\<in>set (runs d). \<not> claimable caps locked d r)
    | Some j \<Rightarrow> \<exists>r sc. run_by_id (cj_run_id j) d = Some r \<and> claimable caps locked d r \<and>
        get_script (r_script_id r) d = Some sc \<and> j = job_of r sc \<and>
        (\<forall>q\<in>set (runs d). claimable caps locked d q \<longrightarrow> r_id r \<le> r_id q) \<and>
        run_by_id (cj_run_id j) d' = Some (start_run now r) \<and>
        (\<forall>i. i \<noteq> cj_run_id j \<longrightarrow> run_by_id i d' = run_by_id i d)"
proof (cases "select_first r_id (claimable caps locked d) (runs d)")
  case None
  with assms(2) show ?thesis by (auto simp: claim_run_def select_first_None)
next
  case (Some r)
  note sel = select_first_Some [OF Some]
  from sel(2) obtain sc where sc: "get_script (r_script_id r) d = Some sc"
    by (auto simp: claimable_def split: option.splits)
  with assms(2) Some have job: "job = Some (job_of r sc)"
    and d': "d' = d\<lparr>runs := update_where (\<lambda>q. r_id q = r_id r) (start_run now) (runs d)\<rparr>"
    by (auto simp: claim_run_def)
  have lookup: "run_by_id i d' = map_option (\<lambda>q. if r_id q = r_id r then start_run now q else q) (run_by_id i d)"
    for i unfolding d' by (rule run_by_id_update) (simp add: start_run_def)
  have same: "run_by_id i d' = run_by_id i d" if "i \<noteq> r_id r" for i
    using that by (cases "run_by_id i d") (auto simp: lookup dest: run_by_idD)
  show ?thesis
    using sel sc same run_by_id_in [OF assms(1) sel(1)] by (auto simp: job job_of_def lookup)
qed

theorem claim_oldest_witness:
  "case fst (claim_run 5 [''python''] [] sample_db) of None \<Rightarrow> False | Some j \<Rightarrow> cj_run_id j = 1"
proof -
  obtain job d' where c: "claim_run 5 [''python''] [] sample_db = (job, d')" by fastforce
  have "job \<noteq> None \<and> run_by_id 1 sample_db \<noteq> None" using c by (auto simp: sample_simps)
  moreover have "run_by_id i sample_db \<noteq> None \<Longrightarrow> i = 1" for i
    by (auto simp: sample_simps split: if_splits)
  ultimately show ?thesis using claim_oldest [OF sample_wf c] c by (auto split: option.splits)
qed

text \<open>The run ids a history claims, in order.\<close>

fun claims :: "stmt list \<Rightarrow> db \<Rightarrow> int list" where
  "claims [] d = []"
| "claims (s # ss) d =
     (case s of
        Claim now caps locked \<Rightarrow>
          (case fst (claim_run now caps locked d) of None \<Rightarrow> [] | Some j \<Rightarrow> [cj_run_id j])
      | _ \<Rightarrow> []) @ claims ss (exec_stmt s d)"

text \<open>The statements that can make run \<open>i\<close> claimable again.\<close>

fun returns_run :: "int \<Rightarrow> stmt \<Rightarrow> bool" where
  "returns_run i (Requeue j) = (i = j)"
| "returns_run i (Reap now lease) = True"
| "returns_run i _ = False"

definition settled :: "int \<Rightarrow> db \<Rightarrow> bool" where
  "settled i d = (i < run_seq d \<and> get_run_status i d \<noteq> Some Pending)"

lemma settled_step:
  assumes wf: "runs_wf d" and st: "settled i d" and "\<not> returns_run i s"
  shows "settled i (exec_stmt s d)"
proof -
  have "get_run_status i (exec_stmt s d) \<noteq> Some Pending"
  proof
    assume p: "get_run_status i (exec_stmt s d) = Some Pending"
    show False
    proof (cases "get_run_status i d")
      case None
      with gone_step [OF wf] st p show False by (simp add: settled_def)
    next
      case (Some a)
      with status_step [OF wf Some p] st have "moves s i a Pending" by (auto simp: settled_def)
      with assms(3) show False by (cases s) (auto split: if_splits)
    qed
  qed
  with st exec_stmt_seq [of d s] show ?thesis by (auto simp: settled_def)
qed

lemma claim_pending:
  assumes wf: "runs_wf d" and c: "fst (claim_run now caps locked d) = Some j"
  shows "\<not> settled (cj_run_id j) d" and "settled (cj_run_id j) (snd (claim_run now caps locked d))"
proof -
  from c obtain r where s: "select_first r_id (claimable caps locked d) (runs d) = Some r"
    by (auto simp: claim_run_def split: option.splits)
  note sel = select_first_Some [OF s]
  from c s have id: "cj_run_id j = r_id r"
    by (auto simp: claim_run_def job_of_def split: option.splits)
  have get: "run_by_id (r_id r) d = Some r" using run_by_id_in [OF wf sel(1)] .
  with sel(2) show "\<not> settled (cj_run_id j) d"
    by (simp add: id settled_def get_run_status_def claimable_def)
  have "run_by_id (r_id r) (snd (claim_run now caps locked d)) = Some (start_run now r)"
    using s get by (simp add: claim_run_def run_by_id_update start_run_def)
  moreover have "r_id r < run_seq d" using wf sel(1) by (simp add: runs_wf_def)
  ultimately show "settled (cj_run_id j) (snd (claim_run now caps locked d))"
    using s by (simp add: id settled_def get_run_status_def start_run_def claim_run_def)
qed

lemma claims_settled:
  "runs_wf d \<Longrightarrow>
   count_list (claims ss d) i \<le> (if settled i d then 0 else 1) + length (filter (returns_run i) ss)"
proof (induction ss arbitrary: d)
  case (Cons s ss)
  let ?d = "exec_stmt s d"
  have IH: "count_list (claims ss ?d) i \<le>
      (if settled i ?d then 0 else 1) + length (filter (returns_run i) ss)"
    using Cons.IH [OF exec_stmt_wf [OF Cons.prems]] .
  show ?case
  proof (cases "returns_run i s")
    case True
    then have "claims (s # ss) d = claims ss ?d" by (cases s) auto
    moreover have "length (filter (returns_run i) (s # ss)) = Suc (length (filter (returns_run i) ss))"
      using True by simp
    ultimately show ?thesis using IH by (auto split: if_splits)
  next
    case False
    note keep = settled_step [OF Cons.prems _ False]
    show ?thesis
    proof (cases "\<exists>now caps locked j. s = Claim now caps locked \<and>
        fst (claim_run now caps locked d) = Some j \<and> cj_run_id j = i")
      case True
      then obtain now caps locked j where s: "s = Claim now caps locked"
        and j: "fst (claim_run now caps locked d) = Some j" "cj_run_id j = i" by blast
      from claim_pending [OF Cons.prems j(1)] j(2) s
      have "\<not> settled i d" "settled i ?d" by simp_all
      with IH False s j show ?thesis by simp
    next
      case False': False
      then have "count_list (claims (s # ss) d) i = count_list (claims ss ?d) i"
        by (cases s) (auto split: option.splits)
      with IH keep \<open>\<not> returns_run i s\<close> show ?thesis by (auto split: if_splits)
    qed
  qed
qed simp


section \<open>Cancel\<close>

lemma canceled_steps:
  "runs_wf d \<Longrightarrow> get_run_status i d \<in> {None, Some Canceled} \<Longrightarrow> i < run_seq d \<Longrightarrow>
   Requeue i \<notin> set ss \<Longrightarrow> get_run_status i (exec_stmts ss d) \<in> {None, Some Canceled}"
proof (induction ss arbitrary: d)
  case (Cons s ss)
  let ?d = "exec_stmt s d"
  have "get_run_status i ?d \<in> {None, Some Canceled}"
  proof (cases "get_run_status i d")
    case None
    with gone_step [OF Cons.prems(1) None Cons.prems(3)] show ?thesis by simp
  next
    case (Some a)
    with Cons.prems(2) have a: "get_run_status i d = Some Canceled" by simp
    show ?thesis
    proof (cases "get_run_status i ?d")
      case (Some b)
      from status_step [OF Cons.prems(1) a Some] Cons.prems(4) have "b = Canceled"
        by (cases s) auto
      with Some show ?thesis by simp
    qed simp
  qed
  with Cons show ?case using exec_stmt_seq [of d s] by (simp add: exec_stmt_wf)
qed simp

text \<open>C5. A cancel is authoritative: after it, whatever the executor and the other workers do to
  the database, the run stays canceled (or is deleted), as long as nobody requeues it.\<close>

theorem cancel_authoritative:
  assumes "runs_wf d" and "cancel_run now i reason d = (True, d')" and "Requeue i \<notin> set ss"
  shows "get_run_status i (exec_stmts ss d') \<in> {None, Some Canceled}"
proof -
  have d': "d' = snd (cancel_run now i reason d)" using assms(2) by simp
  then have wf: "runs_wf d'" using cancel_run_wf [OF assms(1)] by simp
  from assms(2) obtain r where r: "r \<in> set (runs d)" "r_id r = i" "r_status r \<noteq> Succeeded"
    by (auto simp: cancel_run_def rows_affected_def filter_empty_conv)
  then have get: "run_by_id i d = Some r" using run_by_id_in [OF assms(1)] by blast
  have "run_by_id i d' = Some (r\<lparr>r_status := Canceled, r_error := Some reason, r_finished_at := Some now\<rparr>)"
    using get r unfolding d' by (simp add: cancel_run_def run_by_id_update)
  then have st: "get_run_status i d' = Some Canceled" by (simp add: get_run_status_def)
  have "i < run_seq d'" using assms(1) r unfolding d' by (auto simp: runs_wf_def cancel_run_def)
  with canceled_steps [OF wf _ _ assms(3)] st show ?thesis by simp
qed

theorem cancel_authoritative_witness:
  "get_run_status 1 (exec_stmts [Claim 1 [''python''] [], Finish 2 1 True (Some 0) None]
     (snd (cancel_run 7 1 ''no'' sample_db))) \<in> {None, Some Canceled}"
  by (rule cancel_authoritative [where d = sample_db and now = 7 and reason = "''no''"])
    (simp_all add: sample_wf, simp add: sample_simps)

text \<open>The gap: \<open>requeue\<close> has no status guard, so a cancel that lands between the worker's
  read of the failed outcome and its requeue is undone and the run is claimable again.\<close>

theorem requeue_undoes_cancel:
  assumes "get_run_status i d = Some Canceled"
  shows "get_run_status i (requeue i d) = Some Pending"
proof -
  from assms obtain r where r: "run_by_id i d = Some r" by (auto simp: get_run_status_def)
  then have "r_id r = i" by (auto dest: run_by_idD)
  with r show ?thesis by (simp add: get_run_status_def requeue_def run_by_id_update)
qed

theorem requeue_undoes_cancel_witness:
  "get_run_status 1 (requeue 1 (snd (cancel_run 7 1 ''no'' sample_db))) = Some Pending"
  by (rule requeue_undoes_cancel) (simp add: sample_simps)

section \<open>The lease\<close>

text \<open>The reaper and the heartbeat: after a beat at \<open>t\<close>, a sweep at \<open>now\<close> gives a running
  run back exactly when more than the lease has passed since; runs that are not running and
  runs of other ids are never touched by either.\<close>

theorem lease_exact:
  assumes "run_by_id i d = Some r" and "r_status r = Running"
  shows "run_by_id i (snd (reap_orphan_runs now lease (touch_run t i d))) =
           Some (if lease < now - t then back_to_pending (r\<lparr>r_heartbeat_at := Some t\<rparr>)
                 else r\<lparr>r_heartbeat_at := Some t\<rparr>) \<and>
         (\<forall>j q. run_by_id j d = Some q \<longrightarrow> r_status q \<noteq> Running \<longrightarrow>
            run_by_id j (snd (reap_orphan_runs now lease (touch_run t i d))) = Some q)"
proof -
  have "r_id r = i" using assms(1) by (auto dest: run_by_idD)
  with assms have touched: "run_by_id i (touch_run t i d) = Some (r\<lparr>r_heartbeat_at := Some t\<rparr>)"
    by (simp add: touch_run_def run_by_id_update)
  have reap: "run_by_id k (snd (reap_orphan_runs now lease e)) =
      map_option (\<lambda>q. if r_status q = Running \<and> lease_expired now lease q then back_to_pending q else q)
        (run_by_id k e)" for k e
    by (simp add: reap_orphan_runs_def Let_def run_by_id_update)
  have "run_by_id j (snd (reap_orphan_runs now lease (touch_run t i d))) = Some q"
    if "run_by_id j d = Some q" "r_status q \<noteq> Running" for j q
    using that by (simp add: reap touch_run_def run_by_id_update)
  with assms(2) show ?thesis by (simp add: reap touched lease_expired_def)
qed

theorem lease_exact_witness:
  "get_run_status 1 (snd (reap_orphan_runs (secs 700) (secs 600)
     (touch_run (secs 15) 1 (snd (claim_run 0 [''python''] [] sample_db))))) = Some Pending"
proof -
  let ?d = "snd (claim_run 0 [''python''] [] sample_db)"
  obtain r where r: "run_by_id 1 ?d = Some r" "r_status r = Running" by (simp add: sample_simps)
  from lease_exact [OF r, of "secs 700" "secs 600" "secs 15"] show ?thesis
    by (simp add: get_run_status_def secs_def back_to_pending_def)
qed

end
