(* ===== verification/Exactly_Once.thy ===== *)
theory Exactly_Once
  imports Queue_Laws
begin

text \<open>
  Exactly-once enqueue by idempotency key.  Two operations of \<open>src/db.rs\<close> promise it,
  \<open>insert_run_idempotent\<close> and \<open>insert_flow_run_idempotent\<close>; the locale states their contract
  once and proves what a client that redelivers may rely on.
\<close>

text \<open>
  A history mixes deliveries (payload and key) with other statements on the database; the log
  holds key, id and the \<open>created\<close> flag of every delivery that did not fail.
\<close>

datatype ('a, 's) event = Deliver 'a string | Other 's

fun deliveries ::
    "('a \<Rightarrow> string \<Rightarrow> db \<Rightarrow> db_error + (int \<times> bool) \<times> db) \<Rightarrow> ('s \<Rightarrow> db \<Rightarrow> db) \<Rightarrow>
     ('a, 's) event list \<Rightarrow> db \<Rightarrow> (string \<times> int \<times> bool) list" where
  "deliveries enq step [] d = []"
| "deliveries enq step (Deliver x k # es) d =
     (case enq x k d of
        Inl e \<Rightarrow> deliveries enq step es d
      | Inr ((i, created), d') \<Rightarrow> (k, i, created) # deliveries enq step es d')"
| "deliveries enq step (Other s # es) d = deliveries enq step es (step s d)"

locale idempotent_enqueue =
  fixes enq :: "'a \<Rightarrow> string \<Rightarrow> db \<Rightarrow> db_error + (int \<times> bool) \<times> db"
    and step :: "'s \<Rightarrow> db \<Rightarrow> db"
    and lookup :: "string \<Rightarrow> db \<Rightarrow> int option"
    and inv :: "db \<Rightarrow> bool"
    and harmless :: "'s \<Rightarrow> bool"
  assumes known: "inv d \<Longrightarrow> lookup k d = Some i \<Longrightarrow> enq x k d = Inr (r, d') \<Longrightarrow> r = (i, False)"
    and fresh: "inv d \<Longrightarrow> lookup k d = None \<Longrightarrow> enq x k d = Inr (r, d') \<Longrightarrow>
                snd r \<and> lookup k d' = Some (fst r)"
    and keeps: "inv d \<Longrightarrow> enq x k d = Inr (r, d') \<Longrightarrow>
                inv d' \<and> (lookup k' d = Some j \<longrightarrow> lookup k' d' = Some j)"
    and stepping: "inv d \<Longrightarrow> harmless s \<Longrightarrow>
                inv (step s d) \<and> (lookup k' d = Some j \<longrightarrow> lookup k' (step s d) = Some j)"
begin

definition quiet :: "('a, 's) event list \<Rightarrow> bool" where
  "quiet es = (\<forall>s. Other s \<in> set es \<longrightarrow> harmless s)"

lemma quiet_Cons [simp]:
  "quiet (Deliver x k # es) = quiet es" "quiet (Other s # es) = (harmless s \<and> quiet es)"
  by (auto simp: quiet_def)

lemma recalled:
  "inv d \<Longrightarrow> quiet es \<Longrightarrow> lookup k d = Some i \<Longrightarrow> (k, j, c) \<in> set (deliveries enq step es d) \<Longrightarrow>
   j = i \<and> \<not> c"
proof (induction es arbitrary: d)
  case (Cons e es)
  show ?case
  proof (cases e)
    case (Deliver x k0)
    show ?thesis
    proof (cases "enq x k0 d")
      case (Inr p)
      obtain i0 c0 d' where p: "p = ((i0, c0), d')" by (metis prod.exhaust)
      from Inr p have e: "enq x k0 d = Inr ((i0, c0), d')" by simp
      from keeps [OF Cons.prems(1) e] Cons.prems(3) have d': "inv d'" "lookup k d' = Some i" by auto
      have "k0 = k \<Longrightarrow> (i0, c0) = (i, False)"
        using known [OF Cons.prems(1,3)] e by blast
      moreover have "(k, j, c) \<in> set (deliveries enq step es d') \<Longrightarrow> j = i \<and> \<not> c"
        using Cons.IH [OF d'(1) _ d'(2)] Cons.prems(2) Deliver by simp
      ultimately show ?thesis using Cons.prems(4) by (auto simp: Deliver e)
    qed (use Cons Deliver in auto)
  next
    case (Other s)
    with Cons.prems(2) have "harmless s" by simp
    with stepping [OF Cons.prems(1) this] Cons Other show ?thesis by auto
  qed
qed simp

lemma one_id:
  "inv d \<Longrightarrow> quiet es \<Longrightarrow> \<exists>i. \<forall>j c. (k, j, c) \<in> set (deliveries enq step es d) \<longrightarrow> j = i"
proof (induction es arbitrary: d)
  case (Cons e es)
  show ?case
  proof (cases e)
    case (Deliver x k0)
    show ?thesis
    proof (cases "enq x k0 d")
      case (Inr p)
      obtain i0 c0 d' where p: "p = ((i0, c0), d')" by (metis prod.exhaust)
      from Inr p have e: "enq x k0 d = Inr ((i0, c0), d')" by simp
      from keeps [OF Cons.prems(1) e] have d': "inv d'" by blast
      show ?thesis
      proof (cases "k0 = k")
        case True
        have "lookup k d' = Some i0"
        proof (cases "lookup k d")
          case None
          with fresh [OF Cons.prems(1) None] e True show ?thesis by force
        next
          case (Some i)
          with known [OF Cons.prems(1) Some] keeps [OF Cons.prems(1)] e True show ?thesis by blast
        qed
        from recalled [OF d' _ this] Cons.prems(2) e [unfolded True] show ?thesis
          by (auto simp: Deliver True)
      next
        case False
        with Cons.IH [OF d'] Cons.prems(2) show ?thesis by (auto simp: Deliver e)
      qed
    qed (use Cons Deliver in auto)
  next
    case (Other s)
    with Cons.prems(2) have "harmless s" by simp
    with stepping [OF Cons.prems(1) this] Cons Other show ?thesis by auto
  qed
qed simp

abbreviation creations :: "string \<Rightarrow> (string \<times> int \<times> bool) list \<Rightarrow> nat" where
  "creations k ds \<equiv> length (filter (\<lambda>(k', i, c). k' = k \<and> c) ds)"

lemma creations_known:
  assumes "inv d" "quiet es" "lookup k d = Some i"
  shows "creations k (deliveries enq step es d) = 0"
  using recalled [OF assms] by (fastforce simp: filter_empty_conv)

lemma one_creation:
  "inv d \<Longrightarrow> quiet es \<Longrightarrow> creations k (deliveries enq step es d) \<le> 1"
proof (induction es arbitrary: d)
  case (Cons e es)
  show ?case
  proof (cases e)
    case (Deliver x k0)
    show ?thesis
    proof (cases "enq x k0 d")
      case (Inr p)
      obtain i0 c0 d' where p: "p = ((i0, c0), d')" by (metis prod.exhaust)
      from Inr p have e: "enq x k0 d = Inr ((i0, c0), d')" by simp
      from keeps [OF Cons.prems(1) e] have d': "inv d'" by blast
      have rest: "creations k (deliveries enq step es d') \<le> 1"
        using Cons.IH [OF d'] Cons.prems(2) Deliver by simp
      show ?thesis
      proof (cases "k0 = k \<and> c0")
        case True
        then have "lookup k d = None"
          using known [OF Cons.prems(1), of k _ x "(i0, c0)" d'] e by (cases "lookup k d") auto
        with fresh [OF Cons.prems(1) this] e True have "lookup k d' = Some i0" by force
        from e True have "enq x k d = Inr ((i0, True), d')" by simp
        with creations_known [OF d' _ \<open>lookup k d' = Some i0\<close>] Cons.prems(2) True show ?thesis
          by (simp add: Deliver)
      qed (use rest in \<open>auto simp: Deliver e\<close>)
    qed (use Cons Deliver in auto)
  next
    case (Other s)
    with Cons.prems(2) have "harmless s" by simp
    with stepping [OF Cons.prems(1) this] Cons Other show ?thesis by auto
  qed
qed simp

lemma exactly_once:
  assumes "inv d" and "quiet es"
  shows "(\<exists>i. \<forall>j c. (k, j, c) \<in> set (deliveries enq step es d) \<longrightarrow> j = i) \<and>
         length (filter (\<lambda>(k', i, c). k' = k \<and> c) (deliveries enq step es d)) \<le> 1"
  using one_id [OF assms] one_creation [OF assms] by blast

end

section \<open>Runs\<close>

text \<open>The payload of a run: everything \<open>insert_run_idempotent\<close> takes but the key.\<close>

type_synonym run_payload = "time \<times> int \<times> json \<times> string option \<times> json option \<times> bool"

definition enqueue_run :: "run_payload \<Rightarrow> string \<Rightarrow> db \<Rightarrow> db_error + (int \<times> bool) \<times> db" where
  "enqueue_run p key d =
     (case p of (now, sid, input, agent, inb, cap) \<Rightarrow>
        insert_run_idempotent now sid input agent inb cap key d)"

definition run_of_key :: "string \<Rightarrow> db \<Rightarrow> int option" where
  "run_of_key k d = map_option r_id (find (\<lambda>r. r_idempotency_key r = Some k) (runs d))"

text \<open>Only the retention sweep and \<open>delete_script\<close> remove runs, and with them their keys.\<close>

fun keeps_runs :: "stmt \<Rightarrow> bool" where
  "keeps_runs (GcOld now days) = False"
| "keeps_runs (DeleteScript i) = False"
| "keeps_runs s = True"

lemma find_key_update:
  "(\<And>r. key (f r) = key r) \<Longrightarrow>
   find (\<lambda>r. key r = k) (update_where P f rs) =
     map_option (\<lambda>r. if P r then f r else r) (find (\<lambda>r. key r = k) rs)"
  by (rule find_update_where)

lemma run_of_key_update:
  "(\<And>r. r_idempotency_key (f r) = r_idempotency_key r) \<Longrightarrow> (\<And>r. r_id (f r) = r_id r) \<Longrightarrow>
   run_of_key k (d\<lparr>runs := update_where P f (runs d)\<rparr>) = run_of_key k d"
  by (cases "find (\<lambda>r. r_idempotency_key r = Some k) (runs d)")
    (simp_all add: run_of_key_def find_update_where [where key = r_idempotency_key])

lemma run_of_key_append:
  "run_of_key k d = Some i \<Longrightarrow> runs d' = runs d @ rs \<Longrightarrow> run_of_key k d' = Some i"
  by (auto simp: run_of_key_def find_append)

lemma run_of_key_cong: "runs d' = runs d \<Longrightarrow> run_of_key k d' = run_of_key k d"
  by (simp add: run_of_key_def)

lemma enqueue_targets_append: "\<exists>rs. runs (snd (enqueue_targets now input ts d)) = runs d @ rs"
proof (induction ts arbitrary: d)
  case (Cons t ts)
  let ?d = "d\<lparr>runs := runs d @ [new_run (run_seq d) (tg_target t) input (tg_agent_id t) now],
              run_seq := run_seq d + 1\<rparr>"
  from Cons.IH [of ?d] show ?case by (auto simp: split_beta Let_def)
qed simp

lemma run_of_key_step:
  assumes "keeps_runs s" and k: "run_of_key k d = Some i"
  shows "run_of_key k (exec_stmt s d) = Some i"
proof (cases s)
  case (FireTriggers contains now rid v)
  with k enqueue_targets_append show ?thesis
    by (force simp: fire_triggers_def intro: run_of_key_append)
next
  case (Claim now caps locked)
  with k show ?thesis by (auto simp: claim_run_def run_of_key_update start_run_def split: option.splits)
next
  case (InsertRun x1 x2 x3 x4 x5 x6)
  with k show ?thesis
    by (auto simp: or_unchanged_def insert_run_with_blobs_def intro: run_of_key_append)
next
  case (InsertIdem x1 x2 x3 x4 x5 x6 x7)
  with k show ?thesis
    by (auto simp: or_unchanged_def insert_run_idempotent_def intro: run_of_key_append
        split: option.splits)
next
  case (InsertRefused x1 x2 x3 x4 x5 x6)
  with k show ?thesis
    by (auto simp: or_unchanged_def insert_refused_run_def intro: run_of_key_append)
next
  case (Mark x)
  with k show ?thesis
    by (auto simp: or_unchanged_def mark_attempt_def run_of_key_update split: option.splits)
next
  case (InsertTrigger x1 x2 x3 x4)
  with k show ?thesis
    by (auto simp: or_unchanged_def insert_trigger_def run_of_key_def)
next
  case (UpdateScript x1 x2 x3 x4 x5 x6 x7 x8 x9 x10)
  with k show ?thesis
    by (auto simp: or_unchanged_def update_script_def run_of_key_def split: option.splits)
next
  case (InsertScript x1 x2 x3 x4 x5 x6 x7 x8 x9 x10)
  with k show ?thesis by (simp add: insert_script_def run_of_key_def)
next
  case (DeleteTrigger x)
  with k show ?thesis by (simp add: delete_trigger_def run_of_key_def)
qed (use assms in \<open>simp_all add: touch_run_def finish_run_def cancel_run_def requeue_def
       reap_orphan_runs_def Let_def fail_stale_pending_def set_run_result_def
       set_run_output_blobs_def set_run_receipt_def update_run_progress_def set_run_cache_key_def
       run_of_key_update run_of_key_cong [OF registry_rows(1)] run_of_key_cong [OF registry_rows(3)]
       run_of_key_cong [of "exec_stmt (Elsewhere e) d" d for e d, simplified]\<close>)

interpretation run_enqueue: idempotent_enqueue enqueue_run exec_stmt run_of_key runs_wf keeps_runs
proof
  fix d d' k i x r
  assume wf: "runs_wf d" and e: "enqueue_run x k d = Inr (r, d')"
  show "r = (i, False)" if "run_of_key k d = Some i"
    using that e
    by (auto simp: run_of_key_def enqueue_run_def insert_run_idempotent_def has_idem_key_def find_None
        split: prod.splits if_splits option.splits dest!: find_SomeD)
  show "snd r \<and> run_of_key k d' = Some (fst r)" if "run_of_key k d = None"
    using that e
    by (auto simp: run_of_key_def enqueue_run_def insert_run_idempotent_def has_idem_key_def
        find_append find_None new_run_def split: prod.splits if_splits option.splits dest!: find_SomeD)
next
  fix d d' k k' j x r
  assume wf: "runs_wf d" and e: "enqueue_run x k d = Inr (r, d')"
  obtain now sid input agent inb cap where x: "x = (now, sid, input, agent, inb, cap)"
    by (metis prod.exhaust)
  from e have i: "insert_run_idempotent now sid input agent inb cap k d = Inr (r, d')"
    by (simp add: enqueue_run_def x)
  have "run_of_key k' (exec_stmt (InsertIdem now sid input agent inb cap k) d) = Some j"
    if "run_of_key k' d = Some j" by (rule run_of_key_step [OF _ that]) simp
  then show "runs_wf d' \<and> (run_of_key k' d = Some j \<longrightarrow> run_of_key k' d' = Some j)"
    using insert_run_idempotent_wf [OF wf i] i by (simp add: or_unchanged_def)
qed (simp add: exec_stmt_wf run_of_key_step)

text \<open>C3. Exactly-once runs: however often a client redelivers under a key, and whatever else
  happens to the queue in between (short of deleting runs), every successful delivery returns
  the same run id and at most one of them created it.\<close>

theorem run_exactly_once:
  assumes "\<forall>s. Other s \<in> set es \<longrightarrow> keeps_runs s"
  shows "(\<exists>i. \<forall>j c. (k, j, c) \<in> set (deliveries enqueue_run exec_stmt es (exec_stmts ss empty_db)) \<longrightarrow> j = i) \<and>
         length (filter (\<lambda>(k', i, c). k' = k \<and> c)
           (deliveries enqueue_run exec_stmt es (exec_stmts ss empty_db))) \<le> 1"
  using run_enqueue.exactly_once [OF exec_stmts_wf [OF empty_db_wf]] assms
  by (simp add: run_enqueue.quiet_def)

theorem run_exactly_once_witness:
  "length (filter (\<lambda>(k', i, c). k' = ''k'' \<and> c)
     (deliveries enqueue_run exec_stmt
       [Deliver (0, 1, JObj [], None, None, False) ''k'', Other (Claim 1 [''python''] []),
        Deliver (2, 1, JNull, None, None, False) ''k'']
       (exec_stmts [InsertScript ''s'' ''python'' ''x'' None None False None None False None] empty_db))) \<le> 1"
  using run_exactly_once [where es = "[Deliver (0, 1, JObj [], None, None, False) ''k'',
      Other (Claim 1 [''python''] []), Deliver (2, 1, JNull, None, None, False) ''k'']"
      and k = "''k''" and ss = "[InsertScript ''s'' ''python'' ''x'' None None False None None False None]"]
  by simp

end
