(* ===== verification/Retention.thy ===== *)
theory Retention
  imports Queue_Laws
begin

text \<open>
  What the hourly retention sweep of \<open>src/main.rs\<close> (\<open>gc_old\<close>, \<open>gc_blobs\<close>, \<open>gc_logs\<close> of
  \<open>src/db.rs\<close>) may delete and must keep.
\<close>

definition logs_ok :: "db \<Rightarrow> bool" where
  "logs_ok d = (\<forall>l\<in>set (logs d). \<exists>r\<in>set (runs d). r_id r = l_run_id l)"

text \<open>Every blob that a run or an enabled schedule names is in the store.\<close>

definition refs_resolve :: "db \<Rightarrow> bool" where
  "refs_resolve d = (\<forall>h. blob_referenced d h \<longrightarrow> blob_exists h d)"

lemma run_expired_finished: "run_expired now days r \<Longrightarrow> r_finished_at r \<noteq> None"
  by (cases "r_finished_at r") (simp_all add: run_expired_def)

lemma gc_old_parts:
  "runs (snd (gc_old now days d)) = delete_where (run_expired now days) (runs d)"
  "logs (snd (gc_old now days d)) =
     delete_where (\<lambda>l. l_run_id l \<in> r_id ` {r \<in> set (runs d). run_expired now days r}) (logs d)"
  "blobs (snd (gc_old now days d)) = blobs d"
  "schedules (snd (gc_old now days d)) = schedules d"
  "scripts (snd (gc_old now days d)) = scripts d"
  by (simp_all add: gc_old_def gc_logs_def Let_def)

text \<open>The sweep deletes exactly the runs that finished longer ago than the horizon, and
  exactly their logs: every log row that survives belongs to a surviving run, every log row of a
  surviving run survives, and no run without a finish time is touched.\<close>

theorem gc_old_exact:
  assumes "runs_wf d" and "logs_ok d" and "gc_old now days d = ((n_runs, n_logs), d')"
  shows "runs d' = filter (\<lambda>r. \<not> run_expired now days r) (runs d) \<and>
         logs d' = filter (\<lambda>l. \<exists>r\<in>set (runs d'). r_id r = l_run_id l) (logs d) \<and>
         n_runs + length (runs d') = length (runs d) \<and>
         n_logs + length (logs d') = length (logs d) \<and> runs_wf d' \<and> logs_ok d' \<and>
         (\<forall>r\<in>set (runs d). r_finished_at r = None \<longrightarrow> r \<in> set (runs d'))"
proof -
  from assms(3) have d': "d' = snd (gc_old now days d)" by simp
  have runs': "runs d' = filter (\<lambda>r. \<not> run_expired now days r) (runs d)"
    by (simp add: d' gc_old_parts delete_where_def)
  have alive: "(\<exists>r\<in>set (runs d'). r_id r = l_run_id l) \<longleftrightarrow>
      l_run_id l \<notin> r_id ` {r \<in> set (runs d). run_expired now days r}"
    if l: "l \<in> set (logs d)" for l
  proof -
    obtain r where r: "r \<in> set (runs d)" "r_id r = l_run_id l"
      using assms(2) l by (auto simp: logs_ok_def)
    have uniq: "q = r" if "q \<in> set (runs d)" "r_id q = l_run_id l" for q
      using assms(1) r that by (auto simp: runs_wf_def dest: distinct_key_eq)
    have "(\<exists>q\<in>set (runs d'). r_id q = l_run_id l) \<longleftrightarrow> \<not> run_expired now days r"
      unfolding runs' set_filter using r uniq by blast
    moreover have "l_run_id l \<in> r_id ` {r \<in> set (runs d). run_expired now days r} \<longleftrightarrow> run_expired now days r"
    proof
      assume "l_run_id l \<in> r_id ` {r \<in> set (runs d). run_expired now days r}"
      then obtain q where "q \<in> set (runs d)" "run_expired now days q" "r_id q = l_run_id l" by force
      with uniq show "run_expired now days r" by blast
    qed (use r in \<open>simp flip: r(2)\<close>)
    ultimately show ?thesis by blast
  qed
  have logs': "logs d' = filter (\<lambda>l. \<exists>r\<in>set (runs d'). r_id r = l_run_id l) (logs d)"
  proof -
    have "logs d' = filter (\<lambda>l. l_run_id l \<notin> r_id ` {r \<in> set (runs d). run_expired now days r}) (logs d)"
      by (simp add: d' gc_old_parts(2) delete_where_def)
    also have "\<dots> = filter (\<lambda>l. \<exists>r\<in>set (runs d'). r_id r = l_run_id l) (logs d)"
      by (rule filter_cong [OF refl]) (use alive in blast)
    finally show ?thesis .
  qed
  have wf': "runs_wf d'" using gc_old_wf [OF assms(1)] d' by simp
  have ok': "logs_ok d'" by (auto simp: logs_ok_def logs')
  have counts: "n_runs = rows_affected (run_expired now days) (runs d)"
    "n_logs = rows_affected (\<lambda>l. l_run_id l \<in> r_id ` {r \<in> set (runs d). run_expired now days r}) (logs d)"
    using assms(3) by (auto simp: gc_old_def gc_logs_def Let_def)
  have "length (filter P xs) + length (filter (\<lambda>x. \<not> P x) xs) = length xs" for P and xs :: "'x list"
    by (rule sum_length_filter_compl)
  then have "n_runs + length (runs d') = length (runs d)" "n_logs + length (logs d') = length (logs d)"
    by (simp_all add: counts rows_affected_def runs' d' gc_old_parts delete_where_def)
  then show ?thesis
    using wf' ok' logs' by (auto simp: runs' dest: run_expired_finished)
qed

definition swept_db :: db where
  "swept_db = exec_stmts [InsertScript ''s'' ''python'' ''x'' None None False None None False None,
     InsertRun 0 1 (JObj []) None None False, InsertRun 0 1 (JObj []) None None False,
     Claim 1 [''python''] [], Finish 2 1 True (Some 0) None] empty_db"

lemma swept_wf: "runs_wf swept_db"
  unfolding swept_db_def by (rule exec_stmts_wf [OF empty_db_wf])

theorem gc_old_exact_witness:
  "map r_id (runs (snd (gc_old (secs 90000) 1 swept_db))) = [2]"
proof -
  have ok: "logs_ok swept_db" by (simp add: swept_db_def sample_simps logs_ok_def)
  obtain a b d' where g: "gc_old (secs 90000) 1 swept_db = ((a, b), d')" by (metis prod.exhaust)
  from gc_old_exact [OF swept_wf ok g]
  have "runs d' = filter (\<lambda>r. \<not> run_expired (secs 90000) 1 r) (runs swept_db)" by blast
  then show ?thesis
    by (simp add: g) (simp add: swept_db_def sample_simps run_expired_def secs_def)
qed

text \<open>The gap in that guarantee: a requeue keeps the old \<open>finished_at\<close>, so a failed run that
  a worker has just put back in the queue is deleted by the next sweep once that time is past
  the horizon, although it is pending.\<close>

theorem gc_deletes_requeued:
  assumes "runs_wf d" and "run_by_id i d = Some r" and "run_expired now days r"
  shows "get_run_status i (requeue i d) = Some Pending \<and>
         get_run_status i (snd (gc_old now days (requeue i d))) = None"
proof -
  from assms(2) have i: "r_id r = i" "r \<in> set (runs d)" by (auto dest: run_by_idD)
  have lookup: "run_by_id i (requeue i d) = Some (back_to_pending r)"
    using assms(2) i by (simp add: requeue_def run_by_id_update)
  have "q \<notin> set (runs (snd (gc_old now days (requeue i d))))" if q: "r_id q = i" for q
  proof
    assume "q \<in> set (runs (snd (gc_old now days (requeue i d))))"
    then have q': "q \<in> set (runs (requeue i d))" "\<not> run_expired now days q"
      by (simp_all add: gc_old_parts)
    then have "q = back_to_pending r"
      using run_by_id_in [OF requeue_wf [OF assms(1)], of q] lookup q by simp
    with q'(2) assms(3) show False by (simp add: run_expired_def)
  qed
  then have "run_by_id i (snd (gc_old now days (requeue i d))) = None"
    unfolding run_by_id_def find_None by blast
  with lookup show ?thesis by (simp add: get_run_status_def)
qed

theorem gc_deletes_requeued_witness:
  "get_run_status 1 (requeue 1 swept_db) = Some Pending \<and>
   get_run_status 1 (snd (gc_old (secs 90000) 1 (requeue 1 swept_db))) = None"
proof -
  obtain r where r: "run_by_id 1 swept_db = Some r" "run_expired (secs 90000) 1 r"
    by (simp add: swept_db_def sample_simps run_expired_def secs_def)
  show ?thesis by (rule gc_deletes_requeued [OF swept_wf r])
qed

section \<open>Blobs\<close>

lemma referenced_mono:
  "set (runs d') \<subseteq> set (runs d) \<Longrightarrow> schedules d' = schedules d \<Longrightarrow> blob_referenced d' h \<Longrightarrow> blob_referenced d h"
  by (auto simp: blob_referenced_def)

lemma sweep_parts:
  "runs (retention_sweep now days d) = runs (snd (gc_old now days d))"
  "schedules (retention_sweep now days d) = schedules d"
  "blobs (retention_sweep now days d) =
     filter (\<lambda>b. of_int now - days * 86400 * 1000000 \<le> of_int (b_last_used_at b) \<or>
                 blob_referenced (snd (gc_old now days d)) (b_sha b)) (blobs d)"
  by (auto simp: retention_sweep_def gc_blobs_def Let_def gc_old_parts delete_where_def
      intro!: filter_cong)

lemma referenced_sweep:
  "blob_referenced (retention_sweep now days d) h = blob_referenced (snd (gc_old now days d)) h"
  by (simp add: blob_referenced_def sweep_parts gc_old_parts)

text \<open>C19. Blob collection: the sweep keeps exactly the blobs that were used within the horizon
  or that a surviving run or an enabled schedule still names, so a database whose blob references
  all resolve still has that property afterwards.\<close>

theorem blob_gc_sound:
  assumes "refs_resolve d"
  shows "refs_resolve (retention_sweep now days d) \<and>
         (\<forall>b. b \<in> set (blobs (retention_sweep now days d)) \<longleftrightarrow>
            b \<in> set (blobs d) \<and>
            (of_int now - days * 86400 * 1000000 \<le> of_int (b_last_used_at b) \<or>
             blob_referenced (retention_sweep now days d) (b_sha b)))"
proof -
  have mono: "blob_referenced (retention_sweep now days d) h \<Longrightarrow> blob_referenced d h" for h
    by (erule referenced_mono [rotated 2]) (auto simp: sweep_parts gc_old_parts)
  have blobs': "b \<in> set (blobs (retention_sweep now days d)) \<longleftrightarrow>
            b \<in> set (blobs d) \<and>
            (of_int now - days * 86400 * 1000000 \<le> of_int (b_last_used_at b) \<or>
             blob_referenced (retention_sweep now days d) (b_sha b))" for b
    by (auto simp: sweep_parts referenced_sweep)
  have "blob_exists h (retention_sweep now days d)"
    if ref: "blob_referenced (retention_sweep now days d) h" for h
  proof -
    obtain b where "b \<in> set (blobs d)" "b_sha b = h"
      using assms mono [OF ref] by (auto simp: refs_resolve_def blob_exists_def)
    with blobs' [of b] ref show ?thesis by (auto simp: blob_exists_def)
  qed
  with blobs' show ?thesis by (auto simp: refs_resolve_def)
qed

theorem blob_gc_sound_witness:
  "refs_resolve (retention_sweep (secs 900000) 1
     (snd (put_blob (\<lambda>b. ''h'') 0 ''data''
       (exec_stmts [InsertScript ''s'' ''python'' ''x'' None None False None None False None,
          InsertRun 0 1 (JObj []) None (Some (JObj [(''in'', JStr ''h'')])) False] empty_db))))"
  by (rule blob_gc_sound [THEN conjunct1])
    (auto simp: refs_resolve_def blob_referenced_def blob_map_has_def blob_exists_def put_blob_def
      sample_simps)

end
