(* ===== verification/Fairness.thy ===== *)
theory Fairness
  imports Queue_Laws
begin

text \<open>
  The queue is fair.  \<open>claim_run\<close> takes the least id it can serve and new runs get larger ids, so a
  waiting run is delayed only by the runs ahead of it and by those that a requeue or the reaper
  puts back ahead of it.
\<close>

definition ahead :: "int \<Rightarrow> db \<Rightarrow> int set" where
  "ahead i d = {j. j < i \<and> get_run_status j d = Some Pending}"

lemma finite_ahead: "finite (ahead i d)"
proof (rule finite_subset)
  show "ahead i d \<subseteq> r_id ` set (runs d)"
    by (auto simp: ahead_def get_run_status_def run_by_id_def find_Some_iff image_iff)
qed simp

text \<open>The claims of a history that could have taken run \<open>i\<close>.\<close>

fun serves :: "int \<Rightarrow> stmt \<Rightarrow> db \<Rightarrow> bool" where
  "serves i (Claim now caps locked) d = (\<exists>r\<in>set (runs d). r_id r = i \<and> claimable caps locked d r)"
| "serves i _ d = False"

fun chances :: "int \<Rightarrow> stmt list \<Rightarrow> db \<Rightarrow> nat" where
  "chances i [] d = 0"
| "chances i (s # ss) d = (if serves i s d then 1 else 0) + chances i ss (exec_stmt s d)"

text \<open>How many runs ahead of \<open>i\<close> a history makes wait again.\<close>

fun setbacks :: "int \<Rightarrow> stmt list \<Rightarrow> db \<Rightarrow> nat" where
  "setbacks i [] d = 0"
| "setbacks i (s # ss) d = card (ahead i (exec_stmt s d) - ahead i d) + setbacks i ss (exec_stmt s d)"

lemma setback_cause:
  assumes "runs_wf d" and "i \<le> run_seq d" and "j \<in> ahead i (exec_stmt s d) - ahead i d"
  shows "returns_run j s"
proof (rule ccontr)
  assume "\<not> returns_run j s"
  moreover have "settled j d" using assms(2,3) by (auto simp: settled_def ahead_def)
  ultimately have "settled j (exec_stmt s d)" by (rule settled_step [OF assms(1), rotated])
  with assms(3) show False by (simp add: settled_def ahead_def)
qed

lemma no_setbacks:
  "runs_wf d \<Longrightarrow> i \<le> run_seq d \<Longrightarrow> list_all (\<lambda>s. \<forall>j. \<not> returns_run j s) ss \<Longrightarrow> setbacks i ss d = 0"
proof (induction ss arbitrary: d)
  case (Cons s ss)
  have "ahead i (exec_stmt s d) - ahead i d = {}"
    using setback_cause [OF Cons.prems(1,2)] Cons.prems(3) by auto
  then have "card (ahead i (exec_stmt s d) - ahead i d) = 0" by (simp only: card.empty)
  with Cons.IH [OF exec_stmt_wf [OF Cons.prems(1)]] Cons.prems(2,3) exec_stmt_seq [of d s] show ?case by simp
qed simp

text \<open>A claim that could have taken \<open>i\<close> and did not took a run ahead of it.\<close>

lemma served_other:
  assumes wf: "runs_wf d" and s: "serves i s d" and n: "i \<notin> set (claims [s] d)"
  shows "\<exists>j\<in>ahead i d. j \<notin> ahead i (exec_stmt s d)"
proof -
  obtain now caps locked q where c: "s = Claim now caps locked"
    and q: "q \<in> set (runs d)" "r_id q = i" "claimable caps locked d q"
    using s by (cases s) auto
  obtain r where sel: "select_first r_id (claimable caps locked d) (runs d) = Some r"
    using q select_first_None by (metis option.exhaust)
  note r = select_first_Some [OF sel]
  obtain sc where sc: "get_script (r_script_id r) d = Some sc"
    using r(2) by (auto simp: claimable_def split: option.splits)
  have job: "fst (claim_run now caps locked d) = Some (job_of r sc)" by (simp add: claim_run_def sel sc)
  have id: "cj_run_id (job_of r sc) = r_id r" by (simp add: job_of_def)
  have "r_id r \<noteq> i" using n job id by (simp add: c)
  moreover have "r_id r \<le> i" using r(3) [OF q(1,3)] q(2) by simp
  ultimately have "r_id r < i" by simp
  moreover have "get_run_status (r_id r) d = Some Pending"
    using run_by_id_in [OF wf r(1)] r(2) by (simp add: get_run_status_def claimable_def)
  moreover have "settled (r_id r) (exec_stmt s d)"
    using claim_pending(2) [OF wf job] id by (simp add: c)
  ultimately show ?thesis by (intro bexI [of _ "r_id r"]) (auto simp: ahead_def settled_def)
qed

lemma chances_bounded:
  "runs_wf d \<Longrightarrow> i \<notin> set (claims ss d) \<Longrightarrow> chances i ss d \<le> card (ahead i d) + setbacks i ss d"
proof (induction ss arbitrary: d)
  case (Cons s ss)
  let ?d = "exec_stmt s d" and ?A = "ahead i d" and ?B = "ahead i (exec_stmt s d)"
  have here: "i \<notin> set (claims [s] d)" and rest: "i \<notin> set (claims ss ?d)"
    using Cons.prems(2) by (cases s; auto)+
  note IH = Cons.IH [OF exec_stmt_wf [OF Cons.prems(1)] rest]
  have "card ?B + (if serves i s d then 1 else 0) \<le> card ?A + card (?B - ?A)"
  proof (cases "serves i s d")
    case True
    then obtain j where j: "j \<in> ?A" "j \<notin> ?B" using served_other [OF Cons.prems(1) _ here] by blast
    then have "?B \<subseteq> (?A - {j}) \<union> (?B - ?A)" by auto
    then have "card ?B \<le> card (?A - {j}) + card (?B - ?A)"
      by (meson card_Un_le card_mono finite_Diff finite_UnI finite_ahead le_trans)
    moreover have "card (?A - {j}) + 1 = card ?A" 
      using card_Suc_Diff1 [OF finite_ahead j(1)] by simp
    ultimately show ?thesis using True by simp
  next
    case False
    have "?B \<subseteq> ?A \<union> (?B - ?A)" by auto
    then have "card ?B \<le> card ?A + card (?B - ?A)"
      by (meson card_Un_le card_mono finite_Diff finite_UnI finite_ahead le_trans)
    with False show ?thesis by simp
  qed
  with IH show ?case by simp
qed simp

text \<open>
  C6. No starvation: in any history of the queue, a run that gets more chances than there are runs
  waiting ahead of it, plus runs put back ahead of it meanwhile, is claimed.  A chance is a claim by
  a worker of the right runtime at which the run waits and is not locked.
\<close>
theorem waiting_run_claimed:
  assumes "runs_wf d" and "card (ahead i d) + setbacks i ss d < chances i ss d"
  shows "i \<in> set (claims ss d)"
  using chances_bounded [OF assms(1), of i ss] assms(2) by linarith

theorem waiting_run_claimed_witness:
  "1 \<in> set (claims [InsertRun 3 1 (JObj []) None None False, Claim 5 [''python''] []] sample_db)"
proof (rule waiting_run_claimed [OF sample_wf])
  let ?s = "InsertRun 3 1 (JObj []) None None False" and ?c = "Claim 5 [''python''] []"
  have "ahead 1 sample_db = {}" by (auto simp: ahead_def sample_simps split: if_splits)
  moreover have "setbacks 1 [?s, ?c] sample_db = 0"
    by (rule no_setbacks [OF sample_wf]) (simp_all add: sample_simps)
  moreover have "chances 1 [?s, ?c] sample_db = 1" by (simp add: sample_simps)
  ultimately show "card (ahead 1 sample_db) + setbacks 1 [?s, ?c] sample_db < chances 1 [?s, ?c] sample_db"
    by simp
qed

end
