(* ===== verification/Flow_Graph.thy ===== *)
theory Flow_Graph
  imports Prelude
begin

text \<open>
  The cycle check of the flow-spec gate (\<open>has_cycle\<close> in \<open>src/flow.rs\<close>), a three-colour
  depth-first search.  The search is given fuel; as many units as the graph has nodes are always
  enough.  Rust's \<open>HashMap\<close> iterates in an unspecified order, so the order of the keys is an
  argument.
\<close>

section \<open>Cycle search\<close>

type_synonym edges = "string \<Rightarrow> string list option"
text \<open>The source's 0, 1 and 2; a node absent from its map is 0.\<close>

datatype mark = Unseen | InStack | Done

type_synonym marks = "string \<Rightarrow> mark"

fun dfs :: "nat \<Rightarrow> edges \<Rightarrow> string \<Rightarrow> marks \<Rightarrow> (bool \<times> marks) option"
  and dfs_deps :: "nat \<Rightarrow> edges \<Rightarrow> string list \<Rightarrow> marks \<Rightarrow> (bool \<times> marks) option" where
  "dfs 0 e n st = None"
| "dfs (Suc fuel) e n st =
     (case dfs_deps fuel e (case e n of Some ds \<Rightarrow> ds | None \<Rightarrow> []) (st(n := InStack)) of
        None \<Rightarrow> None
      | Some (True, st') \<Rightarrow> Some (True, st')
      | Some (False, st') \<Rightarrow> Some (False, st'(n := Done)))"
| "dfs_deps fuel e [] st = Some (False, st)"
| "dfs_deps fuel e (d # ds) st =
     (if st d = InStack then Some (True, st)
      else if st d = Unseen then
        (case dfs fuel e d st of
           None \<Rightarrow> None
         | Some (True, st') \<Rightarrow> Some (True, st')
         | Some (False, st') \<Rightarrow> dfs_deps fuel e ds st')
      else dfs_deps fuel e ds st)"

fun cycle_from :: "nat \<Rightarrow> edges \<Rightarrow> string list \<Rightarrow> marks \<Rightarrow> bool option" where
  "cycle_from fuel e [] st = Some False"
| "cycle_from fuel e (n # ns) st =
     (if st n = Unseen then
        (case dfs fuel e n st of
           None \<Rightarrow> None
         | Some (True, _) \<Rightarrow> Some True
         | Some (False, st') \<Rightarrow> cycle_from fuel e ns st')
      else cycle_from fuel e ns st)"

definition graph_nodes :: "string list \<Rightarrow> edges \<Rightarrow> string list" where
  "graph_nodes ks e = ks @ concat (map (\<lambda>k. case e k of Some ds \<Rightarrow> ds | None \<Rightarrow> []) ks)"

definition has_cycle :: "string list \<Rightarrow> edges \<Rightarrow> bool option" where
  "has_cycle ks e = cycle_from (length (graph_nodes ks e)) e ks (\<lambda>_. Unseen)"

text \<open>The specification: the dependency relation has a cycle.\<close>

definition depends :: "edges \<Rightarrow> (string \<times> string) set" where
  "depends e = {(n, d). \<exists>ds. e n = Some ds \<and> d \<in> set ds}"

definition done_ok :: "edges \<Rightarrow> marks \<Rightarrow> bool" where
  "done_ok e st =
     (\<forall>n. st n = Done \<longrightarrow> (\<forall>d. (n, d) \<in> depends e \<longrightarrow> st d = Done) \<and> (n, n) \<notin> (depends e)\<^sup>+)"

text \<open>What a search that found nothing leaves behind.\<close>

definition extends :: "marks \<Rightarrow> marks \<Rightarrow> bool" where
  "extends st st' = (\<forall>x. (st' x = InStack \<longleftrightarrow> st x = InStack) \<and> (st x = Done \<longrightarrow> st' x = Done))"

lemma extends_refl [simp]: "extends st st"
  by (simp add: extends_def)

lemma extends_trans: "extends a b \<Longrightarrow> extends b c \<Longrightarrow> extends a c"
  by (simp add: extends_def)

lemma done_closed: "done_ok e st \<Longrightarrow> st n = Done \<Longrightarrow> (n, m) \<in> (depends e)\<^sup>* \<Longrightarrow> st m = Done"
  by (erule rtrancl_induct) (auto simp: done_ok_def)

lemma done_ok_finish:
  assumes ok: "done_ok e st'" and gray: "st' n = InStack"
    and deps: "\<And>d. (n, d) \<in> depends e \<Longrightarrow> st' d = Done"
  shows "done_ok e (st'(n := Done))"
proof -
  have "(n, n) \<notin> (depends e)\<^sup>+"
  proof
    assume "(n, n) \<in> (depends e)\<^sup>+"
    then obtain d where "(n, d) \<in> depends e" "(d, n) \<in> (depends e)\<^sup>*" by (metis tranclD)
    with done_closed [OF ok] deps gray show False by fastforce
  qed
  with ok deps show ?thesis by (auto simp: done_ok_def)
qed

lemma dfs_correct:
  "dfs fuel e n st = Some (b, st') \<Longrightarrow> st n = Unseen \<Longrightarrow> done_ok e st \<Longrightarrow>
     \<forall>g. st g = InStack \<longrightarrow> (g, n) \<in> (depends e)\<^sup>* \<Longrightarrow>
     (if b then \<exists>x. (x, x) \<in> (depends e)\<^sup>+ else extends st st' \<and> st' n = Done \<and> done_ok e st')"
  "dfs_deps fuel e ds st = Some (b, st') \<Longrightarrow> done_ok e st \<Longrightarrow>
     (\<And>n d. n = src \<Longrightarrow> d \<in> set ds \<Longrightarrow> (n, d) \<in> depends e) \<Longrightarrow>
     \<forall>g. st g = InStack \<longrightarrow> (g, src) \<in> (depends e)\<^sup>* \<Longrightarrow>
     (if b then \<exists>x. (x, x) \<in> (depends e)\<^sup>+
      else extends st st' \<and> (\<forall>d\<in>set ds. st' d = Done) \<and> done_ok e st')"
proof (induction fuel e n st and fuel e ds st arbitrary: b st' and b st' src rule: dfs_dfs_deps.induct)
  case (2 fuel e n st)
  let ?ds = "case e n of Some ds \<Rightarrow> ds | None \<Rightarrow> []"
  from "2.prems"(1) obtain c st1 where c: "dfs_deps fuel e ?ds (st(n := InStack)) = Some (c, st1)"
    and b: "b = c" "st' = (if c then st1 else st1(n := Done))"
    by (auto split: option.splits bool.splits)
  have start: "done_ok e (st(n := InStack))" using "2.prems"(2,3) by (auto simp: done_ok_def)
  have edges: "\<And>m d. m = n \<Longrightarrow> d \<in> set ?ds \<Longrightarrow> (m, d) \<in> depends e"
    by (cases "e n") (auto simp: depends_def)
  have stack: "\<forall>g. (st(n := InStack)) g = InStack \<longrightarrow> (g, n) \<in> (depends e)\<^sup>*" using "2.prems"(4) by auto
  note IH = "2.IH" [OF c start edges stack]
  show ?case
  proof (cases c)
    case True
    with IH b show ?thesis by simp
  next
    case False
    with IH have post: "extends (st(n := InStack)) st1" "\<forall>d\<in>set ?ds. st1 d = Done" "done_ok e st1" by simp_all
    then have "done_ok e (st1(n := Done))"
      by (intro done_ok_finish) (auto simp: extends_def depends_def)
    with False post b "2.prems"(2) show ?thesis by (auto simp: extends_def)
  qed
next
  case (4 fuel e d ds st)
  have "(src, d) \<in> depends e" using "4.prems"(3) by simp
  show ?case
  proof (cases "st d = InStack")
    case True
    with "4.prems" have "(d, src) \<in> (depends e)\<^sup>*" by blast
    with \<open>(src, d) \<in> depends e\<close> have "(src, src) \<in> (depends e)\<^sup>+" by (rule rtrancl_into_trancl2)
    with True "4.prems"(1) show ?thesis by auto
  next
    case n1: False
    show ?thesis
    proof (cases "st d = Unseen")
      case True
      have stack: "\<forall>g. st g = InStack \<longrightarrow> (g, d) \<in> (depends e)\<^sup>*"
        using "4.prems"(4) \<open>(src, d) \<in> depends e\<close> by (meson rtrancl.rtrancl_into_rtrancl)
      from "4.prems"(1) n1 True obtain c st1 where c: "dfs fuel e d st = Some (c, st1)"
        and rest: "if c then b \<and> st' = st1 else dfs_deps fuel e ds st1 = Some (b, st')"
        by (auto split: option.splits bool.splits)
      note IH1 = "4.IH"(1) [OF n1 True c True "4.prems"(2) stack]
      show ?thesis
      proof (cases c)
        case True
        with IH1 rest show ?thesis by simp
      next
        case False
        with IH1 have post: "extends st st1" "st1 d = Done" "done_ok e st1" by simp_all
        have stack1: "\<forall>g. st1 g = InStack \<longrightarrow> (g, src) \<in> (depends e)\<^sup>*"
          using "4.prems"(4) post(1) by (auto simp: extends_def)
        from rest False have r: "dfs_deps fuel e ds st1 = Some (b, st')" by simp
        have "if b then \<exists>x. (x, x) \<in> (depends e)\<^sup>+
              else extends st1 st' \<and> (\<forall>d\<in>set ds. st' d = Done) \<and> done_ok e st'"
          using "4.IH"(2) [OF n1 True c refl _ r post(3) _ stack1] False "4.prems"(3) by simp
        with post show ?thesis by (auto simp: extends_def split: if_splits)
      qed
    next
      case False
      then have r: "dfs_deps fuel e ds st = Some (b, st')" using n1 "4.prems"(1) by simp
      have "if b then \<exists>x. (x, x) \<in> (depends e)\<^sup>+
            else extends st st' \<and> (\<forall>d\<in>set ds. st' d = Done) \<and> done_ok e st'"
        using "4.IH"(3) [OF n1 False r "4.prems"(2) _ "4.prems"(4)] "4.prems"(3) by simp
      moreover have "st d = Done" using n1 False by (cases "st d") auto
      ultimately show ?thesis by (auto simp: extends_def split: if_splits)
    qed
  qed
qed auto


text \<open>The search never unmarks a node, and as many units of fuel as unseen nodes suffice.\<close>

lemma dfs_marks:
  "dfs fuel e n st = Some (b, st') \<Longrightarrow> st x \<noteq> Unseen \<Longrightarrow> st' x \<noteq> Unseen"
  "dfs_deps fuel e ds st = Some (b, st') \<Longrightarrow> st x \<noteq> Unseen \<Longrightarrow> st' x \<noteq> Unseen"
  by (induction fuel e n st and fuel e ds st arbitrary: b st' and b st' rule: dfs_dfs_deps.induct)
    (fastforce split: option.splits bool.splits if_splits)+

definition unseen :: "string set \<Rightarrow> marks \<Rightarrow> nat" where
  "unseen U st = card {x \<in> U. st x = Unseen}"

lemma unseen_mark:
  "finite U \<Longrightarrow> n \<in> U \<Longrightarrow> st n = Unseen \<Longrightarrow> unseen U (st(n := InStack)) < unseen U st"
  unfolding unseen_def by (rule psubset_card_mono) auto

lemma unseen_mono:
  "finite U \<Longrightarrow> (\<And>x. st x \<noteq> Unseen \<Longrightarrow> st' x \<noteq> Unseen) \<Longrightarrow> unseen U st' \<le> unseen U st"
  unfolding unseen_def by (rule card_mono) auto

lemma dfs_fuel:
  assumes fin: "finite U"
  shows "\<forall>n\<in>U. \<forall>ds. e n = Some ds \<longrightarrow> set ds \<subseteq> U \<Longrightarrow>
           n \<in> U \<Longrightarrow> st n = Unseen \<Longrightarrow> unseen U st \<le> fuel \<Longrightarrow> dfs fuel e n st \<noteq> None"
    and "\<forall>n\<in>U. \<forall>ds. e n = Some ds \<longrightarrow> set ds \<subseteq> U \<Longrightarrow>
           set ds \<subseteq> U \<Longrightarrow> unseen U st \<le> fuel \<Longrightarrow> dfs_deps fuel e ds st \<noteq> None"
proof (induction fuel e n st and fuel e ds st rule: dfs_dfs_deps.induct)
  case (1 e n st)
  then show ?case using unseen_mark [OF fin, of n st] by simp
next
  case (2 fuel e n st)
  have "set (case e n of Some ds \<Rightarrow> ds | None \<Rightarrow> []) \<subseteq> U" using "2.prems"(1,2) by (cases "e n") auto
  moreover have "unseen U (st(n := InStack)) \<le> fuel"
    using unseen_mark [of U n st, OF fin "2.prems"(2,3)] "2.prems"(4) by simp
  ultimately have "dfs_deps fuel e (case e n of Some ds \<Rightarrow> ds | None \<Rightarrow> []) (st(n := InStack)) \<noteq> None"
    using "2.IH" "2.prems"(1) by blast
  then show ?case by (auto split: bool.splits)
next
  case (4 fuel e d ds st)
  note closed = "4.prems"(1)
  from "4.prems"(2) have U: "d \<in> U" "set ds \<subseteq> U" by simp_all
  consider (stack) "st d = InStack" | (new) "st d \<noteq> InStack" "st d = Unseen"
    | (old) "st d \<noteq> InStack" "st d \<noteq> Unseen" by blast
  then show ?case
  proof cases
    case new
    obtain c st1 where c: "dfs fuel e d st = Some (c, st1)"
      using "4.IH"(1) [OF new closed U(1) new(2) "4.prems"(3)] by (metis not_None_eq prod.exhaust)
    have le: "unseen U st1 \<le> fuel"
      using unseen_mono [of U st st1, OF fin dfs_marks(1) [OF c]] "4.prems"(3) by simp
    show ?thesis
    proof (cases c)
      case False
      with "4.IH"(2) [OF new c refl _ closed U(2) le] c new show ?thesis by simp
    qed (simp add: c new)
  next
    case old
    with "4.IH"(3) [OF old closed U(2) "4.prems"(3)] show ?thesis by simp
  qed simp
qed simp

text \<open>What a search over the nodes \<open>ns\<close> from the marks \<open>st\<close> has established when it answers \<open>b\<close>.\<close>

definition settles :: "edges \<Rightarrow> string list \<Rightarrow> marks \<Rightarrow> bool \<Rightarrow> bool" where
  "settles e ns st b =
     (if b then \<exists>x. (x, x) \<in> (depends e)\<^sup>+
      else \<exists>st'. done_ok e st' \<and> extends st st' \<and> (\<forall>n\<in>set ns. st' n = Done))"

lemma settles_Nil: "done_ok e st \<Longrightarrow> settles e [] st False"
  unfolding settles_def using extends_refl [of st] by auto

lemma settles_Cons:
  "settles e ns st1 b \<Longrightarrow> extends st st1 \<Longrightarrow> st1 n = Done \<Longrightarrow> settles e (n # ns) st b"
  unfolding settles_def using extends_trans [of st st1] by (auto simp: extends_def split: if_splits)

lemma cycle_from_correct:
  assumes fin: "finite U" and closed: "\<forall>n\<in>U. \<forall>ds. e n = Some ds \<longrightarrow> set ds \<subseteq> U"
  shows "set ns \<subseteq> U \<Longrightarrow> unseen U st \<le> fuel \<Longrightarrow> done_ok e st \<Longrightarrow> \<forall>g. st g \<noteq> InStack \<Longrightarrow>
    \<exists>b. cycle_from fuel e ns st = Some b \<and> settles e ns st b"
proof (induction ns arbitrary: st)
  case Nil
  then show ?case using settles_Nil by auto
next
  case (Cons n ns)
  have U: "n \<in> U" "set ns \<subseteq> U" using Cons.prems(1) by simp_all
  show ?case
  proof (cases "st n = Unseen")
    case True
    obtain c st1 where c: "dfs fuel e n st = Some (c, st1)"
      using dfs_fuel(1) [where n = n and st = st, OF fin closed U(1) True Cons.prems(2)]
      by (metis not_None_eq prod.exhaust)
    have post: "if c then \<exists>x. (x, x) \<in> (depends e)\<^sup>+
        else extends st st1 \<and> st1 n = Done \<and> done_ok e st1"
      by (rule dfs_correct(1) [OF c True Cons.prems(3)]) (use Cons.prems(4) in simp)
    show ?thesis
    proof (cases c)
      case True
      then have "settles e (n # ns) st True" using post by (simp add: settles_def)
      with c True \<open>st n = Unseen\<close> show ?thesis by (intro exI [of _ True]) simp
    next
      case False
      with post have post: "extends st st1" "st1 n = Done" "done_ok e st1" by simp_all
      have le: "unseen U st1 \<le> fuel"
        using unseen_mono [of U st st1, OF fin dfs_marks(1) [OF c]] Cons.prems(2) by simp
      have "\<forall>g. st1 g \<noteq> InStack" using post(1) Cons.prems(4) by (simp add: extends_def)
      from Cons.IH [OF U(2) le post(3) this] obtain b
        where "cycle_from fuel e ns st1 = Some b" "settles e ns st1 b" by blast
      with settles_Cons [of e ns st1 b st n] post c False \<open>st n = Unseen\<close> show ?thesis by simp
    qed
  next
    case False
    with Cons.prems(4) have "st n = Done" by (cases "st n") auto
    from Cons.IH [OF U(2) Cons.prems(2-4)] obtain b
      where "cycle_from fuel e ns st = Some b" "settles e ns st b" by blast
    with settles_Cons [of e ns st b st n] \<open>st n = Done\<close> False show ?thesis by simp
  qed
qed

lemma unseen_nodes: "unseen (set xs) st \<le> length xs"
proof -
  have "unseen (set xs) st \<le> card (set xs)" unfolding unseen_def by (rule card_mono) auto
  also have "\<dots> \<le> length xs" by (rule card_length)
  finally show ?thesis .
qed

lemma has_cycle_correct:
  assumes dom: "\<forall>n. e n \<noteq> None \<longleftrightarrow> n \<in> set ks"
  shows "has_cycle ks e = Some (\<not> acyclic (depends e))"
proof -
  let ?U = "set (graph_nodes ks e)"
  have closed: "\<forall>n\<in>?U. \<forall>ds. e n = Some ds \<longrightarrow> set ds \<subseteq> ?U"
  proof (intro ballI allI impI)
    fix n ds assume "e n = Some ds"
    with dom have "n \<in> set ks" by auto
    with \<open>e n = Some ds\<close> show "set ds \<subseteq> ?U" by (force simp: graph_nodes_def)
  qed
  have init: "done_ok e (\<lambda>_. Unseen)" by (simp add: done_ok_def)
  have fuel: "unseen ?U (\<lambda>_. Unseen) \<le> length (graph_nodes ks e)" by (rule unseen_nodes)
  have sub: "set ks \<subseteq> ?U" by (simp add: graph_nodes_def)
  have idle: "\<forall>g. (\<lambda>_. Unseen) g \<noteq> InStack" by simp
  obtain b where b: "has_cycle ks e = Some b" "settles e ks (\<lambda>_. Unseen) b"
    using cycle_from_correct [where ns = ks, OF finite_set closed sub fuel init idle]
    unfolding has_cycle_def by blast
  show ?thesis
  proof (cases b)
    case True
    with b show ?thesis by (auto simp: acyclic_def settles_def)
  next
    case False
    with b obtain st where st: "done_ok e st" "\<forall>n\<in>set ks. st n = Done" by (auto simp: settles_def)
    have "(x, x) \<notin> (depends e)\<^sup>+" for x
    proof
      assume x: "(x, x) \<in> (depends e)\<^sup>+"
      then obtain y where "(x, y) \<in> depends e" by (meson tranclD)
      then have "x \<in> set ks" using dom by (auto simp: depends_def)
      with st x show False by (auto simp: done_ok_def)
    qed
    with b False show ?thesis by (auto simp: acyclic_def)
  qed
qed

end
