(* ===== verification/Flow_Spec.thy ===== *)
theory Flow_Spec
  imports Json Flow_Graph
begin

text \<open>
  The flow-spec gate of \<open>src/flow.rs\<close>: \<open>validate_spec\<close> with every error it returns, in the
  order the code checks them, and what a spec that passes it guarantees the engine.
\<close>

section \<open>The spec gate\<close>

text \<open>The \<open>depends_on\<close> of a step: its string elements, or nothing when it is not an array.\<close>

definition step_deps :: "json \<Rightarrow> string list" where
  "step_deps st =
     (case get_as as_array ''depends_on'' st of
        Some a \<Rightarrow> List.map_filter as_str a | None \<Rightarrow> [])"

definition is_int :: "json \<Rightarrow> bool" where
  "is_int v = (as_i64 v \<noteq> None)"

text \<open>The checks on one step, in the order of the loop body; the result is its id.\<close>

definition check_when :: "string \<Rightarrow> json \<Rightarrow> string option" where
  "check_when i st =
     (case jget ''when'' st of
        None \<Rightarrow> None
      | Some w \<Rightarrow>
          if get_as as_str ''ref'' w = None then Some (''step '' @ i @ '' when needs a string ref'')
          else let op = (case get_as as_str ''op'' w of Some x \<Rightarrow> x | None \<Rightarrow> ''truthy'') in
            if op \<notin> {''eq'', ''ne'', ''contains'', ''truthy'', ''falsy''}
            then Some (''step '' @ i @ '' when.op invalid: '' @ op) else None)"

definition check_step :: "string list \<Rightarrow> json \<Rightarrow> string + string" where
  "check_step ids st =
     (case get_as as_str ''id'' st of
        None \<Rightarrow> Inl ''each step needs a string id''
      | Some i \<Rightarrow>
          if i \<in> set ids then Inl (''duplicate step id: '' @ i)
          else if CHR ''#'' \<in> set i then Inl (''step id may not contain '' @ [CHR 0x27] @ ''#'' @ [CHR 0x27] @ '': '' @ i)
          else if get_as as_i64 ''script_id'' st = None then Inl (''step '' @ i @ '' missing script_id'')
          else if (case jget ''compensate'' st of Some c \<Rightarrow> \<not> is_int c | None \<Rightarrow> False)
          then Inl (''step '' @ i @ '' compensate must be a script_id (int)'')
          else if (case jget ''map'' st of Some m \<Rightarrow> as_str m = None | None \<Rightarrow> False)
          then Inl (''step '' @ i @ '' map must be a string ref'')
          else if (case jget ''retries'' st of Some r \<Rightarrow> as_u64 r = None | None \<Rightarrow> False)
          then Inl (''step '' @ i @ '' retries must be a non-negative int'')
          else if (case jget ''cache'' st of Some c \<Rightarrow> as_bool c = None | None \<Rightarrow> False)
          then Inl (''step '' @ i @ '' cache must be a boolean'')
          else (case check_when i st of Some msg \<Rightarrow> Inl msg | None \<Rightarrow> Inr i))"

text \<open>The loop over the steps: the ids seen so far and the edge map.\<close>

fun check_steps :: "string list \<Rightarrow> edges \<Rightarrow> json list \<Rightarrow> string + string list \<times> edges" where
  "check_steps ids e [] = Inr (ids, e)"
| "check_steps ids e (st # sts) =
     (case check_step ids st of
        Inl msg \<Rightarrow> Inl msg
      | Inr i \<Rightarrow> check_steps (ids @ [i]) (e(i \<mapsto> step_deps st)) sts)"

fun unknown_dep :: "string list \<Rightarrow> edges \<Rightarrow> string list \<Rightarrow> string option" where
  "unknown_dep ids e [] = None"
| "unknown_dep ids e (k # ks) =
     (case find (\<lambda>d. d \<notin> set ids) (case e k of Some ds \<Rightarrow> ds | None \<Rightarrow> []) of
        Some d \<Rightarrow> Some (''step '' @ k @ '' depends on unknown step '' @ d)
      | None \<Rightarrow> unknown_dep ids e ks)"

text \<open>\<open>order\<close> is the iteration order of the edge map over its keys.\<close>

definition validate_spec :: "(string list \<Rightarrow> string list) \<Rightarrow> json \<Rightarrow> string + unit" where
  "validate_spec order spec =
     (case get_as as_array ''steps'' spec of
        None \<Rightarrow> Inl ''spec.steps must be an array''
      | Some sts \<Rightarrow>
          if sts = [] then Inl ''spec.steps is empty''
          else (case check_steps [] (\<lambda>_. None) sts of
             Inl msg \<Rightarrow> Inl msg
           | Inr (ids, e) \<Rightarrow>
               (case unknown_dep ids e (order ids) of
                  Some msg \<Rightarrow> Inl msg
                | None \<Rightarrow>
                    if has_cycle (order ids) e = Some True then Inl ''flow spec has a cycle''
                    else Inr ())))"

definition spec_steps :: "json \<Rightarrow> json list" where
  "spec_steps spec = (case get_as as_array ''steps'' spec of Some a \<Rightarrow> a | None \<Rightarrow> [])"

definition step_name :: "json \<Rightarrow> string" where
  "step_name st = (case get_as as_str ''id'' st of Some i \<Rightarrow> i | None \<Rightarrow> [])"

section \<open>What a spec must look like\<close>

text \<open>
  The specification of the gate is written over the constructors of the JSON value and shares no
  definition with the checks: the type of each field, the ids a step depends on, and the graph.
\<close>

definition is_i64 :: "json \<Rightarrow> bool" where
  "is_i64 v = (case v of JInt n \<Rightarrow> - 9223372036854775808 \<le> n \<and> n \<le> 9223372036854775807 | _ \<Rightarrow> False)"

definition is_u64 :: "json \<Rightarrow> bool" where
  "is_u64 v = (case v of JInt n \<Rightarrow> 0 \<le> n \<and> n \<le> 18446744073709551615 | _ \<Rightarrow> False)"

definition id_ok :: "json \<Rightarrow> bool" where
  "id_ok v = (case v of JStr i \<Rightarrow> CHR ''#'' \<notin> set i | _ \<Rightarrow> False)"

text \<open>A field that may be left out, but not filled with a value of another kind (nor with null).\<close>

definition optional_field :: "string \<Rightarrow> (json \<Rightarrow> bool) \<Rightarrow> json \<Rightarrow> bool" where
  "optional_field k ok st = (case jget k st of None \<Rightarrow> True | Some v \<Rightarrow> ok v)"

text \<open>A condition refers to a value by a string; an operator that is a string is one of five.\<close>

definition when_ok :: "json \<Rightarrow> bool" where
  "when_ok w =
     ((case jget ''ref'' w of Some (JStr _) \<Rightarrow> True | _ \<Rightarrow> False) \<and>
      (case jget ''op'' w of
         Some (JStr op) \<Rightarrow> op = ''eq'' \<or> op = ''ne'' \<or> op = ''contains'' \<or> op = ''truthy'' \<or> op = ''falsy''
       | _ \<Rightarrow> True))"

definition step_fields_ok :: "json \<Rightarrow> bool" where
  "step_fields_ok st =
     ((case jget ''id'' st of Some i \<Rightarrow> id_ok i | None \<Rightarrow> False) \<and>
      (case jget ''script_id'' st of Some s \<Rightarrow> is_i64 s | None \<Rightarrow> False) \<and>
      optional_field ''compensate'' is_i64 st \<and>
      optional_field ''map'' (\<lambda>v. \<exists>s. v = JStr s) st \<and>
      optional_field ''retries'' is_u64 st \<and>
      optional_field ''cache'' (\<lambda>v. v = JBool True \<or> v = JBool False) st \<and>
      optional_field ''when'' when_ok st)"

definition step_needs :: "json \<Rightarrow> string set" where
  "step_needs st = {d. \<exists>a. jget ''depends_on'' st = Some (JArr a) \<and> JStr d \<in> set a}"

definition spec_edges :: "json list \<Rightarrow> (string \<times> string) set" where
  "spec_edges sts = {(i, d). \<exists>st\<in>set sts. i = step_name st \<and> d \<in> step_needs st}"

definition spec_ok :: "json \<Rightarrow> bool" where
  "spec_ok spec =
     (spec_steps spec \<noteq> [] \<and> (\<forall>st\<in>set (spec_steps spec). step_fields_ok st) \<and>
      distinct (map step_name (spec_steps spec)) \<and>
      (\<forall>st\<in>set (spec_steps spec). step_needs st \<subseteq> set (map step_name (spec_steps spec))) \<and>
      acyclic (spec_edges (spec_steps spec)))"

section \<open>The checks decide it\<close>

lemma as_str_Some: "as_str v = Some s \<longleftrightarrow> v = JStr s"
  by (cases v) simp_all

lemma as_array_Some: "as_array v = Some a \<longleftrightarrow> v = JArr a"
  by (cases v) simp_all

lemma as_str_None: "as_str v = None \<longleftrightarrow> (\<nexists>s. v = JStr s)"
  by (cases v) simp_all

lemma as_bool_None: "as_bool v = None \<longleftrightarrow> \<not> (v = JBool True \<or> v = JBool False)"
  by (cases v) auto

lemma as_i64_None: "as_i64 v = None \<longleftrightarrow> \<not> is_i64 v"
  by (cases v) (auto simp: is_i64_def)

lemma as_u64_None: "as_u64 v = None \<longleftrightarrow> \<not> is_u64 v"
  by (cases v) (auto simp: is_u64_def)

lemma check_when_None:
  "check_when i st = None \<longleftrightarrow> optional_field ''when'' when_ok st"
proof (cases "jget ''when'' st")
  case (Some w)
  have r: "get_as as_str ''ref'' w = None \<longleftrightarrow> \<not> (case jget ''ref'' w of Some (JStr _) \<Rightarrow> True | _ \<Rightarrow> False)"
    by (cases "jget ''ref'' w") (simp_all add: get_as_def split: json.split)
  have op: "get_as as_str ''op'' w = (case jget ''op'' w of Some (JStr op) \<Rightarrow> Some op | _ \<Rightarrow> None)"
    by (cases "jget ''op'' w") (simp_all add: get_as_def split: json.split)
  show ?thesis unfolding check_when_def optional_field_def when_ok_def Some r option.case op
    by (auto simp: Let_def split: option.splits json.splits)
qed (simp add: check_when_def optional_field_def)

lemma step_needs_deps [simp]: "step_needs st = set (step_deps st)"
proof (cases "jget ''depends_on'' st")
  case (Some v)
  then show ?thesis
    by (cases v) (force simp: step_needs_def step_deps_def get_as_def List.map_filter_def as_str_Some)+
qed (simp add: step_needs_def step_deps_def get_as_def)

lemma check_step_Inr:
  "(\<exists>i. check_step ids st = Inr i) \<longleftrightarrow> step_fields_ok st \<and> step_name st \<notin> set ids"
  "check_step ids st = Inr i \<Longrightarrow> i = step_name st"
proof -
  show "check_step ids st = Inr i \<Longrightarrow> i = step_name st"
    by (auto simp: check_step_def step_name_def split: option.splits if_splits)
  have script: "get_as as_i64 ''script_id'' st = None \<longleftrightarrow>
      \<not> (case jget ''script_id'' st of Some s \<Rightarrow> is_i64 s | None \<Rightarrow> False)"
    by (cases "jget ''script_id'' st") (simp_all add: get_as_def as_i64_None)
  have field: "(case jget k st of Some c \<Rightarrow> \<not> p c | None \<Rightarrow> False) \<longleftrightarrow> \<not> optional_field k p st" for k p
    by (simp add: optional_field_def split: option.split)
  have "get_as as_str ''id'' st = None \<Longrightarrow> \<not> step_fields_ok st"
    by (auto simp: step_fields_ok_def get_as_def id_ok_def split: option.splits json.splits)
  moreover have "step_name st = i \<and>
      (case jget ''id'' st of Some i \<Rightarrow> id_ok i | None \<Rightarrow> False) = (CHR ''#'' \<notin> set i)"
    if "get_as as_str ''id'' st = Some i" for i
    using that by (auto simp: get_as_def bind_eq_Some_conv as_str_Some step_name_def id_ok_def)
  ultimately show "(\<exists>i. check_step ids st = Inr i) \<longleftrightarrow> step_fields_ok st \<and> step_name st \<notin> set ids"
    unfolding check_step_def script is_int_def as_i64_None as_str_None as_u64_None as_bool_None
      not_not field
    by (cases "get_as as_str ''id'' st"; cases "check_when (step_name st) st";
        insert check_when_None [of "step_name st" st])
      (auto simp: step_fields_ok_def split: option.split)
qed

lemma check_steps_Inr:
  "distinct ids \<Longrightarrow> check_steps ids e sts = Inr (ids', e') \<longleftrightarrow>
     ids' = ids @ map step_name sts \<and> distinct ids' \<and> (\<forall>st\<in>set sts. step_fields_ok st) \<and>
     e' = fold (\<lambda>st m. m(step_name st \<mapsto> step_deps st)) sts e"
proof (induction sts arbitrary: ids e)
  case (Cons st sts)
  show ?case
  proof (cases "check_step ids st")
    case (Inl m)
    then have "\<not> (step_fields_ok st \<and> step_name st \<notin> set ids)"
      using check_step_Inr(1) by (metis sum.distinct(1))
    with Inl show ?thesis by auto
  next
    case (Inr i)
    with check_step_Inr have i: "i = step_name st" "step_fields_ok st" "i \<notin> set ids" by blast+
    with Cons.prems have "distinct (ids @ [i])" by simp
    note IH = Cons.IH [OF this, of "e(i \<mapsto> step_deps st)"]
    have "check_steps ids e (st # sts) = check_steps (ids @ [i]) (e(i \<mapsto> step_deps st)) sts"
      by (simp add: Inr)
    moreover have "(ids @ [i]) @ map step_name sts = ids @ map step_name (st # sts)"
      using i(1) by simp
    moreover have "(\<forall>s\<in>set (st # sts). step_fields_ok s) \<longleftrightarrow> (\<forall>s\<in>set sts. step_fields_ok s)"
      using i(2) by simp
    moreover have "fold (\<lambda>st m. m(step_name st \<mapsto> step_deps st)) (st # sts) e =
        fold (\<lambda>st m. m(step_name st \<mapsto> step_deps st)) sts (e(i \<mapsto> step_deps st))"
      unfolding fold_simps i(1) ..
    ultimately show ?thesis using IH by (simp only:)
  qed
qed auto

lemma unknown_dep_None:
  "unknown_dep ids e ks = None \<longleftrightarrow> (\<forall>k\<in>set ks. \<forall>ds. e k = Some ds \<longrightarrow> set ds \<subseteq> set ids)"
proof (induction ks)
  case (Cons k ks)
  have "unknown_dep ids e (k # ks) = None \<longleftrightarrow>
      (\<forall>ds. e k = Some ds \<longrightarrow> find (\<lambda>d. d \<notin> set ids) ds = None) \<and> unknown_dep ids e ks = None"
    by (cases "e k") (simp_all split: option.split)
  also have "\<dots> \<longleftrightarrow> (\<forall>ds. e k = Some ds \<longrightarrow> set ds \<subseteq> set ids) \<and> unknown_dep ids e ks = None"
    by (auto simp: find_None)
  finally show ?case using Cons.IH by simp
qed simp

lemma fold_edges:
  "distinct (map step_name sts) \<Longrightarrow>
   fold (\<lambda>st m. m(step_name st \<mapsto> step_deps st)) sts e n =
     (case find (\<lambda>st. step_name st = n) sts of Some st \<Rightarrow> Some (step_deps st) | None \<Rightarrow> e n)"
proof (induction sts arbitrary: e)
  case (Cons st sts)
  then have "find (\<lambda>x. step_name x = step_name st) sts = None"
    using Cons.prems unfolding find_None by (simp add: image_iff) (metis)
  moreover have "distinct (map step_name sts)" using Cons.prems by simp
  ultimately show ?case unfolding fold_simps Cons.IH [OF \<open>distinct (map step_name sts)\<close>]
    by (auto split: option.split)
qed simp

lemma edges_of_steps:
  assumes "distinct (map step_name sts)"
  defines "e \<equiv> fold (\<lambda>st m. m(step_name st \<mapsto> step_deps st)) sts (\<lambda>_. None)"
  shows "depends e = spec_edges sts" and "e n \<noteq> None \<longleftrightarrow> n \<in> set (map step_name sts)"
proof -
  have e: "e n = map_option step_deps (find (\<lambda>st. step_name st = n) sts)" for n
    unfolding e_def by (subst fold_edges [OF assms(1)]) (auto split: option.splits)
  have found: "find (\<lambda>s. step_name s = step_name st) sts = Some st" if "st \<in> set sts" for st
    using find_distinct [OF assms(1) that refl] .
  show "e n \<noteq> None \<longleftrightarrow> n \<in> set (map step_name sts)" by (auto simp: e find_None)
  show "depends e = spec_edges sts"
    by (auto simp: depends_def spec_edges_def e found dest!: find_SomeD)
qed

lemma validate_ok_iff:
  assumes "\<And>ks. set (order ks) = set ks"
  shows "validate_spec order spec = Inr () \<longleftrightarrow> spec_ok spec"
proof (cases "get_as as_array ''steps'' spec")
  case None
  then show ?thesis by (simp add: validate_spec_def spec_ok_def spec_steps_def)
next
  case (Some sts)
  let ?ids = "map step_name sts"
  let ?e = "fold (\<lambda>st m. m(step_name st \<mapsto> step_deps st)) sts (\<lambda>_. None)"
  have steps: "spec_steps spec = sts" by (simp add: spec_steps_def Some)
  show ?thesis
  proof (cases "check_steps [] (\<lambda>_. None) sts")
    case (Inl msg)
    then have "\<not> (distinct ?ids \<and> (\<forall>st\<in>set sts. step_fields_ok st))"
      using check_steps_Inr [of "[]" "\<lambda>_. None" sts ?ids ?e] by simp
    with Inl Some show ?thesis by (auto simp: validate_spec_def spec_ok_def steps)
  next
    case (Inr p)
    then have "check_steps [] (\<lambda>_. None) sts = Inr (fst p, snd p)" by simp
    note parts = this [unfolded check_steps_Inr [OF distinct.simps(1) [THEN iffD2, OF TrueI]]]
    then have fst: "fst p = ?ids" and snd: "snd p = ?e"
      and ok': "distinct (fst p)" "\<forall>st\<in>set sts. step_fields_ok st" unfolding append_Nil by blast+
    from fst snd have p: "p = (?ids, ?e)" by (cases p) simp
    from ok' have ok: "distinct ?ids" "\<forall>st\<in>set sts. step_fields_ok st" by (simp_all add: fst)
    have dom: "?e n \<noteq> None \<longleftrightarrow> n \<in> set ?ids" for n by (rule edges_of_steps(2) [OF ok(1)])
    have edges: "depends ?e = spec_edges sts" by (rule edges_of_steps(1) [OF ok(1)])
    have keys: "\<forall>n. ?e n \<noteq> None \<longleftrightarrow> n \<in> set (order ?ids)" unfolding assms using dom by blast
    have cyc: "has_cycle (order ?ids) ?e = Some (\<not> acyclic (spec_edges sts))"
      using has_cycle_correct [OF keys] unfolding edges .
    have "unknown_dep ?ids ?e (order ?ids) = None \<longleftrightarrow> (\<forall>i d. (i, d) \<in> depends ?e \<longrightarrow> d \<in> set ?ids)"
      unfolding unknown_dep_None assms using dom by (fastforce simp: depends_def)
    also have "\<dots> \<longleftrightarrow> (\<forall>st\<in>set sts. set (step_deps st) \<subseteq> set ?ids)"
      unfolding edges by (auto simp: spec_edges_def)
    finally have deps: "unknown_dep ?ids ?e (order ?ids) = None \<longleftrightarrow>
        (\<forall>st\<in>set sts. set (step_deps st) \<subseteq> set ?ids)" .
    have "validate_spec order spec = Inr () \<longleftrightarrow>
        sts \<noteq> [] \<and> unknown_dep ?ids ?e (order ?ids) = None \<and> acyclic (spec_edges sts)"
      by (simp add: validate_spec_def Some Inr p cyc split: option.split)
    with ok deps show ?thesis by (auto simp: spec_ok_def steps)
  qed
qed

text \<open>C16. The gate is exact: a spec passes \<open>validate_spec\<close> if and only if it has steps, every
  step's fields have the right types, ids are unique and free of hash signs, dependencies name steps of
  the spec, and the dependency graph has no cycle; the iteration order of the edge map, which
  Rust leaves open, does not matter.\<close>

theorem validate_spec_exact:
  assumes "\<And>ks. set (order ks) = set ks"
  shows "validate_spec order spec = Inr () \<longleftrightarrow> spec_ok spec"
  using assms by (rule validate_ok_iff)

definition sample_spec :: json where
  "sample_spec = JObj [(''steps'', JArr
     [JObj [(''id'', JStr ''a''), (''script_id'', JInt 1)],
      JObj [(''depends_on'', JArr [JStr ''a'']), (''id'', JStr ''b''), (''script_id'', JInt 2)]])]"

lemmas validate_simps = validate_spec_def sample_spec_def get_as_def jget_def check_step_def
  check_when_def step_deps_def has_cycle_def graph_nodes_def List.map_filter_simps

theorem validate_spec_exact_witness: "spec_ok sample_spec"
proof -
  have "validate_spec (\<lambda>ks. ks) sample_spec = Inr ()"
    by (simp add: validate_simps numeral_eq_Suc)
  then show ?thesis using validate_spec_exact [of "\<lambda>ks. ks" sample_spec] by simp
qed

lemma spec_ok_ranked:
  assumes ok: "spec_ok spec"
  shows "\<exists>rank :: string \<Rightarrow> nat. \<forall>st\<in>set (spec_steps spec). \<forall>d\<in>set (step_deps st).
           rank d < rank (step_name st) \<and> d \<in> set (map step_name (spec_steps spec))"
proof -
  let ?R = "spec_edges (spec_steps spec)"
  have "?R \<subseteq> (\<Union>st\<in>set (spec_steps spec). {step_name st} \<times> set (step_deps st))"
    by (auto simp: spec_edges_def)
  then have finR: "finite ?R" by (rule finite_subset) auto
  define rank where "rank i = card {x. (i, x) \<in> ?R\<^sup>+}" for i
  have fin: "finite {x. (i, x) \<in> ?R\<^sup>+}" for i
    by (rule finite_subset [of _ "Range (?R\<^sup>+)"])
      (auto simp: finR finite_Range simp del: trancl_range)
  have "rank d < rank i" if "(i, d) \<in> ?R" for i d
  proof -
    have id: "(i, d) \<in> ?R\<^sup>+" using that by blast
    have "{x. (d, x) \<in> ?R\<^sup>+} \<subseteq> {x. (i, x) \<in> ?R\<^sup>+}" using id by (auto intro: trancl_trans)
    moreover have "d \<notin> {x. (d, x) \<in> ?R\<^sup>+}" using ok by (simp add: spec_ok_def acyclic_def)
    ultimately have "{x. (d, x) \<in> ?R\<^sup>+} \<subset> {x. (i, x) \<in> ?R\<^sup>+}" using id by blast
    then show ?thesis unfolding rank_def by (rule psubset_card_mono [OF fin])
  qed
  then show ?thesis using ok by (intro exI [of _ rank]) (auto simp: spec_edges_def spec_ok_def)
qed

text \<open>A spec that passes can be scheduled: its steps have ranks such that every dependency of
  a step is a step of the spec with a smaller rank.\<close>

theorem valid_spec_ranked:
  assumes "validate_spec order spec = Inr ()" and "\<And>ks. set (order ks) = set ks"
  shows "\<exists>rank :: string \<Rightarrow> nat. \<forall>st\<in>set (spec_steps spec). \<forall>d\<in>set (step_deps st).
           rank d < rank (step_name st) \<and> d \<in> set (map step_name (spec_steps spec))"
  using assms by (intro spec_ok_ranked) (simp add: validate_ok_iff)

theorem valid_spec_ranked_witness:
  "\<exists>rank :: string \<Rightarrow> nat. \<forall>st\<in>set (spec_steps sample_spec). \<forall>d\<in>set (step_deps st).
     rank d < rank (step_name st) \<and> d \<in> set (map step_name (spec_steps sample_spec))"
  by (rule valid_spec_ranked [where order = "\<lambda>ks. ks"])
    (simp_all add: validate_simps numeral_eq_Suc)

end
