(* ===== verification/Content_Key.thy ===== *)
theory Content_Key
  imports Json
begin

text \<open>
  Content addressing of a run: the runtime table of \<open>src/exec.rs\<close> and the run cache key of
  \<open>src/mcp.rs\<close> with its two canonical renderings.  SHA-256 in hexadecimal and the JSON printer
  are parameters (\<open>sha\<close>, \<open>print\<close>).
\<close>

section \<open>Runtimes\<close>

definition runtime_spec :: "string \<Rightarrow> (string \<times> string) option" where
  "runtime_spec r =
     (if r \<in> {''python'', ''python3'', ''python3.12''} then Some (''python:3.12-slim'', ''python'')
      else if r \<in> {''node'', ''nodejs'', ''javascript''} then Some (''node:22-slim'', ''node'')
      else if r \<in> {''bash'', ''sh'', ''shell''} then Some (''alpine:3.20'', ''sh'')
      else None)"

section \<open>Canonical renderings\<close>

text \<open>
  \<open>Debug\<close> of a \<open>str\<close>: quoted, with the standard escapes.  The unprintable characters beyond
  ASCII that Rust escapes too are left as they are.
\<close>

definition hex_digit :: "nat \<Rightarrow> char" where
  "hex_digit n = (if n < 10 then char_of (48 + n) else char_of (87 + n))"

definition debug_char :: "char \<Rightarrow> string" where
  "debug_char c =
     (if c = CHR 0x00 then [CHR 0x5C, CHR ''0'']
      else if c = CHR 0x09 then [CHR 0x5C, CHR ''t'']
      else if c = CHR 0x0A then [CHR 0x5C, CHR ''n'']
      else if c = CHR 0x0D then [CHR 0x5C, CHR ''r'']
      else if c = CHR 0x22 \<or> c = CHR 0x5C then [CHR 0x5C, c]
      else let n = of_char c :: nat in
        if n = 127 then [CHR 0x5C] @ ''u{7f}''
        else if 16 \<le> n \<and> n < 32 then [CHR 0x5C] @ ''u{1'' @ [hex_digit (n mod 16)] @ ''}''
        else if n < 16 then [CHR 0x5C] @ ''u{'' @ [hex_digit n] @ ''}''
        else [c])"

definition str_debug :: "string \<Rightarrow> string" where
  "str_debug s = [CHR 0x22] @ concat (map debug_char s) @ [CHR 0x22]"

fun canonical_json :: "(json \<Rightarrow> string) \<Rightarrow> json \<Rightarrow> string" where
  "canonical_json print (JObj m) =
     ''{'' @ join_with '','' (map snd (sort_key fst
        (map (\<lambda>(k, v). (k, str_debug k @ '':'' @ canonical_json print v)) m))) @ ''}''"
| "canonical_json print (JArr a) = ''['' @ join_with '','' (map (canonical_json print) a) @ '']''"
| "canonical_json print v = print v"

definition blob_pair :: "string \<times> json \<Rightarrow> string" where
  "blob_pair p = fst p @ '':'' @ (case as_str (snd p) of Some s \<Rightarrow> s | None \<Rightarrow> [])"

definition canonical_input_blobs :: "json option \<Rightarrow> string" where
  "canonical_input_blobs m =
     (case Option.bind m as_object of
        None \<Rightarrow> []
      | Some kvs \<Rightarrow> join_with '','' (sort (map blob_pair kvs)))"

section \<open>The cache key\<close>

text \<open>\<open>i64::to_le_bytes\<close>\<close>

fun le_bytes :: "nat \<Rightarrow> int \<Rightarrow> string" where
  "le_bytes 0 i = []"
| "le_bytes (Suc n) i = char_of (nat (i mod 256)) # le_bytes n (i div 256)"

definition cache_preimage ::
    "(json \<Rightarrow> string) \<Rightarrow> string \<Rightarrow> string \<Rightarrow> string \<Rightarrow> json \<Rightarrow> int \<Rightarrow> json option \<Rightarrow> string" where
  "cache_preimage print runtime digest source input gen inb =
     runtime @ [CHR 0x1F] @ digest @ [CHR 0x1F] @ source @ [CHR 0x1F] @
     canonical_json print input @ [CHR 0x1F] @ le_bytes 8 gen @ [CHR 0x1F] @
     canonical_input_blobs inb"

definition run_cache_key ::
    "(string \<Rightarrow> string) \<Rightarrow> (json \<Rightarrow> string) \<Rightarrow>
     string \<Rightarrow> string \<Rightarrow> string \<Rightarrow> json \<Rightarrow> int \<Rightarrow> json option \<Rightarrow> string" where
  "run_cache_key sha print runtime digest source input gen inb =
     sha (cache_preimage print runtime digest source input gen inb)"

section \<open>What the key identifies\<close>

lemma length_le_bytes [simp]: "length (le_bytes n i) = n"
  by (induction n i rule: le_bytes.induct) auto

lemma le_bytes_mod: "le_bytes n i = le_bytes n j \<Longrightarrow> i mod 256 ^ n = j mod 256 ^ n"
proof (induction n arbitrary: i j)
  case (Suc n)
  from Suc.prems have c: "char_of (nat (i mod 256)) = (char_of (nat (j mod 256)) :: char)"
    and r: "le_bytes n (i div 256) = le_bytes n (j div 256)"
    unfolding le_bytes.simps list.inject by blast+
  have "of_char (char_of (nat (x mod 256)) :: char) = nat (x mod 256)" for x :: int
  proof -
    have "nat (x mod 256) < 256" by (simp add: nat_less_iff)
    then show ?thesis unfolding of_char_of by (rule mod_less)
  qed
  then have "nat (i mod 256) = nat (j mod 256)" using c by metis
  then have "i mod 256 = j mod 256" by simp
  moreover have "x mod 256 ^ Suc n = 256 * (x div 256 mod 256 ^ n) + x mod 256" for x :: int
    unfolding power_Suc by (rule zmod_zmult2_eq) simp
  ultimately show ?case using Suc.IH [OF r] by simp
qed simp

lemma i64_le_bytes:
  assumes "le_bytes 8 i = le_bytes 8 j" "- (2 ^ 63) \<le> i" "i < 2 ^ 63" "- (2 ^ 63) \<le> j" "j < 2 ^ 63"
  shows "i = j"
proof -
  have "i mod 2 ^ 64 = j mod 2 ^ 64" using le_bytes_mod [OF assms(1)] by simp
  then have "(i + 2 ^ 63) mod 2 ^ 64 = (j + 2 ^ 63) mod 2 ^ 64" by (metis mod_add_left_eq)
  then show ?thesis using assms(2-5) by simp
qed

lemma sep_eq: "c \<notin> set a \<Longrightarrow> c \<notin> set b \<Longrightarrow> a @ c # x = b @ c # y \<longleftrightarrow> a = b \<and> x = y"
proof (induction a arbitrary: b)
  case Nil
  then show ?case by (cases b) auto
next
  case (Cons d a)
  then show ?case by (cases b) auto
qed

lemma sep_eq_right:
  assumes "c \<notin> set x" "c \<notin> set y"
  shows "a @ c # x = b @ c # y \<longleftrightarrow> a = b \<and> x = y"
proof -
  have "a @ c # x = b @ c # y \<longleftrightarrow> rev x @ c # rev a = rev y @ c # rev b"
    by (metis append.assoc append_Cons append_Nil rev.simps(2) rev_append rev_rev_ident)
  then show ?thesis using sep_eq [of c "rev x" "rev y"] assms by auto
qed

text \<open>C27. The cache key identifies the run, up to the rendering of its files: as long as SHA-256 does
  not collide on the two preimages, the separator byte 0x1F occurs in neither runtime, digest,
  canonical input nor blob rendering (the source may hold it), and the generations are 64-bit, two keys
  are equal exactly when runtime, image, source, canonical input, secrets generation and blob
  rendering are equal.  The rendering itself is not injective (\<open>blob_rendering_collides\<close>).\<close>

theorem cache_key_identifies:
  assumes "\<And>x y. x \<in> {cache_preimage print r dg s i g b, cache_preimage print r' dg' s' i' g' b'} \<Longrightarrow>
           y \<in> {cache_preimage print r dg s i g b, cache_preimage print r' dg' s' i' g' b'} \<Longrightarrow>
           sha x = sha y \<Longrightarrow> x = y"
    and "CHR 0x1F \<notin> set (r @ dg @ canonical_json print i @ canonical_input_blobs b)"
    and "CHR 0x1F \<notin> set (r' @ dg' @ canonical_json print i' @ canonical_input_blobs b')"
    and "- (2 ^ 63) \<le> g" "g < 2 ^ 63" "- (2 ^ 63) \<le> g'" "g' < 2 ^ 63"
  shows "run_cache_key sha print r dg s i g b = run_cache_key sha print r' dg' s' i' g' b' \<longleftrightarrow>
         r = r' \<and> dg = dg' \<and> s = s' \<and> canonical_json print i = canonical_json print i' \<and>
         g = g' \<and> canonical_input_blobs b = canonical_input_blobs b'"
proof
  assume same: "run_cache_key sha print r dg s i g b = run_cache_key sha print r' dg' s' i' g' b'"
  let ?c = "CHR 0x1F"
  have eq: "cache_preimage print r dg s i g b = cache_preimage print r' dg' s' i' g' b'"
    by (rule assms(1) [OF _ _ same [unfolded run_cache_key_def]]) simp_all
  have parts: "?c \<notin> set r" "?c \<notin> set r'" "?c \<notin> set dg" "?c \<notin> set dg'"
    "?c \<notin> set (canonical_json print i)" "?c \<notin> set (canonical_json print i')"
    "?c \<notin> set (canonical_input_blobs b)" "?c \<notin> set (canonical_input_blobs b')"
    using assms(2,3) unfolding set_append by blast+
  have split: "a @ [?c] @ x = a @ ?c # x" for a x by simp
  note eq1 = eq [unfolded cache_preimage_def split]
  note eq2 = sep_eq [OF parts(1,2), THEN iffD1, OF eq1]
  note eq3 = sep_eq [OF parts(3,4), THEN iffD1, OF eq2 [THEN conjunct2]]
  from eq2 eq3 have rd: "r = r'" "dg = dg'"
    and rest: "s @ ?c # canonical_json print i @ ?c # le_bytes 8 g @ ?c # canonical_input_blobs b =
      s' @ ?c # canonical_json print i' @ ?c # le_bytes 8 g' @ ?c # canonical_input_blobs b'"
    by blast+
  then have "(s @ ?c # canonical_json print i @ ?c # le_bytes 8 g) @ ?c # canonical_input_blobs b =
      (s' @ ?c # canonical_json print i' @ ?c # le_bytes 8 g') @ ?c # canonical_input_blobs b'"
    by (simp only: append.assoc append_Cons)
  note eq4 = sep_eq_right [OF parts(7,8), THEN iffD1, OF this]
  then have b: "canonical_input_blobs b = canonical_input_blobs b'" by blast
  have len: "length (le_bytes 8 g) = length (le_bytes 8 g')" by (simp only: length_le_bytes)
  have cat: "(s @ ?c # canonical_json print i @ [?c]) @ le_bytes 8 g =
      (s' @ ?c # canonical_json print i' @ [?c]) @ le_bytes 8 g'"
    using eq4 [THEN conjunct1] by (simp only: append.assoc append_Cons append_Nil)
  note tail = iffD1 [OF append_eq_append_conv [OF disjI2 [OF len]] cat]
  from tail have eq5: "s @ ?c # canonical_json print i @ [?c] = s' @ ?c # canonical_json print i' @ [?c]"
    and g: "le_bytes 8 g = le_bytes 8 g'"
    by blast+
  have "(s @ ?c # canonical_json print i) @ [?c] = (s' @ ?c # canonical_json print i') @ [?c]"
    using eq5 by (simp only: append.assoc append_Cons)
  then have "s @ ?c # canonical_json print i = s' @ ?c # canonical_json print i'"
    by (simp only: append_same_eq)
  then have "s = s'" "canonical_json print i = canonical_json print i'"
    using sep_eq_right [OF parts(5,6)] by blast+
  with rd b i64_le_bytes [OF g] assms(4-7)
  show "r = r' \<and> dg = dg' \<and> s = s' \<and> canonical_json print i = canonical_json print i' \<and>
      g = g' \<and> canonical_input_blobs b = canonical_input_blobs b'" by simp
qed (auto simp: run_cache_key_def cache_preimage_def)

text \<open>The same files listed in another order give the same key, another source another one.\<close>

theorem cache_key_identifies_witness:
  "let k = (\<lambda>s m. run_cache_key id (\<lambda>v. ''null'') ''python'' ''d'' s JNull 0 (Some (JObj m)));
       ab = [(''a'', JStr ''1''), (''b'', JStr ''2'')]; ba = [(''b'', JStr ''2''), (''a'', JStr ''1'')]
   in k ''x'' ab = k ''x'' ba \<and> k ''x'' ab \<noteq> k ''y'' ba"
proof -
  let ?ab = "Some (JObj [(''a'', JStr ''1''), (''b'', JStr ''2'')])" and ?ba = "Some (JObj [(''b'', JStr ''2''), (''a'', JStr ''1'')])"
  have files: "canonical_input_blobs ?ab = ''a:1,b:2''" "canonical_input_blobs ?ba = ''a:1,b:2''" by code_simp+
  have json: "canonical_json (\<lambda>v. ''null'') JNull = ''null''" by code_simp
  have key: "run_cache_key id (\<lambda>v. ''null'') ''python'' ''d'' ''x'' JNull 0 ?ab =
      run_cache_key id (\<lambda>v. ''null'') ''python'' ''d'' s JNull 0 ?ba \<longleftrightarrow> ''x'' = s" for s
    by (subst cache_key_identifies) (auto simp: files json)
  from key [of "''x''"] key [of "''y''"] show ?thesis by (simp add: Let_def)
qed

text \<open>The blob rendering does not identify the file map: colons and commas in a file name
  are not escaped, so for any two handles two different maps of valid file names share one
  rendering, and with it one cache key and one receipt payload.\<close>

theorem blob_rendering_collides:
  "canonical_input_blobs (Some (JObj [(''a'', JStr h1), (''b'', JStr h2)])) =
     canonical_input_blobs (Some (JObj [(''a:'' @ h1 @ '',b'', JStr h2)])) \<and>
   run_cache_key sha print r dg s i g (Some (JObj [(''a'', JStr h1), (''b'', JStr h2)])) =
     run_cache_key sha print r dg s i g (Some (JObj [(''a:'' @ h1 @ '',b'', JStr h2)]))"
proof -
  have "sort [''a:'' @ h1, ''b:'' @ h2] = [''a:'' @ h1, ''b:'' @ h2]" by (simp add: less_eq_list_code)
  then show ?thesis
    by (simp add: run_cache_key_def cache_preimage_def canonical_input_blobs_def blob_pair_def)
qed

end
