(* ===== verification/Db_Flows.thy ===== *)
theory Db_Flows
  imports Exactly_Once Flow_Spec
begin

text \<open>
  The flow tables of \<open>src/db.rs\<close>: flows, flow runs, and the step ledger that is the engine's
  durable state, with the invariant every statement keeps and exactly-once creation of flow runs.
\<close>

section \<open>Creating\<close>

definition insert_flow :: "json \<Rightarrow> db \<Rightarrow> int \<times> db" where
  "insert_flow spec d =
     (flow_seq d, d\<lparr>flows := flows d @ [(flow_seq d, spec)], flow_seq := flow_seq d + 1\<rparr>)"

definition get_flow_spec :: "int \<Rightarrow> db \<Rightarrow> json option" where
  "get_flow_spec i d = map_of (flows d) i"

text \<open>One step of the spec as a ledger row; a field of the wrong type reads as absent.\<close>

definition step_row :: "int \<Rightarrow> json \<Rightarrow> flow_step" where
  "step_row fr st =
     \<lparr>fs_flow_run = fr,
      fs_step_id = (case get_as as_str ''id'' st of Some s \<Rightarrow> s | None \<Rightarrow> []),
      fs_script_id = (case get_as as_i64 ''script_id'' st of Some i \<Rightarrow> i | None \<Rightarrow> 0),
      fs_input = Some (case jget ''input'' st of Some v \<Rightarrow> v | None \<Rightarrow> JObj []),
      fs_depends_on = step_deps st, fs_status = SPending, fs_run_id = None, fs_output = None,
      fs_when_cond = jget ''when'' st, fs_map_ref = get_as as_str ''map'' st,
      fs_compensate = get_as as_i64 ''compensate'' st, fs_compensated = False,
      fs_finished_at = None, fs_retries = get_as as_i64 ''retries'' st,
      fs_cache = (case get_as as_bool ''cache'' st of Some b \<Rightarrow> b | None \<Rightarrow> False)\<rparr>"

definition has_step :: "int \<Rightarrow> string \<Rightarrow> db \<Rightarrow> bool" where
  "has_step fr sid d = (\<exists>s\<in>set (flow_steps d). fs_flow_run s = fr \<and> fs_step_id s = sid)"

fun insert_steps :: "flow_step list \<Rightarrow> db \<Rightarrow> db_error + db" where
  "insert_steps [] d = Inr d"
| "insert_steps (s # ss) d =
     (if get_script (fs_script_id s) d = None then Inl (FkViolation ''flow_steps_script_id_fkey'')
      else if has_step (fs_flow_run s) (fs_step_id s) d
      then Inl (UniqueViolation ''flow_steps_flow_run_id_step_id_key'')
      else insert_steps ss (d\<lparr>flow_steps := flow_steps d @ [s]\<rparr>))"

definition new_flow_run :: "int \<Rightarrow> int \<Rightarrow> json \<Rightarrow> string option \<Rightarrow> flow_run" where
  "new_flow_run i fid input key =
     \<lparr>fr_id = i, fr_flow_id = fid, fr_status = FPending, fr_input = Some input,
      fr_started_at = None, fr_finished_at = None, fr_idempotency_key = key\<rparr>"

text \<open>The transaction both inserts share: the flow run and its whole ledger, or nothing.\<close>

definition insert_ledger :: "int \<Rightarrow> json \<Rightarrow> json \<Rightarrow> string option \<Rightarrow> db \<Rightarrow> db_error + int \<times> db" where
  "insert_ledger fid spec input key d =
     (if get_flow_spec fid d = None then Inl (FkViolation ''flow_runs_flow_id_fkey'')
      else let i = flow_run_seq d in
        (case insert_steps (map (step_row i) (spec_steps spec))
                (d\<lparr>flow_runs := flow_runs d @ [new_flow_run i fid input key],
                   flow_run_seq := i + 1\<rparr>) of
           Inl e \<Rightarrow> Inl e
         | Inr d' \<Rightarrow> Inr (i, d')))"

definition insert_flow_run :: "int \<Rightarrow> json \<Rightarrow> json \<Rightarrow> db \<Rightarrow> db_error + int \<times> db" where
  "insert_flow_run fid spec input d = insert_ledger fid spec input None d"

definition flow_run_of_key :: "string \<Rightarrow> db \<Rightarrow> int option" where
  "flow_run_of_key k d = map_option fr_id (find (\<lambda>f. fr_idempotency_key f = Some k) (flow_runs d))"

text \<open>Insert and, on a conflict, the query for the row with the key; one step here as for runs.\<close>

definition insert_flow_run_idempotent ::
    "int \<Rightarrow> json \<Rightarrow> json \<Rightarrow> string \<Rightarrow> db \<Rightarrow> db_error + (int \<times> bool) \<times> db" where
  "insert_flow_run_idempotent fid spec input key d =
     (case flow_run_of_key key d of
        Some i \<Rightarrow> Inr ((i, False), d\<lparr>flow_run_seq := flow_run_seq d + 1\<rparr>)
      | None \<Rightarrow>
          (case insert_ledger fid spec input (Some key) d of
             Inl e \<Rightarrow> Inl e
           | Inr (i, d') \<Rightarrow> Inr ((i, True), d')))"

section \<open>Driving\<close>

definition claim_flow_run :: "time \<Rightarrow> int list \<Rightarrow> db \<Rightarrow> (int \<times> json) option \<times> db" where
  "claim_flow_run now locked d =
     (case select_first fr_id (\<lambda>f. fr_status f = FPending \<and> fr_id f \<notin> set locked) (flow_runs d) of
        None \<Rightarrow> (None, d)
      | Some f \<Rightarrow>
          (Some (fr_id f, case fr_input f of Some i \<Rightarrow> i | None \<Rightarrow> JObj []),
           d\<lparr>flow_runs := update_where (\<lambda>g. fr_id g = fr_id f)
              (\<lambda>g. g\<lparr>fr_status := FRunning, fr_started_at := Some now\<rparr>) (flow_runs d)\<rparr>))"

definition default_input :: "flow_step \<Rightarrow> flow_step" where
  "default_input s = s\<lparr>fs_input := Some (case fs_input s of Some v \<Rightarrow> v | None \<Rightarrow> JObj [])\<rparr>"

definition steps_of :: "int \<Rightarrow> db \<Rightarrow> flow_step list" where
  "steps_of fr d = map default_input (filter (\<lambda>s. fs_flow_run s = fr) (flow_steps d))"

definition upd_step :: "int \<Rightarrow> string \<Rightarrow> (flow_step \<Rightarrow> flow_step) \<Rightarrow> db \<Rightarrow> db" where
  "upd_step fr sid f d =
     d\<lparr>flow_steps := update_where (\<lambda>s. fs_flow_run s = fr \<and> fs_step_id s = sid) f (flow_steps d)\<rparr>"

definition set_step_running :: "int \<Rightarrow> string \<Rightarrow> int \<Rightarrow> db \<Rightarrow> db" where
  "set_step_running fr sid rid d =
     upd_step fr sid (\<lambda>s. s\<lparr>fs_status := SRunning, fs_run_id := Some rid\<rparr>) d"

definition finish_step :: "time \<Rightarrow> int \<Rightarrow> string \<Rightarrow> step_status \<Rightarrow> string option \<Rightarrow> db \<Rightarrow> db" where
  "finish_step now fr sid st out d =
     upd_step fr sid (\<lambda>s. s\<lparr>fs_status := st, fs_output := out, fs_finished_at := Some now\<rparr>) d"

definition mark_step_skipped :: "time \<Rightarrow> int \<Rightarrow> string \<Rightarrow> db \<Rightarrow> db" where
  "mark_step_skipped now fr sid d =
     upd_step fr sid (\<lambda>s. s\<lparr>fs_status := SSkipped, fs_finished_at := Some now\<rparr>) d"

definition mark_step_compensated :: "int \<Rightarrow> string \<Rightarrow> db \<Rightarrow> db" where
  "mark_step_compensated fr sid d = upd_step fr sid (\<lambda>s. s\<lparr>fs_compensated := True\<rparr>) d"

definition child_row :: "int \<Rightarrow> bool \<Rightarrow> string \<times> int \<times> json \<times> string list \<Rightarrow> flow_step" where
  "child_row fr cache c =
     (case c of (sid, script, input, deps) \<Rightarrow>
        \<lparr>fs_flow_run = fr, fs_step_id = sid, fs_script_id = script, fs_input = Some input,
         fs_depends_on = deps, fs_status = SPending, fs_run_id = None, fs_output = None,
         fs_when_cond = None, fs_map_ref = None, fs_compensate = None, fs_compensated = False,
         fs_finished_at = None, fs_retries = None, fs_cache = cache\<rparr>)"

text \<open>
  \<open>ON CONFLICT (flow_run_id, step_id) DO NOTHING\<close>, then the parent; one transaction.  The engine passes
  the flow run of a row of the ledger, which by its own foreign key exists and which no statement
  deletes; the check of that key on the children is left out.
\<close>

fun insert_children :: "flow_step list \<Rightarrow> db \<Rightarrow> db_error + db" where
  "insert_children [] d = Inr d"
| "insert_children (s # ss) d =
     (if has_step (fs_flow_run s) (fs_step_id s) d then insert_children ss d
      else if get_script (fs_script_id s) d = None then Inl (FkViolation ''flow_steps_script_id_fkey'')
      else insert_children ss (d\<lparr>flow_steps := flow_steps d @ [s]\<rparr>))"

definition expand_map_step ::
    "int \<Rightarrow> string \<Rightarrow> (string \<times> int \<times> json \<times> string list) list \<Rightarrow> bool \<Rightarrow> db \<Rightarrow> db_error + db" where
  "expand_map_step fr parent children cache d =
     (case insert_children (map (child_row fr cache) children) d of
        Inl e \<Rightarrow> Inl e
      | Inr d' \<Rightarrow> Inr (upd_step fr parent (\<lambda>s. s\<lparr>fs_status := SExpanded\<rparr>) d'))"

definition finish_flow_run :: "time \<Rightarrow> int \<Rightarrow> flow_status \<Rightarrow> db \<Rightarrow> db" where
  "finish_flow_run now fr st d =
     d\<lparr>flow_runs := update_where (\<lambda>f. fr_id f = fr)
        (\<lambda>f. f\<lparr>fr_status := st, fr_finished_at := Some now\<rparr>) (flow_runs d)\<rparr>"

definition flow_run_status :: "int \<Rightarrow> db \<Rightarrow> flow_status option" where
  "flow_run_status fr d = map_option fr_status (flow_run_by_id fr d)"

definition touch_flow_run :: "time \<Rightarrow> int \<Rightarrow> db \<Rightarrow> db" where
  "touch_flow_run now fr d =
     d\<lparr>flow_runs := update_where (\<lambda>f. fr_id f = fr) (\<lambda>f. f\<lparr>fr_started_at := Some now\<rparr>) (flow_runs d)\<rparr>"

definition reap_orphan_flow_runs :: "time \<Rightarrow> time \<Rightarrow> db \<Rightarrow> nat \<times> db" where
  "reap_orphan_flow_runs now lease d =
     (let P = (\<lambda>f. fr_status f = FRunning \<and>
                   (case fr_started_at f of None \<Rightarrow> True | Some t \<Rightarrow> t < now - lease))
      in (rows_affected P (flow_runs d),
          d\<lparr>flow_runs := update_where P (\<lambda>f. f\<lparr>fr_status := FPending\<rparr>) (flow_runs d)\<rparr>))"

section \<open>Reading\<close>

text \<open>\<open>position('#' in step_id) = 0\<close> selects the top-level steps.\<close>

definition is_child :: "flow_step \<Rightarrow> bool" where
  "is_child s = (CHR ''#'' \<in> set (fs_step_id s))"

definition flow_top_steps :: "int \<Rightarrow> nat \<Rightarrow> nat \<Rightarrow> db \<Rightarrow> flow_step list" where
  "flow_top_steps fr limit offset d =
     take limit (drop offset (filter (\<lambda>s. \<not> is_child s) (steps_of fr d)))"

definition flow_top_step_count :: "int \<Rightarrow> db \<Rightarrow> int" where
  "flow_top_step_count fr d =
     int (length (filter (\<lambda>s. fs_flow_run s = fr \<and> \<not> is_child s) (flow_steps d)))"

definition child_parent :: "flow_step \<Rightarrow> string" where
  "child_parent s = hd (split_on CHR ''#'' (fs_step_id s))"

definition flow_map_counts :: "int \<Rightarrow> db \<Rightarrow> (string \<times> step_status \<times> int) list" where
  "flow_map_counts fr d =
     (let cs = filter (\<lambda>s. fs_flow_run s = fr \<and> is_child s) (flow_steps d);
          groups = remdups (map (\<lambda>s. (child_parent s, fs_status s)) cs)
      in map (\<lambda>(p, st). (p, st, int (length
            (filter (\<lambda>s. child_parent s = p \<and> fs_status s = st) cs)))) groups)"

definition find_flow_run_by_idempotency :: "string \<Rightarrow> db \<Rightarrow> (int \<times> flow_status) option" where
  "find_flow_run_by_idempotency key d =
     map_option (\<lambda>f. (fr_id f, fr_status f))
       (select_last fr_id (\<lambda>f. fr_idempotency_key f = Some key) (flow_runs d))"

section \<open>The ledger invariant\<close>

definition step_key :: "flow_step \<Rightarrow> int \<times> string" where
  "step_key s = (fs_flow_run s, fs_step_id s)"

definition flow_keys :: "flow_run list \<Rightarrow> string list" where
  "flow_keys fs = List.map_filter fr_idempotency_key fs"

definition ledger_wf :: "db \<Rightarrow> bool" where
  "ledger_wf d =
     (distinct (map fr_id (flow_runs d)) \<and> (\<forall>f\<in>set (flow_runs d). fr_id f < flow_run_seq d) \<and>
      distinct (flow_keys (flow_runs d)) \<and>
      distinct (map step_key (flow_steps d)) \<and>
      (\<forall>s\<in>set (flow_steps d). fs_flow_run s \<in> fr_id ` set (flow_runs d) \<and>
         get_script (fs_script_id s) d \<noteq> None))"

text \<open>The parts of the database a statement of this theory may change.\<close>

definition same_but_flows :: "db \<Rightarrow> db \<Rightarrow> bool" where
  "same_but_flows d d' =
     (scripts d' = scripts d \<and> runs d' = runs d \<and> logs d' = logs d \<and> run_seq d' = run_seq d \<and>
      flows d' = flows d)"

lemma flow_keys_simps [simp]:
  "flow_keys [] = []"
  "flow_keys (f # fs) = (case fr_idempotency_key f of None \<Rightarrow> flow_keys fs | Some k \<Rightarrow> k # flow_keys fs)"
  "flow_keys (fs @ gs) = flow_keys fs @ flow_keys gs"
  by (simp_all add: flow_keys_def map_filter_def split: option.splits)

lemma set_flow_keys: "k \<in> set (flow_keys fs) \<longleftrightarrow> (\<exists>f\<in>set fs. fr_idempotency_key f = Some k)"
  by (induction fs) (auto split: option.splits)

lemma flow_keys_update:
  "(\<And>r. fr_idempotency_key (f r) = fr_idempotency_key r) \<Longrightarrow>
   flow_keys (update_where P f rs) = flow_keys rs"
  by (induction rs) (auto split: option.splits)

lemma flow_run_of_key_None: "flow_run_of_key k d = None \<longleftrightarrow> k \<notin> set (flow_keys (flow_runs d))"
  by (simp add: flow_run_of_key_def find_None set_flow_keys)

lemma has_step_iff: "has_step fr sid d \<longleftrightarrow> (fr, sid) \<in> set (map step_key (flow_steps d))"
  by (auto simp: has_step_def step_key_def)

lemma insert_steps_Inr:
  "insert_steps ss d = Inr d' \<Longrightarrow> distinct (map step_key (flow_steps d)) \<Longrightarrow>
   d' = d\<lparr>flow_steps := flow_steps d @ ss\<rparr> \<and> distinct (map step_key (flow_steps d @ ss)) \<and>
   (\<forall>s\<in>set ss. get_script (fs_script_id s) d \<noteq> None)"
proof (induction ss arbitrary: d)
  case (Cons s ss)
  from Cons.prems have s: "get_script (fs_script_id s) d \<noteq> None"
    "\<not> has_step (fs_flow_run s) (fs_step_id s) d"
    and rest: "insert_steps ss (d\<lparr>flow_steps := flow_steps d @ [s]\<rparr>) = Inr d'"
    by (simp_all split: if_splits)
  have "distinct (map step_key (flow_steps (d\<lparr>flow_steps := flow_steps d @ [s]\<rparr>)))"
    using Cons.prems(2) s(2) by (simp add: has_step_iff flip: step_key_def)
  from Cons.IH [OF rest this] s show ?case by (auto simp: get_script_def)
qed simp

lemma insert_ledger_Inr:
  assumes "insert_ledger fid spec input key d = Inr (i, d')" and "ledger_wf d"
  shows "i = flow_run_seq d"
    and "d' = d\<lparr>flow_runs := flow_runs d @ [new_flow_run i fid input key], flow_run_seq := i + 1,
               flow_steps := flow_steps d @ map (step_row i) (spec_steps spec)\<rparr>"
    and "distinct (map step_key (flow_steps d'))"
    and "\<forall>st\<in>set (spec_steps spec). get_script (fs_script_id (step_row i st)) d \<noteq> None"
proof -
  let ?d = "d\<lparr>flow_runs := flow_runs d @ [new_flow_run (flow_run_seq d) fid input key],
              flow_run_seq := flow_run_seq d + 1\<rparr>"
  from assms(1) have i: "i = flow_run_seq d"
    and ins: "insert_steps (map (step_row i) (spec_steps spec)) ?d = Inr d'"
    by (auto simp: insert_ledger_def Let_def split: if_splits sum.splits)
  have "distinct (map step_key (flow_steps ?d))" using assms(2) by (simp add: ledger_wf_def)
  note r = insert_steps_Inr [OF ins this]
  show "i = flow_run_seq d" by (rule i)
  show "d' = d\<lparr>flow_runs := flow_runs d @ [new_flow_run i fid input key], flow_run_seq := i + 1,
               flow_steps := flow_steps d @ map (step_row i) (spec_steps spec)\<rparr>"
    using r by (simp add: i)
  show "distinct (map step_key (flow_steps d'))" using r by simp
  show "\<forall>st\<in>set (spec_steps spec). get_script (fs_script_id (step_row i st)) d \<noteq> None"
    using r by (simp add: get_script_def)
qed

lemma insert_ledger_wf:
  assumes "insert_ledger fid spec input key d = Inr (i, d')" and wf: "ledger_wf d"
    and "\<And>k. key = Some k \<Longrightarrow> flow_run_of_key k d = None"
  shows "ledger_wf d'"
proof -
  note r = insert_ledger_Inr [OF assms(1) wf]
  show ?thesis
    using wf r(1,3,4) assms(3) unfolding r(2)
    by (auto simp: ledger_wf_def new_flow_run_def step_row_def get_script_def
        flow_run_of_key_None split: option.split)
qed


section \<open>Every flow statement keeps it\<close>

datatype flow_stmt =
    FInsertRun int json json
  | FInsertIdem int json json string
  | FClaim time "int list"
  | FStepRunning int string int
  | FFinishStep time int string step_status "string option"
  | FSkipStep time int string
  | FCompensated int string
  | FExpand int string "(string \<times> int \<times> json \<times> string list) list" bool
  | FFinishRun time int flow_status
  | FTouch time int
  | FReap time time

fun exec_flow :: "flow_stmt \<Rightarrow> db \<Rightarrow> db" where
  "exec_flow (FInsertRun fid spec input) d = or_unchanged d (insert_flow_run fid spec input d)"
| "exec_flow (FInsertIdem fid spec input k) d =
     or_unchanged d (insert_flow_run_idempotent fid spec input k d)"
| "exec_flow (FClaim now locked) d = snd (claim_flow_run now locked d)"
| "exec_flow (FStepRunning fr sid rid) d = set_step_running fr sid rid d"
| "exec_flow (FFinishStep now fr sid st out) d = finish_step now fr sid st out d"
| "exec_flow (FSkipStep now fr sid) d = mark_step_skipped now fr sid d"
| "exec_flow (FCompensated fr sid) d = mark_step_compensated fr sid d"
| "exec_flow (FExpand fr p cs cache) d =
     (case expand_map_step fr p cs cache d of Inl e \<Rightarrow> d | Inr d' \<Rightarrow> d')"
| "exec_flow (FFinishRun now fr st) d = finish_flow_run now fr st d"
| "exec_flow (FTouch now fr) d = touch_flow_run now fr d"
| "exec_flow (FReap now lease) d = snd (reap_orphan_flow_runs now lease d)"

text \<open>
  Children are created with the flow run and script of a row that is there, as \<open>expand\<close> does.
\<close>

fun flow_stmt_ok :: "db \<Rightarrow> flow_stmt \<Rightarrow> bool" where
  "flow_stmt_ok d (FExpand fr p cs cache) = (fr \<in> fr_id ` set (flow_runs d))"
| "flow_stmt_ok d s = True"

lemma ledger_wf_runs_update:
  "ledger_wf d \<Longrightarrow> (\<And>f. fr_id (u f) = fr_id f) \<Longrightarrow>
   (\<And>f. fr_idempotency_key (u f) = fr_idempotency_key f) \<Longrightarrow>
   ledger_wf (d\<lparr>flow_runs := update_where P u (flow_runs d)\<rparr>)"
proof -
  assume wf: "ledger_wf d" and u: "\<And>f. fr_id (u f) = fr_id f"
    "\<And>f. fr_idempotency_key (u f) = fr_idempotency_key f"
  have ids: "map fr_id (update_where P u rs) = map fr_id rs" for rs
    by (rule map_update_where) (rule u(1))
  then have img: "fr_id ` set (update_where P u rs) = fr_id ` set rs" for rs
    by (metis set_map)
  have "fr_id f < flow_run_seq d" if "f \<in> set (update_where P u (flow_runs d))" for f
    using wf u(1) that by (auto simp: ledger_wf_def set_update_where)
  with wf show "ledger_wf (d\<lparr>flow_runs := update_where P u (flow_runs d)\<rparr>)"
    by (simp add: ledger_wf_def ids img flow_keys_update u(2) get_script_def)
qed

lemma ledger_wf_upd_step:
  assumes "ledger_wf d" and "\<And>s. fs_flow_run (f s) = fs_flow_run s"
    and "\<And>s. fs_step_id (f s) = fs_step_id s" "\<And>s. fs_script_id (f s) = fs_script_id s"
  shows "ledger_wf (upd_step fr sid f d)"
proof -
  have "map step_key (update_where P f rows) = map step_key rows" for P rows
    by (rule map_update_where) (simp add: step_key_def assms)
  then show ?thesis
    using assms by (auto simp: ledger_wf_def upd_step_def set_update_where get_script_def)
qed

lemma insert_children_wf:
  "insert_children ss d = Inr d' \<Longrightarrow> ledger_wf d \<Longrightarrow>
   \<forall>s\<in>set ss. fs_flow_run s \<in> fr_id ` set (flow_runs d) \<Longrightarrow>
   ledger_wf d' \<and> flow_runs d' = flow_runs d"
proof (induction ss arbitrary: d)
  case (Cons s ss)
  show ?case
  proof (cases "has_step (fs_flow_run s) (fs_step_id s) d")
    case True
    with Cons show ?thesis by simp
  next
    case False
    with Cons.prems have s: "get_script (fs_script_id s) d \<noteq> None"
      and rest: "insert_children ss (d\<lparr>flow_steps := flow_steps d @ [s]\<rparr>) = Inr d'"
      by (simp_all split: if_splits)
    have "ledger_wf (d\<lparr>flow_steps := flow_steps d @ [s]\<rparr>)"
      using Cons.prems(2,3) False s
      by (simp add: ledger_wf_def has_step_iff get_script_def flip: step_key_def)
    from Cons.IH [OF rest this] Cons.prems(3) show ?thesis by simp
  qed
qed simp

lemma exec_flow_wf:
  assumes "ledger_wf d" and "flow_stmt_ok d s" shows "ledger_wf (exec_flow s d)"
proof (cases s)
  case (FInsertRun fid spec input)
  have "ledger_wf d'" if "insert_ledger fid spec input None d = Inr (i, d')" for i d'
    by (rule insert_ledger_wf [OF that assms(1)]) simp
  with FInsertRun assms(1) show ?thesis
    by (auto simp: or_unchanged_def insert_flow_run_def split: sum.split)
next
  case (FInsertIdem fid spec input k)
  show ?thesis
  proof (cases "flow_run_of_key k d")
    case None
    have "ledger_wf d'" if "insert_ledger fid spec input (Some k) d = Inr (i, d')" for i d'
      by (rule insert_ledger_wf [OF that assms(1)]) (use None in simp)
    with None FInsertIdem assms(1) show ?thesis
      by (auto simp: or_unchanged_def insert_flow_run_idempotent_def split: sum.splits)
  next
    case (Some i)
    with assms(1) FInsertIdem show ?thesis
      by (fastforce simp: or_unchanged_def insert_flow_run_idempotent_def ledger_wf_def get_script_def)
  qed
next
  case (FClaim now locked)
  with assms(1) show ?thesis
    by (auto simp: claim_flow_run_def split: option.split intro!: ledger_wf_runs_update)
next
  case (FExpand fr p cs cache)
  show ?thesis
  proof (cases "insert_children (map (child_row fr cache) cs) d")
    case (Inr d')
    have "\<forall>s\<in>set (map (child_row fr cache) cs). fs_flow_run s \<in> fr_id ` set (flow_runs d)"
      using assms(2) FExpand by (auto simp: child_row_def split: prod.split)
    with insert_children_wf [OF Inr assms(1)] Inr FExpand show ?thesis
      by (simp add: expand_map_step_def ledger_wf_upd_step)
  qed (use assms(1) FExpand in \<open>simp add: expand_map_step_def\<close>)
qed (use assms(1) in \<open>simp_all add: set_step_running_def finish_step_def mark_step_skipped_def
       mark_step_compensated_def finish_flow_run_def touch_flow_run_def reap_orphan_flow_runs_def
       Let_def ledger_wf_upd_step ledger_wf_runs_update\<close>)

section \<open>Exactly-once flow runs\<close>

text \<open>The payload of a flow run: flow, spec and input.\<close>

definition enqueue_flow ::
    "int \<times> json \<times> json \<Rightarrow> string \<Rightarrow> db \<Rightarrow> db_error + (int \<times> bool) \<times> db" where
  "enqueue_flow p key d =
     (case p of (fid, spec, input) \<Rightarrow> insert_flow_run_idempotent fid spec input key d)"

lemma insert_ledger_runs:
  "insert_ledger fid spec input key d = Inr (i, d') \<Longrightarrow>
   i = flow_run_seq d \<and> flow_runs d' = flow_runs d @ [new_flow_run i fid input key]"
proof -
  have ins: "insert_steps ss e = Inr e' \<Longrightarrow> flow_runs e' = flow_runs e" for ss e e'
    by (induction ss arbitrary: e) (force split: if_splits)+
  show "insert_ledger fid spec input key d = Inr (i, d') \<Longrightarrow> ?thesis"
    by (auto simp: insert_ledger_def Let_def split: if_splits sum.splits dest!: ins)
qed

lemma flow_run_of_key_append:
  "flow_runs d' = flow_runs d @ fs \<Longrightarrow> flow_run_of_key k d = Some j \<Longrightarrow> flow_run_of_key k d' = Some j"
  by (auto simp: flow_run_of_key_def find_append)

lemma flow_run_of_key_seq [simp]: "flow_run_of_key k (d\<lparr>flow_run_seq := n\<rparr>) = flow_run_of_key k d"
  by (simp add: flow_run_of_key_def)

lemma flow_run_of_key_update:
  "(\<And>f. fr_idempotency_key (u f) = fr_idempotency_key f) \<Longrightarrow> (\<And>f. fr_id (u f) = fr_id f) \<Longrightarrow>
   flow_run_of_key k (d\<lparr>flow_runs := update_where P u (flow_runs d)\<rparr>) = flow_run_of_key k d"
  by (cases "find (\<lambda>f. fr_idempotency_key f = Some k) (flow_runs d)")
    (simp_all add: flow_run_of_key_def find_update_where [where key = fr_idempotency_key])

lemma enqueue_flow_cases:
  assumes "enqueue_flow x k d = Inr (r, d')"
  shows "(\<exists>i. flow_run_of_key k d = Some i \<and> r = (i, False) \<and> flow_runs d' = flow_runs d) \<or>
    (flow_run_of_key k d = None \<and> snd r \<and>
     (\<exists>fid input. flow_runs d' = flow_runs d @ [new_flow_run (fst r) fid input (Some k)]))"
proof -
  obtain fid spec input where x: "x = (fid, spec, input)" by (metis prod.exhaust)
  show ?thesis
    using assms insert_ledger_runs [of fid spec input "Some k" d]
    by (simp add: x enqueue_flow_def insert_flow_run_idempotent_def split: option.splits sum.splits)
      (fastforce+)
qed

lemma flow_run_of_key_step:
  assumes "flow_run_of_key k d = Some j"
  shows "flow_run_of_key k (exec_flow s d) = Some j"
proof (cases s)
  case (FInsertRun fid spec input)
  with assms show ?thesis
    by (auto simp: or_unchanged_def insert_flow_run_def split: sum.split
        dest!: insert_ledger_runs intro: flow_run_of_key_append)
next
  case (FInsertIdem fid spec input k')
  with assms show ?thesis
    by (auto simp: or_unchanged_def insert_flow_run_idempotent_def split: sum.splits option.splits
        dest!: insert_ledger_runs intro: flow_run_of_key_append)
next
  case (FClaim now locked)
  with assms show ?thesis
    by (simp add: claim_flow_run_def flow_run_of_key_update split: option.split)
next
  case (FExpand fr p cs cache)
  have ins: "insert_children ss e = Inr e' \<Longrightarrow> flow_runs e' = flow_runs e" for ss e e'
    by (induction ss arbitrary: e) (force split: if_splits)+
  from FExpand assms show ?thesis
    by (auto simp: expand_map_step_def upd_step_def flow_run_of_key_def split: sum.splits dest!: ins)
qed (use assms in \<open>simp_all add: set_step_running_def finish_step_def mark_step_skipped_def
       mark_step_compensated_def upd_step_def finish_flow_run_def touch_flow_run_def
       reap_orphan_flow_runs_def Let_def flow_run_of_key_update, simp_all add: flow_run_of_key_def\<close>)

interpretation flow_enqueue:
  idempotent_enqueue enqueue_flow exec_flow flow_run_of_key "\<lambda>_. True" "\<lambda>_. True"
proof
  fix d d' k i x r
  assume e: "enqueue_flow x k d = Inr (r, d')"
  show "flow_run_of_key k d = Some i \<Longrightarrow> r = (i, False)" using enqueue_flow_cases [OF e] by auto
  show "flow_run_of_key k d = None \<Longrightarrow> snd r \<and> flow_run_of_key k d' = Some (fst r)"
    using enqueue_flow_cases [OF e]
    by (auto simp: flow_run_of_key_def find_append new_flow_run_def)
next
  fix d d' k k' j x r
  assume e: "enqueue_flow x k d = Inr (r, d')"
  show "True \<and> (flow_run_of_key k' d = Some j \<longrightarrow> flow_run_of_key k' d' = Some j)"
    using enqueue_flow_cases [OF e] flow_run_of_key_append [of d' d _ k' j]
    by (auto simp: flow_run_of_key_def)
qed (simp add: flow_run_of_key_step)

definition flow_db :: db where
  "flow_db = snd (insert_flow sample_spec (snd (insert_script ''b'' ''bash'' ''x'' None None False None None
     False None (snd (insert_script ''a'' ''bash'' ''x'' None None False None None False None empty_db)))))"

text \<open>C22. Exactly-once flow runs: redeliveries under one key, mixed in any way with the engine's own
  statements and with other deliveries, all return the same flow run, and at most one of them
  created it.\<close>

theorem flow_exactly_once:
  "(\<exists>i. \<forall>j c. (k, j, c) \<in> set (deliveries enqueue_flow exec_flow es d) \<longrightarrow> j = i) \<and>
   length (filter (\<lambda>(k', i, c). k' = k \<and> c) (deliveries enqueue_flow exec_flow es d)) \<le> 1"
  by (rule flow_enqueue.exactly_once) (simp_all add: flow_enqueue.quiet_def)

theorem flow_exactly_once_witness:
  "length (filter (\<lambda>(k', i, c). k' = ''k'' \<and> c)
     (deliveries enqueue_flow exec_flow
       [Deliver (1, sample_spec, JObj []) ''k'', Other (FClaim 5 []), Deliver (1, sample_spec, JNull) ''k'']
       flow_db)) \<le> 1"
  using flow_exactly_once [where k = "''k''" and d = flow_db and
      es = "[Deliver (1, sample_spec, JObj []) ''k'', Other (FClaim 5 []), Deliver (1, sample_spec, JNull) ''k'']"]
  by simp

fun flow_history_ok :: "flow_stmt list \<Rightarrow> db \<Rightarrow> bool" where
  "flow_history_ok [] d = True"
| "flow_history_ok (s # ss) d = (flow_stmt_ok d s \<and> flow_history_ok ss (exec_flow s d))"

lemma flow_history_wf: "ledger_wf d \<Longrightarrow> flow_history_ok ss d \<Longrightarrow> ledger_wf (fold exec_flow ss d)"
  by (induction ss arbitrary: d) (auto simp: exec_flow_wf)

text \<open>C23. The step ledger: over any history of flow statements, flow runs keep distinct ids and
  keys, a flow run never has two rows for one step, and every step belongs to a flow run and a
  script that exist.\<close>

theorem ledger_invariant:
  assumes "ledger_wf d" and "flow_history_ok ss d"
  shows "ledger_wf (fold exec_flow ss d)"
  using assms by (rule flow_history_wf)

theorem ledger_invariant_witness:
  "ledger_wf (fold exec_flow [FInsertRun 1 sample_spec (JObj []), FClaim 5 [],
     FFinishStep 6 1 ''a'' SSucceeded (Some ''1'')] flow_db)"
  by (rule ledger_invariant)
    (simp_all add: flow_db_def insert_flow_def insert_script_def empty_db_def ledger_wf_def)

end
