(* ===== verification/Receipt.thy ===== *)
theory Receipt
  imports Content_Key
begin

text \<open>
  Reproducibility receipts (\<open>src/receipt.rs\<close>, and \<open>build_receipt\<close> of \<open>src/exec.rs\<close>): how one is
  built and signed, the two signatures, and the offline verdict.

  SHA-256, HMAC, Ed25519, base64 and the JSON printer and parser are other crates' code and are
  the fields of \<open>crypto\<close>; what is assumed of them is \<open>crypto_ok\<close>.  A Rust panic is the outer
  \<open>None\<close> of a \<open>panics\<close> value.
\<close>

type_synonym 'a panics = "'a option"

record crypto =
  c_sha :: "string \<Rightarrow> string"
  c_hmac :: "string \<Rightarrow> string \<Rightarrow> string"
  c_ed_pub :: "string \<Rightarrow> string"
  c_ed_sign :: "string \<Rightarrow> string \<Rightarrow> string"
  c_ed_point :: "string \<Rightarrow> bool"  \<comment> \<open>\<open>VerifyingKey::from_bytes\<close> accepts\<close>
  c_ed_verify :: "string \<Rightarrow> string \<Rightarrow> string \<Rightarrow> bool"
  c_b64 :: "string \<Rightarrow> string"
  c_unb64 :: "string \<Rightarrow> string option"
  c_print :: "json \<Rightarrow> string"
  c_parse :: "string \<Rightarrow> json option"

section \<open>Hexadecimal\<close>

definition hex :: "string \<Rightarrow> string" where
  "hex s = concat (map (\<lambda>c. let n = of_char c :: nat in [hex_digit (n div 16), hex_digit (n mod 16)]) s)"

definition hex_value :: "char \<Rightarrow> nat option" where
  "hex_value c =
     (let n = of_char c :: nat in
      if 48 \<le> n \<and> n \<le> 57 then Some (n - 48)
      else if 97 \<le> n \<and> n \<le> 102 then Some (n - 87)
      else if 65 \<le> n \<and> n \<le> 70 then Some (n - 55)
      else None)"

text \<open>\<open>u8::from_str_radix(_, 16)\<close> on two bytes; a leading plus sign is accepted.\<close>

definition hex_byte :: "char \<Rightarrow> char \<Rightarrow> char option" where
  "hex_byte a b =
     (case hex_value b of
        None \<Rightarrow> None
      | Some y \<Rightarrow>
          if a = CHR ''+'' then Some (char_of y)
          else map_option (\<lambda>x. char_of (16 * x + y)) (hex_value a))"

text \<open>A UTF-8 continuation byte: no \<open>str\<close> slice may begin or end at it.\<close>

definition is_cont :: "char \<Rightarrow> bool" where
  "is_cont c = (128 \<le> (of_char c :: nat) \<and> (of_char c :: nat) < 192)"

fun unhex_pairs :: "string \<Rightarrow> string option panics" where
  "unhex_pairs (a # b # s) =
     (if is_cont a \<or> (s \<noteq> [] \<and> is_cont (hd s)) then None
      else case hex_byte a b of
        None \<Rightarrow> Some None
      | Some x \<Rightarrow> map_option (map_option (\<lambda>xs. x # xs)) (unhex_pairs s))"
| "unhex_pairs s = Some (Some [])"

definition unhex :: "string \<Rightarrow> string option panics" where
  "unhex s = (if odd (length s) then Some None else unhex_pairs s)"

definition sha256_hex :: "crypto \<Rightarrow> string \<Rightarrow> string" where
  "sha256_hex cr s = hex (c_sha cr s)"

lemma of_hex_digit: "n < 16 \<Longrightarrow> of_char (hex_digit n) = (if n < 10 then 48 + n else 87 + n :: nat)"
  by (simp add: hex_digit_def)

lemma hex_value_digit: "n < 16 \<Longrightarrow> hex_value (hex_digit n) = Some n"
  by (simp add: hex_value_def of_hex_digit Let_def)

lemma hex_digit_plain: "n < 16 \<Longrightarrow> hex_digit n \<noteq> CHR ''+'' \<and> \<not> is_cont (hex_digit n)"
proof -
  assume n: "n < 16"
  then have v: "of_char (hex_digit n) = (if n < 10 then 48 + n else 87 + n :: nat)" by (rule of_hex_digit)
  have "hex_digit n \<noteq> CHR ''+''"
  proof
    assume "hex_digit n = CHR ''+''"
    then have "of_char (hex_digit n) = (43 :: nat)" by simp
    with v show False by (simp split: if_splits)
  qed
  with v n show ?thesis by (simp add: is_cont_def)
qed

lemma hex_Cons:
  "hex (c # s) = hex_digit (of_char c div 16) # hex_digit (of_char c mod 16) # hex s"
  by (simp add: hex_def Let_def)

lemma hex_Nil [simp]: "hex [] = []" by (simp add: hex_def)

lemma length_hex [simp]: "length (hex s) = 2 * length s"
  by (induction s) (simp_all add: hex_Cons)

lemma hd_hex: "s \<noteq> [] \<Longrightarrow> \<not> is_cont (hd (hex s))"
  by (cases s) (simp_all add: hex_Cons hex_digit_plain less_mult_imp_div_less)

lemma unhex_pairs_hex: "unhex_pairs (hex s) = Some (Some s)"
proof (induction s)
  case (Cons c s)
  have lt: "of_char c div 16 < (16 :: nat)" by (simp add: less_mult_imp_div_less)
  have "hex_byte (hex_digit (of_char c div 16)) (hex_digit (of_char c mod 16)) = Some c"
    using lt by (simp add: hex_byte_def hex_value_digit hex_digit_plain)
  moreover have "hex s = [] \<or> \<not> is_cont (hd (hex s))" using hd_hex [of s] by (cases s) auto
  ultimately show ?case using Cons lt by (simp add: hex_Cons hex_digit_plain)
qed simp

lemma unhex_hex [simp]: "unhex (hex s) = Some (Some s)"
  by (simp add: unhex_def unhex_pairs_hex)

section \<open>The signed encoding\<close>

definition dsse_payload_type :: string where
  "dsse_payload_type = ''application/vnd.in-toto+json''"

definition predicate_type :: string where
  "predicate_type = ''https://dokan.dev/Run/v1''"

definition dsse_pae :: "string \<Rightarrow> string \<Rightarrow> string" where
  "dsse_pae ty payload =
     ''DSSEv1 '' @ nat_str (length ty) @ '' '' @ ty @ '' '' @ nat_str (length payload) @ '' '' @ payload"

section \<open>The signer\<close>

record signer =
  sg_key :: string
  sg_ed :: string

definition ed_seed_from_b64 :: "crypto \<Rightarrow> string \<Rightarrow> string option" where
  "ed_seed_from_b64 cr s =
     (case c_unb64 cr (trim s) of
        Some b \<Rightarrow> (if length b = 32 then Some b else None) | None \<Rightarrow> None)"

definition ed_from_env :: "crypto \<Rightarrow> (string \<Rightarrow> string option) \<Rightarrow> string" where
  "ed_from_env cr env =
     (case Option.bind (env ''DOKAN_RECEIPT_ED25519_SECRET'') (ed_seed_from_b64 cr) of
        Some seed \<Rightarrow> seed
      | None \<Rightarrow> c_sha cr ''dokan-dev-receipt-ed25519'')"

definition signer_from_env :: "crypto \<Rightarrow> (string \<Rightarrow> string option) \<Rightarrow> signer" where
  "signer_from_env cr env =
     \<lparr>sg_key = (case env ''DOKAN_RECEIPT_KEY'' of
                  Some k \<Rightarrow> (if k \<noteq> [] then k else ''dokan-dev-receipt-key'')
                | None \<Rightarrow> ''dokan-dev-receipt-key''),
      sg_ed = ed_from_env cr env\<rparr>"

definition key_configured :: "(string \<Rightarrow> string option) \<Rightarrow> bool" where
  "key_configured env = (case env ''DOKAN_RECEIPT_KEY'' of Some k \<Rightarrow> k \<noteq> [] | None \<Rightarrow> False)"

definition ed_key_configured :: "crypto \<Rightarrow> (string \<Rightarrow> string option) \<Rightarrow> bool" where
  "ed_key_configured cr env =
     (Option.bind (env ''DOKAN_RECEIPT_ED25519_SECRET'') (ed_seed_from_b64 cr) \<noteq> None)"

definition sign :: "crypto \<Rightarrow> signer \<Rightarrow> string \<Rightarrow> string" where
  "sign cr sg payload = hex (c_hmac cr (sg_key sg) payload)"

definition ed_sign :: "crypto \<Rightarrow> signer \<Rightarrow> string \<Rightarrow> string" where
  "ed_sign cr sg msg = hex (c_ed_sign cr (sg_ed sg) msg)"

definition ed_public_b64 :: "crypto \<Rightarrow> signer \<Rightarrow> string" where
  "ed_public_b64 cr sg = c_b64 cr (c_ed_pub cr (sg_ed sg))"

definition ed_keyid :: "crypto \<Rightarrow> signer \<Rightarrow> string" where
  "ed_keyid cr sg = take 16 (sha256_hex cr (c_ed_pub cr (sg_ed sg)))"

definition ed_verify :: "crypto \<Rightarrow> string \<Rightarrow> string \<Rightarrow> string \<Rightarrow> string \<Rightarrow> bool panics" where
  "ed_verify cr public_b64 ty payload sig_hex =
     (case c_unb64 cr public_b64 of
        None \<Rightarrow> Some False
      | Some pk \<Rightarrow>
          if length pk \<noteq> 32 \<or> \<not> c_ed_point cr pk then Some False
          else (case unhex sig_hex of
             None \<Rightarrow> None
           | Some None \<Rightarrow> Some False
           | Some (Some sig) \<Rightarrow>
               if length sig \<noteq> 64 then Some False
               else Some (c_ed_verify cr pk (dsse_pae ty payload) sig)))"

section \<open>The HMAC binding\<close>

definition bool_str :: "bool \<Rightarrow> string" where
  "bool_str b = (if b then ''true'' else ''false'')"

definition binding_payload ::
    "string \<Rightarrow> string \<Rightarrow> string \<Rightarrow> int \<Rightarrow> string \<Rightarrow> int \<Rightarrow> bool \<Rightarrow> string \<Rightarrow> string \<Rightarrow> string" where
  "binding_payload digest source_sha input_sha gen output_hash exit_code network ib ob =
     ''v1|'' @ digest @ ''|'' @ source_sha @ ''|'' @ input_sha @ ''|'' @ int_str gen @ ''|'' @
     output_hash @ ''|'' @ int_str exit_code @ ''|'' @ bool_str network @ ''|'' @ ib @ ''|'' @ ob"

definition verify_hmac :: "crypto \<Rightarrow> signer \<Rightarrow> json \<Rightarrow> bool" where
  "verify_hmac cr sg r =
     (case (get_as as_str ''image_digest'' r, get_as as_str ''source_sha256'' r,
            get_as as_str ''input_sha256'' r, get_as as_str ''output_sha256'' r,
            get_as as_str ''sig'' r) of
        (Some digest, Some source_sha, Some input_sha, Some output_hash, Some sig) \<Rightarrow>
          (case (get_as as_i64 ''secrets_generation'' r, get_as as_i64 ''exit'' r,
                 get_as as_bool ''network'' r) of
             (Some gen, Some exit_code, Some network) \<Rightarrow>
               sign cr sg (binding_payload digest source_sha input_sha gen output_hash exit_code
                 network (canonical_input_blobs (jget ''input_blobs'' r))
                 (canonical_input_blobs (jget ''output_blobs'' r))) = sig
           | _ \<Rightarrow> False)
      | _ \<Rightarrow> False)"

section \<open>Building a receipt\<close>

text \<open>What \<open>build_receipt\<close> is given; \<open>rb_digest\<close> is what the pool knows of the image.\<close>

record receipt_inputs =
  rb_run_id :: int
  rb_image :: string
  rb_digest :: "string option"
  rb_source :: string
  rb_input :: json
  rb_result :: "json option"
  rb_exit :: int
  rb_network :: bool
  rb_gen :: int
  rb_input_blobs :: "json option"
  rb_output_blobs :: "json option"

definition the_digest :: "receipt_inputs \<Rightarrow> string" where
  "the_digest b = (case rb_digest b of Some x \<Rightarrow> x | None \<Rightarrow> rb_image b)"

definition output_hash :: "crypto \<Rightarrow> receipt_inputs \<Rightarrow> string" where
  "output_hash cr b = sha256_hex cr (case rb_result b of Some r \<Rightarrow> c_print cr r | None \<Rightarrow> [])"

definition subjects :: "crypto \<Rightarrow> receipt_inputs \<Rightarrow> json list" where
  "subjects cr b =
     mk_obj [(''name'', JStr ''result''), (''digest'', mk_obj [(''sha256'', JStr (output_hash cr b))])] #
     (case rb_output_blobs b of
        Some (JObj m) \<Rightarrow> List.map_filter (\<lambda>(name, sha). map_option (\<lambda>s.
            mk_obj [(''name'', JStr name), (''digest'', mk_obj [(''sha256'', JStr s)])]) (as_str sha)) m
      | _ \<Rightarrow> [])"

definition or_null :: "json option \<Rightarrow> json" where
  "or_null v = (case v of Some x \<Rightarrow> x | None \<Rightarrow> JNull)"

definition statement :: "crypto \<Rightarrow> receipt_inputs \<Rightarrow> json" where
  "statement cr b = mk_obj
     [(''_type'', JStr ''https://in-toto.io/Statement/v1''),
      (''subject'', JArr (subjects cr b)),
      (''predicateType'', JStr predicate_type),
      (''predicate'', mk_obj
         [(''builder'', mk_obj [(''id'', JStr ''dokan''), (''version'', JStr ''0.5.0'')]),
          (''invocation'', mk_obj [(''invocationId'', JStr (int_str (rb_run_id b))),
                                   (''image'', JStr (rb_image b))]),
          (''image_digest'', JStr (the_digest b)),
          (''source_sha256'', JStr (sha256_hex cr (rb_source b))),
          (''input_sha256'', JStr (sha256_hex cr (c_print cr (rb_input b)))),
          (''secrets_generation'', JInt (rb_gen b)),
          (''output_sha256'', JStr (output_hash cr b)),
          (''exit'', JInt (rb_exit b)),
          (''network'', JBool (rb_network b)),
          (''hermetic'', JBool (\<not> rb_network b)),
          (''input_blobs'', or_null (rb_input_blobs b)),
          (''output_blobs'', or_null (rb_output_blobs b))])]"

definition build_receipt :: "crypto \<Rightarrow> signer \<Rightarrow> receipt_inputs \<Rightarrow> json" where
  "build_receipt cr sg b =
     (let sig = sign cr sg (binding_payload (the_digest b) (sha256_hex cr (rb_source b))
            (sha256_hex cr (c_print cr (rb_input b))) (rb_gen b) (output_hash cr b) (rb_exit b)
            (rb_network b) (canonical_input_blobs (rb_input_blobs b))
            (canonical_input_blobs (rb_output_blobs b)));
          payload = c_print cr (statement cr b);
          dsse = mk_obj
            [(''payloadType'', JStr dsse_payload_type),
             (''payload'', JStr (c_b64 cr payload)),
             (''signatures'', JArr [mk_obj [(''keyid'', JStr (ed_keyid cr sg)),
                (''sig'', JStr (ed_sign cr sg (dsse_pae dsse_payload_type payload)))]])]
      in mk_obj
        [(''v'', JInt 1),
         (''image_digest'', JStr (the_digest b)),
         (''source_sha256'', JStr (sha256_hex cr (rb_source b))),
         (''input_sha256'', JStr (sha256_hex cr (c_print cr (rb_input b)))),
         (''secrets_generation'', JInt (rb_gen b)),
         (''output_sha256'', JStr (output_hash cr b)),
         (''exit'', JInt (rb_exit b)),
         (''network'', JBool (rb_network b)),
         (''deterministic'', JBool (\<not> rb_network b)),
         (''hermetic'', JBool (\<not> rb_network b)),
         (''input_blobs'', or_null (rb_input_blobs b)),
         (''output_blobs'', or_null (rb_output_blobs b)),
         (''alg'', JStr ''hmac-sha256''),
         (''sig'', JStr sig),
         (''statement'', statement cr b),
         (''dsse'', dsse),
         (''ed25519'', mk_obj [(''keyid'', JStr (ed_keyid cr sg)),
                               (''public_key'', JStr (ed_public_b64 cr sg))])])"

section \<open>Offline verification\<close>

record verify_report =
  vr_ed25519_valid :: bool
  vr_binding_consistent :: bool
  vr_hermetic :: bool
  vr_keyid :: string
  vr_trust_enforced :: bool
  vr_pinned :: bool

definition report_ok :: "verify_report \<Rightarrow> bool" where
  "report_ok r =
     (vr_ed25519_valid r \<and> vr_binding_consistent r \<and> (\<not> vr_trust_enforced r \<or> vr_pinned r))"

definition trusted_receipt_keys :: "(string \<Rightarrow> string option) \<Rightarrow> string set option" where
  "trusted_receipt_keys env =
     (case env ''DOKAN_TRUSTED_RECEIPT_KEYS'' of
        None \<Rightarrow> None
      | Some raw \<Rightarrow>
          (let keys = filter (\<lambda>s. s \<noteq> []) (map trim (split_on CHR '','' raw))
           in if keys = [] then None else Some (set keys)))"

text \<open>\<open>.get(a).and_then(..)\<close> chains over the receipt, with the empty string as the default.\<close>

definition or_empty :: "string option \<Rightarrow> string" where
  "or_empty s = (case s of Some x \<Rightarrow> x | None \<Rightarrow> [])"

definition receipt_key :: "json \<Rightarrow> json option" where
  "receipt_key r = Option.bind (jget ''ed25519'' r) (jget ''public_key'')"

definition receipt_sig_field :: "string \<Rightarrow> json \<Rightarrow> json option" where
  "receipt_sig_field k r =
     Option.bind (Option.bind (Option.bind (jget ''dsse'' r) (jget ''signatures'')) (jget_idx 0)) (jget k)"

definition receipt_payload :: "json \<Rightarrow> json option" where
  "receipt_payload r = Option.bind (jget ''dsse'' r) (jget ''payload'')"

definition verify_receipt_with ::
    "crypto \<Rightarrow> json \<Rightarrow> string set option \<Rightarrow> verify_report panics" where
  "verify_receipt_with cr r trusted =
     (let public_b64 = or_empty (Option.bind (receipt_key r) as_str);
          payload_type = (case Option.bind (Option.bind (jget ''dsse'' r) (jget ''payloadType'')) as_str of
              Some t \<Rightarrow> t | None \<Rightarrow> dsse_payload_type);
          payload_b64 = or_empty (Option.bind (receipt_payload r) as_str);
          sig = or_empty (Option.bind (receipt_sig_field ''sig'' r) as_str);
          keyid = or_empty (Option.bind (receipt_sig_field ''keyid'' r) as_str);
          payload = or_empty (c_unb64 cr payload_b64);
          claimed_out = get_as as_str ''output_sha256'' r;
          signed_pred = Option.bind (c_parse cr payload) (jget ''predicate'');
          consistent = (case (claimed_out, signed_pred) of
              (Some out, Some pred) \<Rightarrow>
                get_as as_str ''output_sha256'' pred = Some out \<and>
                canonical_input_blobs (jget ''input_blobs'' r) =
                  canonical_input_blobs (jget ''input_blobs'' pred) \<and>
                canonical_input_blobs (jget ''output_blobs'' r) =
                  canonical_input_blobs (jget ''output_blobs'' pred)
            | _ \<Rightarrow> False);
          report = (\<lambda>valid.
            \<lparr>vr_ed25519_valid = valid, vr_binding_consistent = consistent,
             vr_hermetic = (case get_as as_bool ''hermetic'' r of Some h \<Rightarrow> h | None \<Rightarrow> False),
             vr_keyid = keyid, vr_trust_enforced = (trusted \<noteq> None),
             vr_pinned = (case trusted of Some ks \<Rightarrow> public_b64 \<noteq> [] \<and> public_b64 \<in> ks | None \<Rightarrow> False)\<rparr>)
      in if payload = [] then Some (report False)
         else map_option report (ed_verify cr public_b64 payload_type payload sig))"

datatype verdict = Verified | Tampered | Untrusted | Inconclusive

fun verdict_label :: "verdict \<Rightarrow> string" where
  "verdict_label Verified = ''VERIFIED''"
| "verdict_label Tampered = ''TAMPERED''"
| "verdict_label Untrusted = ''UNTRUSTED''"
| "verdict_label Inconclusive = ''INCONCLUSIVE''"

fun verdict_exit_code :: "verdict \<Rightarrow> int" where
  "verdict_exit_code Verified = 0"
| "verdict_exit_code Tampered = 1"
| "verdict_exit_code Inconclusive = 2"
| "verdict_exit_code Untrusted = 3"

definition nonempty_str :: "json option \<Rightarrow> bool" where
  "nonempty_str v = (case Option.bind v as_str of Some s \<Rightarrow> s \<noteq> [] | None \<Rightarrow> False)"

definition has_ed25519_signature :: "json \<Rightarrow> bool" where
  "has_ed25519_signature r =
     (nonempty_str (receipt_sig_field ''sig'' r) \<and> nonempty_str (receipt_key r) \<and>
      nonempty_str (receipt_payload r))"

definition classify_with ::
    "crypto \<Rightarrow> json \<Rightarrow> string set option \<Rightarrow> (verdict \<times> verify_report) panics" where
  "classify_with cr r trusted =
     map_option (\<lambda>rep.
       (if \<not> has_ed25519_signature r then Inconclusive
        else if report_ok rep then Verified
        else if vr_ed25519_valid rep \<and> vr_binding_consistent rep \<and> vr_trust_enforced rep \<and>
                \<not> vr_pinned rep then Untrusted
        else Tampered, rep)) (verify_receipt_with cr r trusted)"

definition classify :: "crypto \<Rightarrow> (string \<Rightarrow> string option) \<Rightarrow> json \<Rightarrow> (verdict \<times> verify_report) panics" where
  "classify cr env r = classify_with cr r (trusted_receipt_keys env)"


section \<open>What verification shows\<close>

text \<open>What is assumed of the crates: Ed25519 accepts its own signatures under the derived key, the
  lengths are the documented ones, and base64 decodes what it encoded.\<close>

definition crypto_ok :: "crypto \<Rightarrow> bool" where
  "crypto_ok cr =
     ((\<forall>sk m. c_ed_verify cr (c_ed_pub cr sk) m (c_ed_sign cr sk m)) \<and>
      (\<forall>sk. c_ed_point cr (c_ed_pub cr sk) \<and> length (c_ed_pub cr sk) = 32) \<and>
      (\<forall>sk m. length (c_ed_sign cr sk m) = 64) \<and>
      (\<forall>x. c_unb64 cr (c_b64 cr x) = Some x) \<and> (\<forall>x. x \<noteq> [] \<longrightarrow> c_b64 cr x \<noteq> []))"

lemma canonical_or_null [simp]: "canonical_input_blobs (Some (or_null v)) = canonical_input_blobs v"
  by (cases v) (simp_all add: or_null_def canonical_input_blobs_def)

lemma receipt_fields:
  "jget ''image_digest'' (build_receipt cr sg b) = Some (JStr (the_digest b))"
  "jget ''source_sha256'' (build_receipt cr sg b) = Some (JStr (sha256_hex cr (rb_source b)))"
  "jget ''input_sha256'' (build_receipt cr sg b) = Some (JStr (sha256_hex cr (c_print cr (rb_input b))))"
  "jget ''secrets_generation'' (build_receipt cr sg b) = Some (JInt (rb_gen b))"
  "jget ''output_sha256'' (build_receipt cr sg b) = Some (JStr (output_hash cr b))"
  "jget ''exit'' (build_receipt cr sg b) = Some (JInt (rb_exit b))"
  "jget ''network'' (build_receipt cr sg b) = Some (JBool (rb_network b))"
  "jget ''hermetic'' (build_receipt cr sg b) = Some (JBool (\<not> rb_network b))"
  "jget ''input_blobs'' (build_receipt cr sg b) = Some (or_null (rb_input_blobs b))"
  "jget ''output_blobs'' (build_receipt cr sg b) = Some (or_null (rb_output_blobs b))"
  "jget ''sig'' (build_receipt cr sg b) = Some (JStr (sign cr sg (binding_payload (the_digest b)
     (sha256_hex cr (rb_source b)) (sha256_hex cr (c_print cr (rb_input b))) (rb_gen b)
     (output_hash cr b) (rb_exit b) (rb_network b) (canonical_input_blobs (rb_input_blobs b))
     (canonical_input_blobs (rb_output_blobs b)))))"
  by (simp_all add: build_receipt_def Let_def)

lemma receipt_envelope:
  "receipt_key (build_receipt cr sg b) = Some (JStr (ed_public_b64 cr sg))"
  "receipt_payload (build_receipt cr sg b) = Some (JStr (c_b64 cr (c_print cr (statement cr b))))"
  "receipt_sig_field ''sig'' (build_receipt cr sg b) =
     Some (JStr (ed_sign cr sg (dsse_pae dsse_payload_type (c_print cr (statement cr b)))))"
  "receipt_sig_field ''keyid'' (build_receipt cr sg b) = Some (JStr (ed_keyid cr sg))"
  "Option.bind (jget ''dsse'' (build_receipt cr sg b)) (jget ''payloadType'') = Some (JStr dsse_payload_type)"
  by (simp_all add: build_receipt_def Let_def receipt_key_def receipt_payload_def
      receipt_sig_field_def jget_idx_def)

lemma statement_predicate:
  "Option.bind (Some (statement cr b)) (jget ''predicate'') = Some pred \<Longrightarrow>
   jget ''output_sha256'' pred = Some (JStr (output_hash cr b)) \<and>
   jget ''input_blobs'' pred = Some (or_null (rb_input_blobs b)) \<and>
   jget ''output_blobs'' pred = Some (or_null (rb_output_blobs b))"
  by (auto simp: statement_def)

lemma statement_has_predicate: "\<exists>pred. jget ''predicate'' (statement cr b) = Some pred"
  by (simp add: statement_def)

lemma built_signature_valid:
  assumes "crypto_ok cr"
  shows "ed_verify cr (ed_public_b64 cr sg) dsse_payload_type m
           (ed_sign cr sg (dsse_pae dsse_payload_type m)) = Some True"
  using assms by (simp add: ed_verify_def ed_public_b64_def ed_sign_def crypto_ok_def)

lemma built_classified:
  assumes "crypto_ok cr"
    and "c_parse cr (c_print cr (statement cr b)) = Some (statement cr b)"
    and "c_print cr (statement cr b) \<noteq> []"
    and "as_i64 (JInt (rb_gen b)) = Some (rb_gen b)" and "as_i64 (JInt (rb_exit b)) = Some (rb_exit b)"
  shows "verify_hmac cr sg (build_receipt cr sg b) \<and>
    (\<exists>rep. classify_with cr (build_receipt cr sg b) trusted =
       Some (case trusted of None \<Rightarrow> Verified
             | Some ks \<Rightarrow> if ed_public_b64 cr sg \<in> ks then Verified else Untrusted, rep) \<and>
       vr_hermetic rep = (\<not> rb_network b))"
proof -
  let ?r = "build_receipt cr sg b" and ?m = "c_print cr (statement cr b)"
  obtain pred where pred: "jget ''predicate'' (statement cr b) = Some pred"
    using statement_has_predicate by blast
  have fields: "jget ''output_sha256'' pred = Some (JStr (output_hash cr b))"
    "jget ''input_blobs'' pred = Some (or_null (rb_input_blobs b))"
    "jget ''output_blobs'' pred = Some (or_null (rb_output_blobs b))"
    using statement_predicate [of cr b pred] pred by simp_all
  have unb: "c_unb64 cr (c_b64 cr x) = Some x" for x using assms(1) by (simp add: crypto_ok_def)
  have pk: "ed_public_b64 cr sg \<noteq> []"
  proof -
    have "c_ed_pub cr (sg_ed sg) \<noteq> []" using assms(1) by (metis crypto_ok_def list.size(3) zero_neq_numeral)
    then show ?thesis using assms(1) by (simp add: ed_public_b64_def crypto_ok_def)
  qed
  have sig: "ed_sign cr sg m \<noteq> []" for m
  proof -
    have "length (ed_sign cr sg m) = 128" using assms(1) by (simp add: ed_sign_def crypto_ok_def)
    then show ?thesis by auto
  qed
  have "c_b64 cr ?m \<noteq> []" using assms(1,3) by (simp add: crypto_ok_def)
  then have has: "has_ed25519_signature ?r"
    using pk sig by (simp add: has_ed25519_signature_def nonempty_str_def receipt_envelope)
  have rep: "verify_receipt_with cr ?r trusted = Some
      \<lparr>vr_ed25519_valid = True, vr_binding_consistent = True, vr_hermetic = (\<not> rb_network b),
       vr_keyid = ed_keyid cr sg, vr_trust_enforced = (trusted \<noteq> None),
       vr_pinned = (case trusted of Some ks \<Rightarrow> ed_public_b64 cr sg \<in> ks | None \<Rightarrow> False)\<rparr>"
    using assms(2,3) pred fields built_signature_valid [OF assms(1)] pk
    by (simp add: verify_receipt_with_def receipt_envelope receipt_fields or_empty_def unb
        get_as_def Let_def split: option.split)
  have "verify_hmac cr sg ?r"
    using assms(4,5) by (simp add: verify_hmac_def get_as_def receipt_fields)
  moreover have "\<exists>rep. classify_with cr ?r trusted =
       Some (case trusted of None \<Rightarrow> Verified
             | Some ks \<Rightarrow> if ed_public_b64 cr sg \<in> ks then Verified else Untrusted, rep) \<and>
       vr_hermetic rep = (\<not> rb_network b)"
    using has rep by (simp add: classify_with_def report_ok_def split: option.split)
  ultimately show ?thesis by blast
qed

text \<open>C24. Completeness: a receipt the daemon builds verifies offline and under the HMAC key.  With
  no trust anchor, or one that lists the signing key, the verdict is VERIFIED; with an anchor
  that does not list it, UNTRUSTED; and the report's hermetic claim is that the network was off.\<close>

theorem built_receipt_verifies:
  assumes "crypto_ok cr"
    and "c_parse cr (c_print cr (statement cr b)) = Some (statement cr b)"
    and "c_print cr (statement cr b) \<noteq> []"
    and "as_i64 (JInt (rb_gen b)) = Some (rb_gen b)" and "as_i64 (JInt (rb_exit b)) = Some (rb_exit b)"
  shows "verify_hmac cr sg (build_receipt cr sg b) \<and>
    (\<exists>rep. classify_with cr (build_receipt cr sg b) trusted =
       Some (case trusted of None \<Rightarrow> Verified
             | Some ks \<Rightarrow> if ed_public_b64 cr sg \<in> ks then Verified else Untrusted, rep) \<and>
       vr_hermetic rep = (\<not> rb_network b))"
  using assms by (rule built_classified)

definition toy_crypto :: crypto where
  "toy_crypto =
     \<lparr>c_sha = (\<lambda>s. replicate 32 CHR ''h''), c_hmac = (\<lambda>k m. replicate 32 CHR ''m''),
      c_ed_pub = (\<lambda>sk. replicate 32 CHR ''p''), c_ed_sign = (\<lambda>sk m. replicate 64 CHR ''s''),
      c_ed_point = (\<lambda>pk. True), c_ed_verify = (\<lambda>pk m sg. sg = replicate 64 CHR ''s''),
      c_b64 = (\<lambda>s. s), c_unb64 = Some, c_print = (\<lambda>v. ''{}''), c_parse = (\<lambda>s. None)\<rparr>"

definition toy_inputs :: receipt_inputs where
  "toy_inputs =
     \<lparr>rb_run_id = 7, rb_image = ''alpine'', rb_digest = None, rb_source = ''x'', rb_input = JNull,
      rb_result = None, rb_exit = 0, rb_network = False, rb_gen = 3,
      rb_input_blobs = None, rb_output_blobs = Some (JObj [(''out.csv'', JStr ''abc'')])\<rparr>"

text \<open>A parser that reads back the one statement the toy printer prints.\<close>

definition toy_reader :: crypto where
  "toy_reader = toy_crypto\<lparr>c_parse := (\<lambda>s. Some (statement toy_crypto toy_inputs))\<rparr>"

lemma toy_ok: "crypto_ok toy_reader"
  by (simp add: crypto_ok_def toy_reader_def toy_crypto_def)

lemma statement_any_parser: "statement (cr\<lparr>c_parse := p\<rparr>) b = statement cr b"
proof -
  have "output_hash (cr\<lparr>c_parse := p\<rparr>) b = output_hash cr b"
    by (cases "rb_result b") (simp_all add: output_hash_def sha256_hex_def)
  then show ?thesis by (simp add: statement_def subjects_def sha256_hex_def)
qed

lemma toy_parse: "c_parse toy_reader (c_print toy_reader (statement toy_reader toy_inputs)) =
    Some (statement toy_reader toy_inputs)"
  by (simp add: toy_reader_def statement_any_parser)

theorem built_receipt_verifies_witness:
  "\<exists>rep. classify_with toy_reader (build_receipt toy_reader \<lparr>sg_key = ''k'', sg_ed = ''e''\<rparr> toy_inputs) None =
     Some (Verified, rep)"
  using built_receipt_verifies [OF toy_ok toy_parse, where trusted = None and sg = "\<lparr>sg_key = ''k'', sg_ed = ''e''\<rparr>"]
  by (simp add: toy_reader_def toy_crypto_def toy_inputs_def) blast



text \<open>The signed bytes determine what was signed: the DSSE encoding is injective in the payload
  type and the payload together, so a signature never carries over to another statement.\<close>

theorem dsse_pae_injective:
  "dsse_pae t p = dsse_pae t' p' \<longleftrightarrow> t = t' \<and> p = p'"
proof
  assume "dsse_pae t p = dsse_pae t' p'"
  then have eq: "nat_str (length t) @ CHR '' '' # t @ '' '' @ nat_str (length p) @ '' '' @ p =
      nat_str (length t') @ CHR '' '' # t' @ '' '' @ nat_str (length p') @ '' '' @ p'"
    by (simp add: dsse_pae_def)
  have sp: "CHR '' '' \<notin> set (nat_str n)" for n by (rule nat_str_no_char) simp
  from eq have len: "length t = length t'"
    and rest: "t @ '' '' @ nat_str (length p) @ '' '' @ p = t' @ '' '' @ nat_str (length p') @ '' '' @ p'"
    unfolding sep_eq [OF sp sp] by simp_all
  from rest len have "t = t'"
    and eq2: "nat_str (length p) @ CHR '' '' # p = nat_str (length p') @ CHR '' '' # p'"
    by (simp_all add: append_eq_append_conv)
  from eq2 show "t = t' \<and> p = p'" unfolding sep_eq [OF sp sp] using \<open>t = t'\<close> by simp
qed simp

text \<open>The gap: verification is not total.  A receipt whose hexadecimal signature has a
  multi-byte character across a pair boundary makes \<open>unhex\<close> slice inside it, and the process
  panics, although the function is documented never to panic on a malformed receipt.\<close>

theorem malformed_signature_panics:
  assumes "c_unb64 cr pk = Some key" and "length key = 32" and "c_ed_point cr key"
  shows "ed_verify cr pk ty payload [CHR ''a'', CHR 0xC3, CHR 0xA9, CHR ''b''] = None"
  using assms by (simp add: ed_verify_def unhex_def is_cont_def)

theorem malformed_signature_panics_witness:
  "ed_verify toy_crypto (replicate 32 CHR ''p'') ''t'' ''x''
     [CHR ''a'', CHR 0xC3, CHR 0xA9, CHR ''b''] = None"
  by (rule malformed_signature_panics [where key = "replicate 32 CHR ''p''"])
    (simp_all add: toy_crypto_def)

end
