(* ===== verification/Log_Pump.thy ===== *)
theory Log_Pump
  imports Db_Store
begin

text \<open>
  The log pump of \<open>src/exec.rs\<close>: how the byte chunks a container writes become log rows, the
  structured result and the progress line, and how secret values are redacted.
\<close>

section \<open>Lossy UTF-8\<close>

text \<open>
  \<open>String::from_utf8_lossy\<close>: valid sequences are kept, every maximal invalid prefix becomes
  U+FFFD.  One step decodes the head of a non-empty input to its output and the bytes consumed.
\<close>

definition byte_in :: "nat \<Rightarrow> nat \<Rightarrow> string \<Rightarrow> bool" where
  "byte_in lo hi s = (case s of [] \<Rightarrow> False | c # _ \<Rightarrow> lo \<le> of_char c \<and> of_char c \<le> hi)"

definition replacement :: string where
  "replacement = [CHR 0xEF, CHR 0xBF, CHR 0xBD]"

definition utf8_second :: "nat \<Rightarrow> nat \<times> nat" where
  "utf8_second n =
     (if n = 224 then (160, 191) else if n = 237 then (128, 159)
      else if n = 240 then (144, 191) else if n = 244 then (128, 143) else (128, 191))"

definition utf8_width :: "nat \<Rightarrow> nat" where
  "utf8_width n =
     (if n < 128 then 1 else if 194 \<le> n \<and> n \<le> 223 then 2 else if 224 \<le> n \<and> n \<le> 239 then 3
      else if 240 \<le> n \<and> n \<le> 244 then 4 else 0)"

definition utf8_step :: "char \<Rightarrow> string \<Rightarrow> string \<times> nat" where
  "utf8_step c s =
     (let n = of_char c; w = utf8_width n; (lo, hi) = utf8_second n in
      if w = 1 then ([c], 1)
      else if w = 0 \<or> \<not> byte_in lo hi s then (replacement, 1)
      else if w = 2 then (c # take 1 s, 2)
      else if \<not> byte_in 128 191 (drop 1 s) then (replacement, 2)
      else if w = 3 then (c # take 2 s, 3)
      else if \<not> byte_in 128 191 (drop 2 s) then (replacement, 3)
      else (c # take 3 s, 4))"

function utf8_lossy :: "string \<Rightarrow> string" where
  "utf8_lossy [] = []"
| "utf8_lossy (c # s) = fst (utf8_step c s) @ utf8_lossy (drop (snd (utf8_step c s) - 1) s)"
  by pat_completeness auto
termination by (relation "measure length") auto

lemma utf8_step_ascii: "of_char c < (128 :: nat) \<Longrightarrow> utf8_step c s = ([c], 1)"
  by (simp add: utf8_step_def utf8_width_def Let_def split: prod.split)

definition ascii :: "string \<Rightarrow> bool" where
  "ascii s = (\<forall>c\<in>set s. of_char c < (128 :: nat))"

lemma utf8_lossy_ascii: "ascii s \<Longrightarrow> utf8_lossy s = s"
  by (induction s) (simp_all add: ascii_def utf8_step_ascii)

section \<open>Redaction\<close>

text \<open>
  \<open>str::replace\<close>: non-overlapping matches from the left.  An empty pattern matches at every
  character boundary; only the byte boundaries of ASCII text are modelled for it.
\<close>

function replace_all :: "string \<Rightarrow> string \<Rightarrow> string \<Rightarrow> string" where
  "replace_all pat rep [] = (if pat = [] then rep else [])"
| "replace_all pat rep (c # s) =
     (if pat = [] then rep @ c # replace_all pat rep s
      else if starts_with pat (c # s) then rep @ replace_all pat rep (drop (length pat - 1) s)
      else c # replace_all pat rep s)"
  by pat_completeness auto
termination by (relation "measure (\<lambda>(p, r, s). length s)") auto

fun redact_secrets :: "string \<Rightarrow> string list \<Rightarrow> string" where
  "redact_secrets out [] = out"
| "redact_secrets out (s # ss) =
     redact_secrets (if contains_str out s then replace_all s [CHR ''*'', CHR ''*'', CHR ''*''] out
                     else out) ss"

lemma starts_with_drop: "starts_with pat (c # s) \<Longrightarrow> pat \<noteq> [] \<Longrightarrow>
    c # s = pat @ drop (length pat - 1) s"
  by (cases pat) (auto simp: starts_with_iff)

text \<open>A star-free string found in the output of a replacement was there before it.\<close>

lemma replaced_prefix:
  assumes "set s \<inter> set rep = {}" "rep \<noteq> []" "pat \<noteq> []" "starts_with s (replace_all pat rep t)"
  shows "starts_with s t"
  using assms
proof (induction pat rep t arbitrary: s rule: replace_all.induct)
  case (2 pat rep c t)
  show ?case
  proof (cases s)
    case (Cons a s')
    have "\<not> starts_with pat (c # t)"
    proof
      assume "starts_with pat (c # t)"
      with "2.prems"(3,4) obtain r where "s @ r = rep @ replace_all pat rep (drop (length pat - 1) t)"
        unfolding starts_with_iff [of s] by auto
      with Cons "2.prems"(1,2) show False by (cases rep) auto
    qed
    with 2 Cons show ?thesis by (auto simp: starts_with_iff)
  qed (simp add: starts_with_iff)
qed (simp_all add: starts_with_iff)

lemma contains_rep_append:
  assumes "set s \<inter> set rep = {}" "s \<noteq> []" "contains_str (rep @ t) s"
  shows "contains_str t s"
  using assms by (induction rep) (auto simp: starts_with_iff Cons_eq_append_conv)

lemma contains_append: "contains_str t s \<Longrightarrow> contains_str (u @ t) s"
  unfolding contains_str_iff by (metis append.assoc)

lemma replaced_contains:
  assumes free: "set s \<inter> set rep = {}" and ne: "rep \<noteq> []" "s \<noteq> []" "pat \<noteq> []"
  shows "contains_str (replace_all pat rep t) s \<Longrightarrow> contains_str t s"
proof (induction "length t" arbitrary: t rule: less_induct)
  case less
  show ?case
  proof (cases t)
    case Nil
    with less.prems ne(3) show ?thesis by simp
  next
    case (Cons c u)
    show ?thesis
    proof (cases "starts_with pat (c # u)")
      case True
      let ?u = "drop (length pat - 1) u"
      have "contains_str (rep @ replace_all pat rep ?u) s" using less.prems Cons True ne(3) by simp
      then have "contains_str (replace_all pat rep ?u) s" by (rule contains_rep_append [OF free ne(2)])
      then have "contains_str ?u s" using less.hyps [of ?u] Cons by simp
      then have "contains_str (pat @ ?u) s" by (rule contains_append)
      then show ?thesis unfolding Cons starts_with_drop [OF True ne(3)] .
    next
      case False
      with less.prems Cons ne(3) consider (head) "starts_with s (c # replace_all pat rep u)"
        | (tail) "contains_str (replace_all pat rep u) s" by auto
      then show ?thesis
      proof cases
        case head
        then have "starts_with s (replace_all pat rep (c # u))" using False ne(3) by simp
        from replaced_prefix [OF free ne(1,3) this] show ?thesis by (simp add: Cons)
      next
        case tail
        with less.hyps [of u] Cons show ?thesis by simp
      qed
    qed
  qed
qed

lemma replaced_gone:
  assumes free: "set s \<inter> set rep = {}" and ne: "rep \<noteq> []" "s \<noteq> []"
  shows "\<not> contains_str (replace_all s rep t) s"
proof (induction "length t" arbitrary: t rule: less_induct)
  case less
  show ?case
  proof (cases t)
    case Nil
    with ne show ?thesis by simp
  next
    case (Cons c u)
    show ?thesis
    proof (cases "starts_with s (c # u)")
      case True
      let ?u = "drop (length s - 1) u"
      have "\<not> contains_str (replace_all s rep ?u) s" using less.hyps [of ?u] Cons by simp
      then have "\<not> contains_str (rep @ replace_all s rep ?u) s"
        using contains_rep_append [OF free ne(2)] by blast
      then show ?thesis using Cons True ne(2) by simp
    next
      case False
      then have "\<not> starts_with s (replace_all s rep (c # u))"
        using replaced_prefix [OF free ne] by blast
      moreover have "\<not> contains_str (replace_all s rep u) s" using less.hyps [of u] Cons by simp
      ultimately show ?thesis using Cons False ne(2) by simp
    qed
  qed
qed

lemma redact_keeps_out:
  "\<not> contains_str line s \<Longrightarrow> CHR ''*'' \<notin> set s \<Longrightarrow> s \<noteq> [] \<Longrightarrow> \<forall>x\<in>set svals. x \<noteq> [] \<Longrightarrow>
   \<not> contains_str (redact_secrets line svals) s"
proof (induction svals arbitrary: line)
  case (Cons x svals)
  have "\<not> contains_str (replace_all x [CHR ''*'', CHR ''*'', CHR ''*''] line) s"
    using replaced_contains [of s "[CHR ''*'', CHR ''*'', CHR ''*'']" x line] Cons.prems by auto
  with Cons show ?case by simp
qed simp

lemma redacted:
  "s \<in> set svals \<Longrightarrow> CHR ''*'' \<notin> set s \<Longrightarrow> \<forall>x\<in>set svals. x \<noteq> [] \<Longrightarrow>
   \<not> contains_str (redact_secrets line svals) s"
proof (induction svals arbitrary: line)
  case (Cons x svals)
  let ?line = "if contains_str line x then replace_all x [CHR ''*'', CHR ''*'', CHR ''*''] line else line"
  show ?case
  proof (cases "x = s")
    case True
    have "\<not> contains_str ?line s"
      using replaced_gone [of s "[CHR ''*'', CHR ''*'', CHR ''*'']" line] Cons.prems True by auto
    then have "\<not> contains_str (redact_secrets ?line svals) s"
      using redact_keeps_out [of ?line s svals] Cons.prems True by auto
    then show ?thesis by simp
  next
    case False
    then have "\<not> contains_str (redact_secrets ?line svals) s"
      using Cons.IH [of ?line] Cons.prems by auto
    then show ?thesis by simp
  qed
qed simp

section \<open>The pump\<close>

datatype chunk = StdOut string | StdErr string | Console string | StdIn string

text \<open>An item of Docker's stream; \<open>StreamGone\<close> is its 404 (the container was torn down).\<close>

datatype stream_item = Chunk chunk | StreamGone | StreamErr string

fun chunk_stream :: "chunk \<Rightarrow> bool \<times> string" where
  "chunk_stream (StdOut m) = (True, m)"
| "chunk_stream (StdErr m) = (False, m)"
| "chunk_stream (Console m) = (True, m)"
| "chunk_stream (StdIn m) = (True, m)"

definition stream_name :: "bool \<Rightarrow> string" where
  "stream_name is_out = (if is_out then ''stdout'' else ''stderr'')"

definition result_marker :: string where
  "result_marker = ''::dokan:result::''"

definition progress_marker :: string where
  "progress_marker = ''::dokan:progress::''"

datatype line_kind = ResultLine string | ProgressLine string | LogLine string

definition classify_line :: "bool \<Rightarrow> string \<Rightarrow> line_kind" where
  "classify_line is_out line =
     (if \<not> is_out then LogLine line
      else case strip_prefix result_marker (trim_start line) of
        Some rest \<Rightarrow> ResultLine (trim rest)
      | None \<Rightarrow>
          (case strip_prefix progress_marker (trim_start line) of
             Some rest \<Rightarrow> ProgressLine (trim rest)
           | None \<Rightarrow> LogLine line))"

text \<open>The complete lines of a buffer and what is left of it.\<close>

fun take_lines :: "string \<Rightarrow> string list \<times> string" where
  "take_lines [] = ([], [])"
| "take_lines (c # s) =
     (let (ls, rest) = take_lines s in
      if c = CHR 0x0A then ([] # ls, rest)
      else case ls of [] \<Rightarrow> ([], c # rest) | l # ls' \<Rightarrow> ((c # l) # ls', rest))"

definition strip_cr :: "string \<Rightarrow> string" where
  "strip_cr l = rev (dropWhile (\<lambda>c. c = CHR 0x0D) (rev l))"

record pump =
  pm_seq :: int
  pm_out :: string
  pm_err :: string
  pm_result :: "string option"
  pm_batch :: "(int \<times> string \<times> string) list"

text \<open>A failing step keeps what earlier batches have committed.\<close>

datatype pump_error = PumpDb db_error | PumpStream string

definition flush :: "int \<Rightarrow> pump \<times> db \<Rightarrow> pump_error \<times> db + pump \<times> db" where
  "flush rid s =
     (case s of (st, d) \<Rightarrow>
        if pm_batch st = [] then Inr (st, d)
        else case append_logs_batch rid (pm_batch st) d of
          Inl e \<Rightarrow> Inl (PumpDb e, d)
        | Inr d' \<Rightarrow> Inr (st\<lparr>pm_batch := []\<rparr>, d'))"

definition push_line :: "int \<Rightarrow> string list \<Rightarrow> bool \<Rightarrow> line_kind \<Rightarrow> pump \<times> db \<Rightarrow> pump \<times> db" where
  "push_line rid svals is_out k s =
     (case s of (st, d) \<Rightarrow>
        (case k of
           ResultLine r \<Rightarrow> (st\<lparr>pm_result := Some r\<rparr>, d)
         | ProgressLine p \<Rightarrow> (st, update_run_progress rid p d)
         | LogLine l \<Rightarrow>
             (st\<lparr>pm_seq := pm_seq st + 1,
                 pm_batch := pm_batch st @
                   [(pm_seq st + 1, stream_name is_out, redact_secrets l svals)]\<rparr>, d)))"

fun handle_lines :: "int \<Rightarrow> string list \<Rightarrow> bool \<Rightarrow> string list \<Rightarrow> pump \<times> db \<Rightarrow> pump_error \<times> db + pump \<times> db" where
  "handle_lines rid svals is_out [] s = Inr s"
| "handle_lines rid svals is_out (l # ls) s =
     (let s' = push_line rid svals is_out (classify_line is_out (strip_cr l)) s in
      if 256 \<le> length (pm_batch (fst s'))
      then (case flush rid s' of Inl e \<Rightarrow> Inl e | Inr s'' \<Rightarrow> handle_lines rid svals is_out ls s'')
      else handle_lines rid svals is_out ls s')"

definition pump_chunk :: "int \<Rightarrow> string list \<Rightarrow> chunk \<Rightarrow> pump \<times> db \<Rightarrow> pump_error \<times> db + pump \<times> db" where
  "pump_chunk rid svals c s =
     (case (chunk_stream c, s) of ((is_out, bytes), (st, d)) \<Rightarrow>
        let (ls, rest) = take_lines ((if is_out then pm_out st else pm_err st) @ utf8_lossy bytes);
            st' = (if is_out then st\<lparr>pm_out := rest\<rparr> else st\<lparr>pm_err := rest\<rparr>)
        in (case handle_lines rid svals is_out ls (st', d) of
              Inl e \<Rightarrow> Inl e
            | Inr s' \<Rightarrow> flush rid s'))"

fun pump_stream :: "int \<Rightarrow> string list \<Rightarrow> stream_item list \<Rightarrow> pump \<times> db \<Rightarrow> pump_error \<times> db + pump \<times> db" where
  "pump_stream rid svals [] s = Inr s"
| "pump_stream rid svals (StreamGone # its) s = Inr s"
| "pump_stream rid svals (StreamErr e # its) s = Inl (PumpStream e, snd s)"
| "pump_stream rid svals (Chunk c # its) s =
     (case pump_chunk rid svals c s of Inl e \<Rightarrow> Inl e | Inr s' \<Rightarrow> pump_stream rid svals its s')"

text \<open>What is left in the two buffers when the stream ends.\<close>

definition pump_tail :: "int \<Rightarrow> string list \<Rightarrow> bool \<Rightarrow> string \<Rightarrow> pump \<times> db \<Rightarrow> pump \<times> db" where
  "pump_tail rid svals is_out buf s =
     (if buf = [] then s else push_line rid svals is_out (classify_line is_out buf) s)"

definition pump_start :: "int \<Rightarrow> db \<Rightarrow> pump" where
  "pump_start rid d =
     \<lparr>pm_seq = max_log_seq rid d, pm_out = [], pm_err = [], pm_result = None, pm_batch = []\<rparr>"

definition pump_logs ::
    "int \<Rightarrow> string list \<Rightarrow> stream_item list \<Rightarrow> db \<Rightarrow> pump_error \<times> db + (int \<times> string option) \<times> db" where
  "pump_logs rid svals its d =
     (case pump_stream rid svals its (pump_start rid d, d) of
        Inl e \<Rightarrow> Inl e
      | Inr (st, d') \<Rightarrow>
          (case flush rid (pump_tail rid svals False (pm_err st)
                             (pump_tail rid svals True (pm_out st) (st, d'))) of
             Inl e \<Rightarrow> Inl e
           | Inr (st', d'') \<Rightarrow> Inr ((pm_seq st', pm_result st'), d'')))"

section \<open>What the pump writes\<close>

text \<open>The lines of a stream in the order the pump sees them.\<close>

definition chunk_lines :: "bool \<Rightarrow> string list \<Rightarrow> (bool \<times> line_kind) list" where
  "chunk_lines is_out ls = map (\<lambda>l. (is_out, classify_line is_out (strip_cr l))) ls"

definition tail_lines :: "string \<Rightarrow> string \<Rightarrow> (bool \<times> line_kind) list" where
  "tail_lines out err =
     (if out = [] then [] else [(True, classify_line True out)]) @
     (if err = [] then [] else [(False, classify_line False err)])"

fun stream_lines :: "stream_item list \<Rightarrow> string \<Rightarrow> string \<Rightarrow> (bool \<times> line_kind) list" where
  "stream_lines [] out err = tail_lines out err"
| "stream_lines (StreamGone # its) out err = tail_lines out err"
| "stream_lines (StreamErr e # its) out err = []"
| "stream_lines (Chunk c # its) out err =
     (case chunk_stream c of (is_out, bytes) \<Rightarrow>
        let (ls, rest) = take_lines ((if is_out then out else err) @ utf8_lossy bytes)
        in chunk_lines is_out ls @
           (if is_out then stream_lines its rest err else stream_lines its out rest))"

fun log_rows :: "int \<Rightarrow> string list \<Rightarrow> (bool \<times> line_kind) list \<Rightarrow> (int \<times> string \<times> string) list" where
  "log_rows seq svals [] = []"
| "log_rows seq svals ((is_out, LogLine l) # ks) =
     (seq + 1, stream_name is_out, redact_secrets l svals) # log_rows (seq + 1) svals ks"
| "log_rows seq svals (_ # ks) = log_rows seq svals ks"

definition last_result :: "(bool \<times> line_kind) list \<Rightarrow> string option" where
  "last_result ks = fold (\<lambda>(_, k) r. case k of ResultLine x \<Rightarrow> Some x | _ \<Rightarrow> r) ks None"

definition last_progress :: "(bool \<times> line_kind) list \<Rightarrow> string option" where
  "last_progress ks = fold (\<lambda>(_, k) r. case k of ProgressLine x \<Rightarrow> Some x | _ \<Rightarrow> r) ks None"

definition as_log :: "int \<Rightarrow> int \<times> string \<times> string \<Rightarrow> log_row" where
  "as_log rid row = (case row of (q, s, l) \<Rightarrow> \<lparr>l_run_id = rid, l_seq = q, l_stream = s, l_line = l\<rparr>)"

definition with_progress :: "int \<Rightarrow> string option \<Rightarrow> db \<Rightarrow> db" where
  "with_progress rid p d = (case p of None \<Rightarrow> d | Some s \<Rightarrow> update_run_progress rid s d)"

lemma log_rows_append:
  "log_rows q svals (ks @ ks') = log_rows q svals ks @
     log_rows (q + int (length (log_rows q svals ks))) svals ks'"
  by (induction q svals ks rule: log_rows.induct) (simp_all add: algebra_simps)

lemma log_rows_seq:
  "i < length (log_rows q svals ks) \<Longrightarrow> fst (log_rows q svals ks ! i) = q + int i + 1"
proof (induction q svals ks arbitrary: i rule: log_rows.induct)
  case (2 seq svals is_out l ks)
  then show ?case by (cases i) auto
qed auto

text \<open>A batch whose numbers continue the run's log is appended whole.\<close>

lemma append_batch:
  assumes "run_by_id rid d \<noteq> None" and "\<forall>l\<in>set (logs d). l_run_id l = rid \<longrightarrow> l_seq l \<le> q"
    and "\<And>i. i < length rows \<Longrightarrow> fst (rows ! i) = q + int i + 1"
  shows "append_logs_batch rid rows d = Inr (d\<lparr>logs := logs d @ map (as_log rid) rows\<rparr>)"
  using assms
proof (induction rid rows d arbitrary: q rule: append_logs_batch.induct)
  case (2 rid sq stream line rows d)
  have sq: "sq = q + 1" using "2.prems"(3) [of 0] by simp
  let ?d = "d\<lparr>logs := logs d @ [\<lparr>l_run_id = rid, l_seq = sq, l_stream = stream, l_line = line\<rparr>]\<rparr>"
  have one: "append_log rid sq stream line d = Inr ?d"
    using "2.prems"(1,2) sq by (auto simp: append_log_def log_key_taken_def)
  have next_seq: "fst (rows ! i) = (q + 1) + int i + 1" if "i < length rows" for i
    using "2.prems"(3) [of "Suc i"] that by simp
  have here: "run_by_id rid ?d \<noteq> None" using "2.prems"(1) by (simp add: run_by_id_def)
  have below: "\<forall>l\<in>set (logs ?d). l_run_id l = rid \<longrightarrow> l_seq l \<le> q + 1"
    using "2.prems"(2) sq by (auto intro: order_trans)
  from "2.IH" [OF one here below next_seq] one show ?case by (simp add: as_log_def)
qed simp

text \<open>
  After the lines \<open>ks\<close>: the rows written so far and the batch together are the log rows of
  \<open>ks\<close>, and the progress and result are the last ones of \<open>ks\<close>.
\<close>

definition pumped ::
    "int \<Rightarrow> string list \<Rightarrow> db \<Rightarrow> (bool \<times> line_kind) list \<Rightarrow> pump \<times> db \<Rightarrow> bool" where
  "pumped rid svals d0 ks s =
     (\<exists>written.
        snd s = with_progress rid (last_progress ks) (d0\<lparr>logs := logs d0 @ map (as_log rid) written\<rparr>) \<and>
        written @ pm_batch (fst s) = log_rows (max_log_seq rid d0) svals ks \<and>
        pm_seq (fst s) = max_log_seq rid d0 + int (length (log_rows (max_log_seq rid d0) svals ks)) \<and>
        pm_result (fst s) = last_result ks)"

lemma with_progress_sel [simp]:
  "logs (with_progress rid p d) = logs d" "run_seq (with_progress rid p d) = run_seq d"
  "scripts (with_progress rid p d) = scripts d"
  by (cases p, simp_all add: with_progress_def update_run_progress_def)+

lemma with_progress_run: "run_by_id i (with_progress rid p d) = None \<longleftrightarrow> run_by_id i d = None"
  by (cases p) (simp_all add: with_progress_def update_run_progress_def run_by_id_update)

lemma with_progress_logs:
  "(with_progress rid p d)\<lparr>logs := ls\<rparr> = with_progress rid p (d\<lparr>logs := ls\<rparr>)"
  by (cases p) (simp_all add: with_progress_def update_run_progress_def)

lemma update_progress_twice:
  "update_run_progress rid b (with_progress rid p d) = update_run_progress rid b d"
  by (cases p) (auto simp: with_progress_def update_run_progress_def update_where_def)

lemma max_log_seq_bound: "l \<in> set (logs d) \<Longrightarrow> l_run_id l = rid \<Longrightarrow> l_seq l \<le> max_log_seq rid d"
  using select_last_Some(3) [of l_seq "\<lambda>l. l_run_id l = rid" "logs d"]
    select_last_None [of l_seq "\<lambda>l. l_run_id l = rid" "logs d"]
  by (auto simp: max_log_seq_def split: option.split)

lemma last_result_snoc [simp]:
  "last_result (ks @ [(b, k)]) = (case k of ResultLine x \<Rightarrow> Some x | _ \<Rightarrow> last_result ks)"
  by (simp add: last_result_def split: line_kind.split)

lemma last_progress_snoc [simp]:
  "last_progress (ks @ [(b, k)]) = (case k of ProgressLine x \<Rightarrow> Some x | _ \<Rightarrow> last_progress ks)"
  by (simp add: last_progress_def split: line_kind.split)

lemma pumped_push:
  assumes "pumped rid svals d0 ks s"
  shows "pumped rid svals d0 (ks @ [(b, k)]) (push_line rid svals b k s)"
proof -
  obtain st d where s: "s = (st, d)" by fastforce
  from assms obtain written where w:
    "d = with_progress rid (last_progress ks) (d0\<lparr>logs := logs d0 @ map (as_log rid) written\<rparr>)"
    "written @ pm_batch st = log_rows (max_log_seq rid d0) svals ks"
    "pm_seq st = max_log_seq rid d0 + int (length (log_rows (max_log_seq rid d0) svals ks))"
    "pm_result st = last_result ks"
    by (auto simp: pumped_def s)
  show ?thesis unfolding pumped_def
    by (rule exI [of _ written], cases k)
      (use w in \<open>simp_all add: s push_line_def log_rows_append update_progress_twice
         flip: append_assoc\<close>, simp_all add: with_progress_def)
qed

lemma pumped_flush:
  assumes p: "pumped rid svals d0 ks s" and run: "run_by_id rid d0 \<noteq> None"
  shows "\<exists>s'. flush rid s = Inr s' \<and> pumped rid svals d0 ks s' \<and> pm_batch (fst s') = [] \<and>
     pm_out (fst s') = pm_out (fst s) \<and> pm_err (fst s') = pm_err (fst s)"
proof -
  let ?q = "max_log_seq rid d0"
  obtain st d where s: "s = (st, d)" by fastforce
  from p obtain written where w:
    "d = with_progress rid (last_progress ks) (d0\<lparr>logs := logs d0 @ map (as_log rid) written\<rparr>)"
    "written @ pm_batch st = log_rows ?q svals ks"
    "pm_seq st = ?q + int (length (log_rows ?q svals ks))"
    "pm_result st = last_result ks"
    by (auto simp: pumped_def s)
  show ?thesis
  proof (cases "pm_batch st = []")
    case True
    with p s show ?thesis by (simp add: flush_def)
  next
    case False
    have seq: "fst ((written @ pm_batch st) ! i) = ?q + int i + 1" if "i < length (written @ pm_batch st)" for i
      using log_rows_seq that w(2) by metis
    have here: "run_by_id rid d \<noteq> None"
      using run unfolding w(1) by (simp add: with_progress_run) (simp add: run_by_id_def)
    have old: "l_seq l \<le> ?q + int (length written)" if "l \<in> set (logs d)" "l_run_id l = rid" for l
    proof -
      from that(1) w(1) consider "l \<in> set (logs d0)" | i where "i < length written" "l = as_log rid (written ! i)"
        by (auto simp: in_set_conv_nth)
      then show ?thesis
      proof cases
        case 1
        from max_log_seq_bound [OF this that(2)] show ?thesis by simp
      next
        case 2
        with seq [of i] show ?thesis
          by (cases "written ! i") (auto simp: as_log_def nth_append)
      qed
    qed
    have "fst (pm_batch st ! i) = (?q + int (length written)) + int i + 1" if "i < length (pm_batch st)" for i
      using seq [of "length written + i"] that by simp
    with append_batch [OF here, of "?q + int (length written)" "pm_batch st"] old
    have app: "append_logs_batch rid (pm_batch st) d = Inr (d\<lparr>logs := logs d @ map (as_log rid) (pm_batch st)\<rparr>)"
      by blast
    have "pumped rid svals d0 ks (st\<lparr>pm_batch := []\<rparr>, d\<lparr>logs := logs d @ map (as_log rid) (pm_batch st)\<rparr>)"
      unfolding pumped_def
      by (rule exI [of _ "written @ pm_batch st"])
        (simp add: w(1,3,4) with_progress_logs flip: w(2))
    with app False s show ?thesis by (simp add: flush_def)
  qed
qed

lemma pumped_lines:
  assumes "pumped rid svals d0 ks s" and run: "run_by_id rid d0 \<noteq> None"
  shows "\<exists>s'. handle_lines rid svals b ls s = Inr s' \<and>
     pumped rid svals d0 (ks @ chunk_lines b ls) s' \<and>
     pm_out (fst s') = pm_out (fst s) \<and> pm_err (fst s') = pm_err (fst s)"
  using assms(1)
proof (induction ls arbitrary: s ks)
  case (Cons l ls)
  let ?k = "classify_line b (strip_cr l)"
  let ?s = "push_line rid svals b ?k s"
  have bufs: "pm_out (fst ?s) = pm_out (fst s)" "pm_err (fst ?s) = pm_err (fst s)"
    by (auto simp: push_line_def split: prod.split line_kind.split)
  have p: "pumped rid svals d0 (ks @ [(b, ?k)]) ?s" by (rule pumped_push [OF Cons.prems])
  obtain s2 where s2: "flush rid ?s = Inr s2" "pumped rid svals d0 (ks @ [(b, ?k)]) s2"
    "pm_out (fst s2) = pm_out (fst ?s)" "pm_err (fst s2) = pm_err (fst ?s)"
    using pumped_flush [OF p run] by blast
  from Cons.IH [OF p] Cons.IH [OF s2(2)] s2 bufs show ?case
    by (auto simp: chunk_lines_def Let_def)
qed (simp add: chunk_lines_def)

definition no_error :: "stream_item list \<Rightarrow> bool" where
  "no_error its = (\<forall>e. StreamErr e \<notin> set its)"

lemma pumped_stream:
  assumes "pumped rid svals d0 ks s" and run: "run_by_id rid d0 \<noteq> None" and "no_error its"
    and "pm_batch (fst s) = []"
  shows "\<exists>s' ks'. pump_stream rid svals its s = Inr s' \<and> pumped rid svals d0 ks' s' \<and>
     ks' @ tail_lines (pm_out (fst s')) (pm_err (fst s')) =
       ks @ stream_lines its (pm_out (fst s)) (pm_err (fst s))"
  using assms(1,3,4)
proof (induction its arbitrary: s ks)
  case (Cons it its)
  show ?case
  proof (cases it)
    case (Chunk c)
    obtain b bytes where c: "chunk_stream c = (b, bytes)" by fastforce
    obtain st d where s: "s = (st, d)" by fastforce
    obtain ls rest where tl: "take_lines ((if b then pm_out st else pm_err st) @ utf8_lossy bytes) = (ls, rest)"
      by fastforce
    let ?st = "if b then st\<lparr>pm_out := rest\<rparr> else st\<lparr>pm_err := rest\<rparr>"
    have "pumped rid svals d0 ks (?st, d)" using Cons.prems(1) by (simp add: pumped_def s)
    from pumped_lines [OF this run, of b ls] obtain s1 where s1:
      "handle_lines rid svals b ls (?st, d) = Inr s1" "pumped rid svals d0 (ks @ chunk_lines b ls) s1"
      "pm_out (fst s1) = pm_out ?st" "pm_err (fst s1) = pm_err ?st" by auto
    from pumped_flush [OF s1(2) run] obtain s2 where s2:
      "flush rid s1 = Inr s2" "pumped rid svals d0 (ks @ chunk_lines b ls) s2" "pm_batch (fst s2) = []"
      "pm_out (fst s2) = pm_out ?st" "pm_err (fst s2) = pm_err ?st" using s1 by auto
    have pc: "pump_chunk rid svals c s = Inr s2"
      by (simp add: pump_chunk_def c s tl s1 s2)
    have "no_error its" using Cons.prems(2) by (simp add: no_error_def)
    from Cons.IH [OF s2(2) this s2(3)] obtain s' ks' where IH:
      "pump_stream rid svals its s2 = Inr s'" "pumped rid svals d0 ks' s'"
      "ks' @ tail_lines (pm_out (fst s')) (pm_err (fst s')) =
        (ks @ chunk_lines b ls) @ stream_lines its (pm_out (fst s2)) (pm_err (fst s2))" by blast
    have "stream_lines (it # its) (pm_out (fst s)) (pm_err (fst s)) =
        chunk_lines b ls @ stream_lines its (pm_out (fst s2)) (pm_err (fst s2))"
      using tl s2(4,5) by (cases b) (simp_all add: Chunk c s)
    with IH pc Chunk show ?thesis by auto
  next
    case StreamGone
    with Cons.prems show ?thesis by auto
  next
    case (StreamErr e)
    with Cons.prems(2) have False unfolding no_error_def by (metis list.set_intros(1))
    then show ?thesis ..
  qed
qed auto

lemma pumped_tail:
  "pumped rid svals d0 ks s \<Longrightarrow> out = pm_out (fst s) \<Longrightarrow> err = pm_err (fst s) \<Longrightarrow>
   pumped rid svals d0 (ks @ tail_lines out err)
     (pump_tail rid svals False err (pump_tail rid svals True out s))"
proof -
  assume p: "pumped rid svals d0 ks s"
  have "pumped rid svals d0 (ks @ tail_lines out []) (pump_tail rid svals True out s)"
    using p pumped_push [OF p] by (simp add: pump_tail_def tail_lines_def)
  from pumped_push [OF this] this show ?thesis
    by (simp add: pump_tail_def tail_lines_def split: if_splits)
qed

lemma pump_logs_result:
  assumes run: "run_by_id rid d \<noteq> None" and "no_error its"
  defines "ks \<equiv> stream_lines its [] []"
  shows "pump_logs rid svals its d =
    Inr ((max_log_seq rid d + int (length (log_rows (max_log_seq rid d) svals ks)), last_result ks),
         with_progress rid (last_progress ks)
           (d\<lparr>logs := logs d @ map (as_log rid) (log_rows (max_log_seq rid d) svals ks)\<rparr>))"
proof -
  have "pumped rid svals d [] (pump_start rid d, d)"
    by (auto simp: pumped_def pump_start_def last_result_def last_progress_def with_progress_def)
  from pumped_stream [OF this run assms(2)] obtain st d1 ks' where s:
    "pump_stream rid svals its (pump_start rid d, d) = Inr (st, d1)" "pumped rid svals d ks' (st, d1)"
    "ks' @ tail_lines (pm_out st) (pm_err st) = ks"
    by (auto simp: pump_start_def ks_def)
  from pumped_tail [OF s(2), of "pm_out st" "pm_err st"] s(3)
  have p: "pumped rid svals d ks
      (pump_tail rid svals False (pm_err st) (pump_tail rid svals True (pm_out st) (st, d1)))" by simp
  from pumped_flush [OF p run] obtain st2 d2 where f:
    "flush rid (pump_tail rid svals False (pm_err st) (pump_tail rid svals True (pm_out st) (st, d1))) = Inr (st2, d2)"
    "pumped rid svals d ks (st2, d2)" "pm_batch st2 = []" by auto
  from f(2,3) have "d2 = with_progress rid (last_progress ks)
      (d\<lparr>logs := logs d @ map (as_log rid) (log_rows (max_log_seq rid d) svals ks)\<rparr>)"
    "pm_seq st2 = max_log_seq rid d + int (length (log_rows (max_log_seq rid d) svals ks))"
    "pm_result st2 = last_result ks" by (auto simp: pumped_def)
  with s(1) f(1) show ?thesis by (simp add: pump_logs_def)
qed

lemma take_lines_append:
  "take_lines (a @ b) =
     (case take_lines a of (ls, rest) \<Rightarrow> case take_lines (rest @ b) of (ls', rest') \<Rightarrow> (ls @ ls', rest'))"
proof (induction a)
  case (Cons c a)
  then show ?case by (auto simp: Let_def split: prod.splits list.splits)
qed (simp split: prod.split)

text \<open>The bytes of a stream of stdout chunks.\<close>

fun stdout_bytes :: "stream_item list \<Rightarrow> string option" where
  "stdout_bytes [] = Some []"
| "stdout_bytes (Chunk (StdOut m) # its) = map_option (\<lambda>t. m @ t) (stdout_bytes its)"
| "stdout_bytes _ = None"

lemma stdout_no_error: "stdout_bytes its = Some t \<Longrightarrow> no_error its"
  by (induction its arbitrary: t rule: stdout_bytes.induct) (auto simp: no_error_def)

lemma take_lines_rest: "CHR 0x0A \<notin> set (snd (take_lines s))"
  by (induction s) (auto simp: Let_def split: prod.splits list.splits)

lemma take_lines_plain: "CHR 0x0A \<notin> set s \<Longrightarrow> take_lines s = ([], s)"
  by (induction s) auto

lemma stream_lines_stdout:
  "stdout_bytes its = Some t \<Longrightarrow> ascii t \<Longrightarrow> CHR 0x0A \<notin> set out \<Longrightarrow>
   stream_lines its out [] =
     (case take_lines (out @ t) of (ls, rest) \<Rightarrow> chunk_lines True ls @ tail_lines rest [])"
proof (induction its arbitrary: t out rule: stdout_bytes.induct)
  case 1
  then show ?case by (simp add: take_lines_plain chunk_lines_def)
next
  case (2 m its)
  then obtain u where u: "stdout_bytes its = Some u" "t = m @ u" by auto
  with "2.prems"(2) have ok: "ascii m" "ascii u" by (auto simp: ascii_def)
  obtain ls rest where tl: "take_lines (out @ m) = (ls, rest)" by fastforce
  have "CHR 0x0A \<notin> set rest" using take_lines_rest [of "out @ m"] by (simp add: tl)
  from "2.IH" [OF u(1) ok(2) this] tl show ?case
    using take_lines_append [of "out @ m" u] ok(1)
    by (simp add: u(2) utf8_lossy_ascii chunk_lines_def split: prod.splits)
qed simp_all

text \<open>C29. The pump loses and reorders nothing: unless Docker reports an error, it appends exactly
  the plain lines of the stream, redacted, numbered consecutively after the run's last log row
  and in the order they arrived, whatever the batching; the last result line is the result, the
  last progress line the progress, and neither is logged.\<close>

theorem pump_writes_lines:
  assumes "run_by_id rid d \<noteq> None" and "no_error its" and "ks = stream_lines its [] []"
  shows "pump_logs rid svals its d =
    Inr ((max_log_seq rid d + int (length (log_rows (max_log_seq rid d) svals ks)), last_result ks),
         with_progress rid (last_progress ks)
           (d\<lparr>logs := logs d @ map (as_log rid) (log_rows (max_log_seq rid d) svals ks)\<rparr>))"
  using pump_logs_result [OF assms(1,2)] assms(3) by simp

definition pump_db :: db where
  "pump_db = empty_db\<lparr>runs := [new_run 1 1 (JObj []) None 0]\<rparr>"

theorem pump_writes_lines_witness:
  "logs (snd (projr (pump_logs 1 [''hunter2!''] [Chunk (StdOut ''a hunter2!''), Chunk (StdErr ''w''),
      Chunk (StdOut [CHR 0x0A])] pump_db))) =
     map (as_log 1) [(1, ''stdout'', ''a ***''), (2, ''stderr'', ''w'')]"
proof -
  let ?its = "[Chunk (StdOut ''a hunter2!''), Chunk (StdErr ''w''), Chunk (StdOut [CHR 0x0A])]"
  have run: "run_by_id 1 pump_db \<noteq> None" by (simp add: pump_db_def run_by_id_def new_run_def)
  have ok: "no_error ?its" by (simp add: no_error_def)
  have ks: "stream_lines ?its [] [] =
      [(True, LogLine ''a hunter2!''), (False, LogLine ''w'')]"
    by (simp add: utf8_step_ascii chunk_lines_def tail_lines_def classify_line_def strip_cr_def
        trim_start_def is_ws_def result_marker_def progress_marker_def)
  have m: "max_log_seq 1 pump_db = 0" by (simp add: max_log_seq_def pump_db_def select_last_def empty_db_def)
  have "redact_secrets ''a hunter2!'' [''hunter2!''] = ''a ***''" by (simp add: starts_with_def)
  moreover have "redact_secrets ''w'' [''hunter2!''] = ''w''" by (simp add: starts_with_def)
  ultimately show ?thesis
    unfolding pump_writes_lines [OF run ok ks [symmetric]] m
    by (simp add: stream_name_def last_progress_def with_progress_def pump_db_def empty_db_def)
qed

text \<open>How Docker cuts the output into chunks does not matter: two streams of stdout chunks with
  the same bytes leave the same rows, result and progress (for ASCII output: a multi-byte
  character that is cut by a chunk boundary is decoded lossily on each side).\<close>

theorem pump_chunking_irrelevant:
  assumes "run_by_id rid d \<noteq> None" and "stdout_bytes its = Some t" and "stdout_bytes its' = Some t"
    and "ascii t"
  shows "pump_logs rid svals its d = pump_logs rid svals its' d"
  using pump_logs_result [OF assms(1) stdout_no_error [OF assms(2)]]
    pump_logs_result [OF assms(1) stdout_no_error [OF assms(3)]]
    stream_lines_stdout [OF assms(2,4)] stream_lines_stdout [OF assms(3,4)]
  by simp

theorem pump_chunking_irrelevant_witness:
  "pump_logs 1 [] [Chunk (StdOut ''a''), Chunk (StdOut ''b'')] pump_db =
   pump_logs 1 [] [Chunk (StdOut ''ab'')] pump_db"
  by (rule pump_chunking_irrelevant [where t = "''ab''"])
    (simp_all add: pump_db_def run_by_id_def new_run_def ascii_def)

end
