(* ===== verification/Exec.thy ===== *)
theory Exec
  imports Log_Pump Receipt Run_Queue
begin

text \<open>
  The executor of \<open>src/exec.rs\<close>: one run from claimed job to terminal status.

  Docker, the clock, the file system and the secret cipher are the fields of \<open>exec_env\<close>.  Each
  takes the database as the moment it is asked at, so a field can answer differently every time;
  a theorem that quantifies over the environment covers every behaviour of the host.  Metrics are
  left out; the relay POST of \<open>finalize\<close> and the \<open>active\<close> table are in \<open>Executor_Table\<close>; the
  heartbeat task is the statement \<open>touch_run\<close>.

  The writes that end a run may fail (\<open>ee_write_error\<close>), each on its own, and every handler of such
  an error is a branch below.  The one exception is the last write of \<open>exec_run\<close>, whose error
  the code drops: it is taken to succeed (otherwise the run stays \<open>Running\<close> until the reaper).
\<close>

section \<open>Limits\<close>

definition default_timeout_secs :: int where "default_timeout_secs = 300"
definition default_max_timeout_secs :: int where "default_max_timeout_secs = 3600"
definition run_lease_secs :: int where "run_lease_secs = default_timeout_secs * 2"
definition run_heartbeat_secs :: int where "run_heartbeat_secs = 15"

definition effective_timeout_secs :: "int option \<Rightarrow> int \<Rightarrow> int" where
  "effective_timeout_secs script_timeout max_secs =
     (let mx = max max_secs 1 in
      case script_timeout of
        Some t \<Rightarrow> if 1 \<le> t then min t mx else min default_timeout_secs mx
      | None \<Rightarrow> min default_timeout_secs mx)"

definition secret_allowed :: "string \<Rightarrow> string list option \<Rightarrow> bool" where
  "secret_allowed name allow = (case allow of None \<Rightarrow> True | Some ns \<Rightarrow> name \<in> set ns)"

section \<open>The environment\<close>

datatype docker_error = ServerError int string | DockerError string

text \<open>What the pool is asked for: a warm container, an isolated one, or one with its own caps.\<close>

datatype pool_request =
    Warm string
  | Isolated string
  | WithCaps string int int bool "string option" "string option"

text \<open>
  The tree the job left under \<open>/output\<close>.  A directory may be unreadable; an entry that cannot be
  looked at or read stands in its place with the error.
\<close>

datatype fnode =
    FFile string string | FDir string "fnode list option" | FOther string | FBroken string

text \<open>The writes whose error the executor handles.\<close>

datatype exec_write = WFinish | WBlob | WOutputs | WResult | WReceipt | WTriggers

record exec_env =
  ee_clock :: "db \<Rightarrow> time"
  ee_crypto :: crypto
  ee_signer :: signer
  ee_unseal :: "string \<Rightarrow> string"
  ee_contains :: "json \<Rightarrow> json \<Rightarrow> bool"
  ee_home :: "string option"
  ee_io :: "db \<Rightarrow> string \<Rightarrow> string option"  \<comment> \<open>the error of creating or writing a path\<close>
  ee_max_timeout :: int
  ee_limits :: "int \<times> int"
  ee_acquire :: "db \<Rightarrow> pool_request \<Rightarrow> string + string"
  ee_digest :: "db \<Rightarrow> string \<Rightarrow> string option"
  ee_create_exec :: "db \<Rightarrow> string \<Rightarrow> string \<Rightarrow> string list \<Rightarrow> docker_error + string"
  ee_start_exec :: "db \<Rightarrow> string \<Rightarrow> docker_error + stream_item list option"
  ee_deadline :: "db \<Rightarrow> string \<Rightarrow> int \<Rightarrow> nat option"  \<comment> \<open>items pumped when the limit struck\<close>
  ee_inspect_exec :: "db \<Rightarrow> string \<Rightarrow> docker_error + int option"
  ee_output :: "db \<Rightarrow> string \<Rightarrow> fnode list option"
  ee_db_msg :: "db_error \<Rightarrow> string"
  ee_write_error :: "exec_write \<Rightarrow> db \<Rightarrow> string option"  \<comment> \<open>the error of a write, none if it succeeds\<close>

record run_args =
  ra_run_id :: int
  ra_runtime :: string
  ra_source :: string
  ra_input :: json
  ra_agent_id :: "string option"
  ra_network :: bool
  ra_mem_limit_mb :: "int option"
  ra_cpu_limit :: "rat option"
  ra_input_blobs :: "json option"
  ra_capture_output :: bool
  ra_timeout_secs :: "int option"

text \<open>A step that can fail returns the error message or its value and the database.\<close>

type_synonym 'a exec_result = "(string \<times> db) + ('a \<times> db)"

section \<open>Input files\<close>

fun contains_dotdot :: "string \<Rightarrow> bool" where
  "contains_dotdot s = contains_str s ''..''"

definition bad_file_name :: "string \<Rightarrow> bool" where
  "bad_file_name name = (name = [] \<or> CHR ''/'' \<in> set name \<or> contains_dotdot name)"

fun write_inputs :: "exec_env \<Rightarrow> string \<Rightarrow> (string \<times> json) list \<Rightarrow> db \<Rightarrow> unit exec_result" where
  "write_inputs env dir [] d = Inr ((), d)"
| "write_inputs env dir ((name, sha_v) # m) d =
     (if bad_file_name name then Inl (''invalid input file name: '' @ str_debug name, d)
      else case as_str sha_v of
        None \<Rightarrow> Inl (''input_blobs['' @ name @ ''] is not a string handle'', d)
      | Some sha \<Rightarrow>
          (case get_blob (ee_clock env d) sha d of
             (None, d') \<Rightarrow> Inl (''input blob not found for handle '' @ sha, d')
           | (Some bytes, d') \<Rightarrow>
               (case ee_io env d' (dir @ ''/'' @ name) of
                  Some e \<Rightarrow> Inl (e, d')
                | None \<Rightarrow> write_inputs env dir m d')))"

definition run_dir :: "string \<Rightarrow> int \<Rightarrow> string \<Rightarrow> string" where
  "run_dir home rid sub = home @ ''/.dokan/runs/'' @ int_str rid @ ''/'' @ sub"

definition materialize_input :: "exec_env \<Rightarrow> int \<Rightarrow> json option \<Rightarrow> db \<Rightarrow> string option exec_result" where
  "materialize_input env rid inb d =
     (case Option.bind inb as_object of
        None \<Rightarrow> Inr (None, d)
      | Some m \<Rightarrow>
          if m = [] then Inr (None, d)
          else (case ee_home env of
             None \<Rightarrow> Inl (''HOME unset; cannot materialize /input'', d)
           | Some home \<Rightarrow>
               let dir = run_dir home rid ''input'' in
               (case ee_io env d dir of
                  Some e \<Rightarrow> Inl (e, d)
                | None \<Rightarrow>
                    (case write_inputs env dir m d of
                       Inl e \<Rightarrow> Inl e
                     | Inr (_, d') \<Rightarrow> Inr (Some dir, d')))))"

definition prepare_output_dir :: "exec_env \<Rightarrow> int \<Rightarrow> db \<Rightarrow> string exec_result" where
  "prepare_output_dir env rid d =
     (case ee_home env of
        None \<Rightarrow> Inl (''HOME unset; cannot prepare /output'', d)
      | Some home \<Rightarrow>
          (case ee_io env d (run_dir home rid ''output'') of
             Some e \<Rightarrow> Inl (e, d) | None \<Rightarrow> Inr (run_dir home rid ''output'', d)))"

section \<open>Output capture\<close>

definition max_output_file_bytes :: nat where
  "max_output_file_bytes = 256 * 1024 * 1024"

text \<open>A path under \<open>/output\<close>, relative to it.\<close>

definition rel_path :: "string \<Rightarrow> string \<Rightarrow> string" where
  "rel_path p name = (if p = [] then name else p @ ''/'' @ name)"

text \<open>One directory: subdirectories go on the stack, regular files under the cap are stored.\<close>

fun capture_dir ::
    "exec_env \<Rightarrow> string \<Rightarrow> fnode list \<Rightarrow> (string \<times> fnode list option) list \<Rightarrow> (string \<times> json) list \<Rightarrow> db
     \<Rightarrow> ((string \<times> fnode list option) list \<times> (string \<times> json) list) exec_result" where
  "capture_dir env p [] stack m d = Inr ((stack, m), d)"
| "capture_dir env p (FDir name sub # es) stack m d =
     capture_dir env p es ((rel_path p name, sub) # stack) m d"
| "capture_dir env p (FOther name # es) stack m d = capture_dir env p es stack m d"
| "capture_dir env p (FBroken msg # es) stack m d = Inl (msg, d)"
| "capture_dir env p (FFile name bytes # es) stack m d =
     (if max_output_file_bytes < length bytes then capture_dir env p es stack m d
      else (case ee_write_error env WBlob d of
              Some e \<Rightarrow> Inl (e, d)
            | None \<Rightarrow>
                (case put_blob (sha256_hex (ee_crypto env)) (ee_clock env d) bytes d of
                   ((sha, sz), d') \<Rightarrow>
                     capture_dir env p es stack (obj_insert (rel_path p name) (JStr sha) m) d')))"

fun fnode_size :: "fnode \<Rightarrow> nat" where
  "fnode_size (FDir name (Some es)) = Suc (Suc (sum_list (map fnode_size es)))"
| "fnode_size _ = 1"

definition entry_size :: "string \<times> fnode list option \<Rightarrow> nat" where
  "entry_size e = Suc (case snd e of None \<Rightarrow> 0 | Some es \<Rightarrow> sum_list (map fnode_size es))"

lemma capture_dir_size:
  "capture_dir env p es stack m d = Inr ((stack', m'), d') \<Longrightarrow>
   sum_list (map entry_size stack') \<le> sum_list (map entry_size stack) + sum_list (map fnode_size es)"
proof (induction env p es stack m d rule: capture_dir.induct)
  case (2 env p name sub es stack m d)
  then show ?case by (cases sub) (auto simp: entry_size_def)
next
  case (5 env p name bytes es stack m d)
  show ?case
  proof (cases "max_output_file_bytes < length bytes")
    case True
    with 5 show ?thesis by simp
  next
    case False
    obtain sha sz d1 where
      "put_blob (sha256_hex (ee_crypto env)) (ee_clock env d) bytes d = ((sha, sz), d1)"
      by (metis prod.exhaust)
    with 5(2) [OF False _ this [symmetric] refl] 5(3) False show ?thesis
      by (cases "ee_write_error env WBlob d") simp_all
  qed
qed auto

function capture_walk ::
    "exec_env \<Rightarrow> (string \<times> fnode list option) list \<Rightarrow> (string \<times> json) list \<Rightarrow> db
     \<Rightarrow> (string \<times> json) list exec_result" where
  "capture_walk env [] m d = Inr (m, d)"
| "capture_walk env ((p, None) # stack) m d = capture_walk env stack m d"
| "capture_walk env ((p, Some es) # stack) m d =
     (case capture_dir env p es stack m d of
        Inl e \<Rightarrow> Inl e
      | Inr ((stack', m'), d') \<Rightarrow> capture_walk env stack' m' d')"
  by pat_completeness auto
termination
  by (relation "measure (\<lambda>(env, stack, m, d). sum_list (map entry_size stack))")
    (auto simp: entry_size_def dest!: capture_dir_size)

text \<open>An error ends the walk with it; the blobs stored so far stay in the store.\<close>

definition capture_output :: "exec_env \<Rightarrow> string \<Rightarrow> db \<Rightarrow> json option exec_result" where
  "capture_output env dir d =
     (case capture_walk env [([], ee_output env d dir)] [] d of
        Inl e \<Rightarrow> Inl e
      | Inr (m, d') \<Rightarrow> Inr (if m = [] then None else Some (JObj m), d'))"

section \<open>The job\<close>

definition bootstrap :: "string \<Rightarrow> string" where
  "bootstrap interp =
     ''mkdir -p /run/secrets 2>/dev/null || true; '' @
     ''for n in $(printf '' @ [CHR 0x27] @ ''%s'' @ [CHR 0x27] @ '' '' @ [CHR 0x22] @ ''$DOKAN_SECRET_NAMES'' @
     [CHR 0x22] @ '' | tr '' @ [CHR 0x27] @ '','' @ [CHR 0x27] @ '' '' @ [CHR 0x27] @ '' '' @ [CHR 0x27] @ ''); do '' @
     ''[ -n '' @ [CHR 0x22] @ ''$n'' @ [CHR 0x22] @ '' ] || continue; '' @
     ''eval '' @ [CHR 0x22] @ ''v='' @ [CHR 0x5C] @ ''$$n'' @ [CHR 0x22] @ ''; '' @
     ''printf '' @ [CHR 0x27] @ ''%s'' @ [CHR 0x27] @ '' '' @ [CHR 0x22] @ ''$v'' @ [CHR 0x22] @
     '' > /run/secrets/$n 2>/dev/null && chmod 400 /run/secrets/$n 2>/dev/null || true; '' @
     ''done; '' @
     ''printf '' @ [CHR 0x27] @ ''%s'' @ [CHR 0x27] @ '' '' @ [CHR 0x22] @ ''$DOKAN_SRC'' @ [CHR 0x22] @
     '' | base64 -d > /tmp/dokan_script && exec '' @ interp @ '' /tmp/dokan_script''"

text \<open>The secrets the run may see, and what the code derives from them.\<close>

definition visible_secrets :: "exec_env \<Rightarrow> int \<Rightarrow> string option \<Rightarrow> db \<Rightarrow> (string \<times> string) list" where
  "visible_secrets env rid agent d =
     filter (\<lambda>(k, v). secret_allowed k (run_secrets_allowlist rid d))
       (load_secrets_for (ee_unseal env) agent d)"

definition redaction_values :: "(string \<times> string) list \<Rightarrow> string list" where
  "redaction_values vis = filter (\<lambda>v. 8 \<le> length v) (map snd vis)"

definition job_env :: "exec_env \<Rightarrow> int \<Rightarrow> string \<Rightarrow> json \<Rightarrow> (string \<times> string) list \<Rightarrow> string list" where
  "job_env env rid source input vis =
     [''DOKAN_SRC='' @ c_b64 (ee_crypto env) source,
      ''DOKAN_INPUT='' @ c_print (ee_crypto env) input,
      ''DOKAN_RUN_ID='' @ int_str rid,
      ''HOME=/tmp''] @
     map (\<lambda>(k, v). k @ ''='' @ v) vis @
     [''DOKAN_SECRET_NAMES='' @ join_with '','' (map fst vis)]"

definition stale_container :: "docker_error \<Rightarrow> string" where
  "stale_container e =
     (case e of
        ServerError code msg \<Rightarrow>
          if code = 404 then ''warm container unavailable (stale); retrying on a fresh one'' else msg
      | DockerError msg \<Rightarrow> msg)"

text \<open>\<open>as i32\<close> of the exit code.\<close>

definition as_i32 :: "int \<Rightarrow> int" where
  "as_i32 i = (i + 2 ^ 31) mod 2 ^ 32 - 2 ^ 31"

text \<open>Logging under the next free number; an error here ends the job with that error.\<close>

definition append_stderr :: "exec_env \<Rightarrow> int \<Rightarrow> string \<Rightarrow> db \<Rightarrow> string + db" where
  "append_stderr env rid line d =
     (case append_log rid (max_log_seq rid d + 1) ''stderr'' line d of
        Inl e \<Rightarrow> Inl (ee_db_msg env e) | Inr d' \<Rightarrow> Inr d')"

text \<open>\<open>finish_run(..).await?\<close>: the end of the run, or the error of the statement.\<close>

definition finish_or_err ::
    "exec_env \<Rightarrow> int \<Rightarrow> run_status \<Rightarrow> int option \<Rightarrow> string option \<Rightarrow> db \<Rightarrow> unit exec_result" where
  "finish_or_err env rid st code err d =
     (case ee_write_error env WFinish d of
        Some e \<Rightarrow> Inl (e, d)
      | None \<Rightarrow> Inr ((), finish_run (ee_clock env d) rid st code err d))"

text \<open>A column written only when there is a value; whether that went well, and the database.\<close>

definition store_column ::
    "exec_env \<Rightarrow> exec_write \<Rightarrow> (json \<Rightarrow> db \<Rightarrow> db) \<Rightarrow> json option \<Rightarrow> db \<Rightarrow> bool \<times> db" where
  "store_column env w store v d =
     (case v of
        None \<Rightarrow> (True, d)
      | Some x \<Rightarrow> (case ee_write_error env w d of Some e \<Rightarrow> (False, d) | None \<Rightarrow> (True, store x d)))"

text \<open>
  The tail of \<open>exec_job\<close> once the exit code is known: finish, capture, persist, receipt, triggers.  A
  failed capture leaves the run without output artifacts; a failed write of the output artifacts or
  the result leaves it without a receipt (\<open>provenance_ok\<close>).
\<close>

definition finish_job ::
    "exec_env \<Rightarrow> run_args \<Rightarrow> string \<Rightarrow> string option \<Rightarrow> json option \<Rightarrow> int \<Rightarrow> db \<Rightarrow> unit exec_result" where
  "finish_job env a img out_dir result exit_code d =
     (let rid = ra_run_id a in
      case finish_or_err env rid (if exit_code = 0 then Succeeded else Failed)
             (Some (as_i32 exit_code)) None d of
        Inl e \<Rightarrow> Inl e
      | Inr (_, d1) \<Rightarrow>
          (let (outs, d2) =
                 (case out_dir of
                    Some dir \<Rightarrow> (case capture_output env dir d1 of Inr x \<Rightarrow> x | Inl (e, d') \<Rightarrow> (None, d'))
                  | None \<Rightarrow> (None, d1));
               (outputs_ok, d3) = store_column env WOutputs (set_run_output_blobs rid) outs d2;
               (result_ok, d4) = store_column env WResult (set_run_result rid) result d3;
               provenance_ok = (outputs_ok \<and> result_ok);
               receipt = build_receipt (ee_crypto env) (ee_signer env)
                 \<lparr>rb_run_id = rid, rb_image = img, rb_digest = ee_digest env d4 img,
                  rb_source = ra_source a, rb_input = ra_input a, rb_result = result,
                  rb_exit = exit_code, rb_network = ra_network a, rb_gen = secrets_generation d4,
                  rb_input_blobs = ra_input_blobs a, rb_output_blobs = outs\<rparr>;
               d5 = (if provenance_ok
                     then snd (store_column env WReceipt (set_run_receipt rid) (Some receipt) d4) else d4)
           in Inr ((),
             (case result of
                Some r \<Rightarrow>
                  (case ee_write_error env WTriggers d5 of
                     Some e \<Rightarrow> d5
                   | None \<Rightarrow> snd (fire_triggers (ee_contains env) (ee_clock env d5) rid r d5))
              | None \<Rightarrow> d5))))"

definition parse_result :: "exec_env \<Rightarrow> string option \<Rightarrow> json option" where
  "parse_result env raw =
     map_option (\<lambda>s. case c_parse (ee_crypto env) s of Some v \<Rightarrow> v | None \<Rightarrow> JStr s) raw"

definition after_logs ::
    "exec_env \<Rightarrow> run_args \<Rightarrow> string \<Rightarrow> string option \<Rightarrow> string \<Rightarrow> string option \<Rightarrow> db \<Rightarrow> unit exec_result" where
  "after_logs env a img out_dir exec_id raw d =
     (case ee_inspect_exec env d exec_id of
        Inr code \<Rightarrow>
          finish_job env a img out_dir (parse_result env raw) (case code of Some c \<Rightarrow> c | None \<Rightarrow> 0) d
      | Inl (ServerError code msg) \<Rightarrow>
          if code = 404 then
            (case append_stderr env (ra_run_id a)
                    ''dokan: container vanished before exit code; marking failed'' d of
               Inl e \<Rightarrow> Inl (e, d)
             | Inr d' \<Rightarrow> finish_or_err env (ra_run_id a) Failed None (Some ''container vanished'') d')
          else Inl (msg, d)
      | Inl (DockerError msg) \<Rightarrow> Inl (msg, d))"

definition timed_out :: "exec_env \<Rightarrow> run_args \<Rightarrow> int \<Rightarrow> db \<Rightarrow> unit exec_result" where
  "timed_out env a limit d =
     (case append_stderr env (ra_run_id a)
             (''dokan: timeout after '' @ int_str limit @ '' s, container killed'') d of
        Inl e \<Rightarrow> Inl (e, d)
      | Inr d' \<Rightarrow> finish_or_err env (ra_run_id a) Failed None (Some ''timeout'') d')"

definition pump_msg :: "exec_env \<Rightarrow> pump_error \<Rightarrow> string" where
  "pump_msg env e = (case e of PumpDb x \<Rightarrow> ee_db_msg env x | PumpStream m \<Rightarrow> ''log stream: '' @ m)"

text \<open>
  When the limit strikes, the pump has dealt with some number of items and its batch is lost;
  otherwise it runs to the end of the stream.
\<close>

definition exec_job ::
    "exec_env \<Rightarrow> run_args \<Rightarrow> string \<Rightarrow> string \<Rightarrow> string \<Rightarrow> string option \<Rightarrow> int \<Rightarrow> db \<Rightarrow> unit exec_result" where
  "exec_job env a cid img interp out_dir limit d =
     (let rid = ra_run_id a; vis = visible_secrets env rid (ra_agent_id a) d;
          svals = redaction_values vis in
      case ee_create_exec env d cid (bootstrap interp)
             (job_env env rid (ra_source a) (ra_input a) vis) of
        Inl e \<Rightarrow> Inl (stale_container e, d)
      | Inr exec_id \<Rightarrow>
          (case ee_start_exec env d exec_id of
             Inl e \<Rightarrow> Inl (stale_container e, d)
           | Inr None \<Rightarrow> Inl (''exec detached unexpectedly'', d)
           | Inr (Some items) \<Rightarrow>
               (case ee_deadline env d exec_id limit of
                  Some n \<Rightarrow>
                    (case pump_stream rid svals (take n items) (pump_start rid d, d) of
                       Inl (e, d') \<Rightarrow> Inl (pump_msg env e, d')
                     | Inr (st, d') \<Rightarrow> timed_out env a limit d')
                | None \<Rightarrow>
                    (case pump_logs rid svals items d of
                       Inl (e, d') \<Rightarrow> Inl (pump_msg env e, d')
                     | Inr ((last_seq, raw), d') \<Rightarrow> after_logs env a img out_dir exec_id raw d'))))"

section \<open>The run\<close>

text \<open>\<open>as i64\<close> of a float: truncated towards zero, saturated.\<close>

definition i64_sat :: "int \<Rightarrow> int" where
  "i64_sat i = max (- (2 ^ 63)) (min (2 ^ 63 - 1) i)"

definition nano_cpus :: "rat \<Rightarrow> int" where
  "nano_cpus c = i64_sat (if 0 \<le> c then \<lfloor>c * 1000000000\<rfloor> else - \<lfloor>- (c * 1000000000)\<rfloor>)"

definition pool_request_for :: "exec_env \<Rightarrow> run_args \<Rightarrow> string \<Rightarrow> string option \<Rightarrow> string option \<Rightarrow> pool_request" where
  "pool_request_for env a img inp outp =
     (if ra_mem_limit_mb a = None \<and> ra_cpu_limit a = None \<and> inp = None \<and> outp = None
      then (if ra_network a then Warm img else Isolated img)
      else WithCaps img
        (case ra_mem_limit_mb a of Some mb \<Rightarrow> i64_sat (mb * (1024 * 1024)) | None \<Rightarrow> fst (ee_limits env))
        (case ra_cpu_limit a of Some c \<Rightarrow> nano_cpus c | None \<Rightarrow> snd (ee_limits env))
        (\<not> ra_network a) inp outp)"

definition run_inner :: "exec_env \<Rightarrow> run_args \<Rightarrow> int \<Rightarrow> db \<Rightarrow> unit exec_result" where
  "run_inner env a limit d =
     (case runtime_spec (ra_runtime a) of
        None \<Rightarrow> Inl (''unknown runtime: '' @ ra_runtime a, d)
      | Some (img, interp) \<Rightarrow>
          (case materialize_input env (ra_run_id a) (ra_input_blobs a) d of
             Inl e \<Rightarrow> Inl e
           | Inr (inp, d1) \<Rightarrow>
               (case (if ra_capture_output a
                      then (case prepare_output_dir env (ra_run_id a) d1 of
                              Inl e \<Rightarrow> Inl e | Inr (dir, d2) \<Rightarrow> Inr (Some dir, d2))
                      else Inr (None, d1)) of
                  Inl e \<Rightarrow> Inl e
                | Inr (outp, d2) \<Rightarrow>
                    (case ee_acquire env d2 (pool_request_for env a img inp outp) of
                       Inl msg \<Rightarrow> Inl (msg, d2)
                     | Inr cid \<Rightarrow> exec_job env a cid img interp outp limit d2))))"

text \<open>\<open>Executor::run\<close>: a dokan-side error is logged and recorded against the run.\<close>

definition exec_run :: "exec_env \<Rightarrow> run_args \<Rightarrow> db \<Rightarrow> db" where
  "exec_run env a d =
     (case run_inner env a (effective_timeout_secs (ra_timeout_secs a) (ee_max_timeout env)) d of
        Inr (_, d') \<Rightarrow> d'
      | Inl (msg, d') \<Rightarrow>
          let rid = ra_run_id a;
              d1 = (case append_log rid (max_log_seq rid d' + 1) ''stderr'' (''dokan: '' @ msg) d' of
                      Inl _ \<Rightarrow> d' | Inr x \<Rightarrow> x)
          in finish_run (ee_clock env d1) rid Failed None (Some msg) d1)"

section \<open>What a step leaves alone\<close>

definition frame :: "db \<Rightarrow> db \<Rightarrow> bool" where
  "frame d d' =
     (scripts d' = scripts d \<and> flows d' = flows d \<and> flow_runs d' = flow_runs d \<and>
      flow_steps d' = flow_steps d \<and> flow_run_seq d' = flow_run_seq d \<and>
      schedules d' = schedules d \<and> triggers d' = triggers d \<and>
      secrets_generation d' = secrets_generation d)"

text \<open>A row of the runs table that was not there before is a fresh pending run.\<close>

definition rows_kept :: "db \<Rightarrow> db \<Rightarrow> bool" where
  "rows_kept d d' =
     (\<forall>i r'. run_by_id i d = None \<longrightarrow> run_by_id i d' = Some r' \<longrightarrow>
        r_attempts r' = 0 \<and> r_status r' = Pending)"

lemma rows_kept_refl: "runs d' = runs d \<Longrightarrow> rows_kept d d'"
  by (simp add: rows_kept_def run_by_id_def)

lemma rows_kept_update:
  "(\<And>r. r_id (f r) = r_id r) \<Longrightarrow> rows_kept d (d\<lparr>runs := update_where P f (runs d)\<rparr>)"
  by (simp add: rows_kept_def run_by_id_update)

text \<open>Only the progress column of existing runs may differ; rows may be added.\<close>

definition kept_rows :: "db \<Rightarrow> db \<Rightarrow> bool" where
  "kept_rows d d' =
     (frame d d' \<and> rows_kept d d' \<and>
      (\<forall>i r. run_by_id i d = Some r \<longrightarrow> (\<exists>p. run_by_id i d' = Some (r\<lparr>r_progress := p\<rparr>))))"

lemma frame_refl [simp]: "frame d d"
  by (simp add: frame_def)

lemma frame_trans: "frame a b \<Longrightarrow> frame b c \<Longrightarrow> frame a c"
  by (simp add: frame_def)

lemma progress_same [simp]: "r\<lparr>r_progress := r_progress r\<rparr> = r"
  by simp

lemma kept_rows_refl [simp]: "kept_rows d d"
proof -
  have "\<exists>p. run_by_id i d = Some (r\<lparr>r_progress := p\<rparr>)" if "run_by_id i d = Some r" for i r
    using that by (intro exI [of _ "r_progress r"]) simp
  then show ?thesis by (simp add: kept_rows_def rows_kept_refl)
qed

lemma kept_rows_trans: "kept_rows a b \<Longrightarrow> kept_rows b c \<Longrightarrow> kept_rows a c"
proof -
  assume ab: "kept_rows a b" and bc: "kept_rows b c"
  have "\<exists>p. run_by_id i c = Some (r\<lparr>r_progress := p\<rparr>)" if r: "run_by_id i a = Some r" for i r
  proof -
    from ab r obtain p where "run_by_id i b = Some (r\<lparr>r_progress := p\<rparr>)" by (auto simp: kept_rows_def)
    with bc obtain q where "run_by_id i c = Some (r\<lparr>r_progress := p\<rparr>\<lparr>r_progress := q\<rparr>)"
      unfolding kept_rows_def by blast
    then show ?thesis by auto
  qed
  moreover have "rows_kept a c"
    unfolding rows_kept_def
  proof (intro allI impI)
    fix i r' assume a: "run_by_id i a = None" and c: "run_by_id i c = Some r'"
    show "r_attempts r' = 0 \<and> r_status r' = Pending"
    proof (cases "run_by_id i b")
      case None
      from bc have "rows_kept b c" by (simp add: kept_rows_def)
      with None c show ?thesis by (simp add: rows_kept_def)
    next
      case (Some q)
      with bc obtain p where "run_by_id i c = Some (q\<lparr>r_progress := p\<rparr>)" unfolding kept_rows_def by blast
      with c have "r' = q\<lparr>r_progress := p\<rparr>" by simp
      moreover from ab have "rows_kept a b" by (simp add: kept_rows_def)
      then have "r_attempts q = 0 \<and> r_status q = Pending" using a Some by (simp add: rows_kept_def)
      ultimately show ?thesis by simp
    qed
  qed
  moreover have "frame a c" by (rule frame_trans [of a b c]) (use ab bc in \<open>simp_all add: kept_rows_def\<close>)
  ultimately show ?thesis by (simp add: kept_rows_def)
qed

lemma kept_rows_same: "runs d' = runs d \<Longrightarrow> frame d d' \<Longrightarrow> kept_rows d d'"
proof -
  assume same: "runs d' = runs d" and f: "frame d d'"
  have "run_by_id i d' = run_by_id i d" for i using same by (simp add: run_by_id_def)
  then show "kept_rows d d'" using kept_rows_refl [of d] f rows_kept_refl [OF same] unfolding kept_rows_def by metis
qed

text \<open>
  Seen from the run queue, what the executor does is a history of the queue's own statements:
  progress and triggers while the job runs, and, for the run \<open>k\<close>, its result columns and end.
\<close>

fun executor_stmt :: "int option \<Rightarrow> stmt \<Rightarrow> bool" where
  "executor_stmt k (SetProgress i v) = True"
| "executor_stmt k (FireTriggers contains now i v) = True"
| "executor_stmt k (Finish now i ok code err) = (k = Some i)"
| "executor_stmt k (SetResult i v) = (k = Some i)"
| "executor_stmt k (SetOutputBlobs i v) = (k = Some i)"
| "executor_stmt k (SetReceipt i v) = (k = Some i)"
| "executor_stmt k _ = False"

definition same_queue :: "db \<Rightarrow> db \<Rightarrow> bool" where
  "same_queue d d' =
     (runs d' = runs d \<and> run_seq d' = run_seq d \<and> scripts d' = scripts d \<and>
      script_seq d' = script_seq d \<and> triggers d' = triggers d)"

definition history :: "int option \<Rightarrow> db \<Rightarrow> db \<Rightarrow> bool" where
  "history k d d' = (\<exists>ss. list_all (executor_stmt k) ss \<and> same_queue (exec_stmts ss d) d')"

lemma same_queue_refl [simp]: "same_queue d d"
  by (simp add: same_queue_def)

lemma same_queue_trans: "same_queue a b \<Longrightarrow> same_queue b c \<Longrightarrow> same_queue a c"
  by (simp add: same_queue_def)

lemma same_queue_targets:
  "same_queue d e \<Longrightarrow> same_queue (snd (enqueue_targets now input ts d)) (snd (enqueue_targets now input ts e))"
proof (induction ts arbitrary: d e)
  case (Cons t ts)
  let ?f = "\<lambda>d. d\<lparr>runs := runs d @ [new_run (run_seq d) (tg_target t) input (tg_agent_id t) now],
              run_seq := run_seq d + 1\<rparr>"
  have "same_queue (?f d) (?f e)" using Cons.prems by (simp add: same_queue_def)
  from Cons.IH [OF this] show ?case by (simp add: split_beta Let_def)
qed simp

lemma same_queue_stmt: "same_queue d e \<Longrightarrow> executor_stmt k s \<Longrightarrow> same_queue (exec_stmt s d) (exec_stmt s e)"
proof (cases s)
  case (FireTriggers contains now i v)
  assume q: "same_queue d e"
  then have "trigger_fires contains i v e = trigger_fires contains i v d"
    by (auto simp: fun_eq_iff trigger_fires_def same_queue_def run_by_id_def)
  with FireTriggers q same_queue_targets [OF q] show ?thesis
    by (simp add: fire_triggers_def) (simp add: same_queue_def)
qed (auto simp: same_queue_def update_run_progress_def finish_run_def set_run_result_def
      set_run_output_blobs_def set_run_receipt_def)

lemma same_queue_stmts:
  "same_queue d e \<Longrightarrow> list_all (executor_stmt k) ss \<Longrightarrow> same_queue (exec_stmts ss d) (exec_stmts ss e)"
  by (induction ss arbitrary: d e) (auto intro: same_queue_stmt)

lemma history_same: "same_queue d d' \<Longrightarrow> history k d d'"
  unfolding history_def by (rule exI [of _ "[]"]) simp

lemma history_stmt: "executor_stmt k s \<Longrightarrow> history k d (exec_stmt s d)"
  unfolding history_def by (rule exI [of _ "[s]"]) simp

lemma history_trans: "history k a b \<Longrightarrow> history k b c \<Longrightarrow> history k a c"
proof -
  assume "history k a b" and "history k b c"
  then obtain ss ts where ss: "list_all (executor_stmt k) ss" "same_queue (exec_stmts ss a) b"
    and ts: "list_all (executor_stmt k) ts" "same_queue (exec_stmts ts b) c"
    unfolding history_def by blast
  have "same_queue (exec_stmts ts (exec_stmts ss a)) c"
    using same_queue_trans [OF same_queue_stmts [OF ss(2) ts(1)] ts(2)] .
  with ss(1) ts(1) show ?thesis
    unfolding history_def by (intro exI [of _ "ss @ ts"]) (simp add: exec_stmts_def)
qed

lemma executor_stmt_mono: "executor_stmt None s \<Longrightarrow> executor_stmt k s"
  by (cases s) simp_all

lemma history_mono: "history None d d' \<Longrightarrow> history k d d'"
  unfolding history_def by (metis executor_stmt_mono list.pred_mono_strong)

lemma history_wf: "history k d d' \<Longrightarrow> runs_wf d \<Longrightarrow> runs_wf d'"
proof -
  assume "history k d d'" and wf: "runs_wf d"
  then obtain ss where q: "same_queue (exec_stmts ss d) d'" unfolding history_def by blast
  from exec_stmts_wf [OF wf] q show ?thesis
    by (intro runs_wf_cong [of d' "exec_stmts ss d"]) (simp_all add: same_queue_def)
qed

definition kept :: "db \<Rightarrow> db \<Rightarrow> bool" where
  "kept d d' = (kept_rows d d' \<and> history None d d')"

lemma kept_refl [simp]: "kept d d"
  by (simp add: kept_def history_same)

lemma kept_trans: "kept a b \<Longrightarrow> kept b c \<Longrightarrow> kept a c"
  unfolding kept_def by (meson kept_rows_trans history_trans)

lemma kept_same_runs: "same_queue d d' \<Longrightarrow> frame d d' \<Longrightarrow> kept d d'"
  by (simp add: kept_def history_same kept_rows_same same_queue_def)

lemma kept_progress: "kept d (update_run_progress rid p d)"
proof -
  have "\<exists>q. run_by_id i (update_run_progress rid p d) = Some (r\<lparr>r_progress := q\<rparr>)"
    if "run_by_id i d = Some r" for i r
  proof (cases "r_id r = rid")
    case True
    with that show ?thesis by (auto simp: update_run_progress_def run_by_id_update)
  next
    case False
    with that show ?thesis
      by (intro exI [of _ "r_progress r"]) (simp add: update_run_progress_def run_by_id_update)
  qed
  moreover have "rows_kept d (update_run_progress rid p d)"
    unfolding update_run_progress_def by (rule rows_kept_update) simp
  ultimately have "kept_rows d (update_run_progress rid p d)"
    by (simp add: kept_rows_def frame_def update_run_progress_def)
  moreover have "history None d (update_run_progress rid p d)"
    using history_stmt [of None "SetProgress rid p" d] by simp
  ultimately show ?thesis by (simp add: kept_def)
qed

lemma kept_append_log: "append_log rid q s l d = Inr d' \<Longrightarrow> kept d d'"
  by (auto simp: append_log_def frame_def same_queue_def intro!: kept_same_runs split: if_splits)

lemma kept_batch: "append_logs_batch rid rows d = Inr d' \<Longrightarrow> kept d d'"
proof (induction rid rows d rule: append_logs_batch.induct)
  case (2 rid q s l rows d)
  from "2.prems" obtain d1 where d1: "append_log rid q s l d = Inr d1" "append_logs_batch rid rows d1 = Inr d'"
    by (auto split: sum.splits)
  from "2.IH" [OF d1] kept_append_log [OF d1(1)] show ?case by (metis kept_trans)
qed simp

definition sum_db :: "('e \<times> db) + ('a \<times> db) \<Rightarrow> db" where
  "sum_db x = (case x of Inl (_, d) \<Rightarrow> d | Inr (_, d) \<Rightarrow> d)"

lemma sum_db_simps [simp]: "sum_db (Inl (e, d)) = d" "sum_db (Inr (a, d)) = d"
  by (simp_all add: sum_db_def)

lemma kept_flush: "kept (snd s) (sum_db (flush rid s))"
  by (auto simp: flush_def kept_batch split: prod.split sum.split)

lemma kept_push: "kept (snd s) (snd (push_line rid svals b k s))"
  by (auto simp: push_line_def kept_progress split: prod.split line_kind.split)

lemma kept_lines: "kept (snd s) (sum_db (handle_lines rid svals b ls s))"
proof (induction ls arbitrary: s)
  case Nil
  show ?case by (cases s) simp
next
  case (Cons l ls)
  let ?s = "push_line rid svals b (classify_line b (strip_cr l)) s"
  have p: "kept (snd s) (snd ?s)" by (rule kept_push)
  have f: "kept (snd ?s) (sum_db (flush rid ?s))" by (rule kept_flush)
  show ?case
  proof (cases "256 \<le> length (pm_batch (fst ?s))")
    case True
    show ?thesis
    proof (cases "flush rid ?s")
      case (Inl e)
      with True kept_trans [OF p f] show ?thesis by (cases e) (simp add: Let_def)
    next
      case (Inr s2)
      with f have "kept (snd ?s) (snd s2)" by (cases s2) simp
      from kept_trans [OF kept_trans [OF p this] Cons.IH [of s2]] True Inr show ?thesis
        by (simp add: Let_def)
    qed
  next
    case False
    with kept_trans [OF p Cons.IH [of ?s]] show ?thesis by (simp add: Let_def)
  qed
qed

lemma kept_chunk: "kept (snd s) (sum_db (pump_chunk rid svals c s))"
proof -
  obtain b bytes where c: "chunk_stream c = (b, bytes)" by fastforce
  obtain st d where s: "s = (st, d)" by fastforce
  obtain ls rest where tl: "take_lines ((if b then pm_out st else pm_err st) @ utf8_lossy bytes) = (ls, rest)"
    by fastforce
  let ?s = "(if b then st\<lparr>pm_out := rest\<rparr> else st\<lparr>pm_err := rest\<rparr>, d)"
  show ?thesis
  proof (cases "handle_lines rid svals b ls ?s")
    case (Inl e)
    with kept_lines [of ?s rid svals b ls] show ?thesis
      by (cases e) (simp add: pump_chunk_def c s tl)
  next
    case (Inr s1)
    with kept_lines [of ?s rid svals b ls] have "kept d (snd s1)" by (cases s1) simp
    from kept_trans [OF this kept_flush [of s1 rid]] Inr show ?thesis
      by (simp add: pump_chunk_def c s tl)
  qed
qed

lemma kept_stream: "kept (snd s) (sum_db (pump_stream rid svals its s))"
proof (induction its arbitrary: s)
  case Nil
  show ?case by (cases s) simp
next
  case (Cons it its)
  show ?case
  proof (cases it)
    case (Chunk c)
    show ?thesis
    proof (cases "pump_chunk rid svals c s")
      case (Inl e)
      with kept_chunk [of s rid svals c] show ?thesis by (cases e) (simp add: Chunk)
    next
      case (Inr s1)
      with kept_chunk [of s rid svals c] have "kept (snd s) (snd s1)" by (cases s1) simp
      from kept_trans [OF this Cons.IH [of s1]] show ?thesis by (simp add: Chunk Inr)
    qed
  qed (cases s; simp)+
qed

lemma kept_tail: "kept (snd s) (snd (pump_tail rid svals b buf s))"
  by (simp add: pump_tail_def kept_push)

lemma kept_pump: "kept d (sum_db (pump_logs rid svals its d))"
proof (cases "pump_stream rid svals its (pump_start rid d, d)")
  case (Inl e)
  with kept_stream [of "(pump_start rid d, d)" rid svals its] show ?thesis
    by (cases e) (simp add: pump_logs_def)
next
  case (Inr s1)
  obtain st d1 where s1: "s1 = (st, d1)" by fastforce
  let ?s2 = "pump_tail rid svals False (pm_err st) (pump_tail rid svals True (pm_out st) (st, d1))"
  have "kept d d1" using kept_stream [of "(pump_start rid d, d)" rid svals its] Inr s1 by simp
  moreover have "kept d1 (snd ?s2)"
    using kept_trans [OF kept_tail [of "(st, d1)"] kept_tail] by simp
  ultimately have k: "kept d (sum_db (flush rid ?s2))"
    using kept_flush [of ?s2 rid] kept_trans by blast
  then show ?thesis
    by (cases "flush rid ?s2") (auto simp: pump_logs_def Inr s1 split: prod.splits)
qed

lemma kept_stderr: "append_stderr env rid l d = Inr d' \<Longrightarrow> kept d d'"
  by (auto simp: append_stderr_def kept_append_log split: sum.splits)

lemma kept_get_blob: "get_blob now h d = (v, d') \<Longrightarrow> kept d d'"
  by (auto simp: get_blob_def frame_def same_queue_def intro!: kept_same_runs split: option.splits)

lemma kept_put_blob: "put_blob sha now b d = (v, d') \<Longrightarrow> kept d d'"
  by (auto simp: put_blob_def frame_def same_queue_def intro!: kept_same_runs split: if_splits)

lemma kept_inputs: "kept d (sum_db (write_inputs env dir m d))"
proof (induction env dir m d rule: write_inputs.induct)
  case (2 env dir name sha_v m d)
  show ?case
  proof (cases "bad_file_name name")
    case False
    show ?thesis
    proof (cases "as_str sha_v")
      case (Some sha)
      obtain v d1 where g: "get_blob (ee_clock env d) sha d = (v, d1)" by fastforce
      note k = kept_get_blob [OF g]
      show ?thesis
      proof (cases v)
        case (Some bytes)
        show ?thesis
        proof (cases "ee_io env d1 (dir @ ''/'' @ name)")
          case None
          with "2.IH" [OF False \<open>as_str sha_v = Some sha\<close> g [symmetric] Some None] k
          have "kept d (sum_db (write_inputs env dir m d1))" by (metis kept_trans)
          with None Some False \<open>as_str sha_v = Some sha\<close> g show ?thesis by simp
        qed (use Some False \<open>as_str sha_v = Some sha\<close> g k in simp)
      qed (use False Some g k in simp)
    qed (use False in simp)
  qed simp
qed simp

lemma kept_materialize: "kept d (sum_db (materialize_input env rid inb d))"
proof (cases "Option.bind inb as_object")
  case (Some m)
  show ?thesis
  proof (cases "m = []")
    case False
    show ?thesis
    proof (cases "ee_home env")
      case (Some home)
      have "kept d (sum_db (write_inputs env (run_dir home rid ''input'') m d))" by (rule kept_inputs)
      then show ?thesis
        using False Some \<open>Option.bind inb as_object = Some m\<close>
        by (cases "write_inputs env (run_dir home rid ''input'') m d")
          (auto simp: materialize_input_def Let_def split: option.split)
    qed (use False Some in \<open>simp add: materialize_input_def\<close>)
  qed (use Some in \<open>simp add: materialize_input_def\<close>)
qed (simp add: materialize_input_def)

lemma kept_capture_dir: "kept d (sum_db (capture_dir env p es stack m d))"
proof (induction env p es stack m d rule: capture_dir.induct)
  case (5 env p name bytes es stack m d)
  show ?case
  proof (cases "max_output_file_bytes < length bytes \<or> ee_write_error env WBlob d \<noteq> None")
    case True
    with 5(1) show ?thesis by (cases "max_output_file_bytes < length bytes") auto
  next
    case False
    obtain sha sz d1 where
      pb: "put_blob (sha256_hex (ee_crypto env)) (ee_clock env d) bytes d = ((sha, sz), d1)"
      by (metis prod.exhaust)
    from False have c: "\<not> max_output_file_bytes < length bytes" "ee_write_error env WBlob d = None" by auto
    from 5(2) [OF c pb [symmetric] refl] kept_put_blob [OF pb] show ?thesis
      by (simp add: c pb) (rule kept_trans)
  qed
qed simp_all

lemma kept_walk: "kept d (sum_db (capture_walk env stack m d))"
proof (induction env stack m d rule: capture_walk.induct)
  case (3 env p es stack m d)
  have k: "kept d (sum_db (capture_dir env p es stack m d))" by (rule kept_capture_dir)
  show ?case
  proof (cases "capture_dir env p es stack m d")
    case (Inl e)
    with k show ?thesis by (cases e) simp
  next
    case (Inr x)
    obtain stack' m' d' where x: "x = ((stack', m'), d')" by (metis prod.exhaust)
    from k have "kept d d'" by (simp add: Inr x)
    from kept_trans [OF this 3 [OF Inr x [symmetric] refl]] show ?thesis by (simp add: Inr x)
  qed
qed simp_all

lemma kept_capture: "kept d (sum_db (capture_output env dir d))"
  using kept_walk [of d env "[([], ee_output env d dir)]" "[]"]
  by (cases "capture_walk env [([], ee_output env d dir)] [] d") (auto simp: capture_output_def)

text \<open>What a handled write leaves: the value stored, or an error and nothing.\<close>

lemma store_column_cases:
  assumes "store_column env w store v d = (ok, d')"
  obtains v' where "d' = (case v' of Some x \<Rightarrow> store x d | None \<Rightarrow> d)"
    and "ok \<Longrightarrow> v' = v" and "\<not> ok \<Longrightarrow> v' = None \<and> v \<noteq> None \<and> ee_write_error env w d \<noteq> None"
proof (rule that [of "if ok then v else None"])
  show "d' = (case if ok then v else None of Some x \<Rightarrow> store x d | None \<Rightarrow> d)"
    and "ok \<Longrightarrow> (if ok then v else None) = v"
    and "\<not> ok \<Longrightarrow> (if ok then v else None) = None \<and> v \<noteq> None \<and> ee_write_error env w d \<noteq> None"
    using assms by (auto simp: store_column_def split: option.splits)
qed

lemma finish_or_err_cases:
  obtains e where "finish_or_err env rid st code err d = Inl (e, d)" and "ee_write_error env WFinish d = Some e"
  | "finish_or_err env rid st code err d = Inr ((), finish_run (ee_clock env d) rid st code err d)"
    and "ee_write_error env WFinish d = None"
  by (cases "ee_write_error env WFinish d") (simp_all add: finish_or_err_def)

end
