(* ===== verification/Exec_Laws.thy ===== *)
theory Exec_Laws
  imports Exec
begin

text \<open>
  What one execution guarantees, whatever Docker, the file system and the job do: the run ends,
  its status says how, and its receipt agrees with the row it is stored on.
\<close>

text \<open>A run as a finish leaves it.\<close>

definition ended :: "time \<Rightarrow> run_status \<Rightarrow> int option \<Rightarrow> string option \<Rightarrow> run \<Rightarrow> run" where
  "ended now st code err r =
     (if r_status r = Canceled then r
      else r\<lparr>r_status := st, r_exit_code := code, r_error := err, r_finished_at := Some now\<rparr>)"

lemma ended_sel [simp]:
  "r_id (ended now st code err r) = r_id r" "r_receipt (ended now st code err r) = r_receipt r"
  "r_result (ended now st code err r) = r_result r"
  "r_output_blobs (ended now st code err r) = r_output_blobs r"
  "(ended now st code err (r\<lparr>r_progress := p\<rparr>)) = (ended now st code err r)\<lparr>r_progress := p\<rparr>"
  by (simp_all add: ended_def)

lemma finish_lookup:
  "run_by_id rid d = Some r \<Longrightarrow>
   run_by_id rid (finish_run now rid st code err d) = Some (ended now st code err r)"
proof -
  assume r: "run_by_id rid d = Some r"
  then have "r_id r = rid" by (auto dest: run_by_idD)
  with r show ?thesis by (simp add: finish_run_def run_by_id_update ended_def)
qed

text \<open>What the executor may do around the run it was given: end it, and add fresh pending runs.\<close>

definition moved :: "int \<Rightarrow> run \<Rightarrow> run \<Rightarrow> bool" where
  "moved rid r r' =
     (r_id r' = r_id r \<and> r_attempts r' = r_attempts r \<and>
      (r_status r' = r_status r \<or> r_id r = rid \<and> r_status r' \<in> {Succeeded, Failed}))"

definition fresh :: "int \<Rightarrow> run \<Rightarrow> bool" where
  "fresh rid r' =
     (r_attempts r' = 0 \<and> (r_status r' = Pending \<or> r_id r' = rid \<and> r_status r' \<in> {Succeeded, Failed}))"

definition evolved :: "int \<Rightarrow> db \<Rightarrow> db \<Rightarrow> bool" where
  "evolved rid d d' =
     (frame d d' \<and> history (Some rid) d d' \<and>
      (\<forall>i r. run_by_id i d = Some r \<longrightarrow> (\<exists>r'. run_by_id i d' = Some r' \<and> moved rid r r')) \<and>
      (\<forall>i r'. run_by_id i d = None \<longrightarrow> run_by_id i d' = Some r' \<longrightarrow> fresh rid r'))"

lemma moved_trans: "moved rid a b \<Longrightarrow> moved rid b c \<Longrightarrow> moved rid a c"
  by (auto simp: moved_def)

lemma fresh_moved: "fresh rid b \<Longrightarrow> moved rid b c \<Longrightarrow> fresh rid c"
  by (auto simp: fresh_def moved_def)

lemma evolved_frame: "evolved rid d d' \<Longrightarrow> frame d d'"
  by (simp add: evolved_def)

lemma kept_frame: "kept d d' \<Longrightarrow> frame d d'"
  by (simp add: kept_def kept_rows_def)

lemma keptD: "kept d d' \<Longrightarrow> run_by_id i d = Some r \<Longrightarrow> \<exists>p. run_by_id i d' = Some (r\<lparr>r_progress := p\<rparr>)"
  by (simp add: kept_def kept_rows_def)

lemma evolved_old: "evolved rid d d' \<Longrightarrow> run_by_id i d = Some r \<Longrightarrow>
   \<exists>r'. run_by_id i d' = Some r' \<and> moved rid r r'"
  by (simp add: evolved_def)

lemma evolved_new: "evolved rid d d' \<Longrightarrow> run_by_id i d = None \<Longrightarrow> run_by_id i d' = Some r' \<Longrightarrow> fresh rid r'"
  by (simp add: evolved_def)

lemma evolvedI:
  assumes "frame d d'" and "history (Some rid) d d'"
    and "\<And>i r. run_by_id i d = Some r \<Longrightarrow> \<exists>r'. run_by_id i d' = Some r' \<and> moved rid r r'"
    and "\<And>i r'. run_by_id i d = None \<Longrightarrow> run_by_id i d' = Some r' \<Longrightarrow> fresh rid r'"
  shows "evolved rid d d'"
  unfolding evolved_def using assms by blast

lemma evolved_kept: "kept d d' \<Longrightarrow> evolved rid d d'"
proof (rule evolvedI)
  assume k: "kept d d'"
  then show "frame d d'" by (rule kept_frame)
  show "history (Some rid) d d'" using k by (simp add: kept_def history_mono)
  fix i
  show "\<exists>r'. run_by_id i d' = Some r' \<and> moved rid r r'" if "run_by_id i d = Some r" for r
    using keptD [OF k that] by (auto simp: moved_def)
  show "fresh rid r'" if "run_by_id i d = None" "run_by_id i d' = Some r'" for r'
    using k that unfolding kept_def kept_rows_def rows_kept_def fresh_def by blast
qed

lemma evolved_trans:
  assumes ab: "evolved rid a b" and bc: "evolved rid b c"
  shows "evolved rid a c"
proof (rule evolvedI)
  show "frame a c" using frame_trans [OF evolved_frame [OF ab] evolved_frame [OF bc]] .
  show "history (Some rid) a c" using ab bc unfolding evolved_def by (meson history_trans)
  fix i
  show "\<exists>r'. run_by_id i c = Some r' \<and> moved rid r r'" if a: "run_by_id i a = Some r" for r
  proof -
    from evolved_old [OF ab a] obtain q where q: "run_by_id i b = Some q" "moved rid r q" by blast
    from evolved_old [OF bc q(1)] q(2) show ?thesis by (blast intro: moved_trans)
  qed
  show "fresh rid r'" if a: "run_by_id i a = None" and c: "run_by_id i c = Some r'" for r'
  proof (cases "run_by_id i b")
    case None
    then show ?thesis by (rule evolved_new [OF bc _ c])
  next
    case (Some q)
    from evolved_old [OF bc Some] c have "moved rid q r'" by simp
    with evolved_new [OF ab a Some] show ?thesis by (rule fresh_moved)
  qed
qed

lemma evolved_update:
  assumes "\<And>r. r_id (f r) = r_id r \<and> r_attempts (f r) = r_attempts r"
    and "\<And>r. P r \<Longrightarrow> r_status (f r) = r_status r \<or> r_id r = rid \<and> r_status (f r) \<in> {Succeeded, Failed}"
    and "history (Some rid) d (d\<lparr>runs := update_where P f (runs d)\<rparr>)"
  shows "evolved rid d (d\<lparr>runs := update_where P f (runs d)\<rparr>)"
proof (rule evolvedI)
  have id: "\<And>r. r_id (f r) = r_id r" using assms(1) by blast
  fix i
  show "\<exists>r'. run_by_id i (d\<lparr>runs := update_where P f (runs d)\<rparr>) = Some r' \<and> moved rid r r'"
    if "run_by_id i d = Some r" for r
    using that assms(1,2) [of r] by (auto simp: run_by_id_update [OF id] moved_def)
  show "fresh rid r'" if "run_by_id i d = None"
    "run_by_id i (d\<lparr>runs := update_where P f (runs d)\<rparr>) = Some r'" for r'
    using that by (simp add: run_by_id_update [OF id])
qed (use assms(3) in \<open>simp_all add: frame_def\<close>)

lemma evolved_finish:
  "st \<in> {Succeeded, Failed} \<Longrightarrow> evolved rid d (finish_run now rid st code err d)"
  using history_stmt [of "Some rid" "Finish now rid (st = Succeeded) code err" d]
  unfolding finish_run_def by (intro evolved_update) (auto simp: finish_run_def)

lemma evolved_columns:
  "evolved rid d (set_run_output_blobs rid v d)" "evolved rid d (set_run_result rid v d)"
  "evolved rid d (set_run_receipt rid v d)"
  using history_stmt [of "Some rid" "SetOutputBlobs rid v" d] history_stmt [of "Some rid" "SetResult rid v" d]
    history_stmt [of "Some rid" "SetReceipt rid v" d]
  unfolding set_run_output_blobs_def set_run_result_def set_run_receipt_def
  by (intro evolved_update; simp add: set_run_output_blobs_def set_run_result_def set_run_receipt_def)+

lemma evolved_refl [simp]: "evolved rid d d"
  by (rule evolved_kept) simp

lemma column_lookup:
  assumes "run_by_id rid d = Some r"
  shows "run_by_id rid (set_run_output_blobs rid v d) = Some (r\<lparr>r_output_blobs := Some v\<rparr>)"
    and "run_by_id rid (set_run_result rid v d) = Some (r\<lparr>r_result := Some v\<rparr>)"
    and "run_by_id rid (set_run_receipt rid v d) = Some (r\<lparr>r_receipt := Some v\<rparr>)"
proof -
  have "r_id r = rid" using assms by (auto dest: run_by_idD)
  with assms show "run_by_id rid (set_run_output_blobs rid v d) = Some (r\<lparr>r_output_blobs := Some v\<rparr>)"
    "run_by_id rid (set_run_result rid v d) = Some (r\<lparr>r_result := Some v\<rparr>)"
    "run_by_id rid (set_run_receipt rid v d) = Some (r\<lparr>r_receipt := Some v\<rparr>)"
    by (simp_all add: set_run_output_blobs_def set_run_result_def set_run_receipt_def run_by_id_update)
qed

lemma kept_targets: "kept_rows d (snd (enqueue_targets now input ts d))"
proof (induction ts arbitrary: d)
  case (Cons t ts)
  let ?d = "d\<lparr>runs := runs d @ [new_run (run_seq d) (tg_target t) input (tg_agent_id t) now],
              run_seq := run_seq d + 1\<rparr>"
  have same: "run_by_id i ?d = Some r" if "run_by_id i d = Some r" for i r
    using that by (simp add: run_by_id_def find_append)
  have "\<exists>p. run_by_id i ?d = Some (r\<lparr>r_progress := p\<rparr>)" if "run_by_id i d = Some r" for i r
    by (rule exI [of _ "r_progress r"]) (simp add: same [OF that])
  moreover have "rows_kept d ?d" by (auto simp: rows_kept_def run_by_id_def find_append new_run_def split: option.splits if_splits)
  ultimately have "kept_rows d ?d" by (simp add: kept_rows_def frame_def)
  from kept_rows_trans [OF this Cons.IH [of ?d]] show ?case by (simp add: split_beta Let_def)
qed simp

lemma kept_fire: "kept d (snd (fire_triggers contains now rid v d))"
  unfolding kept_def
proof
  show "kept_rows d (snd (fire_triggers contains now rid v d))"
    by (simp add: fire_triggers_def kept_targets)
  show "history None d (snd (fire_triggers contains now rid v d))"
    using history_stmt [of None "FireTriggers contains now rid v" d] by simp
qed

text \<open>The two ways a run ends.\<close>

definition infra_failed :: "run \<Rightarrow> run \<Rightarrow> bool" where
  "infra_failed r r' = (\<exists>now msg p. r' = (ended now Failed None (Some msg) r)\<lparr>r_progress := p\<rparr>)"

text \<open>
  The row of a run that executed to an exit code \<open>c\<close>: the stored artifacts, result and receipt, each
  as it was where nothing new was stored.
\<close>

definition finished_row ::
    "run \<Rightarrow> time \<Rightarrow> int \<Rightarrow> json option \<Rightarrow> json option \<Rightarrow> json option \<Rightarrow> string option \<Rightarrow> run" where
  "finished_row r now c res outs rcpt p =
     (ended now (if c = 0 then Succeeded else Failed) (Some (as_i32 c)) None r)
       \<lparr>r_output_blobs := (case outs of Some ob \<Rightarrow> Some ob | None \<Rightarrow> r_output_blobs r),
        r_result := (case res of Some v \<Rightarrow> Some v | None \<Rightarrow> r_result r),
        r_receipt := (case rcpt of Some v \<Rightarrow> Some v | None \<Rightarrow> r_receipt r), r_progress := p\<rparr>"

lemma finished_row_progress [simp]:
  "(finished_row r now c res outs rcpt p)\<lparr>r_progress := q\<rparr> = finished_row r now c res outs rcpt q"
  "finished_row (r\<lparr>r_progress := q\<rparr>) now c res outs rcpt p = finished_row r now c res outs rcpt p"
  by (simp_all add: finished_row_def split: option.split)

definition receipt_matches :: "run_args \<Rightarrow> int \<Rightarrow> json option \<Rightarrow> json option \<Rightarrow> receipt_inputs \<Rightarrow> bool" where
  "receipt_matches a c res outs b =
     (rb_run_id b = ra_run_id a \<and> rb_source b = ra_source a \<and> rb_input b = ra_input a \<and>
      rb_result b = res \<and> rb_exit b = c \<and> rb_network b = ra_network a \<and>
      rb_input_blobs b = ra_input_blobs a \<and> rb_output_blobs b = outs)"

text \<open>
  A write of the artifacts, the result or the receipt failed, at a moment at which the run had ended as
  it is now.
\<close>

definition same_end :: "run \<Rightarrow> run \<Rightarrow> bool" where
  "same_end q r \<longleftrightarrow>
     r_status q = r_status r \<and> r_exit_code q = r_exit_code r \<and> r_finished_at q = r_finished_at r"

definition provenance_fault :: "exec_env \<Rightarrow> run \<Rightarrow> bool" where
  "provenance_fault env r =
     (\<exists>w d q. w \<in> {WOutputs, WResult, WReceipt} \<and> ee_write_error env w d \<noteq> None \<and>
        run_by_id (r_id r) d = Some q \<and> same_end q r)"

lemma provenance_fault_progress [simp]: "provenance_fault env (r\<lparr>r_progress := p\<rparr>) = provenance_fault env r"
  by (simp add: provenance_fault_def same_end_def)

definition executed :: "exec_env \<Rightarrow> run_args \<Rightarrow> run \<Rightarrow> run \<Rightarrow> bool" where
  "executed env a r r' =
     (\<exists>now c res outs rcpt p.
        r' = finished_row r now c res outs rcpt p \<and>
        (case rcpt of
           None \<Rightarrow> provenance_fault env r'
         | Some v \<Rightarrow> \<exists>b. v = build_receipt (ee_crypto env) (ee_signer env) b \<and> receipt_matches a c res outs b))"

lemma executed_progress:
  assumes "executed env a r r'"
  shows "executed env a r (r'\<lparr>r_progress := p\<rparr>)"
proof -
  from assms obtain now c res outs rcpt q where
    row: "r' = finished_row r now c res outs rcpt q"
    and m: "case rcpt of None \<Rightarrow> provenance_fault env r'
      | Some v \<Rightarrow> \<exists>b. v = build_receipt (ee_crypto env) (ee_signer env) b \<and> receipt_matches a c res outs b"
    unfolding executed_def by blast
  from m have "case rcpt of None \<Rightarrow> provenance_fault env (r'\<lparr>r_progress := p\<rparr>)
      | Some v \<Rightarrow> \<exists>b. v = build_receipt (ee_crypto env) (ee_signer env) b \<and> receipt_matches a c res outs b"
    unfolding provenance_fault_progress .
  moreover have "r'\<lparr>r_progress := p\<rparr> = finished_row r now c res outs rcpt p" unfolding row by simp
  ultimately show ?thesis unfolding executed_def by blast
qed

lemma executed_from_progress: "executed env a (r\<lparr>r_progress := p\<rparr>) r' \<Longrightarrow> executed env a r r'"
  unfolding executed_def finished_row_progress(2) .

lemma infra_progress:
  assumes "infra_failed r r'"
  shows "infra_failed r (r'\<lparr>r_progress := p\<rparr>)"
proof -
  from assms obtain now msg q where
    "r' = (ended now Failed None (Some msg) r)\<lparr>r_progress := q\<rparr>"
    unfolding infra_failed_def by blast
  then have "r'\<lparr>r_progress := p\<rparr> = (ended now Failed None (Some msg) r)\<lparr>r_progress := p\<rparr>" by simp
  then show ?thesis unfolding infra_failed_def by blast
qed

lemma infra_from_progress:
  assumes "infra_failed (r\<lparr>r_progress := p\<rparr>) r'"
  shows "infra_failed r r'"
proof -
  from assms obtain now msg q where
    "r' = (ended now Failed None (Some msg) (r\<lparr>r_progress := p\<rparr>))\<lparr>r_progress := q\<rparr>"
    unfolding infra_failed_def by blast
  then have "r' = (ended now Failed None (Some msg) r)\<lparr>r_progress := q\<rparr>" by simp
  then show ?thesis unfolding infra_failed_def by blast
qed

text \<open>A column of the run that holds the value given, or what it held.\<close>

lemma stored_lookup:
  assumes "run_by_id rid d = Some r"
  shows "run_by_id rid (case v of Some x \<Rightarrow> set_run_output_blobs rid x d | None \<Rightarrow> d) =
      Some (r\<lparr>r_output_blobs := (case v of Some x \<Rightarrow> Some x | None \<Rightarrow> r_output_blobs r)\<rparr>)"
    and "run_by_id rid (case v of Some x \<Rightarrow> set_run_result rid x d | None \<Rightarrow> d) =
      Some (r\<lparr>r_result := (case v of Some x \<Rightarrow> Some x | None \<Rightarrow> r_result r)\<rparr>)"
    and "run_by_id rid (case v of Some x \<Rightarrow> set_run_receipt rid x d | None \<Rightarrow> d) =
      Some (r\<lparr>r_receipt := (case v of Some x \<Rightarrow> Some x | None \<Rightarrow> r_receipt r)\<rparr>)"
  using column_lookup [OF assms] assms by (cases v; simp)+

lemma stored_evolved:
  "evolved rid d (case v of Some x \<Rightarrow> set_run_output_blobs rid x d | None \<Rightarrow> d)"
  "evolved rid d (case v of Some x \<Rightarrow> set_run_result rid x d | None \<Rightarrow> d)"
  "evolved rid d (case v of Some x \<Rightarrow> set_run_receipt rid x d | None \<Rightarrow> d)"
  by (cases v; simp add: evolved_columns)+

text \<open>The end of a job writes no log line.\<close>

lemma capture_dir_logs: "logs (sum_db (capture_dir env p es stack m d)) = logs d"
  by (induction env p es stack m d rule: capture_dir.induct)
    (auto simp: put_blob_def split: option.split prod.split)

lemma capture_logs: "logs (sum_db (capture_output env dir d)) = logs d"
proof -
  have "logs (sum_db (capture_walk env stack m d)) = logs d" for stack m
  proof (induction env stack m d rule: capture_walk.induct)
    case (3 env p es stack m d)
    with capture_dir_logs [of env p es stack m d] show ?case
      by (cases "capture_dir env p es stack m d") auto
  qed simp_all
  from this [of "[([], ee_output env d dir)]" "[]"] show ?thesis
    by (cases "capture_walk env [([], ee_output env d dir)] [] d") (auto simp: capture_output_def)
qed

lemma targets_logs: "logs (snd (enqueue_targets now input ts d)) = logs d"
  by (induction ts arbitrary: d) (simp_all add: split_beta Let_def)

lemma finish_or_err_logs: "logs (sum_db (finish_or_err env rid st code err d)) = logs d"
  by (simp add: finish_or_err_def finish_run_def split: option.split)

text \<open>
  The tail of a job in its stages: the end of the run, the capture, the three columns and the
  triggers; \<open>ok\<close> is \<open>provenance_ok\<close> and a receipt is stored only with it.
\<close>

lemma finish_job_stages:
  assumes fin: "finish_job env a img out_dir res c d = Inr ((), d')"
  shows "\<exists>d2 d3 d4 d5 outs' res' rcpt'.
    kept (finish_run (ee_clock env d) (ra_run_id a) (if c = 0 then Succeeded else Failed) (Some (as_i32 c)) None d) d2 \<and>
    logs d2 = logs d \<and>
    d3 = (case outs' of Some x \<Rightarrow> set_run_output_blobs (ra_run_id a) x d2 | None \<Rightarrow> d2) \<and>
    d4 = (case res' of Some x \<Rightarrow> set_run_result (ra_run_id a) x d3 | None \<Rightarrow> d3) \<and>
    d5 = (case rcpt' of Some x \<Rightarrow> set_run_receipt (ra_run_id a) x d4 | None \<Rightarrow> d4) \<and>
    kept d5 d' \<and> logs d' = logs d5 \<and>
    (case rcpt' of
       None \<Rightarrow> \<exists>w d1. w \<in> {WOutputs, WResult, WReceipt} \<and> d1 \<in> {d2, d3, d4} \<and> ee_write_error env w d1 \<noteq> None
     | Some v \<Rightarrow> \<exists>b. v = build_receipt (ee_crypto env) (ee_signer env) b \<and> receipt_matches a c res' outs' b)"
proof -
  let ?rid = "ra_run_id a"
  let ?d1 = "finish_run (ee_clock env d) ?rid (if c = 0 then Succeeded else Failed) (Some (as_i32 c)) None d"
  from fin have end_ok: "finish_or_err env ?rid (if c = 0 then Succeeded else Failed) (Some (as_i32 c)) None d = Inr ((), ?d1)"
    by (cases rule: finish_or_err_cases [of env ?rid "if c = 0 then Succeeded else Failed" "Some (as_i32 c)" None d])
      (simp_all add: finish_job_def)
  obtain outs d2 where o: "(case out_dir of
      Some dir \<Rightarrow> (case capture_output env dir ?d1 of Inr x \<Rightarrow> x | Inl (e, d') \<Rightarrow> (None, d'))
    | None \<Rightarrow> (None, ?d1)) = (outs, d2)" by fastforce
  have "kept ?d1 d2 \<and> logs d2 = logs ?d1"
  proof (cases out_dir)
    case (Some dir)
    with o kept_capture [of ?d1 env dir] capture_logs [of env dir ?d1] show ?thesis
      by (cases "capture_output env dir ?d1") (auto split: prod.splits)
  qed (use o in simp)
  then have k2: "kept ?d1 d2" and l2: "logs d2 = logs d" by (simp_all add: finish_run_def)
  obtain ok1 d3 where s3: "store_column env WOutputs (set_run_output_blobs ?rid) outs d2 = (ok1, d3)" by fastforce
  obtain ok2 d4 where s4: "store_column env WResult (set_run_result ?rid) res d3 = (ok2, d4)" by fastforce
  define b where "b = \<lparr>rb_run_id = ?rid, rb_image = img, rb_digest = ee_digest env d4 img,
      rb_source = ra_source a, rb_input = ra_input a, rb_result = res, rb_exit = c,
      rb_network = ra_network a, rb_gen = secrets_generation d4,
      rb_input_blobs = ra_input_blobs a, rb_output_blobs = outs\<rparr>"
  let ?rc = "build_receipt (ee_crypto env) (ee_signer env) b"
  obtain ok3 d5' where s5: "store_column env WReceipt (set_run_receipt ?rid) (Some ?rc) d4 = (ok3, d5')" by fastforce
  define d5 where "d5 = (if ok1 \<and> ok2 then d5' else d4)"
  from fin have d': "d' = (case res of
      Some r \<Rightarrow> (case ee_write_error env WTriggers d5 of
          Some e \<Rightarrow> d5 | None \<Rightarrow> snd (fire_triggers (ee_contains env) (ee_clock env d5) ?rid r d5))
    | None \<Rightarrow> d5)"
    by (simp only: finish_job_def Let_def end_ok o s3 s4 b_def [symmetric] s5 d5_def snd_conv prod.case
        sum.case sum.inject prod.inject simp_thms)
  have k6: "kept d5 d'" unfolding d' by (auto simp: kept_fire split: option.split)
  have l6: "logs d' = logs d5" unfolding d' by (auto simp: fire_triggers_def targets_logs split: option.split)
  from store_column_cases [OF s3] obtain outs' where
    o3: "d3 = (case outs' of Some x \<Rightarrow> set_run_output_blobs ?rid x d2 | None \<Rightarrow> d2)"
      "ok1 \<Longrightarrow> outs' = outs" "\<not> ok1 \<Longrightarrow> ee_write_error env WOutputs d2 \<noteq> None" by metis
  from store_column_cases [OF s4] obtain res' where
    o4: "d4 = (case res' of Some x \<Rightarrow> set_run_result ?rid x d3 | None \<Rightarrow> d3)"
      "ok2 \<Longrightarrow> res' = res" "\<not> ok2 \<Longrightarrow> ee_write_error env WResult d3 \<noteq> None" by metis
  from store_column_cases [OF s5] obtain rc where
    o5: "d5' = (case rc of Some x \<Rightarrow> set_run_receipt ?rid x d4 | None \<Rightarrow> d4)"
      "ok3 \<Longrightarrow> rc = Some ?rc" "\<not> ok3 \<Longrightarrow> rc = None \<and> ee_write_error env WReceipt d4 \<noteq> None" by metis
  define rcpt' where "rcpt' = (if ok1 \<and> ok2 then rc else None)"
  have d5_eq: "d5 = (case rcpt' of Some x \<Rightarrow> set_run_receipt ?rid x d4 | None \<Rightarrow> d4)"
    using o5(1) by (simp add: d5_def rcpt'_def)
  have "case rcpt' of
       None \<Rightarrow> \<exists>w d1. w \<in> {WOutputs, WResult, WReceipt} \<and> d1 \<in> {d2, d3, d4} \<and> ee_write_error env w d1 \<noteq> None
     | Some v \<Rightarrow> \<exists>b. v = build_receipt (ee_crypto env) (ee_signer env) b \<and> receipt_matches a c res' outs' b"
  proof (cases rcpt')
    case None
    then show ?thesis using o3(3) o4(3) o5(2,3)
      by (cases "ok1 \<and> ok2") (auto simp: rcpt'_def)
  next
    case (Some v)
    then have ok: "ok1" "ok2" and rc: "rc = Some v" by (simp_all add: rcpt'_def split: if_splits)
    from rc o5(2,3) have "v = ?rc" by (cases ok3) simp_all
    moreover have "receipt_matches a c res' outs' b"
      using o3(2) [OF ok(1)] o4(2) [OF ok(2)] by (simp add: receipt_matches_def b_def)
    ultimately show ?thesis using Some by auto
  qed
  with k2 l2 o3(1) o4(1) d5_eq k6 l6 show ?thesis by blast
qed

lemma finish_job_shape:
  assumes r: "run_by_id (ra_run_id a) d = Some r" and fin: "finish_job env a img out_dir res c d = Inr ((), d')"
  shows "\<exists>r'. run_by_id (ra_run_id a) d' = Some r' \<and> executed env a r r' \<and>
           (r_status r \<noteq> Canceled \<longrightarrow> r_exit_code r' = Some (as_i32 c))"
proof -
  let ?rid = "ra_run_id a"
  let ?r1 = "ended (ee_clock env d) (if c = 0 then Succeeded else Failed) (Some (as_i32 c)) None r"
  from finish_job_stages [OF fin] obtain d2 d3 d4 d5 outs res' rcpt where
    k2: "kept (finish_run (ee_clock env d) ?rid (if c = 0 then Succeeded else Failed) (Some (as_i32 c)) None d) d2"
    and d3: "d3 = (case outs of Some x \<Rightarrow> set_run_output_blobs ?rid x d2 | None \<Rightarrow> d2)"
    and d4: "d4 = (case res' of Some x \<Rightarrow> set_run_result ?rid x d3 | None \<Rightarrow> d3)"
    and d5: "d5 = (case rcpt of Some x \<Rightarrow> set_run_receipt ?rid x d4 | None \<Rightarrow> d4)"
    and k6: "kept d5 d'"
    and attested: "case rcpt of
        None \<Rightarrow> \<exists>w d1. w \<in> {WOutputs, WResult, WReceipt} \<and> d1 \<in> {d2, d3, d4} \<and> ee_write_error env w d1 \<noteq> None
      | Some v \<Rightarrow> \<exists>b. v = build_receipt (ee_crypto env) (ee_signer env) b \<and> receipt_matches a c res' outs b"
    by blast
  obtain p where s2: "run_by_id ?rid d2 = Some (?r1\<lparr>r_progress := p\<rparr>)"
    using keptD [OF k2 finish_lookup [OF r]] by blast
  note s3 = stored_lookup(1) [OF s2, of outs, folded d3]
  note s4 = stored_lookup(2) [OF s3, of res', folded d4]
  note s5 = stored_lookup(3) [OF s4, of rcpt, folded d5]
  from keptD [OF k6 s5] have "\<exists>q. run_by_id ?rid d' = Some (finished_row r (ee_clock env d) c res' outs rcpt q)"
    by (cases outs; cases res'; cases rcpt) (auto simp: finished_row_def)
  then obtain q where "run_by_id ?rid d' = Some (finished_row r (ee_clock env d) c res' outs rcpt q)" ..
  moreover have "executed env a r (finished_row r (ee_clock env d) c res' outs rcpt q)"
    unfolding executed_def
  proof (intro exI conjI, rule refl, cases rcpt)
    case None
    with attested obtain w d1 where w: "w \<in> {WOutputs, WResult, WReceipt}" "d1 \<in> {d2, d3, d4}"
      "ee_write_error env w d1 \<noteq> None" by auto
    let ?f = "finished_row r (ee_clock env d) c res' outs rcpt q"
    have "\<exists>q. run_by_id ?rid d1 = Some q \<and> same_end q ?f"
      using w(2) s2 s3 s4 by (auto simp: finished_row_def same_end_def)
    moreover have "r_id ?f = ?rid" using run_by_idD [OF r] by (simp add: finished_row_def)
    ultimately have "provenance_fault env ?f" using w unfolding provenance_fault_def by metis
    with None show "case rcpt of None \<Rightarrow> provenance_fault env ?f
      | Some v \<Rightarrow> \<exists>b. v = build_receipt (ee_crypto env) (ee_signer env) b \<and> receipt_matches a c res' outs b" by simp
  qed (use attested in simp)
  moreover have "r_status r \<noteq> Canceled \<longrightarrow>
      r_exit_code (finished_row r (ee_clock env d) c res' outs rcpt q) = Some (as_i32 c)"
    by (simp add: finished_row_def ended_def)
  ultimately show ?thesis by blast
qed

text \<open>A step that may end in an error has changed nothing of the queue then.\<close>

definition step_evolves :: "int \<Rightarrow> db \<Rightarrow> 'a exec_result \<Rightarrow> bool" where
  "step_evolves rid d x = (case x of Inl (msg, d') \<Rightarrow> kept d d' | Inr (u, d') \<Rightarrow> evolved rid d d')"

lemma step_evolves_simps [simp]:
  "step_evolves rid d (Inl (msg, d')) = kept d d'" "step_evolves rid d (Inr (u, d')) = evolved rid d d'"
  by (simp_all add: step_evolves_def)

lemma finish_job_error:
  "finish_job env a img out_dir res c d = Inl (e, d') \<Longrightarrow> d' = d"
  by (cases rule: finish_or_err_cases [of env "ra_run_id a" "if c = 0 then Succeeded else Failed" "Some (as_i32 c)" None d])
    (auto simp: finish_job_def Let_def split: prod.splits)

lemma finish_job_evolves: "step_evolves (ra_run_id a) d (finish_job env a img out_dir res c d)"
proof (cases "finish_job env a img out_dir res c d")
  case (Inl y)
  then show ?thesis by (cases y) (auto dest: finish_job_error)
next
  case (Inr y)
  then obtain d' where y: "y = ((), d')" by (cases y) simp
  let ?rid = "ra_run_id a"
  from Inr y have "finish_job env a img out_dir res c d = Inr ((), d')" by simp
  from finish_job_stages [OF this] obtain d2 d3 d4 d5 outs res' rcpt where
    k2: "kept (finish_run (ee_clock env d) ?rid (if c = 0 then Succeeded else Failed) (Some (as_i32 c)) None d) d2"
    and d3: "d3 = (case outs of Some x \<Rightarrow> set_run_output_blobs ?rid x d2 | None \<Rightarrow> d2)"
    and d4: "d4 = (case res' of Some x \<Rightarrow> set_run_result ?rid x d3 | None \<Rightarrow> d3)"
    and d5: "d5 = (case rcpt of Some x \<Rightarrow> set_run_receipt ?rid x d4 | None \<Rightarrow> d4)"
    and k6: "kept d5 d'"
    by blast
  have "evolved ?rid d (finish_run (ee_clock env d) ?rid (if c = 0 then Succeeded else Failed) (Some (as_i32 c)) None d)"
    by (rule evolved_finish) simp
  note e2 = evolved_trans [OF this evolved_kept [OF k2]]
  note e3 = evolved_trans [OF e2 stored_evolved(1) [of ?rid d2 outs, folded d3]]
  note e4 = evolved_trans [OF e3 stored_evolved(2) [of ?rid d3 res', folded d4]]
  note e5 = evolved_trans [OF e4 stored_evolved(3) [of ?rid d4 rcpt, folded d5]]
  from evolved_trans [OF e5 evolved_kept [OF k6]] show ?thesis by (simp add: Inr y)
qed

text \<open>How an inner step ends: with an error and the run as it was, or with the run ended.\<close>

definition step_ends :: "exec_env \<Rightarrow> run_args \<Rightarrow> db \<Rightarrow> run \<Rightarrow> unit exec_result \<Rightarrow> bool" where
  "step_ends env a d r x =
     (case x of
        Inl (msg, d') \<Rightarrow> kept d d'
      | Inr (_, d') \<Rightarrow> evolved (ra_run_id a) d d' \<and>
          (\<exists>r'. run_by_id (ra_run_id a) d' = Some r' \<and> (infra_failed r r' \<or> executed env a r r')))"

lemma step_ends_kept:
  assumes k: "kept d0 d" and r: "run_by_id (ra_run_id a) d = Some r"
    and r0: "run_by_id (ra_run_id a) d0 = Some r0" and e: "step_ends env a d r x"
  shows "step_ends env a d0 r0 x"
proof -
  from keptD [OF k r0] r obtain p where "r = r0\<lparr>r_progress := p\<rparr>" by auto
  have fr: "evolved (ra_run_id a) d0 d" by (rule evolved_kept [OF k])
  show ?thesis
  proof (cases x)
    case (Inl y)
    obtain msg d' where "y = (msg, d')" by fastforce
    with e Inl kept_trans [OF k, of d'] show ?thesis by (simp add: step_ends_def)
  next
    case (Inr y)
    obtain d' where y: "y = ((), d')" by (cases y) auto
    from e Inr y have f: "evolved (ra_run_id a) d d'" by (simp add: step_ends_def)
    from e Inr y obtain r' where r': "run_by_id (ra_run_id a) d' = Some r'"
      "infra_failed r r' \<or> executed env a r r'" by (auto simp: step_ends_def)
    from r'(2) \<open>r = _\<close> have "infra_failed r0 r' \<or> executed env a r0 r'"
      by (auto dest: executed_from_progress infra_from_progress)
    with evolved_trans [OF fr f] r'(1) Inr y show ?thesis by (simp add: step_ends_def)
  qed
qed

lemma finish_failed_ends:
  assumes k: "kept d d'" and r: "run_by_id (ra_run_id a) d = Some r"
  shows "step_ends env a d r (finish_or_err env (ra_run_id a) Failed None (Some msg) d')"
proof (cases rule: finish_or_err_cases [of env "ra_run_id a" Failed None "Some msg" d'])
  case (1 e)
  with k show ?thesis by (simp add: step_ends_def)
next
  case 2
  let ?now = "ee_clock env d'"
  from keptD [OF k r] obtain p where p: "run_by_id (ra_run_id a) d' = Some (r\<lparr>r_progress := p\<rparr>)" by blast
  have "infra_failed r (ended ?now Failed None (Some msg) (r\<lparr>r_progress := p\<rparr>))"
    by (auto simp: infra_failed_def)
  moreover have "evolved (ra_run_id a) d (finish_run ?now (ra_run_id a) Failed None (Some msg) d')"
    by (rule evolved_trans [OF evolved_kept [OF k] evolved_finish]) simp
  ultimately show ?thesis using finish_lookup [OF p] unfolding step_ends_def 2(1) by auto
qed

lemma after_logs_ends:
  assumes r: "run_by_id (ra_run_id a) d = Some r"
  shows "step_ends env a d r (after_logs env a img out_dir exec_id raw d)"
proof (cases "ee_inspect_exec env d exec_id")
  case (Inr code)
  let ?x = "finish_job env a img out_dir (parse_result env raw) (case code of Some c \<Rightarrow> c | None \<Rightarrow> 0) d"
  have ev: "step_evolves (ra_run_id a) d ?x" by (rule finish_job_evolves)
  have eq: "after_logs env a img out_dir exec_id raw d = ?x" by (simp add: after_logs_def Inr)
  show ?thesis
  proof (cases ?x)
    case (Inl y)
    with ev show ?thesis by (cases y) (simp add: eq step_ends_def)
  next
    case (Inr y)
    then obtain d' where x: "?x = Inr ((), d')" by (cases y) simp
    from finish_job_shape [OF r x] ev show ?thesis unfolding eq x by (auto simp: step_ends_def)
  qed
next
  case (Inl e)
  show ?thesis
  proof (cases e)
    case (ServerError code msg)
    show ?thesis
    proof (cases "code = 404")
      case True
      show ?thesis
      proof (cases "append_stderr env (ra_run_id a) ''dokan: container vanished before exit code; marking failed'' d")
        case (Inr d')
        with finish_failed_ends [OF kept_stderr [OF Inr] r] Inl ServerError True show ?thesis
          by (simp add: after_logs_def)
      qed (use Inl ServerError True in \<open>simp add: after_logs_def step_ends_def\<close>)
    qed (use Inl ServerError in \<open>simp add: after_logs_def step_ends_def\<close>)
  qed (use Inl in \<open>simp add: after_logs_def step_ends_def\<close>)
qed

lemma timed_out_ends:
  assumes r: "run_by_id (ra_run_id a) d = Some r"
  shows "step_ends env a d r (timed_out env a limit d)"
proof (cases "append_stderr env (ra_run_id a) (''dokan: timeout after '' @ int_str limit @ '' s, container killed'') d")
  case (Inr d')
  from finish_failed_ends [OF kept_stderr [OF Inr] r] Inr show ?thesis by (simp add: timed_out_def)
qed (simp add: timed_out_def step_ends_def)

lemma step_ends_error: "kept d d' \<Longrightarrow> step_ends env a d r (Inl (msg, d'))"
  by (simp add: step_ends_def)

lemma exec_job_ends:
  assumes r: "run_by_id (ra_run_id a) d = Some r"
  shows "step_ends env a d r (exec_job env a cid img interp out_dir limit d)"
proof -
  define svals where "svals = redaction_values (visible_secrets env (ra_run_id a) (ra_agent_id a) d)"
  let ?ce = "ee_create_exec env d cid (bootstrap interp)
    (job_env env (ra_run_id a) (ra_source a) (ra_input a) (visible_secrets env (ra_run_id a) (ra_agent_id a) d))"
  note defs = exec_job_def Let_def svals_def [symmetric]
  show ?thesis
  proof (cases ?ce)
    case (Inl e)
    then show ?thesis by (simp add: defs step_ends_error)
  next
    case ce: (Inr exec_id)
    show ?thesis
    proof (cases "ee_start_exec env d exec_id")
      case (Inl e)
      then show ?thesis by (simp add: defs ce step_ends_error)
    next
      case se: (Inr its)
      show ?thesis
      proof (cases its)
        case None
        then show ?thesis by (simp add: defs ce se step_ends_error)
      next
        case its: (Some items)
        show ?thesis
        proof (cases "ee_deadline env d exec_id limit")
          case None
          let ?x = "pump_logs (ra_run_id a) svals items d"
          have k: "kept d (sum_db ?x)" by (rule kept_pump)
          show ?thesis
          proof (cases ?x)
            case (Inl y)
            with k show ?thesis by (cases y) (simp add: defs ce se its None step_ends_error)
          next
            case (Inr y)
            obtain ls raw d1 where y: "y = ((ls, raw), d1)" by (metis prod.exhaust)
            from k Inr y have k1: "kept d d1" by simp
            from keptD [OF k1 r] obtain p where p: "run_by_id (ra_run_id a) d1 = Some (r\<lparr>r_progress := p\<rparr>)" by blast
            from step_ends_kept [OF k1 p r after_logs_ends [OF p]] show ?thesis
              by (simp add: defs ce se its None Inr y)
          qed
        next
          case (Some n)
          let ?x = "pump_stream (ra_run_id a) svals (take n items) (pump_start (ra_run_id a) d, d)"
          have k: "kept d (sum_db ?x)"
            using kept_stream [of "(pump_start (ra_run_id a) d, d)"] by simp
          show ?thesis
          proof (cases ?x)
            case (Inl y)
            with k show ?thesis by (cases y) (simp add: defs ce se its Some step_ends_error)
          next
            case (Inr y)
            obtain st d1 where y: "y = (st, d1)" by (metis prod.exhaust)
            from k Inr y have k1: "kept d d1" by simp
            from keptD [OF k1 r] obtain p where p: "run_by_id (ra_run_id a) d1 = Some (r\<lparr>r_progress := p\<rparr>)" by blast
            from step_ends_kept [OF k1 p r timed_out_ends [OF p]] show ?thesis
              by (simp add: defs ce se its Some Inr y)
          qed
        qed
      qed
    qed
  qed
qed

lemma run_inner_ends:
  assumes r: "run_by_id (ra_run_id a) d = Some r"
  shows "step_ends env a d r (run_inner env a limit d)"
proof (cases "runtime_spec (ra_runtime a)")
  case None
  then show ?thesis by (simp add: run_inner_def step_ends_error)
next
  case rt: (Some ii)
  obtain img interp where ii: "ii = (img, interp)" by fastforce
  let ?m = "materialize_input env (ra_run_id a) (ra_input_blobs a) d"
  have km: "kept d (sum_db ?m)" by (rule kept_materialize)
  show ?thesis
  proof (cases ?m)
    case (Inl y)
    with km show ?thesis by (cases y) (simp add: run_inner_def rt ii step_ends_error)
  next
    case (Inr y)
    obtain inp d1 where y: "y = (inp, d1)" by (metis prod.exhaust)
    from km Inr y have k1: "kept d d1" by simp
    from keptD [OF k1 r] obtain p where p: "run_by_id (ra_run_id a) d1 = Some (r\<lparr>r_progress := p\<rparr>)" by blast
    have job: "step_ends env a d r (exec_job env a cid img interp outp limit d1)" for cid outp
      by (rule step_ends_kept [OF k1 p r exec_job_ends [OF p]])
    have prep: "prepare_output_dir env rid d1 = Inl (e, d1) \<or> prepare_output_dir env rid d1 = Inr (e', d1)"
      if "e = (case ee_home env of None \<Rightarrow> ''HOME unset; cannot prepare /output''
              | Some home \<Rightarrow> the (ee_io env d1 (run_dir home rid ''output'')))"
         "e' = run_dir (the (ee_home env)) rid ''output''" for rid e e'
      unfolding that by (auto simp: prepare_output_dir_def split: option.split)
    from prep [OF refl refl, of "ra_run_id a"] show ?thesis
      by (auto simp: run_inner_def rt ii Inr y job step_ends_error [OF k1] split: sum.split)
  qed
qed

lemma exec_run_error:
  assumes r: "run_by_id (ra_run_id a) d = Some r"
    and x: "run_inner env a (effective_timeout_secs (ra_timeout_secs a) (ee_max_timeout env)) d = Inl (msg, d1)"
  shows "evolved (ra_run_id a) d (exec_run env a d)"
    and "\<exists>r'. run_by_id (ra_run_id a) (exec_run env a d) = Some r' \<and> infra_failed r r'"
proof -
  have k1: "kept d d1" 
    using run_inner_ends [OF r, of env "effective_timeout_secs (ra_timeout_secs a) (ee_max_timeout env)"] by (simp only: x step_ends_def sum.case prod.case)
  define d2 where "d2 = (case append_log (ra_run_id a) (max_log_seq (ra_run_id a) d1 + 1) ''stderr''
    (''dokan: '' @ msg) d1 of Inl _ \<Rightarrow> d1 | Inr x \<Rightarrow> x)"
  have "kept d1 d2" unfolding d2_def by (auto dest: kept_append_log split: sum.split)
  note k2 = kept_trans [OF k1 this]
  have eq: "exec_run env a d = finish_run (ee_clock env d2) (ra_run_id a) Failed None (Some msg) d2"
    by (simp only: exec_run_def x sum.case prod.case Let_def d2_def)
  show "evolved (ra_run_id a) d (exec_run env a d)"
    unfolding eq by (rule evolved_trans [OF evolved_kept [OF k2] evolved_finish]) simp
  from keptD [OF k2 r] obtain p where p: "run_by_id (ra_run_id a) d2 = Some (r\<lparr>r_progress := p\<rparr>)" by blast
  have "infra_failed r (ended (ee_clock env d2) Failed None (Some msg) (r\<lparr>r_progress := p\<rparr>))"
    by (auto simp: infra_failed_def)
  with finish_lookup [OF p]
  show "\<exists>r'. run_by_id (ra_run_id a) (exec_run env a d) = Some r' \<and> infra_failed r r'"
    unfolding eq by blast
qed

lemma exec_run_ends:
  assumes r: "run_by_id (ra_run_id a) d = Some r"
  shows "evolved (ra_run_id a) d (exec_run env a d)"
    and "\<exists>r'. run_by_id (ra_run_id a) (exec_run env a d) = Some r' \<and>
           (infra_failed r r' \<or> executed env a r r')"
proof -
  let ?x = "run_inner env a (effective_timeout_secs (ra_timeout_secs a) (ee_max_timeout env)) d"
  have "evolved (ra_run_id a) d (exec_run env a d) \<and> (\<exists>r'. run_by_id (ra_run_id a) (exec_run env a d) = Some r' \<and>
           (infra_failed r r' \<or> executed env a r r'))"
  proof (cases ?x)
    case (Inr y)
    obtain d1 where x: "?x = Inr ((), d1)" using Inr by (cases y) auto
    have "exec_run env a d = d1" by (simp only: exec_run_def x sum.case prod.case)
    moreover have "step_ends env a d r ?x" by (rule run_inner_ends [OF r])
    ultimately show ?thesis by (simp only: x step_ends_def sum.case prod.case)
  next
    case (Inl y)
    with exec_run_error [OF r] show ?thesis by (metis prod.exhaust)
  qed
  then show "evolved (ra_run_id a) d (exec_run env a d)"
    "\<exists>r'. run_by_id (ra_run_id a) (exec_run env a d) = Some r' \<and> (infra_failed r r' \<or> executed env a r r')"
    by auto
qed

section \<open>What reaches the log\<close>

text \<open>Seen from the log \<open>old\<close>: no line added since contains \<open>v\<close>, in the table or in the pump's batch.\<close>

definition logs_clean :: "string \<Rightarrow> db \<Rightarrow> db \<Rightarrow> bool" where
  "logs_clean v old d = (\<forall>l\<in>set (logs d). l \<in> set (logs old) \<or> \<not> contains_str (l_line l) v)"

fun pump_clean :: "string \<Rightarrow> db \<Rightarrow> pump \<times> db \<Rightarrow> bool" where
  "pump_clean v old (st, d) =
     ((\<forall>(q, n, line)\<in>set (pm_batch st). \<not> contains_str line v) \<and> logs_clean v old d)"

definition step_clean :: "string \<Rightarrow> db \<Rightarrow> pump_error \<times> db + pump \<times> db \<Rightarrow> bool" where
  "step_clean v old x = (case x of Inl (e, d) \<Rightarrow> logs_clean v old d | Inr s \<Rightarrow> pump_clean v old s)"

lemma step_clean_simps [simp]:
  "step_clean v old (Inl (e, d)) = logs_clean v old d" "step_clean v old (Inr s) = pump_clean v old s"
  by (simp_all add: step_clean_def)

lemma logs_clean_refl [simp]: "logs_clean v d d"
  by (simp add: logs_clean_def)

lemma logs_clean_cong: "logs d' = logs d \<Longrightarrow> logs_clean v old d' = logs_clean v old d"
  by (simp add: logs_clean_def)

lemma append_clean:
  "append_log rid q n line d = Inr d' \<Longrightarrow> logs_clean v old d \<Longrightarrow> \<not> contains_str line v \<Longrightarrow> logs_clean v old d'"
  by (auto simp: append_log_def logs_clean_def split: if_splits)

lemma batch_clean:
  "append_logs_batch rid rows d = Inr d' \<Longrightarrow> logs_clean v old d \<Longrightarrow>
   \<forall>(q, n, line)\<in>set rows. \<not> contains_str line v \<Longrightarrow> logs_clean v old d'"
  by (induction rid rows d rule: append_logs_batch.induct) (auto split: sum.splits intro: append_clean)

lemma flush_clean: "pump_clean v old s \<Longrightarrow> step_clean v old (flush rid s)"
  by (cases s) (auto simp: flush_def batch_clean split: sum.split)

lemma pump_clean_db: "pump_clean v old s \<Longrightarrow> logs_clean v old (snd s)"
  by (cases s) simp

text \<open>A value the pump masks: it is among the given ones, none of which is empty, and has no star.\<close>

definition masked :: "string \<Rightarrow> string list \<Rightarrow> bool" where
  "masked v svals = (v \<in> set svals \<and> CHR ''*'' \<notin> set v \<and> (\<forall>x\<in>set svals. x \<noteq> []))"

lemma push_clean: "masked v svals \<Longrightarrow> pump_clean v old s \<Longrightarrow> pump_clean v old (push_line rid svals b k s)"
  by (cases s; cases k) (auto simp: push_line_def update_run_progress_def logs_clean_def masked_def redacted)

lemma lines_clean:
  "masked v svals \<Longrightarrow> pump_clean v old s \<Longrightarrow> step_clean v old (handle_lines rid svals b ls s)"
proof (induction ls arbitrary: s)
  case (Cons l ls)
  let ?s = "push_line rid svals b (classify_line b (strip_cr l)) s"
  have p: "pump_clean v old ?s" by (rule push_clean [OF Cons.prems])
  show ?case
  proof (cases "256 \<le> length (pm_batch (fst ?s))")
    case True
    from flush_clean [OF p, of rid] Cons.IH [OF Cons.prems(1)] True show ?thesis
      by (cases "flush rid ?s") (auto simp: Let_def)
  next
    case False
    with Cons.IH [OF Cons.prems(1) p] show ?thesis by (simp add: Let_def)
  qed
qed simp

lemma chunk_clean:
  assumes m: "masked v svals" and s: "pump_clean v old s"
  shows "step_clean v old (pump_chunk rid svals c s)"
proof -
  obtain b bytes where c: "chunk_stream c = (b, bytes)" by fastforce
  obtain st d where sd: "s = (st, d)" by fastforce
  obtain ls rest where t: "take_lines ((if b then pm_out st else pm_err st) @ utf8_lossy bytes) = (ls, rest)" by fastforce
  let ?st = "if b then st\<lparr>pm_out := rest\<rparr> else st\<lparr>pm_err := rest\<rparr>"
  have "pump_clean v old (?st, d)" using s sd by simp
  from lines_clean [OF m this, of rid b ls] show ?thesis
    by (cases "handle_lines rid svals b ls (?st, d)") (auto simp: pump_chunk_def c sd t Let_def flush_clean)
qed

lemma stream_clean:
  "masked v svals \<Longrightarrow> pump_clean v old s \<Longrightarrow> step_clean v old (pump_stream rid svals its s)"
proof (induction its arbitrary: s)
  case (Cons x its)
  show ?case
  proof (cases x)
    case (Chunk c)
    from chunk_clean [OF Cons.prems, of rid c] Cons.IH [OF Cons.prems(1)] Chunk show ?thesis
      by (cases "pump_chunk rid svals c s") auto
  qed (use Cons.prems pump_clean_db in simp_all)
qed simp

lemma tail_clean: "masked v svals \<Longrightarrow> pump_clean v old s \<Longrightarrow> pump_clean v old (pump_tail rid svals b buf s)"
  by (simp add: pump_tail_def push_clean)

lemma start_clean: "pump_clean v d (pump_start rid d, d)"
  by (simp add: pump_start_def)

lemma pump_logs_clean:
  assumes m: "masked v svals"
  shows "logs_clean v d (sum_db (pump_logs rid svals its d))"
proof (cases "pump_stream rid svals its (pump_start rid d, d)")
  case (Inl e)
  with stream_clean [OF m start_clean [of v d rid], of rid its] show ?thesis
    by (cases e) (simp add: pump_logs_def)
next
  case (Inr s)
  obtain st d' where s: "s = (st, d')" by fastforce
  let ?s = "pump_tail rid svals False (pm_err st) (pump_tail rid svals True (pm_out st) (st, d'))"
  have "pump_clean v d (st, d')" using stream_clean [OF m start_clean [of v d rid], of rid its] Inr s by simp
  then have "step_clean v d (flush rid ?s)" by (intro flush_clean tail_clean [OF m])
  then show ?thesis by (cases "flush rid ?s") (auto simp: pump_logs_def Inr s)
qed

lemma finish_job_logs: "logs (sum_db (finish_job env a img out_dir res c d)) = logs d"
proof (cases "finish_job env a img out_dir res c d")
  case (Inl y)
  then show ?thesis by (cases y) (auto dest: finish_job_error)
next
  case (Inr y)
  from Inr obtain d' where y: "y = ((), d')" by (cases y) simp
  from Inr y have "finish_job env a img out_dir res c d = Inr ((), d')" by simp
  from finish_job_stages [OF this] obtain d2 d3 d4 d5 outs res' rcpt where
    "logs d2 = logs d" "d3 = (case outs of Some x \<Rightarrow> set_run_output_blobs (ra_run_id a) x d2 | None \<Rightarrow> d2)"
    "d4 = (case res' of Some x \<Rightarrow> set_run_result (ra_run_id a) x d3 | None \<Rightarrow> d3)"
    "d5 = (case rcpt of Some x \<Rightarrow> set_run_receipt (ra_run_id a) x d4 | None \<Rightarrow> d4)" "logs d' = logs d5"
    by blast
  moreover have "logs (set_run_output_blobs i x e) = logs e" "logs (set_run_result i x e) = logs e"
    "logs (set_run_receipt i x e) = logs e" for i x e
    by (simp_all add: set_run_output_blobs_def set_run_result_def set_run_receipt_def)
  ultimately have "logs d' = logs d" by (cases outs; cases res'; cases rcpt) simp_all
  then show ?thesis by (simp add: Inr y)
qed

text \<open>A line of dokan's own is added under the next free number, whatever was pumped before.\<close>

definition dokan_lines :: "int \<Rightarrow> string set" where
  "dokan_lines limit =
     {''dokan: container vanished before exit code; marking failed'',
      ''dokan: timeout after '' @ int_str limit @ '' s, container killed''}"

definition line_ok :: "string \<Rightarrow> int \<Rightarrow> db \<Rightarrow> db \<Rightarrow> bool" where
  "line_ok v limit old d =
     (\<forall>l\<in>set (logs d). l \<in> set (logs old) \<or> \<not> contains_str (l_line l) v \<or> l_line l \<in> dokan_lines limit)"

lemma line_ok_clean: "logs_clean v old d \<Longrightarrow> line_ok v limit old d"
  by (auto simp: line_ok_def logs_clean_def)

lemma line_ok_cong: "logs d' = logs d \<Longrightarrow> line_ok v limit old d' = line_ok v limit old d"
  by (simp add: line_ok_def)

lemma stderr_line_ok:
  "append_stderr env rid line d = Inr d' \<Longrightarrow> line \<in> dokan_lines limit \<Longrightarrow> line_ok v limit old d \<Longrightarrow>
   line_ok v limit old d'"
  by (auto simp: append_stderr_def append_log_def line_ok_def split: sum.splits if_splits)

lemma after_logs_line_ok:
  assumes ok: "line_ok v limit old d"
  shows "line_ok v limit old (sum_db (after_logs env a img out_dir exec_id raw d))"
proof -
  have gone: "''dokan: container vanished before exit code; marking failed'' \<in> dokan_lines limit"
    by (simp add: dokan_lines_def)
  have fin: "line_ok v limit old (sum_db (finish_job env a img out_dir res c d))" for res c
    using ok by (simp only: line_ok_cong [OF finish_job_logs])
  show ?thesis
    using stderr_line_ok [OF _ gone ok] ok
    by (auto simp: after_logs_def fin line_ok_cong [OF finish_or_err_logs] split: sum.split docker_error.split)
qed

lemma timed_out_line_ok:
  assumes ok: "line_ok v limit old d"
  shows "line_ok v limit old (sum_db (timed_out env a limit d))"
proof -
  have late: "''dokan: timeout after '' @ int_str limit @ '' s, container killed'' \<in> dokan_lines limit"
    by (simp add: dokan_lines_def)
  show ?thesis
    using stderr_line_ok [OF _ late ok] ok
    by (auto simp: timed_out_def line_ok_cong [OF finish_or_err_logs] split: sum.split)
qed

section \<open>Properties\<close>

text \<open>A host for the witnesses: one warm container, a job that prints one line and exits 0.\<close>

definition sample_host :: exec_env where
  "sample_host =
     \<lparr>ee_clock = (\<lambda>d. 7), ee_crypto = toy_crypto, ee_signer = \<lparr>sg_key = ''k'', sg_ed = ''e''\<rparr>,
      ee_unseal = (\<lambda>s. s), ee_contains = (\<lambda>a b. True), ee_home = Some ''/h'', ee_io = (\<lambda>d p. None),
      ee_max_timeout = 60, ee_limits = (512, 1), ee_acquire = (\<lambda>d q. Inr ''c1''),
      ee_digest = (\<lambda>d i. None), ee_create_exec = (\<lambda>d c s e. Inr ''x1''),
      ee_start_exec = (\<lambda>d x. Inr (Some [Chunk (StdOut ''hi'')])), ee_deadline = (\<lambda>d x t. None),
      ee_inspect_exec = (\<lambda>d x. Inr (Some 0)), ee_output = (\<lambda>d p. None), ee_db_msg = (\<lambda>e. ''db''),
      ee_write_error = (\<lambda>w d. None)\<rparr>"

definition sample_args :: run_args where
  "sample_args =
     \<lparr>ra_run_id = 1, ra_runtime = ''bash'', ra_source = ''echo hi'', ra_input = JNull, ra_agent_id = None,
      ra_network = False, ra_mem_limit_mb = None, ra_cpu_limit = None,
      ra_input_blobs = Some (JObj [(''../x'', JStr ''ab'')]), ra_capture_output = False,
      ra_timeout_secs = None\<rparr>"

lemma sample_run: "run_by_id (ra_run_id sample_args) pump_db = Some (new_run 1 1 (JObj []) None 0)"
  by (simp add: sample_args_def pump_db_def run_by_id_def new_run_def)

text \<open>C12. A run handed to the executor always ends, and the row says how: Succeeded has exit code 0
  and no error; Failed has either an exit code and no error (the job's own failure) or an error and
  no exit code (dokan's failure, the only kind that may be retried).  A run cancelled meanwhile
  keeps its status.  No other table of the database is touched.\<close>

theorem run_ends:
  assumes "run_by_id (ra_run_id a) d = Some r"
  shows "frame d (exec_run env a d) \<and>
    (\<exists>r'. run_by_id (ra_run_id a) (exec_run env a d) = Some r' \<and>
      (if r_status r = Canceled then r_status r' = Canceled \<and> r_exit_code r' = r_exit_code r
       else r_finished_at r' \<noteq> None \<and>
         (r_status r' = Succeeded \<and> r_exit_code r' = Some 0 \<and> r_error r' = None \<or>
          r_status r' = Failed \<and> r_exit_code r' \<noteq> None \<and> r_error r' = None \<or>
          r_status r' = Failed \<and> r_exit_code r' = None \<and> r_error r' \<noteq> None)))"
proof -
  from exec_run_ends(2) [OF assms] obtain r' where
    r': "run_by_id (ra_run_id a) (exec_run env a d) = Some r'" "infra_failed r r' \<or> executed env a r r'"
    by blast
  from r'(2) have "if r_status r = Canceled then r_status r' = Canceled \<and> r_exit_code r' = r_exit_code r
       else r_finished_at r' \<noteq> None \<and>
         (r_status r' = Succeeded \<and> r_exit_code r' = Some 0 \<and> r_error r' = None \<or>
          r_status r' = Failed \<and> r_exit_code r' \<noteq> None \<and> r_error r' = None \<or>
          r_status r' = Failed \<and> r_exit_code r' = None \<and> r_error r' \<noteq> None)"
  proof
    assume "infra_failed r r'"
    then show ?thesis by (auto simp: infra_failed_def ended_def)
  next
    assume "executed env a r r'"
    then obtain now c res outs rcpt p where "r' = finished_row r now c res outs rcpt p"
      unfolding executed_def by blast
    then show ?thesis by (auto simp: finished_row_def ended_def as_i32_def)
  qed
  with r'(1) evolved_frame [OF exec_run_ends(1) [OF assms]] show ?thesis by blast
qed

theorem run_ends_witness:
  "\<exists>r'. run_by_id 1 (exec_run sample_host sample_args pump_db) = Some r' \<and> r_finished_at r' \<noteq> None"
  using run_ends [OF sample_run, of sample_host] by (auto simp: new_run_def sample_args_def)

text \<open>What a column holds after an execution that attested a value for it, or none.\<close>

definition column_agrees :: "json option \<Rightarrow> json option \<Rightarrow> json option \<Rightarrow> bool" where
  "column_agrees attested before after = (after = (if attested = None then before else attested))"

text \<open>
  C13. Provenance, whatever the run had been through before and whatever the host does.  When the
  executor is done with a run, one of three things holds of its row:
  the run ended in an error of dokan's own, and receipt, result and output artifacts are as before;
  or it executed to an exit code and a write of the artifacts, the result or the receipt failed once
  that end was recorded, and the receipt is as before (a receipt is withheld, never stored beside a result it was not built from);
  or the receipt is the one built from this run's own identity, source, input, network flag and
  input artifacts, and each of its result and output artifacts is the one of the row: a run
  executed again, or with nothing to store this time, keeps the column it had where the receipt has none.
  The exit code and the status are those of the receipt unless the run had been canceled before it
  ended; a canceled run keeps status and exit code, and its receipt attests the execution that took place.
\<close>

theorem run_receipt_agrees:
  assumes "run_by_id (ra_run_id a) d = Some r"
  shows "\<exists>r'. run_by_id (ra_run_id a) (exec_run env a d) = Some r' \<and>
    ((r_error r' \<noteq> None \<or> r_status r = Canceled) \<and> r_exit_code r' = (if r_status r = Canceled then r_exit_code r else None) \<and>
       r_receipt r' = r_receipt r \<and> r_result r' = r_result r \<and> r_output_blobs r' = r_output_blobs r \<or>
     r_receipt r' = r_receipt r \<and> (r_status r \<noteq> Canceled \<longrightarrow> r_exit_code r' \<noteq> None) \<and>
       (\<exists>w d1 q. w \<in> {WOutputs, WResult, WReceipt} \<and> ee_write_error env w d1 \<noteq> None \<and>
          run_by_id (ra_run_id a) d1 = Some q \<and> same_end q r') \<or>
     (\<exists>b. r_receipt r' = Some (build_receipt (ee_crypto env) (ee_signer env) b) \<and>
        rb_run_id b = r_id r' \<and> rb_source b = ra_source a \<and> rb_input b = ra_input a \<and>
        rb_network b = ra_network a \<and> rb_input_blobs b = ra_input_blobs a \<and>
        column_agrees (rb_result b) (r_result r) (r_result r') \<and>
        column_agrees (rb_output_blobs b) (r_output_blobs r) (r_output_blobs r') \<and>
        (if r_status r = Canceled then r_status r' = Canceled \<and> r_exit_code r' = r_exit_code r
         else r_exit_code r' = Some (as_i32 (rb_exit b)) \<and> (r_status r' = Succeeded \<longleftrightarrow> rb_exit b = 0))))"
proof -
  from exec_run_ends(2) [OF assms] obtain r' where
    r': "run_by_id (ra_run_id a) (exec_run env a d) = Some r'" "infra_failed r r' \<or> executed env a r r'"
    by blast
  from r'(1) have rid: "r_id r' = ra_run_id a" by (auto dest: run_by_idD)
  from r'(2) show ?thesis
  proof
    assume "infra_failed r r'"
    with r'(1) show ?thesis by (auto simp: infra_failed_def ended_def)
  next
    assume "executed env a r r'"
    then obtain now c res outs rcpt p where
      row: "r' = finished_row r now c res outs rcpt p"
      and m: "case rcpt of None \<Rightarrow> provenance_fault env r'
        | Some v \<Rightarrow> \<exists>b. v = build_receipt (ee_crypto env) (ee_signer env) b \<and> receipt_matches a c res outs b"
      unfolding executed_def by blast
    have cols: "column_agrees res (r_result r) (r_result r')" "column_agrees outs (r_output_blobs r) (r_output_blobs r')"
      "r_receipt r' = (case rcpt of Some v \<Rightarrow> Some v | None \<Rightarrow> r_receipt r)"
      "if r_status r = Canceled then r_status r' = Canceled \<and> r_exit_code r' = r_exit_code r
         else r_exit_code r' = Some (as_i32 c) \<and> (r_status r' = Succeeded \<longleftrightarrow> c = 0)"
      unfolding row by (auto simp: finished_row_def ended_def column_agrees_def split: option.split)
    show ?thesis
    proof (cases rcpt)
      case None
      with m cols(3,4) r'(1) show ?thesis unfolding provenance_fault_def rid by (auto split: if_splits)
    next
      case (Some v)
      with m obtain b where "v = build_receipt (ee_crypto env) (ee_signer env) b" "receipt_matches a c res outs b"
        by auto
      with Some cols rid r'(1) show ?thesis
        by (intro exI [of _ r'] conjI disjI2 exI [of _ b]) (simp_all add: receipt_matches_def)
    qed
  qed
qed

text \<open>Where every write succeeds, a job that prints a line and exits 0 has its receipt, and the row agrees.\<close>

lemma sample_pump: "map_sum id fst (pump_logs 1 [] [Chunk (StdOut ''hi'')] pump_db) = Inr (1, None)"
  by code_simp

lemma sample_exit:
  assumes "run_by_id 1 (exec_run sample_host (sample_args\<lparr>ra_input_blobs := None\<rparr>) pump_db) = Some r'"
  shows "r_exit_code r' = Some 0"
proof -
  let ?a = "sample_args\<lparr>ra_input_blobs := None\<rparr>" and ?r = "new_run 1 1 (JObj []) None 0"
  from sample_pump obtain d1 where p: "pump_logs 1 [] [Chunk (StdOut ''hi'')] pump_db = Inr ((1, None), d1)"
    by (cases "pump_logs 1 [] [Chunk (StdOut ''hi'')] pump_db") auto
  have sv: "redaction_values (visible_secrets sample_host 1 None pump_db) = []" by code_simp
  have host: "\<And>d q. ee_acquire sample_host d q = Inr ''c1''" "\<And>d c s e. ee_create_exec sample_host d c s e = Inr ''x1''"
    "\<And>d x. ee_start_exec sample_host d x = Inr (Some [Chunk (StdOut ''hi'')])"
    "\<And>d x t. ee_deadline sample_host d x t = None" "\<And>d x. ee_inspect_exec sample_host d x = Inr (Some 0)"
    "\<And>w d. ee_write_error sample_host w d = None"
    by (simp_all add: sample_host_def)
  have args: "ra_run_id ?a = 1" "ra_runtime ?a = ''bash''" "ra_input_blobs ?a = None" "ra_agent_id ?a = None"
    "ra_capture_output ?a = False" by (simp_all add: sample_args_def)
  obtain img interp where rt: "runtime_spec ''bash'' = Some (img, interp)" by (simp add: runtime_spec_def)
  have inner: "run_inner sample_host ?a t pump_db = finish_job sample_host ?a img None None 0 d1" for t
    by (simp only: run_inner_def args rt option.case prod.case sum.case materialize_input_def Option.bind.simps
        if_False host exec_job_def Let_def sv p after_logs_def parse_result_def option.map)
  have "kept pump_db d1" using kept_pump [of pump_db 1 "[]" "[Chunk (StdOut ''hi'')]"] by (simp add: p)
  from keptD [OF this, of 1 ?r] sample_run obtain q where
    q: "run_by_id (ra_run_id ?a) d1 = Some (?r\<lparr>r_progress := q\<rparr>)" by (auto simp: sample_args_def)
  obtain d' where fin: "finish_job sample_host ?a img None None 0 d1 = Inr ((), d')"
    by (simp add: finish_job_def finish_or_err_def store_column_def host Let_def)
  from finish_job_shape [OF q fin] obtain r1 where
    "run_by_id 1 d' = Some r1" "r_exit_code r1 = Some (as_i32 0)" by (auto simp: new_run_def args)
  moreover have "exec_run sample_host ?a pump_db = d'" by (simp add: exec_run_def inner fin)
  ultimately show ?thesis using assms by (simp add: as_i32_def)
qed

theorem run_receipt_agrees_witness:
  "\<exists>r' b. run_by_id 1 (exec_run sample_host (sample_args\<lparr>ra_input_blobs := None\<rparr>) pump_db) = Some r' \<and>
     r_receipt r' = Some (build_receipt toy_crypto \<lparr>sg_key = ''k'', sg_ed = ''e''\<rparr> b) \<and>
     rb_source b = ''echo hi'' \<and> rb_result b = r_result r' \<and> as_i32 (rb_exit b) = 0"
proof -
  let ?a = "sample_args\<lparr>ra_input_blobs := None\<rparr>" and ?r = "new_run 1 1 (JObj []) None 0"
  have id: "ra_run_id ?a = 1" and src: "ra_source ?a = ''echo hi''"
    and env: "ee_crypto sample_host = toy_crypto" "ee_signer sample_host = \<lparr>sg_key = ''k'', sg_ed = ''e''\<rparr>"
      "\<And>w d. ee_write_error sample_host w d = None"
    by (simp_all add: sample_args_def sample_host_def)
  have r: "run_by_id (ra_run_id ?a) pump_db = Some ?r" using sample_run by (simp add: sample_args_def)
  have row: "r_status ?r \<noteq> Canceled" "r_result ?r = None" by (simp_all add: new_run_def)
  from run_receipt_agrees [OF r, of sample_host, unfolded id src env row(2)] row(1) sample_exit
  obtain r' b where w: "run_by_id 1 (exec_run sample_host ?a pump_db) = Some r'"
    "r_receipt r' = Some (build_receipt toy_crypto \<lparr>sg_key = ''k'', sg_ed = ''e''\<rparr> b)"
    "rb_source b = ''echo hi''" "column_agrees (rb_result b) None (r_result r')"
    "r_exit_code r' = Some (as_i32 (rb_exit b))"
    by (auto split: if_splits)
  from sample_exit [OF w(1)] w(5) have "as_i32 (rb_exit b) = 0" by simp
  moreover have "rb_result b = r_result r'" using w(4) by (cases "rb_result b") (simp_all add: column_agrees_def)
  ultimately show ?thesis using w by blast
qed


text \<open>A job that prints the overlap of two secrets; the shorter secret of the same agent is logged.\<close>

definition leaky_host :: exec_env where
  "leaky_host = sample_host\<lparr>ee_start_exec := (\<lambda>d x. Inr (Some [Chunk (StdOut ''hunter2!xyz pw1234'')]))\<rparr>"

definition leaky_db :: db where
  "leaky_db = pump_db\<lparr>secrets := [(''A'', ''hunter2!''), (''B'', ''ter2!xyz''), (''C'', ''pw1234'')]\<rparr>"

lemma leaky_pump:
  "map_sum fst fst (pump_logs 1 [''hunter2!'', ''ter2!xyz''] [Chunk (StdOut ''hunter2!xyz pw1234'')] leaky_db) = Inr (1, None)"
  by code_simp

lemma leaky_lines:
  "logs (sum_db (pump_logs 1 [''hunter2!'', ''ter2!xyz''] [Chunk (StdOut ''hunter2!xyz pw1234'')] leaky_db)) =
     [\<lparr>l_run_id = 1, l_seq = 1, l_stream = ''stdout'', l_line = ''***xyz pw1234''\<rparr>]"
  by code_simp


lemma exec_run_wf:
  "run_by_id (ra_run_id a) d = Some r \<Longrightarrow> runs_wf d \<Longrightarrow> runs_wf (exec_run env a d)"
  using exec_run_ends(1) [of a d r env] history_wf unfolding evolved_def by blast

text \<open>Refinement: whatever the host does, the queue sees the execution of a run as a history of
  the queue's own statements, of which only \<open>Finish\<close> and the result columns concern this run and
  the rest record progress or fire triggers.  What holds of every such history holds of execution.\<close>

theorem executor_is_history:
  assumes "run_by_id (ra_run_id a) d = Some r"
  shows "\<exists>ss. list_all (executor_stmt (Some (ra_run_id a))) ss \<and>
    same_queue (exec_stmts ss d) (exec_run env a d)"
  using exec_run_ends(1) [OF assms, of env] unfolding evolved_def history_def by blast

theorem executor_is_history_witness:
  "\<exists>ss. list_all (executor_stmt (Some 1)) ss \<and>
     same_queue (exec_stmts ss pump_db) (exec_run sample_host sample_args pump_db)"
proof -
  have "ra_run_id sample_args = 1" by (simp add: sample_args_def)
  with executor_is_history [OF sample_run, of sample_host] show ?thesis by simp
qed

lemma bad_name_blocks:
  assumes "(name, v) \<in> set m" and "bad_file_name name"
  shows "\<exists>e d'. write_inputs env dir m d = Inl (e, d')"
  using assms(1)
proof (induction env dir m d rule: write_inputs.induct)
  case (2 env dir n sha_v m d)
  show ?case
  proof (cases "bad_file_name n")
    case False
    with assms(2) 2(2) have "(name, v) \<in> set m" by auto
    with 2(1) [OF False] show ?thesis using False
      by (cases "as_str sha_v"; simp split: prod.split option.split) metis
  qed simp
qed simp

text \<open>No input file name leaves the run's directory: a run with one name that is empty, has a
  slash or contains two dots fails before a container is asked for, with an error, no exit code
  and no receipt of its own.\<close>

theorem bad_input_name_fails:
  assumes "run_by_id (ra_run_id a) d = Some r" and "r_status r \<noteq> Canceled"
    and "ra_input_blobs a = Some (JObj m)" and "(name, v) \<in> set m"
    and "name = [] \<or> CHR ''/'' \<in> set name \<or> contains_str name ''..''"
  shows "\<exists>r'. run_by_id (ra_run_id a) (exec_run env a d) = Some r' \<and> r_status r' = Failed \<and>
    r_exit_code r' = None \<and> r_error r' \<noteq> None \<and> r_receipt r' = r_receipt r"
proof -
  have bad: "bad_file_name name" using assms(5) by (simp add: bad_file_name_def)
  have "m \<noteq> []" using assms(4) by auto
  then have "\<exists>e d1. materialize_input env (ra_run_id a) (ra_input_blobs a) d = Inl (e, d1)"
  proof (cases "ee_home env")
    case (Some home)
    obtain e d1 where "write_inputs env (run_dir home (ra_run_id a) ''input'') m d = Inl (e, d1)"
      using bad_name_blocks [OF assms(4) bad] by blast
    with Some assms(3) \<open>m \<noteq> []\<close> show ?thesis
      by (simp add: materialize_input_def Let_def split: option.split)
  qed (use assms(3) in \<open>simp add: materialize_input_def\<close>)
  then obtain msg d1 where "run_inner env a limit d = Inl (msg, d1)" for limit
    by (cases "runtime_spec (ra_runtime a)") (auto simp: run_inner_def split: prod.split)
  from exec_run_error(2) [OF assms(1) this] assms(2) show ?thesis
    by (auto simp: infra_failed_def ended_def)
qed

theorem bad_input_name_fails_witness:
  "\<exists>r'. run_by_id 1 (exec_run sample_host sample_args pump_db) = Some r' \<and> r_status r' = Failed"
proof -
  have id: "ra_run_id sample_args = 1" by (simp add: sample_args_def)
  have "ra_input_blobs sample_args = Some (JObj [(''../x'', JStr ''ab'')])" by (simp add: sample_args_def)
  from bad_input_name_fails [OF sample_run _ this, of "''../x''" "JStr ''ab''" sample_host]
  show ?thesis by (auto simp: new_run_def id)
qed

end
