(* ===== verification/Worker.thy ===== *)
theory Worker
  imports Exec_Laws Exactly_Once
begin

text \<open>
  The worker loop of \<open>src/worker.rs\<close>: claim a run, count the attempt, execute it, and requeue
  it when the failure was dokan's own and attempts are left.  One turn of the loop is
  \<open>work_once\<close>; the semaphore and the LISTEN/NOTIFY wait decide only when a turn happens.
\<close>

definition max_attempts :: int where "max_attempts = 3"

text \<open>The input the job runs with: \<open>prev_result\<close> is added for a script that asks for it.\<close>

definition job_input :: "claimed_job \<Rightarrow> db \<Rightarrow> json" where
  "job_input job d =
     (if cj_feed_prev_result job
      then with_prev_result (cj_input job) (last_result_for_script (cj_script_id job) (cj_run_id job) d)
      else cj_input job)"

definition job_args :: "claimed_job \<Rightarrow> json \<Rightarrow> run_args" where
  "job_args job input =
     \<lparr>ra_run_id = cj_run_id job, ra_runtime = cj_runtime job, ra_source = cj_source job,
      ra_input = input, ra_agent_id = cj_agent_id job, ra_network = cj_network job,
      ra_mem_limit_mb = cj_mem_limit_mb job, ra_cpu_limit = cj_cpu_limit job,
      ra_input_blobs = cj_input_blobs job, ra_capture_output = cj_capture_output job,
      ra_timeout_secs = cj_timeout_secs job\<rparr>"

text \<open>Only a failure without an exit code is retried, and not a timeout the script sized itself.\<close>

definition may_retry :: "claimed_job \<Rightarrow> int \<Rightarrow> db \<Rightarrow> bool" where
  "may_retry job attempt d =
     (case run_outcome (cj_run_id job) d of
        None \<Rightarrow> False
      | Some (st, code) \<Rightarrow>
          st = Failed \<and> code = None \<and> attempt < max_attempts \<and>
          \<not> (cj_timeout_secs job \<noteq> None \<and> run_error (cj_run_id job) d = Some ''timeout''))"

definition process_job :: "exec_env \<Rightarrow> claimed_job \<Rightarrow> db \<Rightarrow> db" where
  "process_job env job d =
     (let (attempt, d1) = (case mark_attempt (cj_run_id job) d of Inl _ \<Rightarrow> (1, d) | Inr x \<Rightarrow> x);
          d2 = exec_run env (job_args job (job_input job d1)) d1
      in if may_retry job attempt d2 then requeue (cj_run_id job) d2 else d2)"

text \<open>A turn: nothing to claim leaves the database as it is.\<close>

definition work_once :: "exec_env \<Rightarrow> string list \<Rightarrow> int list \<Rightarrow> db \<Rightarrow> db" where
  "work_once env caps locked d =
     (case claim_run (ee_clock env d) caps locked d of
        (None, d') \<Rightarrow> d'
      | (Some job, d') \<Rightarrow> process_job env job d')"

section \<open>One job\<close>

lemma job_args_id [simp]: "ra_run_id (job_args job i) = cj_run_id job"
  by (simp add: job_args_def)

lemma mark_lookup:
  "run_by_id rid d = Some r \<Longrightarrow>
   \<exists>d1. mark_attempt rid d = Inr (r_attempts r + 1, d1) \<and> frame d d1 \<and>
     (\<forall>i. run_by_id i d1 =
       map_option (\<lambda>q. if r_id q = rid then q\<lparr>r_attempts := r_attempts q + 1\<rparr> else q) (run_by_id i d))"
  by (simp add: mark_attempt_def run_by_id_update frame_def)

lemma requeue_lookup:
  "run_by_id i (requeue rid d) = map_option (\<lambda>q. if r_id q = rid then back_to_pending q else q) (run_by_id i d)"
  by (simp add: requeue_def run_by_id_update back_to_pending_def)

text \<open>A claimed run after its turn: executed, or back in the queue.\<close>

lemma process_job_outcome:
  assumes r: "run_by_id (cj_run_id job) d = Some r"
  shows "\<exists>d1 r1. mark_attempt (cj_run_id job) d = Inr (r_attempts r + 1, d1) \<and>
    evolved (cj_run_id job) d1 (exec_run env (job_args job (job_input job d1)) d1) \<and>
    run_by_id (cj_run_id job) (exec_run env (job_args job (job_input job d1)) d1) = Some r1 \<and>
    (infra_failed (r\<lparr>r_attempts := r_attempts r + 1\<rparr>) r1 \<or>
     executed env (job_args job (job_input job d1)) (r\<lparr>r_attempts := r_attempts r + 1\<rparr>) r1) \<and>
    process_job env job d =
      (let d2 = exec_run env (job_args job (job_input job d1)) d1
       in if may_retry job (r_attempts r + 1) d2 then requeue (cj_run_id job) d2 else d2)"
proof -
  have rid: "r_id r = cj_run_id job" using r by (auto dest: run_by_idD)
  from mark_lookup [OF r] obtain d1 where
    m: "mark_attempt (cj_run_id job) d = Inr (r_attempts r + 1, d1)"
    and l: "\<forall>i. run_by_id i d1 =
       map_option (\<lambda>q. if r_id q = cj_run_id job then q\<lparr>r_attempts := r_attempts q + 1\<rparr> else q) (run_by_id i d)"
    by blast
  let ?a = "job_args job (job_input job d1)"
  have r1: "run_by_id (ra_run_id ?a) d1 = Some (r\<lparr>r_attempts := r_attempts r + 1\<rparr>)"
    using l r rid by simp
  from exec_run_ends [OF r1, of env] m show ?thesis
    by (simp add: process_job_def Let_def)
qed

section \<open>Histories of turns\<close>

text \<open>
  What happens to the database: a turn of a worker, a worker that dies with the run it claimed (after
  counting the attempt), or a statement of another client, the reaper included.  The claims,
  attempts and requeues of workers are inside their turns.
\<close>

datatype work =
    Turn exec_env "string list" "int list" | Dies exec_env "string list" "int list" | Client stmt

fun client_stmt :: "stmt \<Rightarrow> bool" where
  "client_stmt (Claim now caps locked) = False"
| "client_stmt (Mark i) = False"
| "client_stmt (Requeue i) = False"
| "client_stmt _ = True"

fun work_ok :: "work \<Rightarrow> bool" where
  "work_ok (Client s) = client_stmt s"
| "work_ok _ = True"

text \<open>The worker's process ends after \<open>mark_attempt\<close>: the run stays \<open>Running\<close> and nobody beats for it.\<close>

definition work_dies :: "exec_env \<Rightarrow> string list \<Rightarrow> int list \<Rightarrow> db \<Rightarrow> db" where
  "work_dies env caps locked d =
     (case claim_run (ee_clock env d) caps locked d of
        (None, d') \<Rightarrow> d'
      | (Some job, d') \<Rightarrow> (case mark_attempt (cj_run_id job) d' of Inl _ \<Rightarrow> d' | Inr (n, d1) \<Rightarrow> d1))"

fun work_step :: "work \<Rightarrow> db \<Rightarrow> db" where
  "work_step (Turn env caps locked) d = work_once env caps locked d"
| "work_step (Dies env caps locked) d = work_dies env caps locked d"
| "work_step (Client s) d = exec_stmt s d"

text \<open>How often the reaper returned the run \<open>i\<close> to the queue.\<close>

fun reaps :: "work \<Rightarrow> db \<Rightarrow> int \<Rightarrow> bool" where
  "reaps (Client (Reap now lease)) d i =
     (case run_by_id i d of None \<Rightarrow> False | Some r \<Rightarrow> r_status r = Running \<and> lease_expired now lease r)"
| "reaps w d i = False"

fun times_reaped :: "int \<Rightarrow> work list \<Rightarrow> db \<Rightarrow> nat" where
  "times_reaped i [] d = 0"
| "times_reaped i (w # ws) d = (if reaps w d i then 1 else 0) + times_reaped i ws (work_step w d)"

text \<open>The invariant, for runs that were put back \<open>k i\<close> times.\<close>

definition attempt_ok :: "(int \<Rightarrow> nat) \<Rightarrow> run \<Rightarrow> bool" where
  "attempt_ok k r =
     (r_attempts r \<le> max_attempts + int (k (r_id r)) \<and>
      (r_status r = Pending \<longrightarrow> r_attempts r < max_attempts + int (k (r_id r))))"

definition attempts_ok :: "(int \<Rightarrow> nat) \<Rightarrow> db \<Rightarrow> bool" where
  "attempts_ok k d = (runs_wf d \<and> (\<forall>r\<in>set (runs d). attempt_ok k r))"

lemma attempts_okI:
  "runs_wf d \<Longrightarrow> (\<And>i r. run_by_id i d = Some r \<Longrightarrow> attempt_ok k r) \<Longrightarrow> attempts_ok k d"
  by (simp add: attempts_ok_def) (metis run_by_id_in)

lemma attempts_okD: "attempts_ok k d \<Longrightarrow> run_by_id i d = Some r \<Longrightarrow> attempt_ok k r"
  by (auto simp: attempts_ok_def dest: run_by_idD)

lemma attempt_ok_new [simp]: "attempt_ok k (new_run i sid input agent now)"
  by (simp add: attempt_ok_def new_run_def max_attempts_def)

lemma attempt_update:
  "\<forall>r\<in>set (runs d). attempt_ok k r \<Longrightarrow>
   (\<And>r. r_id (f r) = r_id r \<and> r_attempts (f r) = r_attempts r \<and> (r_status (f r) = r_status r \<or> r_status (f r) \<noteq> Pending)) \<Longrightarrow>
   \<forall>r\<in>set (runs (d\<lparr>runs := update_where P f (runs d)\<rparr>)). attempt_ok k r"
  by (auto simp: set_update_where attempt_ok_def) metis+

lemma attempt_ok_mono: "attempt_ok k r \<Longrightarrow> (\<And>i. k i \<le> k' i) \<Longrightarrow> attempt_ok k' r"
  unfolding attempt_ok_def by (smt (verit, best) of_nat_le_iff)

lemma attempt_targets:
  "\<forall>r\<in>set (runs d). attempt_ok k r \<Longrightarrow> \<forall>r\<in>set (runs (snd (enqueue_targets now input ts d))). attempt_ok k r"
proof (induction ts arbitrary: d)
  case (Cons t ts)
  let ?d = "d\<lparr>runs := runs d @ [new_run (run_seq d) (tg_target t) input (tg_agent_id t) now],
              run_seq := run_seq d + 1\<rparr>"
  have "\<forall>r\<in>set (runs ?d). attempt_ok k r" using Cons.prems by auto
  from Cons.IH [OF this] show ?case by (simp add: split_beta Let_def)
qed simp

lemma client_attempts:
  assumes "\<forall>r\<in>set (runs d). attempt_ok k r" and "client_stmt s" and "\<And>now lease. s \<noteq> Reap now lease"
  shows "\<forall>r\<in>set (runs (exec_stmt s d)). attempt_ok k r"
proof (cases s)
  case (FireTriggers contains now rid v)
  with assms show ?thesis by (simp add: fire_triggers_def attempt_targets)
next
  case (GcOld now days)
  with assms gc_old_rows(1) show ?thesis by fastforce
next
  case (DeleteScript i)
  with assms show ?thesis
    by (auto simp: or_unchanged_def split: sum.splits dest!: delete_script_rows)
next
  case (InsertRun x1 x2 x3 x4 x5 x6)
  with assms show ?thesis
    by (auto simp: or_unchanged_def insert_run_with_blobs_def attempt_ok_def new_run_def max_attempts_def)
next
  case (InsertIdem x1 x2 x3 x4 x5 x6 x7)
  with assms show ?thesis
    by (auto simp: or_unchanged_def insert_run_idempotent_def attempt_ok_def new_run_def max_attempts_def
        split: option.splits)
next
  case (InsertRefused x1 x2 x3 x4 x5 x6)
  with assms show ?thesis
    by (auto simp: or_unchanged_def insert_refused_run_def attempt_ok_def new_run_def max_attempts_def)
next
  case (Touch x1 x2)
  show ?thesis unfolding Touch exec_stmt.simps touch_run_def Let_def snd_conv
    by (rule attempt_update [OF assms(1)]) simp
next
  case (Finish x1 x2 x3 x4 x5)
  show ?thesis unfolding Finish exec_stmt.simps finish_run_def Let_def snd_conv
    by (rule attempt_update [OF assms(1)]) simp
next
  case (Cancel x1 x2 x3)
  show ?thesis unfolding Cancel exec_stmt.simps cancel_run_def Let_def snd_conv
    by (rule attempt_update [OF assms(1)]) simp
next
  case (FailStale x1 x2)
  show ?thesis unfolding FailStale exec_stmt.simps fail_stale_pending_def Let_def snd_conv
    by (rule attempt_update [OF assms(1)]) simp
next
  case (SetResult x1 x2)
  show ?thesis unfolding SetResult exec_stmt.simps set_run_result_def Let_def snd_conv
    by (rule attempt_update [OF assms(1)]) simp
next
  case (SetOutputBlobs x1 x2)
  show ?thesis unfolding SetOutputBlobs exec_stmt.simps set_run_output_blobs_def Let_def snd_conv
    by (rule attempt_update [OF assms(1)]) simp
next
  case (SetReceipt x1 x2)
  show ?thesis unfolding SetReceipt exec_stmt.simps set_run_receipt_def Let_def snd_conv
    by (rule attempt_update [OF assms(1)]) simp
next
  case (SetProgress x1 x2)
  show ?thesis unfolding SetProgress exec_stmt.simps update_run_progress_def Let_def snd_conv
    by (rule attempt_update [OF assms(1)]) simp
next
  case (SetCacheKey x1 x2)
  show ?thesis unfolding SetCacheKey exec_stmt.simps set_run_cache_key_def Let_def snd_conv
    by (rule attempt_update [OF assms(1)]) simp
qed (use assms in \<open>auto simp: or_unchanged_def delete_trigger_def insert_script_def
       insert_trigger_def update_script_def split: sum.splits option.splits if_splits\<close>)

text \<open>The reaper returns a run with one more put-back on its account.\<close>

lemma reap_attempts:
  assumes wf: "runs_wf d" and ok: "\<forall>r\<in>set (runs d). attempt_ok k r"
  shows "\<forall>r\<in>set (runs (exec_stmt (Reap now lease) d)).
    attempt_ok (\<lambda>i. k i + (if reaps (Client (Reap now lease)) d i then 1 else 0)) r"
proof
  fix r assume "r \<in> set (runs (exec_stmt (Reap now lease) d))"
  then obtain q where q: "q \<in> set (runs d)"
    and r: "r = (if r_status q = Running \<and> lease_expired now lease q then back_to_pending q else q)"
    by (fastforce simp: reap_orphan_runs_def Let_def set_update_where)
  from ok q have "attempt_ok k q" by blast
  with r run_by_id_in [OF wf q]
  show "attempt_ok (\<lambda>i. k i + (if reaps (Client (Reap now lease)) d i then 1 else 0)) r"
    by (auto simp: attempt_ok_def back_to_pending_def split: if_splits)
qed

lemma process_job_attempts:
  assumes ok: "attempts_ok k d" and r: "run_by_id (cj_run_id job) d = Some r"
    and run: "r_status r = Running" and few: "r_attempts r < max_attempts + int (k (r_id r))"
  shows "attempts_ok k (process_job env job d)"
proof -
  let ?rid = "cj_run_id job"
  have rid: "r_id r = ?rid" using r by (auto dest: run_by_idD)
  from mark_lookup [OF r] obtain d1 where
    m: "mark_attempt ?rid d = Inr (r_attempts r + 1, d1)"
    and l: "\<And>i. run_by_id i d1 =
       map_option (\<lambda>q. if r_id q = ?rid then q\<lparr>r_attempts := r_attempts q + 1\<rparr> else q) (run_by_id i d)"
    by blast
  let ?a = "job_args job (job_input job d1)"
  let ?d2 = "exec_run env ?a d1"
  have r1: "run_by_id (ra_run_id ?a) d1 = Some (r\<lparr>r_attempts := r_attempts r + 1\<rparr>)"
    using l r rid by simp
  have ev: "evolved ?rid d1 ?d2" using exec_run_ends(1) [OF r1, of env] by simp
  have wf1: "runs_wf d1" using mark_attempt_wf [OF _ m] ok by (simp add: attempts_ok_def)
  have wf2: "runs_wf ?d2" by (rule exec_run_wf [OF r1 wf1])
  have others: "attempt_ok k q" if q: "run_by_id i ?d2 = Some q" and i: "i \<noteq> ?rid" for i q
  proof (cases "run_by_id i d")
    case None
    then have "run_by_id i d1 = None" by (simp add: l)
    from evolved_new [OF ev this q] show ?thesis by (auto simp: fresh_def attempt_ok_def max_attempts_def)
  next
    case (Some q0)
    have id0: "r_id q0 = i" using run_by_idD [OF Some] by simp
    then have "run_by_id i d1 = Some q0" using Some i by (simp add: l)
    from evolved_old [OF ev this] q have "moved ?rid q0 q" by simp
    with attempts_okD [OF ok Some] id0 i show ?thesis by (auto simp: moved_def attempt_ok_def)
  qed
  from evolved_old [OF ev r1 [unfolded job_args_id]] obtain r2 where
    r2: "run_by_id ?rid ?d2 = Some r2" "moved ?rid (r\<lparr>r_attempts := r_attempts r + 1\<rparr>) r2" by blast
  have "r_attempts r2 = r_attempts r + 1" "r_status r2 \<noteq> Pending"
    using r2(2) run by (auto simp: moved_def)
  moreover have "r_id r2 = r_id r" using r2(2) by (simp add: moved_def)
  ultimately have this_ok: "attempt_ok k r2" using few by (simp add: attempt_ok_def)
  have ok2: "attempt_ok k q" if "run_by_id i ?d2 = Some q" for i q
    using others [OF that] this_ok r2(1) that by (cases "i = ?rid") auto
  have proc: "process_job env job d = (if may_retry job (r_attempts r + 1) ?d2 then requeue ?rid ?d2 else ?d2)"
    by (simp add: process_job_def m)
  show ?thesis
  proof (cases "may_retry job (r_attempts r + 1) ?d2")
    case False
    with wf2 ok2 show ?thesis by (auto simp: proc intro: attempts_okI)
  next
    case True
    then have less: "r_attempts r + 1 < max_attempts" by (auto simp: may_retry_def split: option.splits)
    have "attempt_ok k q" if q: "run_by_id i (requeue ?rid ?d2) = Some q" for i q
    proof (cases "i = ?rid")
      case True
      have "r_id r2 = ?rid" using run_by_idD [OF r2(1)] by simp
      with q True r2(1) \<open>r_attempts r2 = _\<close> less show ?thesis
        by (auto simp: requeue_lookup back_to_pending_def attempt_ok_def)
    next
      case False
      from q obtain q0 where q0: "run_by_id i ?d2 = Some q0"
        "q = (if r_id q0 = ?rid then back_to_pending q0 else q0)" by (auto simp: requeue_lookup)
      with False have "q = q0" using run_by_idD [OF q0(1)] by simp
      with ok2 q0(1) show ?thesis by simp
    qed
    with requeue_wf [OF wf2] True show ?thesis by (auto simp: proc intro: attempts_okI)
  qed
qed

lemma claim_lookup:
  assumes wf: "runs_wf d" and c: "claim_run now caps locked d = (Some job, d')"
  shows "\<exists>r. run_by_id (cj_run_id job) d = Some r \<and> r_status r = Pending \<and>
    run_by_id (cj_run_id job) d' = Some (start_run now r) \<and>
    (\<forall>i. i \<noteq> cj_run_id job \<longrightarrow> run_by_id i d' = run_by_id i d)"
proof -
  from c obtain r where sel: "select_first r_id (claimable caps locked d) (runs d) = Some r"
    and job: "map_option (job_of r) (get_script (r_script_id r) d) = Some job"
    and d': "d' = d\<lparr>runs := update_where (\<lambda>q. r_id q = r_id r) (start_run now) (runs d)\<rparr>"
    by (auto simp: claim_run_def split: option.splits)
  have id: "cj_run_id job = r_id r" using job by (auto simp: job_of_def)
  have r: "r \<in> set (runs d)" "r_status r = Pending"
    using select_first_Some(1,2) [OF sel] by (auto simp: claimable_def)
  have look: "run_by_id i d' = map_option (\<lambda>q. if r_id q = r_id r then start_run now q else q) (run_by_id i d)" for i
    unfolding d' by (rule run_by_id_update) (simp add: start_run_def)
  have "run_by_id i d' = run_by_id i d" if "i \<noteq> r_id r" for i
    using that run_by_idD [of i d] by (cases "run_by_id i d") (auto simp: look)
  with run_by_id_in [OF wf r(1)] r(2) show ?thesis by (auto simp: look id)
qed

lemma claimed_none:
  "runs_wf d \<Longrightarrow> claim_run now caps locked d = (None, d') \<Longrightarrow> d' = d"
  by (auto simp: claim_run_def runs_wf_def split: option.splits dest!: select_first_Some(1))

lemma claimed_attempts:
  assumes ok: "attempts_ok k d" and c: "claim_run now caps locked d = (Some job, d')"
  shows "attempts_ok k d' \<and> (\<exists>r. run_by_id (cj_run_id job) d' = Some r \<and> r_status r = Running \<and>
    r_attempts r < max_attempts + int (k (r_id r)))"
proof -
  have wf: "runs_wf d" using ok by (simp add: attempts_ok_def)
  have wf': "runs_wf d'" using claim_run_wf [OF wf, of now caps locked] c by simp
  from claim_lookup [OF wf c] obtain r where r: "run_by_id (cj_run_id job) d = Some r"
    "r_status r = Pending" "run_by_id (cj_run_id job) d' = Some (start_run now r)"
    "\<And>i. i \<noteq> cj_run_id job \<Longrightarrow> run_by_id i d' = run_by_id i d" by blast
  have few: "r_attempts r < max_attempts + int (k (r_id r))"
    using attempts_okD [OF ok r(1)] r(2) by (simp add: attempt_ok_def)
  have "attempts_ok k d'"
  proof (rule attempts_okI [OF wf'])
    fix i q assume q: "run_by_id i d' = Some q"
    show "attempt_ok k q"
    proof (cases "i = cj_run_id job")
      case True
      with q r(3) few show ?thesis by (auto simp: start_run_def attempt_ok_def)
    next
      case False
      with q r(4) attempts_okD [OF ok] show ?thesis by metis
    qed
  qed
  with r(3) few show ?thesis by (auto simp: start_run_def)
qed

lemma work_once_attempts:
  assumes ok: "attempts_ok k d" shows "attempts_ok k (work_once env caps locked d)"
proof -
  obtain jo d' where c: "claim_run (ee_clock env d) caps locked d = (jo, d')" by fastforce
  show ?thesis
  proof (cases jo)
    case None
    from ok have "runs_wf d" by (simp add: attempts_ok_def)
    from claimed_none [OF this c [unfolded None]] ok show ?thesis by (simp add: work_once_def c None)
  next
    case (Some job)
    from claimed_attempts [OF ok c [unfolded Some]] process_job_attempts [of k d' job _ env]
    show ?thesis by (auto simp: work_once_def c Some)
  qed
qed

lemma work_dies_attempts:
  assumes ok: "attempts_ok k d" shows "attempts_ok k (work_dies env caps locked d)"
proof -
  obtain jo d' where c: "claim_run (ee_clock env d) caps locked d = (jo, d')" by fastforce
  have wf: "runs_wf d" using ok by (simp add: attempts_ok_def)
  show ?thesis
  proof (cases jo)
    case None
    from claimed_none [OF wf c [unfolded None]] ok show ?thesis by (simp add: work_dies_def c None)
  next
    case (Some job)
    let ?rid = "cj_run_id job"
    from claimed_attempts [OF ok] c Some obtain r where ok': "attempts_ok k d'"
      and r: "run_by_id ?rid d' = Some r" "r_status r = Running" "r_attempts r < max_attempts + int (k (r_id r))"
      by blast
    have rid: "r_id r = ?rid" using r(1) by (auto dest: run_by_idD)
    from mark_lookup [OF r(1)] obtain d1 where
      m: "mark_attempt ?rid d' = Inr (r_attempts r + 1, d1)"
      and l: "\<And>i. run_by_id i d1 =
         map_option (\<lambda>q. if r_id q = ?rid then q\<lparr>r_attempts := r_attempts q + 1\<rparr> else q) (run_by_id i d')"
      by blast
    have wf1: "runs_wf d1" using mark_attempt_wf [OF _ m] ok' by (simp add: attempts_ok_def)
    have "attempt_ok k q" if "run_by_id i d1 = Some q" for i q
    proof (cases "i = ?rid")
      case True
      with that l r rid show ?thesis by (auto simp: attempt_ok_def)
    next
      case False
      from that l obtain q0 where q0: "run_by_id i d' = Some q0"
        "q = (if r_id q0 = ?rid then q0\<lparr>r_attempts := r_attempts q0 + 1\<rparr> else q0)" by auto
      with False attempts_okD [OF ok' q0(1)] show ?thesis using run_by_idD [OF q0(1)] by simp
    qed
    with wf1 show ?thesis by (auto simp: work_dies_def c Some m intro: attempts_okI)
  qed
qed

lemma work_step_attempts:
  assumes ok: "attempts_ok k d" and "work_ok w"
  shows "attempts_ok (\<lambda>i. k i + (if reaps w d i then 1 else 0)) (work_step w d)"
proof (cases w)
  case (Turn env caps locked)
  with ok show ?thesis by (simp add: work_once_attempts)
next
  case (Dies env caps locked)
  with ok show ?thesis by (simp add: work_dies_attempts)
next
  case (Client s)
  have wf: "runs_wf d" "runs_wf (exec_stmt s d)" using ok exec_stmt_wf [of d s] by (simp_all add: attempts_ok_def)
  show ?thesis
  proof (cases "\<exists>now lease. s = Reap now lease")
    case True
    then obtain now lease where s: "s = Reap now lease" by blast
    from reap_attempts [OF wf(1), of k now lease] ok wf(2) show ?thesis
      by (simp add: attempts_ok_def Client s)
  next
    case False
    then have "\<not> reaps w d i" for i using Client by (cases s) simp_all
    with client_attempts [of d k s] False assms wf(2) Client show ?thesis by (simp add: attempts_ok_def)
  qed
qed

lemma work_attempts:
  "attempts_ok k d \<Longrightarrow> list_all work_ok ws \<Longrightarrow>
   attempts_ok (\<lambda>i. k i + times_reaped i ws d) (fold work_step ws d)"
proof (induction ws arbitrary: k d)
  case (Cons w ws)
  from Cons.prems have "work_ok w" "list_all work_ok ws" by simp_all
  from Cons.IH [OF work_step_attempts [OF Cons.prems(1) this(1)] this(2)] show ?case
    by (simp add: add.assoc)
qed simp

text \<open>
  C11. However often runs fail, workers die and clients step in between the turns: the workers start a
  run at most three times and once more for every time the reaper took it back from a dead
  worker, and a run that is waiting has an attempt left on that account.  The retry rule alone
  never starts a run a fourth time; the reaper looks at no attempts.
\<close>

theorem attempts_bounded:
  assumes "list_all work_ok ws" and "run_by_id i (fold work_step ws empty_db) = Some r"
  shows "r_attempts r \<le> 3 + int (times_reaped i ws empty_db) \<and>
    (r_status r = Pending \<longrightarrow> r_attempts r < 3 + int (times_reaped i ws empty_db))"
proof -
  have "attempts_ok (\<lambda>i. 0) empty_db" by (simp add: attempts_ok_def empty_db_wf) (simp add: empty_db_def)
  from attempts_okD [OF work_attempts [OF this assms(1)] assms(2)] show ?thesis
    using run_by_idD [OF assms(2)] by (simp add: attempt_ok_def max_attempts_def)
qed

definition sample_works :: "work list" where
  "sample_works =
     [Client (InsertScript ''s'' ''bash'' ''x'' None None False None None False None),
      Client (InsertRun 0 1 (JObj []) None None False), Dies sample_host [''bash''] [],
      Client (Reap 1000 600), Turn sample_host [''bash''] []]"

lemmas work_eval =
  empty_db_def insert_script_def insert_run_with_blobs_def or_unchanged_def get_script_def new_run_def
  work_dies_def claim_run_def claimable_def select_first_def start_run_def job_of_def mark_attempt_def
  run_by_id_def reap_orphan_runs_def lease_expired_def back_to_pending_def update_where_def

lemma sample_clock: "ee_clock sample_host d = 7"
  by (simp add: sample_host_def)

lemma sample_reaped: "times_reaped 1 sample_works empty_db = 1"
  by (simp add: sample_works_def work_eval sample_clock)

theorem attempts_bounded_witness:
  "case run_by_id 1 (fold work_step sample_works empty_db) of
     Some r \<Rightarrow> r_attempts r \<le> 4 | None \<Rightarrow> True"
proof (cases "run_by_id 1 (fold work_step sample_works empty_db)")
  case (Some r)
  from attempts_bounded [OF _ Some] have "r_attempts r \<le> 3 + int (times_reaped 1 sample_works empty_db)"
    by (simp add: sample_works_def)
  with Some show ?thesis by (simp add: sample_reaped)
qed simp

text \<open>
  The bound is not three: a run whose worker dies with it is taken back and started again after every
  lease, as often as that happens.
\<close>

definition dying :: "nat \<Rightarrow> work list" where
  "dying n = concat (replicate n [Dies sample_host [''bash''] [], Client (Reap 1000 600)])"

definition dying_db :: "nat \<Rightarrow> db" where
  "dying_db n =
     (fold work_step (take 2 sample_works) empty_db)\<lparr>runs := [(new_run 1 1 (JObj []) None 0)\<lparr>r_attempts := int n\<rparr>]\<rparr>"

lemma dying_start: "fold work_step (take 2 sample_works) empty_db = dying_db 0"
  by (simp add: dying_db_def sample_works_def work_eval sample_clock)

lemma dying_once:
  "work_step (Client (Reap 1000 600)) (work_step (Dies sample_host [''bash''] []) (dying_db n)) = dying_db (Suc n)"
  by (simp add: dying_db_def sample_works_def work_eval sample_clock)

lemma dying_many: "fold work_step (dying n) (dying_db m) = dying_db (m + n)"
proof (induction n arbitrary: m)
  case (Suc n)
  have "fold work_step (dying (Suc n)) (dying_db m) = fold work_step (dying n) (dying_db (Suc m))"
    by (simp only: dying_def replicate_Suc concat.simps fold_append fold_simps comp_apply append.simps dying_once)
  with Suc.IH [of "Suc m"] show ?case by simp
qed (simp add: dying_def)

lemma reaped_without_bound:
  "\<exists>r. run_by_id 1 (fold work_step (take 2 sample_works @ dying n) empty_db) = Some r \<and>
     r_status r = Pending \<and> r_attempts r = int n"
proof -
  have "fold work_step (take 2 sample_works @ dying n) empty_db = dying_db n"
    using dying_many [of n 0] by (simp add: dying_start)
  then show ?thesis by (simp add: dying_db_def run_by_id_def new_run_def)
qed

text \<open>The retry rule, exactly: after its turn a claimed run is waiting again if and only if it
  ended without an exit code, this was not the third attempt, and it is not a timeout of a script
  that set its own limit; otherwise it has ended.  An exit code is never retried, whatever it is.\<close>

theorem retry_exact:
  assumes "run_by_id (cj_run_id job) d = Some r" and "r_status r = Running"
  shows "\<exists>r'. run_by_id (cj_run_id job) (process_job env job d) = Some r' \<and>
    r_attempts r' = r_attempts r + 1 \<and> r_status r' \<in> {Pending, Succeeded, Failed} \<and>
    (r_status r' = Pending \<longleftrightarrow>
       r_exit_code r' = None \<and> r_attempts r' < 3 \<and>
       \<not> (cj_timeout_secs job \<noteq> None \<and> r_error r' = Some ''timeout''))"
proof -
  let ?rid = "cj_run_id job" and ?r = "r\<lparr>r_attempts := r_attempts r + 1\<rparr>"
  from process_job_outcome [OF assms(1), of env] obtain d1 r1 where
    m: "mark_attempt ?rid d = Inr (r_attempts r + 1, d1)"
    and r1: "run_by_id ?rid (exec_run env (job_args job (job_input job d1)) d1) = Some r1"
    and shape: "infra_failed ?r r1 \<or> executed env (job_args job (job_input job d1)) ?r r1"
    by blast
  let ?d2 = "exec_run env (job_args job (job_input job d1)) d1"
  have proc: "process_job env job d = (if may_retry job (r_attempts r + 1) ?d2 then requeue ?rid ?d2 else ?d2)"
    by (simp add: process_job_def m)
  have id: "r_id r1 = ?rid" using run_by_idD [OF r1] by simp
  have kinds: "r_status r1 = Failed \<and> r_exit_code r1 = None \<or>
      r_status r1 \<in> {Succeeded, Failed} \<and> r_exit_code r1 \<noteq> None" and att: "r_attempts r1 = r_attempts r + 1"
    using shape assms(2)
    by (auto simp: infra_failed_def executed_def finished_row_def ended_def split: if_splits)
  have retry: "may_retry job (r_attempts r + 1) ?d2 \<longleftrightarrow>
      r_exit_code r1 = None \<and> r_attempts r1 < 3 \<and>
      \<not> (cj_timeout_secs job \<noteq> None \<and> r_error r1 = Some ''timeout'')"
    using kinds att by (auto simp: may_retry_def run_outcome_def run_error_def r1 max_attempts_def)
  show ?thesis
  proof (cases "may_retry job (r_attempts r + 1) ?d2")
    case True
    with r1 id retry att show ?thesis
      by (intro exI [of _ "back_to_pending r1"]) (simp add: proc requeue_lookup back_to_pending_def)
  next
    case False
    with r1 retry att kinds show ?thesis by (intro exI [of _ r1]) (auto simp: proc)
  qed
qed

definition sample_job :: claimed_job where
  "sample_job =
     \<lparr>cj_run_id = 1, cj_script_id = 1, cj_runtime = ''bash'', cj_source = ''x'', cj_input = JNull,
      cj_agent_id = None, cj_network = False, cj_mem_limit_mb = None, cj_cpu_limit = None,
      cj_feed_prev_result = False, cj_input_blobs = None, cj_capture_output = False,
      cj_timeout_secs = None\<rparr>"

theorem retry_exact_witness:
  "\<exists>r'. run_by_id 1 (process_job sample_host sample_job
      (pump_db\<lparr>runs := [start_run 3 (new_run 1 1 (JObj []) None 0)]\<rparr>)) = Some r' \<and> r_attempts r' = 1"
proof -
  have id: "cj_run_id sample_job = 1" by (simp add: sample_job_def)
  have "run_by_id (cj_run_id sample_job) (pump_db\<lparr>runs := [start_run 3 (new_run 1 1 (JObj []) None 0)]\<rparr>) =
      Some (start_run 3 (new_run 1 1 (JObj []) None 0))"
    by (simp add: id run_by_id_def start_run_def new_run_def)
  from retry_exact [OF this, of sample_host] show ?thesis
    by (simp add: id start_run_def new_run_def) blast
qed

end
