(* ===== verification/Flow_Engine.thy ===== *)
theory Flow_Engine
  imports Db_Flows Exec_Laws "HOL-Library.Word" "HOL-Library.Option_ord"
begin

text \<open>
  The flow engine of \<open>src/flow.rs\<close>: references and gates, map fan-out, one step as a container
  run with retries, saga compensation, and the pass that \<open>drive_inner\<close> repeats.

  The steps of one batch run as concurrent tasks; here they run one after the other in an order
  the environment chooses (\<open>sched\<close>).  Each touches only its own ledger row and its own runs.
  Where the source ignores a failed statement (\<open>.ok()\<close>), so does the model.
\<close>

section \<open>Limits\<close>

definition flow_lease_secs :: int where
  "flow_lease_secs = default_timeout_secs * 2"

definition max_map_fanout :: nat where
  "max_map_fanout = 1000"

definition fanout_within_cap :: "nat \<Rightarrow> bool" where
  "fanout_within_cap n = (n \<le> max_map_fanout)"

section \<open>References and gates\<close>

text \<open>A string that parses as JSON stands for its value.\<close>

definition decode_json :: "(string \<Rightarrow> json option) \<Rightarrow> json \<Rightarrow> json" where
  "decode_json parse v =
     (case v of JStr s \<Rightarrow> (case parse s of Some w \<Rightarrow> w | None \<Rightarrow> v) | _ \<Rightarrow> v)"

fun walk_ref :: "(string \<Rightarrow> json option) \<Rightarrow> string list \<Rightarrow> json \<Rightarrow> json option" where
  "walk_ref parse [] cur = Some (decode_json parse cur)"
| "walk_ref parse (p # ps) cur =
     (case jget p (decode_json parse cur) of
        None \<Rightarrow> None
      | Some v \<Rightarrow> walk_ref parse ps v)"

definition resolve_ref :: "(string \<Rightarrow> json option) \<Rightarrow> string \<Rightarrow> json \<Rightarrow> json \<Rightarrow> json option" where
  "resolve_ref parse r flow_input deps =
     (case split_on CHR ''.'' r of
        [] \<Rightarrow> None
      | rt # parts \<Rightarrow>
          if rt = ''flow_input'' then walk_ref parse parts flow_input
          else if rt = ''deps'' then walk_ref parse parts deps
          else None)"

definition coerce_str :: "(json \<Rightarrow> string) \<Rightarrow> json \<Rightarrow> string" where
  "coerce_str print v = (case v of JStr s \<Rightarrow> s | _ \<Rightarrow> print v)"

fun is_truthy :: "json \<Rightarrow> bool" where
  "is_truthy JNull = False"
| "is_truthy (JBool b) = b"
| "is_truthy (JInt i) = (i \<noteq> 0)"
| "is_truthy (JFloat q) = (q \<noteq> 0)"
| "is_truthy (JStr s) = (s \<noteq> [] \<and> s \<noteq> ''false'' \<and> s \<noteq> ''0'')"
| "is_truthy (JArr a) = (a \<noteq> [])"
| "is_truthy (JObj m) = (m \<noteq> [])"

definition eval_when ::
    "(json \<Rightarrow> string) \<Rightarrow> (string \<Rightarrow> json option) \<Rightarrow> json \<Rightarrow> json \<Rightarrow> json \<Rightarrow> bool" where
  "eval_when print parse cond flow_input deps =
     (let r = (case get_as as_str ''ref'' cond of Some s \<Rightarrow> s | None \<Rightarrow> []);
          op = (case get_as as_str ''op'' cond of Some s \<Rightarrow> s | None \<Rightarrow> ''truthy'');
          actual = (case resolve_ref parse r flow_input deps of Some v \<Rightarrow> v | None \<Rightarrow> JNull);
          expected = (case jget ''value'' cond of Some v \<Rightarrow> v | None \<Rightarrow> JNull)
      in if op = ''eq'' then coerce_str print actual = coerce_str print expected
         else if op = ''ne'' then coerce_str print actual \<noteq> coerce_str print expected
         else if op = ''contains'' then contains_str (coerce_str print actual) (coerce_str print expected)
         else if op = ''falsy'' then \<not> is_truthy actual
         else is_truthy actual)"

section \<open>Outputs and dependencies\<close>

text \<open>The map of succeeded steps to their outputs, and the ids of the skipped ones.\<close>

definition step_outputs :: "flow_step list \<Rightarrow> (string \<times> string) list" where
  "step_outputs steps =
     map (\<lambda>s. (fs_step_id s, case fs_output s of Some o' \<Rightarrow> o' | None \<Rightarrow> []))
       (filter (\<lambda>s. fs_status s = SSucceeded) steps)"

definition skipped_steps :: "flow_step list \<Rightarrow> string list" where
  "skipped_steps steps = map fs_step_id (filter (\<lambda>s. fs_status s = SSkipped) steps)"

definition build_deps :: "string list \<Rightarrow> (string \<times> string) list \<Rightarrow> json" where
  "build_deps depends_on outs =
     JObj (fold (\<lambda>d m. case map_of outs d of Some o' \<Rightarrow> obj_insert d (JStr o') m | None \<Rightarrow> m)
            depends_on [])"

section \<open>Map fan-out\<close>

datatype agg = AggSucceeded string | AggFailed

text \<open>\<open>parse::<u64>\<close> accepts digits with an optional plus sign, in range.\<close>

definition parse_u64 :: "string \<Rightarrow> nat option" where
  "parse_u64 s =
     (let t = (case s of c # r \<Rightarrow> if c = CHR ''+'' then r else s | [] \<Rightarrow> [])
      in if t \<noteq> [] \<and> (\<forall>c\<in>set t. 48 \<le> (of_char c :: nat) \<and> (of_char c :: nat) \<le> 57) \<and> digits_value t < 2 ^ 64
         then Some (digits_value t) else None)"

definition child_index :: "flow_step \<Rightarrow> nat" where
  "child_index c =
     (case parse_u64 (last (split_on CHR ''#'' (fs_step_id c))) of Some n \<Rightarrow> n | None \<Rightarrow> 0)"

definition children_of :: "string \<Rightarrow> flow_step list \<Rightarrow> flow_step list" where
  "children_of parent steps = filter (\<lambda>s. starts_with (parent @ ''#'') (fs_step_id s)) steps"

definition unfinished :: "flow_step \<Rightarrow> bool" where
  "unfinished s = (fs_status s \<in> {SPending, SRunning, SExpanded})"

definition child_value :: "flow_step \<Rightarrow> json" where
  "child_value c =
     (case (fs_status c, fs_output c) of (SSucceeded, Some o') \<Rightarrow> JStr o' | _ \<Rightarrow> JNull)"

definition aggregate_children :: "(json \<Rightarrow> string) \<Rightarrow> flow_step list \<Rightarrow> string \<Rightarrow> agg option" where
  "aggregate_children print steps parent =
     (let cs = children_of parent steps in
      if cs = [] then None
      else if \<exists>c\<in>set cs. unfinished c then None
      else if \<exists>c\<in>set cs. fs_status c = SFailed then Some AggFailed
      else Some (AggSucceeded (print (JArr (map child_value (sort_key child_index cs))))))"

text \<open>One pass over the expanded parents; says whether one of them finished.\<close>

fun aggregate_parents ::
    "exec_env \<Rightarrow> int \<Rightarrow> flow_step list \<Rightarrow> flow_step list \<Rightarrow> db \<Rightarrow> bool \<times> db" where
  "aggregate_parents env fr steps [] d = (False, d)"
| "aggregate_parents env fr steps (p # ps) d =
     (case aggregate_children (c_print (ee_crypto env)) steps (fs_step_id p) of
        None \<Rightarrow> aggregate_parents env fr steps ps d
      | Some AggFailed \<Rightarrow>
          (True, snd (aggregate_parents env fr steps ps
             (finish_step (ee_clock env d) fr (fs_step_id p) SFailed (Some ''map_child_failed'') d)))
      | Some (AggSucceeded out) \<Rightarrow>
          (True, snd (aggregate_parents env fr steps ps
             (finish_step (ee_clock env d) fr (fs_step_id p) SSucceeded (Some out) d))))"

definition map_children :: "flow_step \<Rightarrow> json list \<Rightarrow> (string \<times> int \<times> json \<times> string list) list" where
  "map_children step items =
     map (\<lambda>(i, item). (fs_step_id step @ ''#'' @ nat_str i, fs_script_id step, item, fs_depends_on step))
       (enumerate 0 items)"

definition expand :: "exec_env \<Rightarrow> int \<Rightarrow> flow_step \<Rightarrow> json \<Rightarrow> json \<Rightarrow> string \<Rightarrow> db \<Rightarrow> db" where
  "expand env fr step flow_input deps map_ref d =
     (let now = ee_clock env d; sid = fs_step_id step in
      case resolve_ref (c_parse (ee_crypto env)) map_ref flow_input deps of
        Some (JArr items) \<Rightarrow>
          if items = [] then finish_step now fr sid SSucceeded (Some ''[]'') d
          else if \<not> fanout_within_cap (length items)
          then finish_step now fr sid SFailed (Some ''map_fanout_too_large'') d
          else (case expand_map_step fr sid (map_children step items) (fs_cache step) d of
                  Inl _ \<Rightarrow> d | Inr d' \<Rightarrow> d')
      | _ \<Rightarrow> finish_step now fr sid SFailed (Some ''map_ref_not_array'') d)"

section \<open>One step\<close>

definition step_value :: "flow_step \<Rightarrow> json" where
  "step_value s = (case fs_input s of Some v \<Rightarrow> v | None \<Rightarrow> JObj [])"

definition step_run_input :: "json \<Rightarrow> json \<Rightarrow> flow_step \<Rightarrow> json" where
  "step_run_input flow_input deps step =
     mk_obj [(''flow_input'', flow_input), (''deps'', deps), (''step'', step_value step)]"

text \<open>The arguments of \<open>Executor::run\<close> for a script run by the engine, with \<open>prev_result\<close>.\<close>

definition script_args :: "script \<Rightarrow> int \<Rightarrow> json \<Rightarrow> db \<Rightarrow> run_args" where
  "script_args sc rid input d =
     \<lparr>ra_run_id = rid, ra_runtime = sc_runtime sc, ra_source = sc_source sc,
      ra_input = (if sc_feed_prev_result sc
                  then with_prev_result input (last_result_for_script (sc_id sc) rid d) else input),
      ra_agent_id = None, ra_network = sc_network sc, ra_mem_limit_mb = sc_mem_limit_mb sc,
      ra_cpu_limit = sc_cpu_limit sc, ra_input_blobs = None, ra_capture_output = False,
      ra_timeout_secs = sc_timeout_secs sc\<rparr>"

text \<open>\<open>step.retries.unwrap_or(1).max(0) as u32 + 1\<close>, with the wrap of a release build.\<close>

definition step_attempts :: "int option \<Rightarrow> nat" where
  "step_attempts retries =
     unat ((word_of_int (max (case retries of Some n \<Rightarrow> n | None \<Rightarrow> 1) 0) :: 32 word) + 1)"

definition image_digest :: "exec_env \<Rightarrow> db \<Rightarrow> string \<Rightarrow> string option" where
  "image_digest env d runtime =
     (case runtime_spec runtime of None \<Rightarrow> None | Some (img, _) \<Rightarrow> ee_digest env d img)"

definition step_cache_key :: "exec_env \<Rightarrow> script \<Rightarrow> json \<Rightarrow> db \<Rightarrow> string" where
  "step_cache_key env sc input d =
     run_cache_key (sha256_hex (ee_crypto env)) (c_print (ee_crypto env)) (sc_runtime sc)
       (case image_digest env d (sc_runtime sc) of Some g \<Rightarrow> g | None \<Rightarrow> [])
       (sc_source sc) input (secrets_generation d) None"

fun run_attempts ::
    "exec_env \<Rightarrow> int \<Rightarrow> flow_step \<Rightarrow> script \<Rightarrow> string option \<Rightarrow> json \<Rightarrow> nat \<Rightarrow> db \<Rightarrow> db" where
  "run_attempts env fr step sc key input 0 d =
     finish_step (ee_clock env d) fr (fs_step_id step) SFailed (Some ''exhausted retries'') d"
| "run_attempts env fr step sc key input (Suc n) d =
     (case insert_run (ee_clock env d) (fs_script_id step) input None d of
        Inl e \<Rightarrow> finish_step (ee_clock env d) fr (fs_step_id step) SFailed (Some (ee_db_msg env e)) d
      | Inr (rid, d1) \<Rightarrow>
          let d2 = (case key of Some k \<Rightarrow> set_run_cache_key rid k d1 | None \<Rightarrow> d1);
              d3 = set_step_running fr (fs_step_id step) rid d2;
              d4 = exec_run env (script_args sc rid input d3) d3
          in if get_run_status rid d4 = Some Succeeded
             then finish_step (ee_clock env d4) fr (fs_step_id step) SSucceeded (last_stdout rid d4) d4
             else run_attempts env fr step sc key input n d4)"

definition run_step :: "exec_env \<Rightarrow> int \<Rightarrow> json \<Rightarrow> flow_step \<Rightarrow> json \<Rightarrow> db \<Rightarrow> db" where
  "run_step env fr flow_input step deps d =
     (let now = ee_clock env d; sid = fs_step_id step in
      case get_script (fs_script_id step) d of
        None \<Rightarrow> finish_step now fr sid SFailed (Some ''script_not_found'') d
      | Some sc \<Rightarrow>
          if runtime_spec (sc_runtime sc) = None
          then finish_step now fr sid SFailed (Some ''unknown_runtime'') d
          else
            let input = step_run_input flow_input deps step in
            if fs_cache step then
              let key = step_cache_key env sc input d in
              (case find_cached_run key d of
                 Some (cached, _, _) \<Rightarrow> finish_step now fr sid SSucceeded (last_stdout cached d) d
               | None \<Rightarrow> run_attempts env fr step sc (Some key) input (step_attempts (fs_retries step)) d)
            else run_attempts env fr step sc None input (step_attempts (fs_retries step)) d)"

section \<open>Compensation\<close>

text \<open>\<open>std::cmp::Reverse\<close>: the order turned around, so that a sort is latest first.\<close>

datatype 'a reverse = Reverse 'a

fun unreverse :: "'a reverse \<Rightarrow> 'a" where
  "unreverse (Reverse x) = x"

instantiation reverse :: (linorder) linorder
begin

definition less_eq_reverse :: "'a reverse \<Rightarrow> 'a reverse \<Rightarrow> bool" where
  "less_eq_reverse x y = (unreverse y \<le> unreverse x)"

definition less_reverse :: "'a reverse \<Rightarrow> 'a reverse \<Rightarrow> bool" where
  "less_reverse x y = (unreverse y < unreverse x)"

instance
proof
  fix x y z :: "'a reverse"
  show "x < y \<longleftrightarrow> x \<le> y \<and> \<not> y \<le> x" by (auto simp: less_reverse_def less_eq_reverse_def)
  show "x \<le> x" by (simp add: less_eq_reverse_def)
  show "x \<le> y \<Longrightarrow> y \<le> z \<Longrightarrow> x \<le> z" by (auto simp: less_eq_reverse_def)
  show "x \<le> y \<Longrightarrow> y \<le> x \<Longrightarrow> x = y" by (cases x; cases y) (auto simp: less_eq_reverse_def)
  show "x \<le> y \<or> y \<le> x" by (auto simp: less_eq_reverse_def)
qed

end

definition compensable :: "flow_step \<Rightarrow> bool" where
  "compensable s = (fs_status s = SSucceeded \<and> \<not> fs_compensated s \<and> fs_compensate s \<noteq> None)"

definition comp_order :: "flow_step list \<Rightarrow> flow_step list" where
  "comp_order steps = sort_key (\<lambda>s. Reverse (fs_finished_at s)) (filter compensable steps)"

definition comp_input :: "json \<Rightarrow> flow_step \<Rightarrow> json" where
  "comp_input flow_input step =
     mk_obj [(''flow_input'', flow_input), (''step'', step_value step),
             (''output'', jopt JStr (fs_output step))]"

text \<open>One compensation; the count of failed ones goes along.\<close>

definition compensate_one ::
    "exec_env \<Rightarrow> int \<Rightarrow> json \<Rightarrow> flow_step \<Rightarrow> nat \<times> db \<Rightarrow> nat \<times> db" where
  "compensate_one env fr flow_input step s =
     (case s of (failed, d) \<Rightarrow>
        let comp_id = (case fs_compensate step of Some i \<Rightarrow> i | None \<Rightarrow> 0);
            input = comp_input flow_input step in
        case get_script comp_id d of
          None \<Rightarrow> (failed, d)
        | Some sc \<Rightarrow>
            if runtime_spec (sc_runtime sc) = None then (failed, d)
            else (case insert_run (ee_clock env d) comp_id input None d of
               Inl _ \<Rightarrow> (failed, d)
             | Inr (rid, d1) \<Rightarrow>
                 let d2 = exec_run env (script_args sc rid input d1) d1;
                     d3 = mark_step_compensated fr (fs_step_id step) d2
                 in (if get_run_status rid d2 = Some Succeeded then failed else failed + 1, d3)))"

definition compensate :: "exec_env \<Rightarrow> int \<Rightarrow> json \<Rightarrow> flow_step list \<Rightarrow> db \<Rightarrow> nat \<times> db" where
  "compensate env fr flow_input steps d =
     fold (compensate_one env fr flow_input) (comp_order steps) (0, d)"

section \<open>A pass\<close>

text \<open>What a pass does with one pending step.\<close>

datatype decision = Wait | Skip | Expand json string | Run json

definition decide ::
    "exec_env \<Rightarrow> json \<Rightarrow> (string \<times> string) list \<Rightarrow> string list \<Rightarrow> flow_step \<Rightarrow> decision" where
  "decide env flow_input outs skipped step =
     (if \<not> (\<forall>x\<in>set (fs_depends_on step). map_of outs x \<noteq> None \<or> x \<in> set skipped) then Wait
      else if \<exists>x\<in>set (fs_depends_on step). x \<in> set skipped then Skip
      else
        let deps = build_deps (fs_depends_on step) outs in
        if (case fs_when_cond step of
              Some c \<Rightarrow> \<not> eval_when (c_print (ee_crypto env)) (c_parse (ee_crypto env)) c flow_input deps
            | None \<Rightarrow> False) then Skip
        else (case fs_map_ref step of Some m \<Rightarrow> Expand deps m | None \<Rightarrow> Run deps))"

fun resolve_pending ::
    "exec_env \<Rightarrow> int \<Rightarrow> json \<Rightarrow> (string \<times> string) list \<Rightarrow> string list \<Rightarrow> flow_step list \<Rightarrow> db
     \<Rightarrow> bool \<times> (flow_step \<times> json) list \<times> db" where
  "resolve_pending env fr flow_input outs skipped [] d = (False, [], d)"
| "resolve_pending env fr flow_input outs skipped (s # ss) d =
     (case decide env flow_input outs skipped s of
        Wait \<Rightarrow> resolve_pending env fr flow_input outs skipped ss d
      | Skip \<Rightarrow>
          (True, snd (resolve_pending env fr flow_input outs skipped ss
             (mark_step_skipped (ee_clock env d) fr (fs_step_id s) d)))
      | Expand deps m \<Rightarrow>
          (True, snd (resolve_pending env fr flow_input outs skipped ss
             (expand env fr s flow_input deps m d)))
      | Run deps \<Rightarrow>
          (case resolve_pending env fr flow_input outs skipped ss d of
             (progressed, to_run, d') \<Rightarrow> (progressed, (s, deps) # to_run, d')))"

text \<open>The batch, in the order the environment lets the tasks run.\<close>

type_synonym sched = "db \<Rightarrow> (flow_step \<times> json) list \<Rightarrow> (flow_step \<times> json) list"

definition run_batch ::
    "exec_env \<Rightarrow> sched \<Rightarrow> int \<Rightarrow> json \<Rightarrow> (flow_step \<times> json) list \<Rightarrow> db \<Rightarrow> db" where
  "run_batch env sched fr flow_input batch d =
     fold (\<lambda>(s, deps) d. run_step env fr flow_input s deps d) (sched d batch) d"

datatype pass = Done db | Again db | Idle db

definition drive_pass :: "exec_env \<Rightarrow> sched \<Rightarrow> int \<Rightarrow> json \<Rightarrow> db \<Rightarrow> pass" where
  "drive_pass env sched fr flow_input d =
     (let d0 = touch_flow_run (ee_clock env d) fr d; steps = steps_of fr d0 in
      if \<exists>s\<in>set steps. fs_status s = SFailed then
        (case compensate env fr flow_input steps d0 of
           (failed, d1) \<Rightarrow>
             Done (finish_flow_run (ee_clock env d1) fr (if 0 < failed then FCompFailed else FFailed) d1))
      else if \<not> (\<exists>s\<in>set steps. unfinished s) then Done (finish_flow_run (ee_clock env d0) fr FSucceeded d0)
      else
        (case aggregate_parents env fr steps (filter (\<lambda>s. fs_status s = SExpanded) steps) d0 of
           (progressed, d1) \<Rightarrow>
             if progressed then Again d1
             else
               (case resolve_pending env fr flow_input (step_outputs steps) (skipped_steps steps)
                       (filter (\<lambda>s. fs_status s = SPending) steps) d1 of
                  (progressed, to_run, d2) \<Rightarrow>
                    if to_run \<noteq> [] then Again (run_batch env sched fr flow_input to_run d2)
                    else if progressed then Again d2
                    else Idle d2)))"

text \<open>The loop, for at most \<open>n\<close> passes; an idle pass is one that slept and polls again.\<close>

fun drive :: "nat \<Rightarrow> exec_env \<Rightarrow> sched \<Rightarrow> int \<Rightarrow> json \<Rightarrow> db \<Rightarrow> db option" where
  "drive 0 env sched fr flow_input d = None"
| "drive (Suc n) env sched fr flow_input d =
     (case drive_pass env sched fr flow_input d of
        Done d' \<Rightarrow> Some d'
      | Again d' \<Rightarrow> drive n env sched fr flow_input d'
      | Idle d' \<Rightarrow> drive n env sched fr flow_input d')"

text \<open>One turn of the engine's loop: claim the oldest pending flow run and drive it.\<close>

definition engine_turn :: "nat \<Rightarrow> exec_env \<Rightarrow> sched \<Rightarrow> int list \<Rightarrow> db \<Rightarrow> db option" where
  "engine_turn n env sched locked d =
     (case claim_flow_run (ee_clock env d) locked d of
        (None, d') \<Rightarrow> Some d'
      | (Some (fr, input), d') \<Rightarrow> drive n env sched fr input d')"

end
