(* ===== verification/Flow_Laws.thy ===== *)
theory Flow_Laws
  imports Flow_Engine "HOL-Library.Multiset"
begin

text \<open>
  What the flow engine guarantees: a validated flow always comes to an end, and how; a step runs
  only after its dependencies; fan-out results keep their order; compensation runs backwards.
\<close>

section \<open>The rows of one flow run\<close>

definition rows_of :: "int \<Rightarrow> db \<Rightarrow> flow_step list" where
  "rows_of fr d = filter (\<lambda>s. fs_flow_run s = fr) (flow_steps d)"

lemma steps_of_rows: "steps_of fr d = map default_input (rows_of fr d)"
  by (simp add: steps_of_def rows_of_def)

lemma default_input_sel [simp]:
  "fs_step_id (default_input s) = fs_step_id s" "fs_status (default_input s) = fs_status s"
  "fs_depends_on (default_input s) = fs_depends_on s" "fs_map_ref (default_input s) = fs_map_ref s"
  "fs_script_id (default_input s) = fs_script_id s" "fs_output (default_input s) = fs_output s"
  "fs_flow_run (default_input s) = fs_flow_run s" "fs_cache (default_input s) = fs_cache s"
  by (simp_all add: default_input_def)

text \<open>An update that touches only the progress columns of a row.\<close>

definition progress_update :: "(flow_step \<Rightarrow> flow_step) \<Rightarrow> bool" where
  "progress_update f =
     (\<forall>s. fs_step_id (f s) = fs_step_id s \<and> fs_flow_run (f s) = fs_flow_run s \<and>
          fs_script_id (f s) = fs_script_id s \<and> fs_depends_on (f s) = fs_depends_on s \<and>
          fs_map_ref (f s) = fs_map_ref s)"

lemma progress_updates [simp]:
  "progress_update (\<lambda>s. s\<lparr>fs_status := st, fs_output := out, fs_finished_at := t\<rparr>)"
  "progress_update (\<lambda>s. s\<lparr>fs_status := st, fs_finished_at := t\<rparr>)"
  "progress_update (\<lambda>s. s\<lparr>fs_status := st, fs_run_id := ri\<rparr>)"
  "progress_update (\<lambda>s. s\<lparr>fs_status := st\<rparr>)" "progress_update (\<lambda>s. s\<lparr>fs_compensated := b\<rparr>)"
  by (simp_all add: progress_update_def)

lemma filter_update_where:
  "(\<And>s. Q (f s) = Q s) \<Longrightarrow> (\<And>s. Q s \<Longrightarrow> P s = P' s) \<Longrightarrow> (\<And>s. \<not> Q s \<Longrightarrow> \<not> P s) \<Longrightarrow>
   filter Q (update_where P f rows) = update_where P' f (filter Q rows)"
  by (induction rows) auto

lemma rows_of_upd:
  "progress_update f \<Longrightarrow>
   rows_of fr (upd_step fr sid f d) = update_where (\<lambda>s. fs_step_id s = sid) f (rows_of fr d)"
  unfolding rows_of_def upd_step_def by (simp add: progress_update_def) (rule filter_update_where; simp)

lemma rows_of_cong: "flow_steps d' = flow_steps d \<Longrightarrow> rows_of fr d' = rows_of fr d"
  by (simp add: rows_of_def)

lemma has_step_rows: "has_step fr sid d \<longleftrightarrow> sid \<in> fs_step_id ` set (rows_of fr d)"
  by (auto simp: has_step_def rows_of_def)

section \<open>The measure\<close>

text \<open>What is left to do for a row: a map step still has to fan out, at most to the cap.\<close>

definition weight :: "flow_step \<Rightarrow> nat" where
  "weight s =
     (case fs_status s of
        SPending \<Rightarrow> if fs_map_ref s = None then 1 else max_map_fanout + 2
      | SRunning \<Rightarrow> 1 | SExpanded \<Rightarrow> 1 | _ \<Rightarrow> 0)"

definition work_left :: "int \<Rightarrow> db \<Rightarrow> nat" where
  "work_left fr d = sum_list (map weight (rows_of fr d))"

lemma sum_update:
  assumes "distinct (map fs_step_id rows)" and "s \<in> set rows"
  shows "sum_list (map w (update_where (\<lambda>t. fs_step_id t = fs_step_id s) f rows)) + w s =
    sum_list (map w rows) + (w (f s) :: nat)"
  using assms
proof (induction rows)
  case (Cons t rows)
  show ?case
  proof (cases "s = t")
    case True
    with Cons.prems have "update_where (\<lambda>t. fs_step_id t = fs_step_id s) f rows = rows"
      by (intro update_where_none) (auto simp: image_iff)
    with True show ?thesis by simp
  next
    case False
    with Cons.prems have "fs_step_id t \<noteq> fs_step_id s" by (auto simp: image_iff)
    with Cons False show ?thesis by simp
  qed
qed simp

lemma sum_update_absent:
  "sid \<notin> fs_step_id ` set rows \<Longrightarrow> update_where (\<lambda>t. fs_step_id t = sid) f rows = rows"
  by (rule update_where_none) auto

section \<open>The invariant between passes\<close>

definition base :: "string \<Rightarrow> string" where
  "base i = takeWhile (\<lambda>c. c \<noteq> CHR ''#'') i"

lemma base_id: "CHR ''#'' \<notin> set i \<Longrightarrow> base i = i"
  by (simp add: base_def takeWhile_eq_all_conv) metis

lemma base_child: "CHR ''#'' \<notin> set p \<Longrightarrow> base (p @ CHR ''#'' # x) = p"
  unfolding base_def by (subst takeWhile_append2) auto

text \<open>
  \<open>rank\<close> orders the graph, \<open>X\<close> holds the ids that may be marked running.  Ids with a hash sign
  are fan-out children; an expanded step has at least one.
\<close>

definition row_inv :: "int \<Rightarrow> (string \<Rightarrow> nat) \<Rightarrow> string set \<Rightarrow> db \<Rightarrow> flow_step \<Rightarrow> bool" where
  "row_inv fr rank X d s =
     (get_script (fs_script_id s) d \<noteq> None \<and>
      (\<forall>x\<in>set (fs_depends_on s). x \<in> fs_step_id ` set (rows_of fr d) \<and>
         rank (base x) < rank (base (fs_step_id s))) \<and>
      (fs_status s = SRunning \<longrightarrow> fs_step_id s \<in> X) \<and>
      (CHR ''#'' \<in> set (fs_step_id s) \<longrightarrow> fs_map_ref s = None \<and> fs_status s \<noteq> SExpanded) \<and>
      (fs_status s = SExpanded \<longrightarrow>
         (\<exists>c\<in>set (rows_of fr d). starts_with (fs_step_id s @ ''#'') (fs_step_id c))))"

definition flow_inv :: "int \<Rightarrow> (string \<Rightarrow> nat) \<Rightarrow> string set \<Rightarrow> db \<Rightarrow> bool" where
  "flow_inv fr rank X d =
     (distinct (map fs_step_id (rows_of fr d)) \<and> (\<forall>s\<in>set (rows_of fr d). row_inv fr rank X d s))"

lemma flow_inv_cong:
  assumes "flow_steps d' = flow_steps d" and "scripts d' = scripts d"
  shows "flow_inv fr rank X d' = flow_inv fr rank X d"
  unfolding flow_inv_def row_inv_def rows_of_cong [OF assms(1)] get_script_cong [OF assms(2)] ..

lemma flow_inv_upd:
  assumes inv: "flow_inv fr rank X d" and f: "progress_update f" and sub: "X - {sid} \<subseteq> Y"
    and st: "\<And>s. fs_status (f s) = SExpanded \<Longrightarrow> CHR ''#'' \<notin> set sid \<and>
      (\<exists>c\<in>set (rows_of fr d). starts_with (sid @ ''#'') (fs_step_id c))"
      "\<And>s. fs_status (f s) = SRunning \<Longrightarrow> sid \<in> Y"
  shows "flow_inv fr rank Y (upd_step fr sid f d)"
proof -
  let ?d = "upd_step fr sid f d"
  have rows: "rows_of fr ?d = update_where (\<lambda>s. fs_step_id s = sid) f (rows_of fr d)"
    by (rule rows_of_upd [OF f])
  have same: "fs_step_id (f s) = fs_step_id s" "fs_script_id (f s) = fs_script_id s"
    "fs_depends_on (f s) = fs_depends_on s" "fs_map_ref (f s) = fs_map_ref s" for s
    using f by (simp_all add: progress_update_def)
  have ids: "map fs_step_id (rows_of fr ?d) = map fs_step_id (rows_of fr d)"
    unfolding rows by (rule map_update_where) (rule same)
  have idset: "fs_step_id ` set (rows_of fr ?d) = fs_step_id ` set (rows_of fr d)"
    using arg_cong [OF ids, of set] by simp
  have ex: "(\<exists>c\<in>set (rows_of fr ?d). starts_with p (fs_step_id c)) \<longleftrightarrow>
      (\<exists>c\<in>set (rows_of fr d). starts_with p (fs_step_id c))" for p
  proof -
    have "(\<exists>c\<in>set (rows_of fr ?d). starts_with p (fs_step_id c)) \<longleftrightarrow>
        (\<exists>i\<in>fs_step_id ` set (rows_of fr ?d). starts_with p i)" by simp
    then show ?thesis unfolding idset by simp
  qed
  have sc: "get_script i ?d = get_script i d" for i by (simp add: upd_step_def get_script_def)
  have "row_inv fr rank Y ?d t" if t: "t \<in> set (rows_of fr ?d)" for t
  proof -
    from t obtain s where s: "s \<in> set (rows_of fr d)" "t = (if fs_step_id s = sid then f s else s)"
      unfolding rows set_update_where by blast
    have rs: "row_inv fr rank X d s" using inv s(1) by (simp add: flow_inv_def)
    show ?thesis
    proof (cases "fs_step_id s = sid")
      case True
      with s(2) rs st(2) st(1) [of s] show ?thesis by (auto simp: row_inv_def idset ex sc same)
    next
      case False
      with s(2) rs sub show ?thesis by (auto simp: row_inv_def idset ex sc)
    qed
  qed
  with inv ids show ?thesis by (simp add: flow_inv_def)
qed

section \<open>Operations on one step\<close>

text \<open>The step \<open>sid\<close> is step_done: its row is final and every other row is as it was.\<close>

definition step_done :: "int \<Rightarrow> (string \<Rightarrow> nat) \<Rightarrow> string \<Rightarrow> db \<Rightarrow> db \<Rightarrow> bool" where
  "step_done fr rank sid d d' =
     (flow_inv fr rank {} d' \<and> flow_runs d' = flow_runs d \<and>
      (\<forall>s\<in>set (rows_of fr d). fs_step_id s \<noteq> sid \<longrightarrow> s \<in> set (rows_of fr d')) \<and>
      (\<forall>s\<in>set (rows_of fr d). fs_step_id s = sid \<longrightarrow> work_left fr d' + weight s = work_left fr d))"

lemma others_upd:
  "progress_update f \<Longrightarrow> s \<in> set (rows_of fr d) \<Longrightarrow> fs_step_id s \<noteq> sid \<Longrightarrow>
   s \<in> set (rows_of fr (upd_step fr sid f d))"
  by (auto simp: rows_of_upd set_update_where image_iff)

lemma work_upd:
  assumes "flow_inv fr rank X d" and "progress_update f" and "s \<in> set (rows_of fr d)" and "fs_step_id s = sid"
  shows "work_left fr (upd_step fr sid f d) + weight s = work_left fr d + weight (f s)"
  using sum_update [of "rows_of fr d" s weight f] assms
  by (simp add: work_left_def rows_of_upd flow_inv_def)

lemma upd_step_runs [simp]: "flow_runs (upd_step fr sid f d) = flow_runs d" "scripts (upd_step fr sid f d) = scripts d"
  by (simp_all add: upd_step_def)

lemma finish_done:
  assumes inv: "flow_inv fr rank {sid} d" and st: "st \<in> {SSucceeded, SFailed}"
  shows "step_done fr rank sid d (finish_step now fr sid st out d)"
proof -
  let ?f = "\<lambda>s. s\<lparr>fs_status := st, fs_output := out, fs_finished_at := Some now\<rparr>"
  have w: "weight (?f s) = 0" for s using st by (auto simp: weight_def)
  have "flow_inv fr rank {} (upd_step fr sid ?f d)"
    by (rule flow_inv_upd [OF inv]) (use st in auto)
  then show ?thesis
    using others_upd [of ?f _ fr d sid] work_upd [OF inv, of ?f _ sid] w
    unfolding step_done_def finish_step_def by auto
qed

lemma skip_done:
  assumes inv: "flow_inv fr rank {sid} d"
  shows "step_done fr rank sid d (mark_step_skipped now fr sid d)"
proof -
  let ?f = "\<lambda>s. s\<lparr>fs_status := SSkipped, fs_finished_at := Some now\<rparr>"
  have w: "weight (?f s) = 0" for s by (simp add: weight_def)
  have "flow_inv fr rank {} (upd_step fr sid ?f d)"
    by (rule flow_inv_upd [OF inv]) auto
  then show ?thesis
    using others_upd [of ?f _ fr d sid] work_upd [OF inv, of ?f _ sid] w
    unfolding step_done_def mark_step_skipped_def by auto
qed

text \<open>What running a container leaves of the flow tables: everything.\<close>

definition same_flow :: "db \<Rightarrow> db \<Rightarrow> bool" where
  "same_flow d d' = (flow_steps d' = flow_steps d \<and> flow_runs d' = flow_runs d \<and> scripts d' = scripts d)"

lemma same_flow_refl [simp]: "same_flow d d"
  by (simp add: same_flow_def)

lemma same_flow_trans: "same_flow a b \<Longrightarrow> same_flow b c \<Longrightarrow> same_flow a c"
  by (simp add: same_flow_def)

lemma insert_run_flow:
  assumes "insert_run now sid input agent d = Inr (rid, d1)"
  shows "same_flow d d1" and "\<exists>r. run_by_id rid d1 = Some r"
proof -
  from assms have d1: "d1 = d\<lparr>runs := runs d @ [(new_run (run_seq d) sid input agent now)
      \<lparr>r_input_blobs := None, r_capture_output := False\<rparr>], run_seq := run_seq d + 1\<rparr>" "rid = run_seq d"
    by (auto simp: insert_run_def insert_run_with_blobs_def split: if_splits)
  show "same_flow d d1" unfolding d1 by (simp add: same_flow_def)
  show "\<exists>r. run_by_id rid d1 = Some r"
    unfolding d1 by (simp add: run_by_id_def find_append new_run_def split: option.split)
qed

lemma exec_run_flow:
  assumes "run_by_id (ra_run_id a) d = Some r" shows "same_flow d (exec_run env a d)"
proof -
  have "frame d (exec_run env a d)" by (rule evolved_frame [OF exec_run_ends(1) [OF assms]])
  then show ?thesis by (simp add: same_flow_def frame_def)
qed

lemma script_args_id [simp]: "ra_run_id (script_args sc rid input d) = rid"
  by (simp add: script_args_def)

lemma same_flow_rows: "same_flow d d' \<Longrightarrow> rows_of fr d' = rows_of fr d"
  by (rule rows_of_cong) (simp add: same_flow_def)

lemma same_flow_inv: "same_flow d d' \<Longrightarrow> flow_inv fr rank X d' = flow_inv fr rank X d"
  by (rule flow_inv_cong) (simp_all add: same_flow_def)

lemma done_same:
  assumes "same_flow d d1" and "step_done fr rank sid d1 d'"
  shows "step_done fr rank sid d d'"
proof -
  have rows: "rows_of fr d1 = rows_of fr d" by (rule same_flow_rows [OF assms(1)])
  then have "work_left fr d1 = work_left fr d" by (simp add: work_left_def)
  moreover have "flow_runs d1 = flow_runs d" using assms(1) by (simp add: same_flow_def)
  ultimately show ?thesis using assms(2) by (simp add: step_done_def rows)
qed

lemma run_attempts_done:
  assumes "flow_inv fr rank {fs_step_id step} d"
  shows "step_done fr rank (fs_step_id step) d (run_attempts env fr step sc key input n d)"
  using assms
proof (induction env fr step sc key input n d rule: run_attempts.induct)
  case (1 env fr step sc key input d)
  then show ?case by (simp add: finish_done)
next
  case (2 env fr step sc key input n d)
  let ?sid = "fs_step_id step"
  show ?case
  proof (cases "insert_run (ee_clock env d) (fs_script_id step) input None d")
    case (Inl e)
    with 2 show ?thesis by (simp add: finish_done)
  next
    case (Inr p)
    obtain rid d1 where p: "p = (rid, d1)" by fastforce
    let ?d2 = "case key of Some k \<Rightarrow> set_run_cache_key rid k d1 | None \<Rightarrow> d1"
    let ?d3 = "set_step_running fr ?sid rid ?d2"
    let ?d4 = "exec_run env (script_args sc rid input ?d3) ?d3"
    note ins = insert_run_flow [OF Inr [unfolded p]]
    have k: "same_flow d1 ?d2" "\<exists>r. run_by_id rid ?d2 = Some r"
      using ins(2) by (auto simp: same_flow_def set_run_cache_key_def run_by_id_update split: option.split)
    have d2: "same_flow d ?d2" by (rule same_flow_trans [OF ins(1) k(1)])
    obtain r where r: "run_by_id rid ?d3 = Some r"
      using k(2) by (auto simp: set_step_running_def upd_step_def run_by_id_def)
    have d4: "same_flow ?d3 ?d4"
      by (rule exec_run_flow) (simp add: r)
    have inv2: "flow_inv fr rank {?sid} ?d2" using "2.prems" by (simp add: same_flow_inv [OF d2])
    let ?f = "\<lambda>s. s\<lparr>fs_status := SRunning, fs_run_id := Some rid\<rparr>"
    have inv3: "flow_inv fr rank {?sid} ?d3"
      unfolding set_step_running_def by (rule flow_inv_upd [OF inv2]) auto
    then have inv4: "flow_inv fr rank {?sid} ?d4" by (simp add: same_flow_inv [OF d4])
    have "step_done fr rank ?sid ?d4 (if get_run_status rid ?d4 = Some Succeeded
        then finish_step (ee_clock env ?d4) fr ?sid SSucceeded (last_stdout rid ?d4) ?d4
        else run_attempts env fr step sc key input n ?d4)"
      using finish_done [OF inv4] "2.IH" [OF Inr p [symmetric] refl refl refl _ inv4] by simp
    then have fin: "step_done fr rank ?sid ?d3 (run_attempts env fr step sc key input (Suc n) d)"
      using done_same [OF d4] by (simp add: Inr p Let_def)
    have w: "work_left fr ?d3 + weight s = work_left fr d + 1"
      "\<exists>s'\<in>set (rows_of fr ?d3). fs_step_id s' = ?sid \<and> weight s' = 1"
      if s: "s \<in> set (rows_of fr d)" "fs_step_id s = ?sid" for s
    proof -
      have rows: "rows_of fr ?d2 = rows_of fr d" by (rule same_flow_rows [OF d2])
      have "weight (?f s) = 1" by (simp add: weight_def)
      with work_upd [OF inv2, of ?f s ?sid] s rows
      show "work_left fr ?d3 + weight s = work_left fr d + 1"
        by (simp add: set_step_running_def work_left_def)
      have "?f s \<in> set (rows_of fr ?d3)"
        using s rows by (auto simp: set_step_running_def rows_of_upd set_update_where image_iff)
      then show "\<exists>s'\<in>set (rows_of fr ?d3). fs_step_id s' = ?sid \<and> weight s' = 1"
        by (rule bexI [rotated]) (simp add: s weight_def)
    qed
    have keep: "s \<in> set (rows_of fr ?d3)" if "s \<in> set (rows_of fr d)" "fs_step_id s \<noteq> ?sid" for s
      unfolding set_step_running_def
      by (rule others_upd) (use that same_flow_rows [OF d2] in simp_all)
    have runs3: "flow_runs ?d3 = flow_runs d" using d2 by (simp add: set_step_running_def same_flow_def)
    show ?thesis
      unfolding step_done_def
    proof (intro conjI ballI impI)
      let ?d' = "run_attempts env fr step sc key input (Suc n) d"
      show "flow_inv fr rank {} ?d'" "flow_runs ?d' = flow_runs d"
        using fin runs3 by (simp_all only: step_done_def)
      fix s assume s: "s \<in> set (rows_of fr d)"
      show "s \<in> set (rows_of fr ?d')" if "fs_step_id s \<noteq> ?sid"
        using fin keep [OF s that] that unfolding step_done_def by blast
      show "work_left fr ?d' + weight s = work_left fr d" if "fs_step_id s = ?sid"
      proof -
        from w(2) [OF s that] obtain s' where "s' \<in> set (rows_of fr ?d3)" "fs_step_id s' = ?sid" "weight s' = 1"
          by blast
        with fin have "work_left fr ?d' + 1 = work_left fr ?d3" unfolding step_done_def by metis
        with w(1) [OF s that] show ?thesis by simp
      qed
    qed
  qed
qed

lemma flow_inv_mono: "flow_inv fr rank X d \<Longrightarrow> X \<subseteq> Y \<Longrightarrow> flow_inv fr rank Y d"
  by (auto simp: flow_inv_def row_inv_def)

lemma run_step_done:
  assumes inv: "flow_inv fr rank {} d"
  shows "step_done fr rank (fs_step_id s) d (run_step env fr input s deps d)"
proof -
  have inv1: "flow_inv fr rank {fs_step_id s} d" by (rule flow_inv_mono [OF inv]) simp
  note fin = finish_done [OF inv1] and att = run_attempts_done [OF inv1]
  show ?thesis
  proof (cases "get_script (fs_script_id s) d")
    case None
    with fin show ?thesis by (simp add: run_step_def)
  next
    case sc: (Some sc)
    show ?thesis
    proof (cases "runtime_spec (sc_runtime sc)")
      case None
      with sc fin show ?thesis by (simp add: run_step_def)
    next
      case rt: (Some ii)
      show ?thesis
      proof (cases "fs_cache s")
        case False
        with sc rt att show ?thesis by (simp add: run_step_def)
      next
        case True
        let ?key = "step_cache_key env sc (step_run_input input deps s) d"
        show ?thesis
          by (cases "find_cached_run ?key d")
            (use sc rt True fin att in \<open>simp_all add: run_step_def Let_def split: prod.split\<close>)
      qed
    qed
  qed
qed

text \<open>Fan-out: the new rows are the children, the parent becomes expanded.\<close>

lemma insert_children_rows:
  "insert_children cs d = Inr d' \<Longrightarrow> \<forall>c\<in>set cs. fs_flow_run c = fr \<Longrightarrow> distinct (map fs_step_id (rows_of fr d)) \<Longrightarrow>
   (\<exists>new. rows_of fr d' = rows_of fr d @ new \<and> set new \<subseteq> set cs \<and> length new \<le> length cs) \<and>
   distinct (map fs_step_id (rows_of fr d')) \<and>
   fs_step_id ` set cs \<subseteq> fs_step_id ` set (rows_of fr d') \<and>
   flow_runs d' = flow_runs d \<and> scripts d' = scripts d"
proof (induction cs arbitrary: d)
  case (Cons c cs)
  show ?case
  proof (cases "has_step (fs_flow_run c) (fs_step_id c) d")
    case True
    with Cons.prems(1) have "insert_children cs d = Inr d'" by simp
    note IH = Cons.IH [OF this _ Cons.prems(3)]
    have "fs_step_id c \<in> fs_step_id ` set (rows_of fr d)" using True Cons.prems(2) by (simp add: has_step_rows)
    with IH Cons.prems(2) show ?thesis by (fastforce simp: le_SucI)
  next
    case False
    let ?d = "d\<lparr>flow_steps := flow_steps d @ [c]\<rparr>"
    from False Cons.prems(1) have ins: "insert_children cs ?d = Inr d'" by (simp split: if_splits)
    have rows: "rows_of fr ?d = rows_of fr d @ [c]" using Cons.prems(2) by (simp add: rows_of_def)
    have "distinct (map fs_step_id (rows_of fr ?d))"
      using Cons.prems(2,3) False by (simp add: rows has_step_rows)
    from Cons.IH [OF ins _ this] Cons.prems(2) obtain new where
      new: "rows_of fr d' = rows_of fr ?d @ new" "set new \<subseteq> set cs" "length new \<le> length cs"
      and rest: "distinct (map fs_step_id (rows_of fr d'))"
        "fs_step_id ` set cs \<subseteq> fs_step_id ` set (rows_of fr d')"
        "flow_runs d' = flow_runs d" "scripts d' = scripts d" by auto
    have "rows_of fr d' = rows_of fr d @ (c # new)" using new(1) rows by simp
    with new(2,3) rest show ?thesis
      by (intro conjI exI [of _ "c # new"]) auto
  qed
qed (simp add: exI [of _ "[]"])

lemma insert_children_ok:
  "\<forall>c\<in>set cs. get_script (fs_script_id c) d \<noteq> None \<Longrightarrow> \<exists>d'. insert_children cs d = Inr d'"
proof (induction cs arbitrary: d)
  case (Cons c cs)
  let ?d = "d\<lparr>flow_steps := flow_steps d @ [c]\<rparr>"
  have "\<exists>d'. insert_children cs ?d = Inr d'" by (rule Cons.IH) (use Cons.prems in \<open>simp add: get_script_def\<close>)
  moreover have "\<exists>d'. insert_children cs d = Inr d'" by (rule Cons.IH) (use Cons.prems in simp)
  ultimately show ?case using Cons.prems by auto
qed simp

text \<open>The step's row is behind it and something was done: the measure went down.\<close>

definition advances :: "int \<Rightarrow> (string \<Rightarrow> nat) \<Rightarrow> string \<Rightarrow> db \<Rightarrow> db \<Rightarrow> bool" where
  "advances fr rank sid d d' =
     (flow_inv fr rank {} d' \<and> flow_runs d' = flow_runs d \<and>
      (\<forall>s\<in>set (rows_of fr d). fs_step_id s \<noteq> sid \<longrightarrow> s \<in> set (rows_of fr d')) \<and>
      work_left fr d' < work_left fr d)"

lemma done_advances:
  "step_done fr rank sid d d' \<Longrightarrow> s \<in> set (rows_of fr d) \<Longrightarrow> fs_step_id s = sid \<Longrightarrow> 0 < weight s \<Longrightarrow>
   advances fr rank sid d d'"
  unfolding step_done_def advances_def by fastforce

lemma map_children_rows:
  "c \<in> set (map (child_row fr cache) (map_children s items)) \<Longrightarrow>
   fs_flow_run c = fr \<and> fs_script_id c = fs_script_id s \<and> fs_depends_on c = fs_depends_on s \<and>
   fs_status c = SPending \<and> fs_map_ref c = None \<and> (\<exists>x. fs_step_id c = fs_step_id s @ CHR ''#'' # x)"
  by (auto simp: map_children_def child_row_def)

lemma expand_map_inv:
  assumes inv: "flow_inv fr rank {} d" and s0: "s0 \<in> set (rows_of fr d)"
    and eq: "fs_step_id s = fs_step_id s0" "fs_depends_on s = fs_depends_on s0" "fs_script_id s = fs_script_id s0"
    and nohash: "CHR ''#'' \<notin> set (fs_step_id s0)"
    and ins: "insert_children (map (child_row fr cache) (map_children s items)) d = Inr d1"
  shows "flow_inv fr rank {} d1" and "work_left fr d1 \<le> work_left fr d + length items"
    and "set (rows_of fr d) \<subseteq> set (rows_of fr d1)" and "flow_runs d1 = flow_runs d"
    and "items \<noteq> [] \<Longrightarrow> \<exists>c\<in>set (rows_of fr d1). starts_with (fs_step_id s0 @ ''#'') (fs_step_id c)"
proof -
  let ?cs = "map (child_row fr cache) (map_children s items)"
  note cr = map_children_rows [of _ fr cache s items]
  have "\<forall>c\<in>set ?cs. fs_flow_run c = fr" using cr by blast
  from insert_children_rows [OF ins this] inv obtain new where
    rows: "rows_of fr d1 = rows_of fr d @ new" and new: "set new \<subseteq> set ?cs" "length new \<le> length ?cs"
    and dist: "distinct (map fs_step_id (rows_of fr d1))"
    and ids: "fs_step_id ` set ?cs \<subseteq> fs_step_id ` set (rows_of fr d1)"
    and same: "flow_runs d1 = flow_runs d" "scripts d1 = scripts d"
    by (auto simp: flow_inv_def)
  have old: "row_inv fr rank {} d t" if "t \<in> set (rows_of fr d)" for t
    using inv that by (simp add: flow_inv_def)
  have sc: "get_script i d1 = get_script i d" for i by (rule get_script_cong [OF same(2)])
  have "row_inv fr rank {} d1 t" if t: "t \<in> set (rows_of fr d1)" for t
  proof (cases "t \<in> set (rows_of fr d)")
    case True
    from old [OF True] show ?thesis by (auto simp: row_inv_def sc rows)
  next
    case False
    with t rows new(1) have "t \<in> set ?cs" by auto
    from cr [OF this] eq obtain x where t: "fs_script_id t = fs_script_id s0"
      "fs_depends_on t = fs_depends_on s0" "fs_status t = SPending" "fs_map_ref t = None"
      "fs_step_id t = fs_step_id s0 @ CHR ''#'' # x" by auto
    with old [OF s0] show ?thesis
      by (simp add: row_inv_def sc rows base_child [OF nohash] base_id [OF nohash] image_Un) 
  qed
  with dist show "flow_inv fr rank {} d1" by (simp add: flow_inv_def)
  have w1: "weight c = 1" if "c \<in> set new" for c
  proof -
    have "c \<in> set ?cs" using new(1) that by blast
    from cr [OF this] show ?thesis by (simp add: weight_def)
  qed
  have "sum_list (map weight new) = length new"
    using w1 by (induction new) auto
  with new(2) show "work_left fr d1 \<le> work_left fr d + length items"
    by (simp add: work_left_def rows map_children_def)
  show "set (rows_of fr d) \<subseteq> set (rows_of fr d1)" by (simp add: rows)
  show "flow_runs d1 = flow_runs d" by (rule same(1))
  assume "items \<noteq> []"
  then have "length ?cs \<noteq> 0" by (simp add: map_children_def)
  then obtain c where c: "c \<in> set ?cs" by (metis length_0_conv list.set_sel(1))
  with ids obtain c' where "c' \<in> set (rows_of fr d1)" "fs_step_id c' = fs_step_id c" by (metis (no_types, lifting) image_iff subsetD image_eqI)
  moreover have "starts_with (fs_step_id s0 @ ''#'') (fs_step_id c)"
    using cr [OF c] eq(1) by (auto simp: starts_with_iff)
  ultimately show "\<exists>c\<in>set (rows_of fr d1). starts_with (fs_step_id s0 @ ''#'') (fs_step_id c)"
    by metis
qed

lemma expand_advances:
  assumes inv: "flow_inv fr rank {} d" and s0: "s0 \<in> set (rows_of fr d)"
    and eq: "fs_step_id s = fs_step_id s0" "fs_depends_on s = fs_depends_on s0" "fs_script_id s = fs_script_id s0"
    and pend: "fs_status s0 = SPending" "fs_map_ref s0 \<noteq> None"
  shows "advances fr rank (fs_step_id s) d (expand env fr s input deps m d)"
proof -
  have rs: "row_inv fr rank {} d s0" using inv s0 by (simp add: flow_inv_def)
  then have nohash: "CHR ''#'' \<notin> set (fs_step_id s0)" using pend(2) by (auto simp: row_inv_def)
  have inv1: "flow_inv fr rank {fs_step_id s} d" by (rule flow_inv_mono [OF inv]) simp
  have "0 < weight s0" using pend by (auto simp: weight_def)
  note fin = done_advances [OF finish_done [OF inv1] s0 eq(1) [symmetric] this]
  have failed: "advances fr rank (fs_step_id s) d (finish_step now fr (fs_step_id s) SFailed out d)" for now out
    by (rule fin) simp
  show ?thesis
  proof (cases "resolve_ref (c_parse (ee_crypto env)) m input deps")
    case None
    with failed show ?thesis by (simp add: expand_def)
  next
    case (Some v)
    show ?thesis
    proof (cases v)
      case (JArr items)
      let ?cs = "map (child_row fr (fs_cache s)) (map_children s items)"
      show ?thesis
      proof (cases "items \<noteq> [] \<and> fanout_within_cap (length items)")
        case False
        with Some JArr failed show ?thesis by (auto simp: expand_def Let_def intro: fin)
      next
        case True
        have "\<forall>c\<in>set ?cs. get_script (fs_script_id c) d \<noteq> None"
        proof
          fix c assume "c \<in> set ?cs"
          from map_children_rows [OF this] rs eq(3) show "get_script (fs_script_id c) d \<noteq> None"
            by (simp add: row_inv_def)
        qed
        then obtain d1 where ins: "insert_children ?cs d = Inr d1" using insert_children_ok by blast
        note ch = expand_map_inv [OF inv s0 eq nohash ins]
        let ?f = "\<lambda>s. s\<lparr>fs_status := SExpanded\<rparr>"
        let ?d2 = "upd_step fr (fs_step_id s) ?f d1"
        have inv2: "flow_inv fr rank {} ?d2"
          by (rule flow_inv_upd [OF ch(1)]) (use nohash eq(1) ch(5) True in auto)
        have "s0 \<in> set (rows_of fr d1)" using ch(3) s0 by blast
        from work_upd [OF ch(1) _ this, of ?f "fs_step_id s"] eq(1) pend
        have "work_left fr ?d2 + (max_map_fanout + 2) = work_left fr d1 + 1"
          by (auto simp: weight_def)
        with ch(2) True have less: "work_left fr ?d2 < work_left fr d"
          by (simp add: fanout_within_cap_def)
        have "t \<in> set (rows_of fr ?d2)" if "t \<in> set (rows_of fr d)" "fs_step_id t \<noteq> fs_step_id s" for t
          by (rule others_upd) (use that ch(3) in auto)
        with inv2 less ch(4) have "advances fr rank (fs_step_id s) d ?d2"
          unfolding advances_def by simp
        with Some JArr True ins show ?thesis by (simp add: expand_def expand_map_step_def)
      qed
    qed (use Some failed in \<open>simp_all add: expand_def\<close>)
  qed
qed

section \<open>Batches\<close>

text \<open>A list of steps that are rows of the ledger in one status, each once.\<close>

definition steps_in :: "step_status \<Rightarrow> int \<Rightarrow> flow_step list \<Rightarrow> db \<Rightarrow> bool" where
  "steps_in st fr ss d =
     (distinct (map fs_step_id ss) \<and>
      (\<forall>s\<in>set ss. \<exists>s0\<in>set (rows_of fr d). s = default_input s0 \<and> fs_status s0 = st))"

lemma steps_in_Cons:
  "steps_in st fr (s # ss) d \<Longrightarrow> steps_in st fr ss d"
  by (simp add: steps_in_def)

lemma steps_in_advance:
  assumes "steps_in st fr ss d" and "advances fr rank sid d d'" and "sid \<notin> fs_step_id ` set ss"
  shows "steps_in st fr ss d'"
proof -
  have "\<exists>s0\<in>set (rows_of fr d'). s = default_input s0 \<and> fs_status s0 = st" if s: "s \<in> set ss" for s
  proof -
    from assms(1) s obtain s0 where s0: "s0 \<in> set (rows_of fr d)" "s = default_input s0" "fs_status s0 = st"
      unfolding steps_in_def by blast
    have "fs_step_id s0 \<noteq> sid" using assms(3) s s0(2) by (metis default_input_sel(1) imageI)
    with assms(2) s0(1) have "s0 \<in> set (rows_of fr d')" unfolding advances_def by blast
    with s0 show ?thesis by blast
  qed
  with assms(1) show ?thesis by (simp add: steps_in_def)
qed

lemma steps_in_head:
  assumes "steps_in st fr (s # ss) d"
  shows "\<exists>s0\<in>set (rows_of fr d). s = default_input s0 \<and> fs_status s0 = st"
    and "fs_step_id s \<notin> fs_step_id ` set ss"
  using assms by (auto simp: steps_in_def)

text \<open>A stretch of work: never more left than before, and less if it did anything.\<close>

definition worked :: "int \<Rightarrow> (string \<Rightarrow> nat) \<Rightarrow> db \<Rightarrow> db \<Rightarrow> bool \<Rightarrow> bool" where
  "worked fr rank d d' did =
     (flow_inv fr rank {} d' \<and> flow_runs d' = flow_runs d \<and>
      (if did then work_left fr d' < work_left fr d else d' = d))"

lemma worked_advance:
  "advances fr rank sid d d1 \<Longrightarrow> worked fr rank d1 d' did \<Longrightarrow> worked fr rank d d' True"
  by (auto simp: worked_def advances_def split: if_splits)

lemma run_batch_worked:
  assumes "flow_inv fr rank {} d" and "steps_in SPending fr (map fst batch) d"
  shows "worked fr rank d (fold (\<lambda>(s, deps) d. run_step env fr input s deps d) batch d) (batch \<noteq> [])"
  using assms
proof (induction batch arbitrary: d)
  case Nil
  then show ?case by (simp add: worked_def)
next
  case (Cons b batch)
  obtain s deps where b: "b = (s, deps)" by fastforce
  from steps_in_head [of SPending fr s "map fst batch" d] Cons.prems(2) b obtain s0 where
    s0: "s0 \<in> set (rows_of fr d)" "s = default_input s0" "fs_status s0 = SPending"
    and new: "fs_step_id s \<notin> fs_step_id ` set (map fst batch)" by auto
  have "0 < weight s0" using s0(3) by (simp add: weight_def)
  have adv: "advances fr rank (fs_step_id s) d (run_step env fr input s deps d)"
    by (rule done_advances [OF run_step_done [OF Cons.prems(1)] s0(1) _ \<open>0 < weight s0\<close>]) (simp add: s0(2))
  have "steps_in SPending fr (map fst batch) (run_step env fr input s deps d)"
    by (rule steps_in_advance [OF _ adv new]) (use Cons.prems(2) b steps_in_Cons in auto)
  from Cons.IH [OF _ this] adv have
    "worked fr rank (run_step env fr input s deps d)
      (fold (\<lambda>(s, deps) d. run_step env fr input s deps d) batch (run_step env fr input s deps d)) (batch \<noteq> [])"
    by (simp add: advances_def)
  from worked_advance [OF adv this] show ?case by (simp add: b)
qed

lemma aggregate_worked:
  assumes "flow_inv fr rank {} d" and "steps_in SExpanded fr ps d"
    and "aggregate_parents env fr steps ps d = (pr, d')"
  shows "worked fr rank d d' pr \<and>
    (\<not> pr \<longrightarrow> (\<forall>p\<in>set ps. aggregate_children (c_print (ee_crypto env)) steps (fs_step_id p) = None))"
  using assms
proof (induction ps arbitrary: d pr d')
  case Nil
  then show ?case by (simp add: worked_def)
next
  case (Cons p ps)
  let ?agg = "aggregate_children (c_print (ee_crypto env)) steps (fs_step_id p)"
  have rest: "steps_in SExpanded fr ps d" by (rule steps_in_Cons [OF Cons.prems(2)])
  from steps_in_head [OF Cons.prems(2)] obtain s0 where
    s0: "s0 \<in> set (rows_of fr d)" "p = default_input s0" "fs_status s0 = SExpanded"
    and new: "fs_step_id p \<notin> fs_step_id ` set ps" by auto
  have w: "0 < weight s0" using s0(3) by (simp add: weight_def)
  have inv1: "flow_inv fr rank {fs_step_id p} d" by (rule flow_inv_mono [OF Cons.prems(1)]) simp
  have fin: "worked fr rank d d' True"
    if eq: "d' = snd (aggregate_parents env fr steps ps (finish_step now fr (fs_step_id p) st out d))"
    and st: "st \<in> {SSucceeded, SFailed}" for now st out
  proof -
    let ?d = "finish_step now fr (fs_step_id p) st out d"
    have adv: "advances fr rank (fs_step_id p) d ?d"
      by (rule done_advances [OF finish_done [OF inv1 st] s0(1) _ w]) (simp add: s0(2))
    obtain b where b: "aggregate_parents env fr steps ps ?d = (b, d')" using eq by (metis prod.collapse)
    from Cons.IH [OF _ steps_in_advance [OF rest adv new] b] adv
    have "worked fr rank ?d d' b" by (simp add: advances_def)
    then show ?thesis by (rule worked_advance [OF adv])
  qed
  show ?case
  proof (cases ?agg)
    case None
    with Cons.IH [OF Cons.prems(1) rest] Cons.prems(3) show ?thesis by simp
  next
    case (Some g)
    show ?thesis
      by (cases g) (use Some Cons.prems(3) fin in auto)
  qed
qed

text \<open>The rows outside a list of ids are left alone.\<close>

definition keeps_rows :: "int \<Rightarrow> string set \<Rightarrow> db \<Rightarrow> db \<Rightarrow> bool" where
  "keeps_rows fr ids d d' = (\<forall>t\<in>set (rows_of fr d). fs_step_id t \<notin> ids \<longrightarrow> t \<in> set (rows_of fr d'))"

lemma resolve_worked:
  assumes "flow_inv fr rank {} d" and "steps_in SPending fr ss d"
    and "resolve_pending env fr input outs sk ss d = (pr, tr, d')"
  shows "worked fr rank d d' pr \<and> steps_in SPending fr (map fst tr) d' \<and>
    set (map fst tr) \<subseteq> set ss \<and> keeps_rows fr (fs_step_id ` set ss) d d' \<and>
    (\<not> pr \<and> tr = [] \<longrightarrow> (\<forall>s\<in>set ss. decide env input outs sk s = Wait))"
  using assms
proof (induction ss arbitrary: d pr tr d')
  case Nil
  then show ?case by (simp add: worked_def steps_in_def keeps_rows_def)
next
  case (Cons s ss)
  have rest: "steps_in SPending fr ss d" by (rule steps_in_Cons [OF Cons.prems(2)])
  from steps_in_head [OF Cons.prems(2)] obtain s0 where
    s0: "s0 \<in> set (rows_of fr d)" "s = default_input s0" "fs_status s0 = SPending"
    and new: "fs_step_id s \<notin> fs_step_id ` set ss" by auto
  have w: "0 < weight s0" using s0(3) by (simp add: weight_def)
  have step: "worked fr rank d d' pr \<and> steps_in SPending fr (map fst tr) d' \<and>
      set (map fst tr) \<subseteq> set (s # ss) \<and> keeps_rows fr (fs_step_id ` set (s # ss)) d d' \<and>
      (\<not> pr \<and> tr = [] \<longrightarrow> (\<forall>s\<in>set (s # ss). decide env input outs sk s = Wait))"
    if adv: "advances fr rank (fs_step_id s) d d1" and pr: pr
    and r: "(tr, d') = snd (resolve_pending env fr input outs sk ss d1)" for d1
  proof -
    obtain b where b: "resolve_pending env fr input outs sk ss d1 = (b, tr, d')" using r by (metis prod.collapse)
    have "flow_inv fr rank {} d1" using adv by (simp add: advances_def)
    from Cons.IH [OF this steps_in_advance [OF rest adv new] b] worked_advance [OF adv] adv pr
    show ?thesis by (auto simp: keeps_rows_def advances_def)
  qed
  show ?case
  proof (cases "decide env input outs sk s")
    case Wait
    with Cons.IH [OF Cons.prems(1) rest] Cons.prems(3) show ?thesis by (auto simp: keeps_rows_def)
  next
    case Skip
    have inv1: "flow_inv fr rank {fs_step_id s} d" by (rule flow_inv_mono [OF Cons.prems(1)]) simp
    have "advances fr rank (fs_step_id s) d (mark_step_skipped (ee_clock env d) fr (fs_step_id s) d)"
      by (rule done_advances [OF skip_done [OF inv1] s0(1) _ w]) (simp add: s0(2))
    from step [OF this] Skip Cons.prems(3) show ?thesis by auto
  next
    case (Expand deps m)
    have "fs_map_ref s \<noteq> None" using Expand by (auto simp: decide_def Let_def split: if_splits option.splits)
    then have "advances fr rank (fs_step_id s) d (expand env fr s input deps m d)"
      by (intro expand_advances [OF Cons.prems(1) s0(1)]) (simp_all add: s0)
    from step [OF this] Expand Cons.prems(3) show ?thesis by auto
  next
    case (Run deps)
    obtain tr' where r: "resolve_pending env fr input outs sk ss d = (pr, tr', d')" and tr: "tr = (s, deps) # tr'"
      using Cons.prems(3) Run by (auto split: prod.splits)
    note IH = Cons.IH [OF Cons.prems(1) rest r]
    have "s0 \<in> set (rows_of fr d')" using IH s0(1,2) new by (auto simp: keeps_rows_def)
    with IH s0 new tr have "steps_in SPending fr (map fst tr) d'"
      by (auto simp: steps_in_def)
    with IH tr show ?thesis by (auto simp: keeps_rows_def)
  qed
qed

section \<open>Progress\<close>

lemma set_steps_of: "set (steps_of fr d) = default_input ` set (rows_of fr d)"
  by (simp add: steps_of_rows)

lemma step_outputs_iff:
  "map_of (step_outputs steps) x \<noteq> None \<longleftrightarrow> (\<exists>s\<in>set steps. fs_status s = SSucceeded \<and> fs_step_id s = x)"
proof -
  have "map_of (step_outputs steps) x \<noteq> None \<longleftrightarrow> x \<in> fst ` set (step_outputs steps)"
    by (simp add: map_of_eq_None_iff)
  also have "fst ` set (step_outputs steps) = {fs_step_id s | s. s \<in> set steps \<and> fs_status s = SSucceeded}"
    by (auto simp: step_outputs_def image_image)
  finally show ?thesis by auto
qed

lemma skipped_iff:
  "x \<in> set (skipped_steps steps) \<longleftrightarrow> (\<exists>s\<in>set steps. fs_status s = SSkipped \<and> fs_step_id s = x)"
  by (auto simp: skipped_steps_def)

lemma expanded_waits:
  assumes inv: "flow_inv fr rank {} d" and t: "t \<in> set (rows_of fr d)" "fs_status t = SExpanded"
    and agg: "aggregate_children pr (steps_of fr d) (fs_step_id t) = None"
  shows "\<exists>c\<in>set (rows_of fr d). fs_status c = SPending \<and> base (fs_step_id c) = base (fs_step_id t)"
proof -
  have rt: "row_inv fr rank {} d t" using inv t(1) by (simp add: flow_inv_def)
  then have nohash: "CHR ''#'' \<notin> set (fs_step_id t)" using t(2) by (auto simp: row_inv_def)
  let ?cs = "children_of (fs_step_id t) (steps_of fr d)"
  from rt t(2) obtain c0 where "c0 \<in> set (rows_of fr d)" "starts_with (fs_step_id t @ ''#'') (fs_step_id c0)"
    by (auto simp: row_inv_def)
  then have "default_input c0 \<in> set ?cs" by (simp add: children_of_def set_steps_of)
  then have "?cs \<noteq> []" by auto
  with agg have "\<exists>c\<in>set ?cs. unfinished c" by (auto simp: aggregate_children_def Let_def split: if_splits)
  then obtain c where c: "c \<in> set (rows_of fr d)" "starts_with (fs_step_id t @ ''#'') (fs_step_id c)" "unfinished c"
    by (auto simp: children_of_def set_steps_of unfinished_def)
  from c(2) obtain x where id: "fs_step_id c = fs_step_id t @ CHR ''#'' # x" by (auto simp: starts_with_iff)
  have "row_inv fr rank {} d c" using inv c(1) by (simp add: flow_inv_def)
  with c(3) id have "fs_status c = SPending" by (auto simp: row_inv_def unfinished_def)
  with c(1) id show ?thesis by (auto simp: base_child [OF nohash] base_id [OF nohash])
qed

lemma not_stuck:
  assumes inv: "flow_inv fr rank {} d"
    and some: "\<exists>s\<in>set (steps_of fr d). unfinished s" and none: "\<not> (\<exists>s\<in>set (steps_of fr d). fs_status s = SFailed)"
    and agg: "\<And>s. s \<in> set (steps_of fr d) \<Longrightarrow> fs_status s = SExpanded \<Longrightarrow>
      aggregate_children pr (steps_of fr d) (fs_step_id s) = None"
  shows "\<exists>s\<in>set (steps_of fr d). fs_status s = SPending \<and>
    decide env input (step_outputs (steps_of fr d)) (skipped_steps (steps_of fr d)) s \<noteq> Wait"
proof -
  let ?rows = "set (rows_of fr d)" and ?r = "\<lambda>s. rank (base (fs_step_id s))"
  have child: "\<exists>c\<in>?rows. fs_status c = SPending \<and> ?r c = ?r t" if "t \<in> ?rows" "fs_status t = SExpanded" for t
  proof -
    have "aggregate_children pr (steps_of fr d) (fs_step_id t) = None"
      using agg [of "default_input t"] that by (simp add: set_steps_of)
    from expanded_waits [OF inv that this] show ?thesis by metis
  qed
  have norun: "fs_status s \<noteq> SRunning" if "s \<in> ?rows" for s
    using inv that by (auto simp: flow_inv_def row_inv_def)
  from some obtain u where "u \<in> ?rows" "unfinished u" by (auto simp: set_steps_of unfinished_def)
  with child norun have "\<exists>s. s \<in> ?rows \<and> fs_status s = SPending" by (auto simp: unfinished_def)
  then obtain k where "k \<in> ?rows \<and> fs_status k = SPending" by blast
  from ex_has_least_nat [where P = "\<lambda>s. s \<in> ?rows \<and> fs_status s = SPending" and m = ?r, OF this]
  obtain s where s: "s \<in> ?rows" "fs_status s = SPending"
    and least: "\<And>t. t \<in> ?rows \<Longrightarrow> fs_status t = SPending \<Longrightarrow> ?r s \<le> ?r t" by blast
  let ?s = "default_input s"
  have "decide env input (step_outputs (steps_of fr d)) (skipped_steps (steps_of fr d)) ?s \<noteq> Wait"
  proof
    assume "decide env input (step_outputs (steps_of fr d)) (skipped_steps (steps_of fr d)) ?s = Wait"
    then obtain x where x: "x \<in> set (fs_depends_on s)" "map_of (step_outputs (steps_of fr d)) x = None"
      "x \<notin> set (skipped_steps (steps_of fr d))"
      by (auto simp: decide_def Let_def split: if_splits option.splits)
    have "row_inv fr rank {} d s" using inv s(1) by (simp add: flow_inv_def)
    with x(1) obtain t where t: "t \<in> ?rows" "x = fs_step_id t" "?r t < ?r s" by (auto simp: row_inv_def)
    have t': "default_input t \<in> set (steps_of fr d)" using t(1) by (simp add: set_steps_of)
    have "fs_status t \<noteq> SSucceeded"
      using step_outputs_iff [of "steps_of fr d" x] x(2) t(2) t' default_input_sel(1,2) by metis
    moreover have "fs_status t \<noteq> SSkipped"
      using skipped_iff [of x "steps_of fr d"] x(3) t(2) t' default_input_sel(1,2) by metis
    moreover have "fs_status t \<noteq> SFailed" using none t(1) by (auto simp: set_steps_of)
    ultimately have "fs_status t = SPending \<or> fs_status t = SExpanded"
      using norun [OF t(1)] by (cases "fs_status t") auto
    then show False
    proof
      assume "fs_status t = SPending"
      with least [OF t(1)] t(3) show False by simp
    next
      assume "fs_status t = SExpanded"
      with child [OF t(1)] obtain c where "c \<in> ?rows" "fs_status c = SPending" "?r c = ?r t" by blast
      with least [of c] t(3) show False by simp
    qed
  qed
  with s show ?thesis by (auto simp: set_steps_of)
qed

section \<open>The driver\<close>

definition flow_over :: "int \<Rightarrow> db \<Rightarrow> bool" where
  "flow_over fr d =
     (flow_run_status fr d = Some FSucceeded \<and>
        (\<forall>s\<in>set (steps_of fr d). fs_status s \<in> {SSucceeded, SSkipped}) \<or>
      flow_run_status fr d \<in> {Some FFailed, Some FCompFailed} \<and>
        (\<exists>s\<in>set (steps_of fr d). fs_status s = SFailed))"

lemma finish_flow_status:
  "flow_run_by_id fr d \<noteq> None \<Longrightarrow> flow_run_status fr (finish_flow_run now fr st d) = Some st"
proof -
  assume "flow_run_by_id fr d \<noteq> None"
  then obtain f where f: "find (\<lambda>f. fr_id f = fr) (flow_runs d) = Some f" by (auto simp: flow_run_by_id_def)
  then have "fr_id f = fr" by (auto dest: find_SomeD)
  with f show ?thesis
    by (simp add: flow_run_status_def finish_flow_run_def flow_run_by_id_def
        find_update_where [where key = fr_id])
qed

lemma finish_flow_steps: "steps_of fr (finish_flow_run now fr' st d) = steps_of fr d"
  by (simp add: steps_of_def finish_flow_run_def)

lemma touch_flow:
  "rows_of fr (touch_flow_run now fr d) = rows_of fr d"
  "flow_inv fr rank X (touch_flow_run now fr d) = flow_inv fr rank X d"
  "flow_run_by_id fr d \<noteq> None \<Longrightarrow> flow_run_by_id fr (touch_flow_run now fr d) \<noteq> None"
proof -
  show "rows_of fr (touch_flow_run now fr d) = rows_of fr d"
    by (rule rows_of_cong) (simp add: touch_flow_run_def)
  show "flow_inv fr rank X (touch_flow_run now fr d) = flow_inv fr rank X d"
    by (rule flow_inv_cong) (simp_all add: touch_flow_run_def)
  show "flow_run_by_id fr d \<noteq> None \<Longrightarrow> flow_run_by_id fr (touch_flow_run now fr d) \<noteq> None"
    by (simp add: touch_flow_run_def flow_run_by_id_def find_update_where [where key = fr_id])
qed

lemma compensated_status:
  "fs_status ` set (rows_of fr (mark_step_compensated fr sid d)) = fs_status ` set (rows_of fr d)"
proof -
  have "map fs_status (rows_of fr (mark_step_compensated fr sid d)) = map fs_status (rows_of fr d)"
    by (simp add: mark_step_compensated_def rows_of_upd map_update_where)
  from arg_cong [OF this, of set] show ?thesis by simp
qed

lemma compensate_one_flow:
  "flow_runs (snd (compensate_one env fr input s (n, d))) = flow_runs d \<and>
   ((\<exists>t\<in>set (rows_of fr d). fs_status t = SFailed) \<longrightarrow>
    (\<exists>t\<in>set (rows_of fr (snd (compensate_one env fr input s (n, d)))). fs_status t = SFailed))"
proof -
  let ?i = "case fs_compensate s of Some i \<Rightarrow> i | None \<Rightarrow> 0"
  show ?thesis
  proof (cases "get_script ?i d")
    case sc: (Some sc)
    show ?thesis
    proof (cases "runtime_spec (sc_runtime sc) = None \<or> (\<exists>e. insert_run (ee_clock env d) ?i (comp_input input s) None d = Inl e)")
      case True
      with sc show ?thesis by (auto simp: compensate_one_def Let_def)
    next
      case False
      then obtain rid d1 where ins: "insert_run (ee_clock env d) ?i (comp_input input s) None d = Inr (rid, d1)"
        by (cases "insert_run (ee_clock env d) ?i (comp_input input s) None d") auto
      obtain ii where rt: "runtime_spec (sc_runtime sc) = Some ii" using False by auto
      let ?d2 = "exec_run env (script_args sc rid (comp_input input s) d1) d1"
      from insert_run_flow(2) [OF ins] obtain r where r: "run_by_id rid d1 = Some r" by blast
      have "same_flow d1 ?d2" by (rule exec_run_flow) (simp add: r)
      with insert_run_flow(1) [OF ins] have same: "same_flow d ?d2" by (rule same_flow_trans)
      have "snd (compensate_one env fr input s (n, d)) = mark_step_compensated fr (fs_step_id s) ?d2"
        by (simp add: compensate_one_def Let_def sc rt ins)
      moreover have "fs_status ` set (rows_of fr (mark_step_compensated fr (fs_step_id s) ?d2)) =
          fs_status ` set (rows_of fr d)" unfolding compensated_status same_flow_rows [OF same] ..
      then have "(\<exists>t\<in>set (rows_of fr d). fs_status t = SFailed) \<longrightarrow>
          (\<exists>t\<in>set (rows_of fr (mark_step_compensated fr (fs_step_id s) ?d2)). fs_status t = SFailed)"
        by (metis imageE image_eqI)
      moreover have "flow_runs (mark_step_compensated fr (fs_step_id s) ?d2) = flow_runs d"
        using same by (simp add: mark_step_compensated_def same_flow_def)
      ultimately show ?thesis by simp
    qed
  qed (simp add: compensate_one_def)
qed

lemma compensate_flow:
  "flow_runs (snd (compensate env fr input steps d)) = flow_runs d"
  "\<exists>t\<in>set (rows_of fr d). fs_status t = SFailed \<Longrightarrow>
   \<exists>t\<in>set (rows_of fr (snd (compensate env fr input steps d))). fs_status t = SFailed"
proof -
  have "flow_runs (snd (fold (compensate_one env fr input) ss (n, d))) = flow_runs d \<and>
    ((\<exists>t\<in>set (rows_of fr d). fs_status t = SFailed) \<longrightarrow>
     (\<exists>t\<in>set (rows_of fr (snd (fold (compensate_one env fr input) ss (n, d)))). fs_status t = SFailed))" for ss n d
  proof (induction ss arbitrary: n d)
    case (Cons s ss)
    obtain n1 d1 where one: "compensate_one env fr input s (n, d) = (n1, d1)" by fastforce
    with compensate_one_flow [of env fr input s n d] Cons.IH [of n1 d1] show ?case by simp
  qed simp
  then show "flow_runs (snd (compensate env fr input steps d)) = flow_runs d"
    "\<exists>t\<in>set (rows_of fr d). fs_status t = SFailed \<Longrightarrow>
     \<exists>t\<in>set (rows_of fr (snd (compensate env fr input steps d))). fs_status t = SFailed"
    by (simp_all add: compensate_def)
qed

lemma steps_in_snapshot:
  assumes "flow_inv fr rank X d"
  shows "steps_in st fr (filter (\<lambda>s. fs_status s = st) (steps_of fr d)) d"
proof -
  have "map fs_step_id (steps_of fr d) = map fs_step_id (rows_of fr d)" by (simp add: steps_of_rows)
  with assms have "distinct (map fs_step_id (steps_of fr d))" by (simp add: flow_inv_def)
  then have "distinct (map fs_step_id (filter (\<lambda>s. fs_status s = st) (steps_of fr d)))"
    by (rule distinct_map_filter)
  then show ?thesis by (auto simp: steps_in_def set_steps_of)
qed

text \<open>A pass ends the flow for good, or gets closer to that; it never has to wait.\<close>

lemma drive_pass_cases:
  assumes inv: "flow_inv fr rank {} d" and run: "flow_run_by_id fr d \<noteq> None"
    and sched: "\<And>d xs. mset (sched d xs) = mset xs"
  shows "(\<exists>d'. drive_pass env sched fr input d = Done d' \<and> flow_over fr d') \<or>
    (\<exists>d'. drive_pass env sched fr input d = Again d' \<and> flow_inv fr rank {} d' \<and>
       flow_run_by_id fr d' \<noteq> None \<and> work_left fr d' < work_left fr d)"
proof -
  let ?d0 = "touch_flow_run (ee_clock env d) fr d" and ?steps = "steps_of fr (touch_flow_run (ee_clock env d) fr d)"
  have inv0: "flow_inv fr rank {} ?d0" and run0: "flow_run_by_id fr ?d0 \<noteq> None"
    using inv run touch_flow by auto
  have left0: "work_left fr ?d0 = work_left fr d" by (simp add: work_left_def touch_flow)
  have again: "flow_inv fr rank {} d' \<and> flow_run_by_id fr d' \<noteq> None \<and> work_left fr d' < work_left fr d"
    if "worked fr rank ?d0 d' True" for d'
    using that run0 left0 by (auto simp: worked_def flow_run_by_id_def)
  show ?thesis
  proof (cases "\<exists>s\<in>set ?steps. fs_status s = SFailed")
    case True
    obtain n d1 where c: "compensate env fr input ?steps ?d0 = (n, d1)" by fastforce
    let ?st = "if 0 < n then FCompFailed else FFailed"
    let ?d' = "finish_flow_run (ee_clock env d1) fr ?st d1"
    have "flow_runs d1 = flow_runs ?d0" using compensate_flow(1) [of env fr input ?steps ?d0] c by simp
    then have "flow_run_by_id fr d1 \<noteq> None" using run0 by (simp add: flow_run_by_id_def)
    then have "flow_run_status fr ?d' = Some ?st" by (rule finish_flow_status)
    moreover have "\<exists>t\<in>set (rows_of fr d1). fs_status t = SFailed"
      using compensate_flow(2) [of fr ?d0 env input ?steps] True c by (auto simp: set_steps_of)
    ultimately have "flow_over fr ?d'" by (auto simp: flow_over_def finish_flow_steps set_steps_of)
    with True c show ?thesis by (simp add: drive_pass_def Let_def)
  next
    case nofail: False
    show ?thesis
    proof (cases "\<exists>s\<in>set ?steps. unfinished s")
      case False
      have "fs_status s \<in> {SSucceeded, SSkipped}" if "s \<in> set ?steps" for s
        using that nofail False by (cases "fs_status s") (auto simp: unfinished_def)
      with finish_flow_status [OF run0, of "ee_clock env ?d0" FSucceeded]
      have "flow_over fr (finish_flow_run (ee_clock env ?d0) fr FSucceeded ?d0)"
        by (simp add: flow_over_def finish_flow_steps)
      with nofail False show ?thesis by (simp add: drive_pass_def Let_def)
    next
      case unf: True
      let ?exp = "filter (\<lambda>s. fs_status s = SExpanded) ?steps"
      let ?pend = "filter (\<lambda>s. fs_status s = SPending) ?steps"
      obtain pa d1 where a: "aggregate_parents env fr ?steps ?exp ?d0 = (pa, d1)" by fastforce
      from aggregate_worked [OF inv0 steps_in_snapshot [OF inv0] a]
      have wa: "worked fr rank ?d0 d1 pa"
        and none: "\<not> pa \<Longrightarrow> p \<in> set ?exp \<Longrightarrow> aggregate_children (c_print (ee_crypto env)) ?steps (fs_step_id p) = None" for p
        by auto
      show ?thesis
      proof (cases pa)
        case True
        with again wa a nofail unf show ?thesis by (simp add: drive_pass_def Let_def)
      next
        case False
        with wa have d1: "d1 = ?d0" by (simp add: worked_def)
        obtain pr tr d2 where r: "resolve_pending env fr input (step_outputs ?steps) (skipped_steps ?steps) ?pend ?d0 = (pr, tr, d2)"
          by (metis prod.exhaust)
        note rw = resolve_worked [OF inv0 steps_in_snapshot [OF inv0] r]
        show ?thesis
        proof (cases "tr = []")
          case True
          have pr
          proof (rule ccontr)
            assume "\<not> pr"
            with rw True have "\<forall>s\<in>set ?pend. decide env input (step_outputs ?steps) (skipped_steps ?steps) s = Wait" by blast
            moreover have "\<exists>s\<in>set ?steps. fs_status s = SPending \<and>
                decide env input (step_outputs ?steps) (skipped_steps ?steps) s \<noteq> Wait"
              by (rule not_stuck [OF inv0 unf nofail]) (use none False in auto)
            ultimately show False by auto
          qed
          with rw again True a r d1 False nofail unf show ?thesis by (simp add: drive_pass_def Let_def)
        next
          case ne: False
          let ?d3 = "run_batch env sched fr input tr d2"
          have ms: "mset (map fst (sched d2 tr)) = mset (map fst tr)" using sched by simp
          have "distinct (map fs_step_id (map fst (sched d2 tr))) = distinct (map fs_step_id (map fst tr))"
            using ms by (metis mset_eq_imp_distinct_iff mset_map)
          moreover have "set (map fst (sched d2 tr)) = set (map fst tr)" using ms by (metis set_mset_mset)
          ultimately have "steps_in SPending fr (map fst (sched d2 tr)) d2"
            using rw by (simp add: steps_in_def)
          from run_batch_worked [OF _ this, of rank env input] rw
          have "worked fr rank d2 ?d3 (sched d2 tr \<noteq> [])" by (simp add: run_batch_def worked_def)
          moreover have "sched d2 tr \<noteq> []" using sched [of d2 tr] ne by auto
          ultimately have "worked fr rank ?d0 ?d3 True" using rw by (auto simp: worked_def split: if_splits)
          with again a r d1 False nofail unf ne show ?thesis by (simp add: drive_pass_def Let_def)
        qed
      qed
    qed
  qed
qed

lemma drive_ends:
  assumes "flow_inv fr rank {} d" and "flow_run_by_id fr d \<noteq> None"
    and sched: "\<And>d xs. mset (sched d xs) = mset xs" and "work_left fr d < n"
  shows "\<exists>d'. drive n env sched fr input d = Some d' \<and> flow_over fr d'"
  using assms(1,2,4)
proof (induction n arbitrary: d)
  case (Suc n)
  have "(\<exists>d'. drive_pass env sched fr input d = Done d' \<and> flow_over fr d') \<or>
    (\<exists>d'. drive_pass env sched fr input d = Again d' \<and> flow_inv fr rank {} d' \<and>
       flow_run_by_id fr d' \<noteq> None \<and> work_left fr d' < work_left fr d)"
    by (rule drive_pass_cases [OF Suc.prems(1,2)]) (rule sched)
  then show ?case
  proof (elim disjE exE conjE)
    fix d' assume "drive_pass env sched fr input d = Done d'" "flow_over fr d'"
    then show ?thesis by simp
  next
    fix d' assume a: "drive_pass env sched fr input d = Again d'" "flow_inv fr rank {} d'"
      "flow_run_by_id fr d' \<noteq> None" "work_left fr d' < work_left fr d"
    from Suc.IH [OF a(2,3)] a(4) Suc.prems(3) a(1) show ?thesis by simp
  qed
qed simp

text \<open>A ledger that was just created from a good spec satisfies the invariant.\<close>

lemma step_row_sel [simp]:
  "fs_flow_run (step_row fr st) = fr" "fs_step_id (step_row fr st) = step_name st"
  "fs_depends_on (step_row fr st) = step_deps st" "fs_status (step_row fr st) = SPending"
  by (simp_all add: step_row_def step_name_def)

lemma step_name_no_hash: "step_fields_ok st \<Longrightarrow> CHR ''#'' \<notin> set (step_name st)"
  by (auto simp: step_fields_ok_def id_ok_def step_name_def get_as_def split: option.splits json.splits)

lemma new_flow_inv:
  assumes wf: "ledger_wf d" and ok: "spec_ok spec"
    and ins: "insert_flow_run fid spec input d = Inr (fr, d')"
  shows "\<exists>rank. flow_inv fr rank {} d'" and "flow_run_by_id fr d' \<noteq> None"
    and "work_left fr d' \<le> (max_map_fanout + 2) * length (spec_steps spec)"
proof -
  let ?sts = "spec_steps spec"
  note r = insert_ledger_Inr [OF ins [unfolded insert_flow_run_def] wf]
  have d': "flow_steps d' = flow_steps d @ map (step_row fr) ?sts" "scripts d' = scripts d"
    "flow_runs d' = flow_runs d @ [new_flow_run fr fid input None]" unfolding r(2) by simp_all
  have "fs_flow_run s \<noteq> fr" if "s \<in> set (flow_steps d)" for s
    using wf that r(1) by (fastforce simp: ledger_wf_def)
  then have "filter (\<lambda>s. fs_flow_run s = fr) (flow_steps d) = []" by (simp add: filter_empty_conv)
  then have rows: "rows_of fr d' = map (step_row fr) ?sts" by (simp add: rows_of_def d' comp_def)
  from spec_ok_ranked [OF ok] obtain rank where
    rank: "\<And>st x. st \<in> set ?sts \<Longrightarrow> x \<in> set (step_deps st) \<Longrightarrow>
      rank x < (rank (step_name st) :: nat) \<and> x \<in> set (map step_name ?sts)" by blast
  have nohash: "CHR ''#'' \<notin> set (step_name st)" if "st \<in> set ?sts" for st
    using ok that by (simp add: spec_ok_def step_name_no_hash)
  have base_name: "base (step_name st) = step_name st" if "st \<in> set ?sts" for st
    using nohash [OF that] by (rule base_id)
  have "row_inv fr rank {} d' (step_row fr st)" if st: "st \<in> set ?sts" for st
  proof -
    have "x \<in> fs_step_id ` set (rows_of fr d') \<and> rank (base x) < rank (base (step_name st))"
      if x: "x \<in> set (step_deps st)" for x
    proof -
      from rank [OF st x] obtain st' where st': "st' \<in> set ?sts" "x = step_name st'" by auto
      with rank [OF st x] base_name [OF st] base_name [OF st'(1)] show ?thesis
        by (auto simp: rows image_image)
    qed
    moreover have "get_script (fs_script_id (step_row fr st)) d' \<noteq> None"
      using r(4) st get_script_cong [OF d'(2)] by simp
    ultimately show ?thesis using nohash [OF st] by (simp add: row_inv_def)
  qed
  moreover have "distinct (map fs_step_id (rows_of fr d'))"
    using ok by (simp add: rows comp_def spec_ok_def)
  ultimately show "\<exists>rank. flow_inv fr rank {} d'" by (auto simp: flow_inv_def rows)
  show "flow_run_by_id fr d' \<noteq> None"
    by (simp add: flow_run_by_id_def d' find_append new_flow_run_def split: option.split)
  have le: "weight s \<le> max_map_fanout + 2" for s by (simp add: weight_def split: step_status.split)
  have "sum_list (map weight ss) \<le> (max_map_fanout + 2) * length ss" for ss
  proof (induction ss)
    case (Cons a ss)
    with le [of a] show ?case by simp
  qed simp
  from this [of "map (step_row fr) ?sts"] show "work_left fr d' \<le> (max_map_fanout + 2) * length ?sts"
    by (simp add: work_left_def rows)
qed

text \<open>Termination: whatever the containers, the host and the task scheduler do, driving a flow run
  created from a validated spec comes to an end within 1002 passes per step, and then either it
  is \<open>succeeded\<close> and every step succeeded or was skipped, or it is \<open>failed\<close> (or
  \<open>compensation_failed\<close>) and some step failed.  No pass ever has to wait for something that
  nobody will do.\<close>

theorem flow_terminates:
  assumes "validate_spec order spec = Inr ()" and "\<And>ks. set (order ks) = set ks"
    and "ledger_wf d" and "insert_flow_run fid spec input d = Inr (fr, d')"
    and "\<And>d xs. mset (sched d xs) = mset xs" and "n = 1002 * length (spec_steps spec) + 1"
  shows "\<exists>d''. drive n env sched fr flow_input d' = Some d'' \<and> flow_over fr d''"
proof -
  have ok: "spec_ok spec" using assms(1,2) by (simp add: validate_ok_iff)
  note new = new_flow_inv [OF assms(3) ok assms(4)]
  from new(1) obtain rank where "flow_inv fr rank {} d'" by blast
  moreover have "work_left fr d' < n" using new(3) assms(6) by (simp add: max_map_fanout_def)
  ultimately show ?thesis using drive_ends [OF _ new(2)] assms(5) by blast
qed

theorem flow_terminates_witness:
  "\<exists>fr d' d''. insert_flow_run 1 sample_spec (JObj []) flow_db = Inr (fr, d') \<and>
     drive 2005 sample_host (\<lambda>d xs. xs) fr (JObj []) d' = Some d'' \<and> flow_over fr d''"
proof -
  have v: "validate_spec (\<lambda>ks. ks) sample_spec = Inr ()" by (simp add: validate_simps numeral_eq_Suc)
  have wf: "ledger_wf flow_db"
    by (simp add: flow_db_def insert_flow_def insert_script_def empty_db_def ledger_wf_def)
  have "\<exists>p. insert_flow_run 1 sample_spec (JObj []) flow_db = Inr p"
    by (simp add: insert_flow_run_def insert_ledger_def get_flow_spec_def flow_db_def insert_flow_def
        insert_script_def empty_db_def sample_spec_def spec_steps_def get_as_def jget_def step_row_def
        get_script_def has_step_def Let_def)
  then obtain fr d' where ins: "insert_flow_run 1 sample_spec (JObj []) flow_db = Inr (fr, d')" by auto
  have n: "(2005::nat) = 1002 * length (spec_steps sample_spec) + 1"
    by (simp add: sample_spec_def spec_steps_def get_as_def jget_def)
  from flow_terminates [OF v _ wf ins _ n, where sched = "\<lambda>d xs. xs" and env = sample_host and flow_input = "JObj []"]
  show ?thesis using ins by auto
qed

end
