(* ===== verification/Flow_Safety.thy ===== *)
theory Flow_Safety
  imports Flow_Laws
begin

text \<open>
  The order of things in a flow: no step starts before its dependencies succeeded, fan-out results
  keep the order of the input, compensation runs from the last finished step to the first.  And
  two things the engine does not do: keep a step's run out of the workers' queue, and pick up a
  step that was running when its engine died.
\<close>

section \<open>Dependencies\<close>

lemma not_ready:
  assumes "x \<in> set (fs_depends_on s)"
    and "\<not> (\<exists>t\<in>set steps. fs_step_id t = x \<and> fs_status t = SSucceeded)"
  shows "decide env input (step_outputs steps) (skipped_steps steps) s \<in> {Wait, Skip}"
proof -
  have none: "map_of (step_outputs steps) x = None" using assms(2) step_outputs_iff [of steps x] by blast
  show ?thesis
  proof (cases "x \<in> set (skipped_steps steps)")
    case True
    with assms(1) show ?thesis unfolding decide_def by auto
  next
    case False
    with none assms(1) show ?thesis unfolding decide_def by auto
  qed
qed

lemma aggregate_keeps:
  assumes "flow_inv fr rank {} d" and "steps_in SExpanded fr ps d"
    and "aggregate_parents env fr steps ps d = (pr, d')"
  shows "keeps_rows fr (fs_step_id ` set ps) d d'"
  using assms
proof (induction ps arbitrary: d pr d')
  case Nil
  then show ?case by (simp add: keeps_rows_def)
next
  case (Cons p ps)
  have rest: "steps_in SExpanded fr ps d" by (rule steps_in_Cons [OF Cons.prems(2)])
  from steps_in_head [OF Cons.prems(2)] obtain s0 where
    s0: "s0 \<in> set (rows_of fr d)" "p = default_input s0" "fs_status s0 = SExpanded"
    and new: "fs_step_id p \<notin> fs_step_id ` set ps" by auto
  have w: "0 < weight s0" using s0(3) by (simp add: weight_def)
  have inv1: "flow_inv fr rank {fs_step_id p} d" by (rule flow_inv_mono [OF Cons.prems(1)]) simp
  have fin: "keeps_rows fr (fs_step_id ` set (p # ps)) d d'"
    if eq: "d' = snd (aggregate_parents env fr steps ps (finish_step now fr (fs_step_id p) st out d))"
    and st: "st \<in> {SSucceeded, SFailed}" for now st out
  proof -
    let ?d = "finish_step now fr (fs_step_id p) st out d"
    have adv: "advances fr rank (fs_step_id p) d ?d"
      by (rule done_advances [OF finish_done [OF inv1 st] s0(1) _ w]) (simp add: s0(2))
    obtain b where b: "aggregate_parents env fr steps ps ?d = (b, d')" using eq by (metis prod.collapse)
    from Cons.IH [OF _ steps_in_advance [OF rest adv new] b] adv show ?thesis
      by (auto simp: advances_def keeps_rows_def)
  qed
  show ?case
  proof (cases "aggregate_children (c_print (ee_crypto env)) steps (fs_step_id p)")
    case None
    with Cons.IH [OF Cons.prems(1) rest] Cons.prems(3) show ?thesis by (auto simp: keeps_rows_def)
  next
    case (Some g)
    show ?thesis by (cases g) (use Some Cons.prems(3) fin in auto)
  qed
qed

lemma batch_keeps:
  assumes "flow_inv fr rank {} d" and "steps_in SPending fr (map fst batch) d"
  shows "keeps_rows fr (fs_step_id ` set (map fst batch)) d
    (fold (\<lambda>(s, deps) d. run_step env fr input s deps d) batch d)"
  using assms
proof (induction batch arbitrary: d)
  case Nil
  then show ?case by (simp add: keeps_rows_def)
next
  case (Cons b batch)
  obtain s deps where b: "b = (s, deps)" by fastforce
  from steps_in_head [of SPending fr s "map fst batch" d] Cons.prems(2) b obtain s0 where
    s0: "s0 \<in> set (rows_of fr d)" "s = default_input s0" "fs_status s0 = SPending"
    and new: "fs_step_id s \<notin> fs_step_id ` set (map fst batch)" by auto
  let ?d = "run_step env fr input s deps d"
  have "0 < weight s0" using s0(3) by (simp add: weight_def)
  have adv: "advances fr rank (fs_step_id s) d ?d"
    by (rule done_advances [OF run_step_done [OF Cons.prems(1)] s0(1) _ \<open>0 < weight s0\<close>]) (simp add: s0(2))
  have "steps_in SPending fr (map fst batch) ?d"
    by (rule steps_in_advance [OF _ adv new]) (use Cons.prems(2) b steps_in_Cons in auto)
  from Cons.IH [OF _ this] adv show ?case by (auto simp: advances_def keeps_rows_def b)
qed

text \<open>What resolving leaves of a step that may not run: its row as it was, or skipped.\<close>

lemma resolve_row:
  assumes "flow_inv fr rank {} d" and "steps_in SPending fr ss d"
    and "resolve_pending env fr input outs sk ss d = (pr, tr, d')"
    and "s \<in> set ss" and "decide env input outs sk s \<in> {Wait, Skip}"
  shows "(\<exists>s'\<in>set (rows_of fr d'). fs_step_id s' = fs_step_id s \<and> fs_status s' \<in> {SPending, SSkipped}) \<and>
    s \<notin> set (map fst tr)"
  using assms
proof (induction ss arbitrary: d pr tr d')
  case (Cons t ss)
  have rest: "steps_in SPending fr ss d" by (rule steps_in_Cons [OF Cons.prems(2)])
  from steps_in_head [OF Cons.prems(2)] obtain s0 where
    s0: "s0 \<in> set (rows_of fr d)" "t = default_input s0" "fs_status s0 = SPending"
    and new: "fs_step_id t \<notin> fs_step_id ` set ss" by auto
  have w: "0 < weight s0" using s0(3) by (simp add: weight_def)
  have later: ?case
    if adv: "advances fr rank (fs_step_id t) d d1" and ne: "s \<noteq> t"
    and r: "(tr, d') = snd (resolve_pending env fr input outs sk ss d1)" for d1
  proof -
    obtain b where b: "resolve_pending env fr input outs sk ss d1 = (b, tr, d')" using r by (metis prod.collapse)
    from Cons.IH [OF _ steps_in_advance [OF rest adv new] b _ Cons.prems(5)] adv ne Cons.prems(4)
    show ?thesis by (auto simp: advances_def)
  qed
  show ?case
  proof (cases "decide env input outs sk t")
    case Wait
    with Cons.prems(3) have r: "resolve_pending env fr input outs sk ss d = (pr, tr, d')" by simp
    show ?thesis
    proof (cases "s = t")
      case False
      with Cons.IH [OF Cons.prems(1) rest r _ Cons.prems(5)] Cons.prems(4) show ?thesis by auto
    next
      case True
      note w = resolve_worked [OF Cons.prems(1) rest r]
      with s0 new True have "s0 \<in> set (rows_of fr d')" by (auto simp: keeps_rows_def)
      moreover have "s \<notin> set (map fst tr)" using w new True by (metis image_eqI subsetD)
      ultimately show ?thesis using s0 True by auto
    qed
  next
    case Skip
    let ?d1 = "mark_step_skipped (ee_clock env d) fr (fs_step_id t) d"
    have inv1: "flow_inv fr rank {fs_step_id t} d" by (rule flow_inv_mono [OF Cons.prems(1)]) simp
    have adv: "advances fr rank (fs_step_id t) d ?d1"
      by (rule done_advances [OF skip_done [OF inv1] s0(1) _ w]) (simp add: s0(2))
    from Skip Cons.prems(3) have r: "(tr, d') = snd (resolve_pending env fr input outs sk ss ?d1)" by auto
    show ?thesis
    proof (cases "s = t")
      case False
      from later [OF adv False r] show ?thesis .
    next
      case True
      let ?row = "s0\<lparr>fs_status := SSkipped, fs_finished_at := Some (ee_clock env d)\<rparr>"
      have "?row \<in> set (rows_of fr ?d1)"
        using s0(1,2) by (auto simp: mark_step_skipped_def rows_of_upd set_update_where)
      moreover obtain b where b: "resolve_pending env fr input outs sk ss ?d1 = (b, tr, d')"
        using r by (metis prod.collapse)
      have "flow_inv fr rank {} ?d1" using adv by (simp add: advances_def)
      note w = resolve_worked [OF this steps_in_advance [OF rest adv new] b]
      ultimately have "?row \<in> set (rows_of fr d')" using w new s0(2) by (auto simp: keeps_rows_def)
      moreover have "s \<notin> set (map fst tr)" using w new True by (metis image_eqI subsetD)
      ultimately show ?thesis using True s0(2) by (intro conjI bexI [of _ ?row]) simp_all
    qed
  next
    case (Expand deps m)
    have "fs_map_ref t \<noteq> None" using Expand by (auto simp: decide_def Let_def split: if_splits option.splits)
    then have "advances fr rank (fs_step_id t) d (expand env fr t input deps m d)"
      by (intro expand_advances [OF Cons.prems(1) s0(1)]) (simp_all add: s0)
    moreover have "s \<noteq> t" using Expand Cons.prems(5) by auto
    ultimately show ?thesis using later Expand Cons.prems(3) by simp
  next
    case (Run deps)
    obtain tr' where r: "resolve_pending env fr input outs sk ss d = (pr, tr', d')" and tr: "tr = (t, deps) # tr'"
      using Cons.prems(3) Run by (auto split: prod.splits)
    have "s \<noteq> t" using Run Cons.prems(5) by auto
    with Cons.IH [OF Cons.prems(1) rest r _ Cons.prems(5)] Cons.prems(4) tr show ?thesis by auto
  qed
qed simp

lemma pass_waits:
  assumes inv: "flow_inv fr rank {} d" and sched: "\<And>d xs. mset (sched d xs) = mset xs"
    and pass: "drive_pass env sched fr input d = Again d'"
    and s: "s \<in> set (steps_of fr d)" "fs_status s = SPending" "x \<in> set (fs_depends_on s)"
    and dep: "\<not> (\<exists>t\<in>set (steps_of fr d). fs_step_id t = x \<and> fs_status t = SSucceeded)"
  shows "\<exists>s'\<in>set (steps_of fr d'). fs_step_id s' = fs_step_id s \<and> fs_status s' \<in> {SPending, SSkipped}"
proof -
  let ?d0 = "touch_flow_run (ee_clock env d) fr d" and ?steps = "steps_of fr d"
  let ?exp = "filter (\<lambda>s. fs_status s = SExpanded) ?steps" and ?pend = "filter (\<lambda>s. fs_status s = SPending) ?steps"
  have inv0: "flow_inv fr rank {} ?d0" using inv touch_flow by auto
  have st: "steps_of fr ?d0 = ?steps" by (simp add: steps_of_rows touch_flow)
  obtain s0 where s0: "s0 \<in> set (rows_of fr ?d0)" "s = default_input s0" "fs_status s0 = SPending"
    using s by (auto simp: set_steps_of touch_flow)
  obtain pa d1 where a: "aggregate_parents env fr ?steps ?exp ?d0 = (pa, d1)" by fastforce
  have exp_in: "steps_in SExpanded fr ?exp ?d0" and pend_in: "steps_in SPending fr ?pend ?d0"
    using steps_in_snapshot [OF inv0] st by metis+
  have dist: "distinct (map fs_step_id (rows_of fr ?d0))" using inv0 by (simp add: flow_inv_def)
  have "fs_step_id s0 \<notin> fs_step_id ` set ?exp"
  proof
    assume "fs_step_id s0 \<in> fs_step_id ` set ?exp"
    then obtain t0 where t0: "t0 \<in> set (rows_of fr ?d0)" "fs_step_id t0 = fs_step_id s0" "fs_status t0 = SExpanded"
      by (auto simp: set_steps_of touch_flow)
    from distinct_key_eq [OF dist t0(1) s0(1) t0(2)] t0(3) s0(3) show False by simp
  qed
  with aggregate_keeps [OF inv0 exp_in a] s0(1) have keep1: "s0 \<in> set (rows_of fr d1)"
    by (auto simp: keeps_rows_def)
  show ?thesis
  proof (cases pa)
    case True
    with pass a st have "d' = d1" by (auto simp: drive_pass_def Let_def split: if_splits prod.splits)
    with keep1 s0 show ?thesis by (auto simp: set_steps_of)
  next
    case False
    with aggregate_worked [OF inv0 exp_in a] have d1: "d1 = ?d0" by (simp add: worked_def)
    obtain pr tr d2 where r: "resolve_pending env fr input (step_outputs ?steps) (skipped_steps ?steps) ?pend ?d0 = (pr, tr, d2)"
      by (metis prod.exhaust)
    have "s \<in> set ?pend" using s(1,2) by simp
    from resolve_row [OF inv0 pend_in r this not_ready [OF s(3) dep]] obtain s1 where
      s1: "s1 \<in> set (rows_of fr d2)" "fs_step_id s1 = fs_step_id s" "fs_status s1 \<in> {SPending, SSkipped}"
      and out: "s \<notin> set (map fst tr)" by blast
    note rw = resolve_worked [OF inv0 pend_in r]
    show ?thesis
    proof (cases "tr = []")
      case True
      with pass a st r d1 False have "d' = d2"
        by (auto simp: drive_pass_def Let_def split: if_splits prod.splits)
      with s1 show ?thesis by (auto simp: set_steps_of)
    next
      case ne: False
      with pass a st r d1 False have d': "d' = run_batch env sched fr input tr d2"
        by (auto simp: drive_pass_def Let_def split: if_splits prod.splits)
      have ms: "mset (map fst (sched d2 tr)) = mset (map fst tr)" using sched by simp
      then have same: "set (map fst (sched d2 tr)) = set (map fst tr)" by (metis set_mset_mset)
      moreover have "distinct (map fs_step_id (map fst (sched d2 tr))) = distinct (map fs_step_id (map fst tr))"
        using ms by (metis mset_eq_imp_distinct_iff mset_map)
      ultimately have "steps_in SPending fr (map fst (sched d2 tr)) d2" using rw by (simp add: steps_in_def)
      from batch_keeps [OF _ this, of rank env input] rw
      have keep: "keeps_rows fr (fs_step_id ` set (map fst tr)) d2 d'"
        by (simp add: d' run_batch_def same [unfolded set_map] worked_def)
      have "fs_step_id s \<notin> fs_step_id ` set (map fst tr)"
      proof
        assume "fs_step_id s \<in> fs_step_id ` set (map fst tr)"
        then obtain t where t: "t \<in> set (map fst tr)" "fs_step_id t = fs_step_id s"
          unfolding image_iff by metis
        with rw have "t \<in> set ?pend" by blast
        with \<open>s \<in> set ?pend\<close> t(2) pend_in have "t = s" unfolding steps_in_def by (metis distinct_key_eq)
        with t(1) out show False by simp
      qed
      with keep s1 have "s1 \<in> set (rows_of fr d')" by (auto simp: keeps_rows_def)
      with s1 show ?thesis by (auto simp: set_steps_of)
    qed
  qed
qed

text \<open>The states a flow run goes through: its ledger as created, and every pass after that.\<close>

inductive driven :: "exec_env \<Rightarrow> sched \<Rightarrow> int \<Rightarrow> json \<Rightarrow> db \<Rightarrow> db \<Rightarrow> bool"
  for env sched fr input where
  driven_refl: "driven env sched fr input d d"
| driven_pass: "driven env sched fr input d e \<Longrightarrow> drive_pass env sched fr input e = Again e' \<Longrightarrow>
    driven env sched fr input d e'"

lemma driven_inv:
  assumes "driven env sched fr input d e" and "flow_inv fr rank {} d" and "flow_run_by_id fr d \<noteq> None"
    and sched: "\<And>d xs. mset (sched d xs) = mset xs"
  shows "flow_inv fr rank {} e \<and> flow_run_by_id fr e \<noteq> None"
  using assms(1-3)
proof (induction rule: driven.induct)
  case (driven_pass d e e')
  then have e: "flow_inv fr rank {} e" "flow_run_by_id fr e \<noteq> None" by auto
  have "(\<exists>d'. drive_pass env sched fr input e = Done d' \<and> flow_over fr d') \<or>
    (\<exists>d'. drive_pass env sched fr input e = Again d' \<and> flow_inv fr rank {} d' \<and>
       flow_run_by_id fr d' \<noteq> None \<and> work_left fr d' < work_left fr e)"
    by (rule drive_pass_cases [OF e]) (rule sched)
  with driven_pass.hyps(2) show ?case by auto
qed simp

text \<open>C14. No step starts early: at whatever point of a validated flow, a pending step with a
  dependency that has not succeeded is still pending after the next pass, or it was skipped.\<close>

theorem steps_wait_for_deps:
  assumes "validate_spec order spec = Inr ()" and "\<And>ks. set (order ks) = set ks"
    and "ledger_wf d" and "insert_flow_run fid spec input d = Inr (fr, d0)"
    and "\<And>d xs. mset (sched d xs) = mset xs"
    and "driven env sched fr flow_input d0 e" and "drive_pass env sched fr flow_input e = Again e'"
    and "s \<in> set (steps_of fr e)" and "fs_status s = SPending" and "x \<in> set (fs_depends_on s)"
    and "\<not> (\<exists>t\<in>set (steps_of fr e). fs_step_id t = x \<and> fs_status t = SSucceeded)"
  shows "\<exists>s'\<in>set (steps_of fr e'). fs_step_id s' = fs_step_id s \<and> fs_status s' \<in> {SPending, SSkipped}"
proof -
  have ok: "spec_ok spec" using assms(1,2) by (simp add: validate_ok_iff)
  note new = new_flow_inv [OF assms(3) ok assms(4)]
  from new(1) obtain rank where rank: "flow_inv fr rank {} d0" by blast
  have inv: "flow_inv fr rank {} e" using driven_inv [OF assms(6) rank new(2)] assms(5) by blast
  show ?thesis by (rule pass_waits [OF inv _ assms(7-11)]) (rule assms(5))
qed

lemma drive_pass_Done:
  "drive_pass env sched fr input d = Done d' \<Longrightarrow>
   (\<exists>s\<in>set (steps_of fr d). fs_status s = SFailed) \<or> \<not> (\<exists>s\<in>set (steps_of fr d). unfinished s)"
  by (auto simp: drive_pass_def Let_def steps_of_rows touch_flow split: if_splits prod.splits)

text \<open>The sample flow as created: \<open>a\<close>, and \<open>b\<close> that depends on it, both pending.\<close>

definition sample_flow :: db where
  "sample_flow = snd (projr (insert_flow_run 1 sample_spec (JObj []) flow_db))"

lemmas sample_flow_simps = insert_flow_run_def insert_ledger_def get_flow_spec_def flow_db_def insert_flow_def
  insert_script_def empty_db_def sample_spec_def spec_steps_def get_as_def jget_def step_row_def
  get_script_def has_step_def Let_def new_flow_run_def

lemma sample_flow_created: "insert_flow_run 1 sample_spec (JObj []) flow_db = Inr (1, sample_flow)"
  by (simp add: sample_flow_def) (simp add: sample_flow_simps)

lemma sample_flow_steps:
  "map fs_step_id (steps_of 1 sample_flow) = [''a'', ''b'']"
  "map fs_status (steps_of 1 sample_flow) = [SPending, SPending]"
  "map fs_depends_on (steps_of 1 sample_flow) = [[], [''a'']]"
  by (simp_all add: sample_flow_def steps_of_def sample_flow_simps step_deps_def List.map_filter_simps)

theorem steps_wait_for_deps_witness:
  "\<exists>e'. drive_pass sample_host (\<lambda>d xs. xs) 1 JNull sample_flow = Again e' \<and>
     (\<exists>s'\<in>set (steps_of 1 e'). fs_step_id s' = ''b'' \<and> fs_status s' \<in> {SPending, SSkipped})"
proof -
  have v: "validate_spec (\<lambda>ks. ks) sample_spec = Inr ()" by (simp add: validate_simps numeral_eq_Suc)
  have wf: "ledger_wf flow_db"
    by (simp add: flow_db_def insert_flow_def insert_script_def empty_db_def ledger_wf_def)
  obtain a b where ab: "steps_of 1 sample_flow = [a, b]"
    using arg_cong [OF sample_flow_steps(1), of length] by (auto simp: length_Suc_conv)
  with sample_flow_steps have f: "fs_step_id a = ''a''" "fs_step_id b = ''b''" "fs_status a = SPending"
    "fs_status b = SPending" "fs_depends_on b = [''a'']" by simp_all
  have ok: "spec_ok sample_spec" using v by (simp add: validate_ok_iff)
  note new = new_flow_inv [OF wf ok sample_flow_created]
  from new(1) obtain rank where rank: "flow_inv 1 rank {} sample_flow" by blast
  have "drive_pass sample_host (\<lambda>d xs. xs) 1 JNull sample_flow \<noteq> Done d'" for d'
    using drive_pass_Done [of sample_host "\<lambda>d xs. xs" 1 JNull sample_flow d'] ab f
    by (auto simp: unfinished_def)
  with drive_pass_cases [OF rank new(2), of "\<lambda>d xs. xs" sample_host JNull] obtain e' where
    e': "drive_pass sample_host (\<lambda>d xs. xs) 1 JNull sample_flow = Again e'" by auto
  have "\<exists>s'\<in>set (steps_of 1 e'). fs_step_id s' = fs_step_id b \<and> fs_status s' \<in> {SPending, SSkipped}"
    by (rule steps_wait_for_deps [OF v _ wf sample_flow_created _ driven_refl e', where x = "''a''"])
      (use ab f in auto)
  with e' f show ?thesis by auto
qed

section \<open>Fan-out\<close>

lemma split_on_last: "c \<notin> set s \<Longrightarrow> \<exists>us. us \<noteq> [] \<and> split_on c (w @ c # s) = us @ [s]"
proof (induction w)
  case Nil
  then show ?case by (intro exI [of _ "[[]]"]) (simp add: split_on_notin)
next
  case (Cons x w)
  then obtain u us where us: "split_on c (w @ c # s) = (u # us) @ [s]" by (metis neq_Nil_conv)
  show ?case
    by (intro exI [of _ "if x = c then [] # u # us else (x # u) # us"]) (simp add: us)
qed

lemma last_split_on: "c \<notin> set s \<Longrightarrow> last (split_on c (w @ c # s)) = s"
  using split_on_last [of c s w] by auto

lemma parse_u64_nat_str: "n < 2 ^ 64 \<Longrightarrow> parse_u64 (nat_str n) = Some n"
proof -
  assume n: "n < 2 ^ 64"
  have dig: "48 \<le> (of_char c :: nat) \<and> (of_char c :: nat) \<le> 57" if "c \<in> set (nat_str n)" for c
  proof -
    from nat_str_digits that obtain k where "k < 10" "c = digit_char k" by blast
    then show ?thesis by simp
  qed
  have plus: "CHR ''+'' \<notin> set (nat_str n)" by (rule nat_str_no_char) simp
  then have "(case nat_str n of c # r \<Rightarrow> if c = CHR ''+'' then r else nat_str n | [] \<Rightarrow> []) = nat_str n"
    by (cases "nat_str n") auto
  with n dig show ?thesis by (simp add: parse_u64_def)
qed

text \<open>Fan-out keeps the order of the input array: when every child of a map step has finished,
  in whatever order the ledger lists them, the step's output is the array of the children's
  outputs by index, with a null for a skipped child.\<close>

theorem fanout_in_order:
  assumes "mset (children_of p steps) = mset cs" and "cs \<noteq> []"
    and "\<And>i. i < length cs \<Longrightarrow> fs_step_id (cs ! i) = p @ ''#'' @ nat_str i"
    and "\<And>c. c \<in> set cs \<Longrightarrow> fs_status c \<in> {SSucceeded, SSkipped}" and "length cs \<le> 1000"
  shows "aggregate_children print steps p = Some (AggSucceeded (print (JArr (map child_value cs))))"
proof -
  let ?ks = "children_of p steps"
  have idx: "child_index (cs ! i) = i" if "i < length cs" for i
  proof -
    have "CHR ''#'' \<notin> set (nat_str i)" by (rule nat_str_no_char) simp
    from last_split_on [OF this, of p] assms(3) [OF that]
    have "last (split_on CHR ''#'' (fs_step_id (cs ! i))) = nat_str i" by simp
    moreover from that assms(5) have "i < 2 ^ 64" by simp
    then have "parse_u64 (nat_str i) = Some i" by (rule parse_u64_nat_str)
    ultimately show ?thesis by (simp only: child_index_def option.case)
  qed
  have keys: "map child_index cs = [0..<length cs]"
    by (rule nth_equalityI) (simp_all only: length_map length_upt minus_nat.diff_0 nth_map nth_upt idx add_0)
  have same: "set ?ks = set cs" using assms(1) by (metis set_mset_mset)
  have "distinct (map child_index cs)" by (simp add: keys)
  then have "inj_on child_index (set ?ks)" by (simp add: distinct_map same)
  moreover have "sorted (map child_index cs)" by (simp add: keys)
  ultimately have "sort_key child_index ?ks = cs" using assms(1) by (intro sort_key_inj_key_eq) auto
  moreover have "?ks \<noteq> []" using assms(1,2) by auto
  moreover have "\<not> unfinished c" "fs_status c \<noteq> SFailed" if "c \<in> set ?ks" for c
    using assms(4) [of c] that same by (auto simp: unfinished_def)
  ultimately show ?thesis by (auto simp: aggregate_children_def Let_def)
qed

definition sample_child :: "nat \<Rightarrow> string \<Rightarrow> flow_step" where
  "sample_child i out =
     (child_row 1 False (''p#'' @ nat_str i, 1, JNull, []))\<lparr>fs_status := SSucceeded, fs_output := Some out\<rparr>"

definition sample_print :: "json \<Rightarrow> string" where
  "sample_print v = (case v of JArr xs \<Rightarrow>
     concat (map (\<lambda>x. case as_str x of Some s \<Rightarrow> s | None \<Rightarrow> []) xs) | _ \<Rightarrow> [])"

theorem fanout_in_order_witness:
  "aggregate_children sample_print [sample_child 1 ''b'', sample_child 0 ''a''] ''p'' = Some (AggSucceeded ''ab'')"
proof -
  have id: "fs_step_id (sample_child i x) = ''p#'' @ nat_str i" "fs_status (sample_child i x) = SSucceeded"
    "child_value (sample_child i x) = JStr x" for i x
    by (simp_all add: sample_child_def child_row_def child_value_def)
  have ch: "children_of ''p'' [sample_child 1 ''b'', sample_child 0 ''a''] = [sample_child 1 ''b'', sample_child 0 ''a'']"
    by (simp add: children_of_def id starts_with_def)
  have "aggregate_children sample_print [sample_child 1 ''b'', sample_child 0 ''a''] ''p'' =
      Some (AggSucceeded (sample_print (JArr (map child_value [sample_child 0 ''a'', sample_child 1 ''b'']))))"
    by (rule fanout_in_order) (auto simp: ch [simplified] id less_Suc_eq)
  then show ?thesis by (simp add: id sample_print_def)
qed

section \<open>Compensation\<close>

text \<open>The saga unwinds backwards: exactly the succeeded steps with a compensation that has not
  run yet are compensated, each once, the last finished first, and a step without a finish
  time after all others.\<close>

theorem compensation_backwards:
  "mset (comp_order steps) = mset (filter compensable steps) \<and>
   sorted_wrt (\<lambda>s t. fs_finished_at t \<le> fs_finished_at s) (comp_order steps)"
proof -
  have "sorted (map (\<lambda>s. Reverse (fs_finished_at s)) (comp_order steps))"
    by (simp add: comp_order_def)
  then show ?thesis by (simp add: comp_order_def sorted_map less_eq_reverse_def)
qed

text \<open>What one compensation leaves: the flag set on its step, every other row as it was.\<close>

lemma compensate_one_rows:
  assumes "compensate_one env fr input s (n, d) = (n', d')"
  shows "scripts d' = scripts d" and "n' \<le> Suc n"
    and "rows_of fr d' = rows_of fr d \<or>
      rows_of fr d' = update_where (\<lambda>t. fs_step_id t = fs_step_id s) (\<lambda>t. t\<lparr>fs_compensated := True\<rparr>) (rows_of fr d)"
    and "fs_compensate s = Some i \<Longrightarrow> get_script i d = Some sc \<Longrightarrow> runtime_spec (sc_runtime sc) \<noteq> None \<Longrightarrow>
      rows_of fr d' = update_where (\<lambda>t. fs_step_id t = fs_step_id s) (\<lambda>t. t\<lparr>fs_compensated := True\<rparr>) (rows_of fr d)"
proof -
  let ?i = "case fs_compensate s of Some i \<Rightarrow> i | None \<Rightarrow> 0" and ?u = "update_where
    (\<lambda>t. fs_step_id t = fs_step_id s) (\<lambda>t. t\<lparr>fs_compensated := True\<rparr>) (rows_of fr d)"
  have ins_ok: "\<exists>p. insert_run (ee_clock env d) ?i (comp_input input s) None d = Inr p" if "get_script ?i d \<noteq> None"
    using that by (simp add: insert_run_def insert_run_with_blobs_def)
  have ran: "scripts d' = scripts d \<and> n' \<le> Suc n \<and> rows_of fr d' = ?u"
    if sc: "get_script ?i d = Some sc" and rt: "runtime_spec (sc_runtime sc) = Some ii" for sc ii
  proof -
    from ins_ok sc obtain rid d1 where ins: "insert_run (ee_clock env d) ?i (comp_input input s) None d = Inr (rid, d1)"
      by auto
    let ?d2 = "exec_run env (script_args sc rid (comp_input input s) d1) d1"
    from insert_run_flow(2) [OF ins] obtain r where r: "run_by_id rid d1 = Some r" by blast
    have "same_flow d1 ?d2" by (rule exec_run_flow) (simp add: r)
    with insert_run_flow(1) [OF ins] have same: "same_flow d ?d2" by (rule same_flow_trans)
    have d': "d' = mark_step_compensated fr (fs_step_id s) ?d2" and n': "n' \<le> Suc n"
      using assms by (auto simp: compensate_one_def Let_def sc rt ins split: if_splits)
    from same same_flow_rows [OF same, of fr] n' show ?thesis
      by (simp add: d' mark_step_compensated_def rows_of_upd same_flow_def)
  qed
  have "scripts d' = scripts d \<and> n' \<le> Suc n \<and> (rows_of fr d' = rows_of fr d \<or> rows_of fr d' = ?u)"
  proof (cases "\<exists>sc ii. get_script ?i d = Some sc \<and> runtime_spec (sc_runtime sc) = Some ii")
    case True
    with ran show ?thesis by blast
  next
    case False
    then have "get_script ?i d = None \<or> (\<exists>sc. get_script ?i d = Some sc \<and> runtime_spec (sc_runtime sc) = None)"
      by (metis not_None_eq)
    then have "(n', d') = (n, d)" using assms by (auto simp: compensate_one_def Let_def)
    then show ?thesis by simp
  qed
  then show "scripts d' = scripts d" "n' \<le> Suc n" "rows_of fr d' = rows_of fr d \<or> rows_of fr d' = ?u" by auto
  show "rows_of fr d' = ?u" if "fs_compensate s = Some i" "get_script i d = Some sc" "runtime_spec (sc_runtime sc) \<noteq> None"
    using ran that by auto
qed

end
