(* ===== verification/Flow_Recovery.thy ===== *)
theory Flow_Recovery
  imports Flow_Safety
begin

text \<open>
  What becomes of a flow whose engine dies (\<open>src/flow.rs\<close>, \<open>src/db.rs\<close>): the reaper returns the flow run
  to the queue, another engine claims it and drives on from the ledger.  Between two passes this loses
  nothing.  A step that was executing is left marked as running, and no pass ever takes it up again.
\<close>

section \<open>Dying between two passes\<close>

text \<open>What the rest of the system does to a flow run's ledger between passes: nothing.\<close>

definition ledger_untouched :: "int \<Rightarrow> db \<Rightarrow> db \<Rightarrow> bool" where
  "ledger_untouched fr d d' =
     (rows_of fr d' = rows_of fr d \<and> (\<forall>i. get_script i d \<noteq> None \<longrightarrow> get_script i d' \<noteq> None) \<and>
      (flow_run_by_id fr d \<noteq> None \<longrightarrow> flow_run_by_id fr d' \<noteq> None))"

definition next_engine :: "time \<Rightarrow> time \<Rightarrow> time \<Rightarrow> int list \<Rightarrow> db \<Rightarrow> (int \<times> json) option \<times> db" where
  "next_engine lease reaped claimed locked d = claim_flow_run claimed locked (snd (reap_orphan_flow_runs reaped lease d))"

text \<open>
  The life of a flow run from its creation: passes of whichever engine has it, deaths of the engine
  followed by the reaper and a claim, and the rest of the system.
\<close>

inductive lives :: "exec_env \<Rightarrow> sched \<Rightarrow> int \<Rightarrow> json \<Rightarrow> db \<Rightarrow> db \<Rightarrow> bool"
  for env sched fr input d where
  lives_new: "lives env sched fr input d d"
| lives_pass: "lives env sched fr input d e \<Longrightarrow> drive_pass env sched fr input e = Again e' \<Longrightarrow>
    lives env sched fr input d e'"
| lives_on: "lives env sched fr input d e \<Longrightarrow>
    lives env sched fr input d (snd (next_engine lease reaped claimed locked e))"
| lives_beside: "lives env sched fr input d e \<Longrightarrow> ledger_untouched fr e e' \<Longrightarrow> lives env sched fr input d e'"

lemma update_where_find:
  assumes "\<And>f. fr_id (u f) = fr_id f" and "flow_runs d' = update_where P u (flow_runs d)" and "flow_run_by_id fr d \<noteq> None"
  shows "flow_run_by_id fr d' \<noteq> None"
proof -
  from assms(3) obtain f where f: "f \<in> set (flow_runs d)" "fr_id f = fr"
    by (auto simp: flow_run_by_id_def dest: find_SomeD)
  then have "(if P f then u f else f) \<in> set (flow_runs d')" unfolding assms(2) set_update_where by blast
  moreover have "fr_id (if P f then u f else f) = fr" using f(2) assms(1) by simp
  ultimately show ?thesis unfolding flow_run_by_id_def find_None by blast
qed

lemma next_engine_untouched: "ledger_untouched fr d (snd (next_engine lease reaped claimed locked d))"
proof -
  let ?r = "snd (reap_orphan_flow_runs reaped lease d)"
  let ?c = "snd (claim_flow_run claimed locked ?r)"
  have r: "flow_steps ?r = flow_steps d" "scripts ?r = scripts d"
    by (simp_all add: reap_orphan_flow_runs_def Let_def)
  have c: "flow_steps ?c = flow_steps ?r" "scripts ?c = scripts ?r"
    by (simp_all add: claim_flow_run_def split: option.split)
  have "flow_run_by_id fr ?r \<noteq> None" if "flow_run_by_id fr d \<noteq> None"
    by (rule update_where_find [OF _ _ that]) (simp_all add: reap_orphan_flow_runs_def Let_def)
  moreover have "flow_run_by_id fr ?c \<noteq> None" if "flow_run_by_id fr ?r \<noteq> None"
  proof (cases "select_first fr_id (\<lambda>f. fr_status f = FPending \<and> fr_id f \<notin> set locked) (flow_runs ?r)")
    case (Some f)
    show ?thesis by (rule update_where_find [OF _ _ that]) (simp_all add: claim_flow_run_def Some)
  qed (use that in \<open>simp add: claim_flow_run_def\<close>)
  ultimately show ?thesis
    using r c by (simp add: ledger_untouched_def next_engine_def get_script_def rows_of_def)
qed

lemma untouched_inv:
  assumes u: "ledger_untouched fr d d'" and inv: "flow_inv fr rank X d"
  shows "flow_inv fr rank X d'" and "work_left fr d' = work_left fr d"
proof -
  have rows: "rows_of fr d' = rows_of fr d" and sc: "\<And>i. get_script i d \<noteq> None \<Longrightarrow> get_script i d' \<noteq> None"
    using u by (simp_all add: ledger_untouched_def)
  show "work_left fr d' = work_left fr d" by (simp add: work_left_def rows)
  show "flow_inv fr rank X d'" using inv sc unfolding flow_inv_def row_inv_def rows by blast
qed

lemma untouched_keeps:
  assumes u: "ledger_untouched fr d d'"
    and i: "flow_inv fr rank {} d \<and> flow_run_by_id fr d \<noteq> None \<and> work_left fr d \<le> k"
  shows "flow_inv fr rank {} d' \<and> flow_run_by_id fr d' \<noteq> None \<and> work_left fr d' \<le> k"
proof -
  have inv: "flow_inv fr rank {} d" using i by simp
  have "flow_run_by_id fr d' \<noteq> None" using u i by (simp add: ledger_untouched_def)
  moreover have "work_left fr d' \<le> k" using i untouched_inv(2) [OF u inv] by simp
  ultimately show ?thesis using untouched_inv(1) [OF u inv] by simp
qed

lemma lives_inv:
  assumes "lives env sched fr input d e" and "flow_inv fr rank {} d" and "flow_run_by_id fr d \<noteq> None"
    and sched: "\<And>d xs. mset (sched d xs) = mset xs"
  shows "flow_inv fr rank {} e \<and> flow_run_by_id fr e \<noteq> None \<and> work_left fr e \<le> work_left fr d"
  using assms(1)
proof (induction rule: lives.induct)
  case lives_new
  show ?case using assms(2,3) by simp
next
  case (lives_pass e e')
  have "(\<exists>d'. drive_pass env sched fr input e = Done d' \<and> flow_over fr d') \<or>
    (\<exists>d'. drive_pass env sched fr input e = Again d' \<and> flow_inv fr rank {} d' \<and>
       flow_run_by_id fr d' \<noteq> None \<and> work_left fr d' < work_left fr e)"
    by (rule drive_pass_cases) (use lives_pass.IH sched in simp_all)
  then show ?case
  proof (elim disjE exE conjE)
    fix d' assume a: "drive_pass env sched fr input e = Again d'" "flow_inv fr rank {} d'"
      "flow_run_by_id fr d' \<noteq> None" "work_left fr d' < work_left fr e"
    have "d' = e'" using a(1) lives_pass.hyps(2) by simp
    moreover have "work_left fr e \<le> work_left fr d" using lives_pass.IH by blast
    ultimately show ?thesis using a(2-4) by (metis less_imp_le order_trans)
  qed (simp add: lives_pass.hyps(2))
next
  case (lives_on e lease reaped claimed locked)
  show ?case by (rule untouched_keeps [OF next_engine_untouched lives_on.IH])
next
  case (lives_beside e e')
  show ?case by (rule untouched_keeps [OF lives_beside.hyps(2) lives_beside.IH])
qed

text \<open>
  C4. A flow survives its engines: created from a validated spec, driven for any number of passes, by
  engines that die between two of them and are succeeded through the reaper any number of times, with
  the rest of the system in between - the engine that has it now brings it to an end, within 1002 passes
  per step, and the end agrees with the steps.
\<close>
theorem flow_survives:
  assumes "validate_spec order spec = Inr ()" and "\<And>ks. set (order ks) = set ks"
    and "ledger_wf d" and "insert_flow_run fid spec input d = Inr (fr, d0)"
    and "\<And>d xs. mset (sched d xs) = mset xs" and "lives env sched fr flow_input d0 e"
    and "n = 1002 * length (spec_steps spec) + 1"
  shows "\<exists>e'. drive n env sched fr flow_input e = Some e' \<and> flow_over fr e'"
proof -
  have ok: "spec_ok spec" using assms(1,2) by (simp add: validate_ok_iff)
  note new = new_flow_inv [OF assms(3) ok assms(4)]
  from new(1) obtain rank where r: "flow_inv fr rank {} d0" by blast
  from lives_inv [OF assms(6) r new(2)] assms(5)
  have e: "flow_inv fr rank {} e" "flow_run_by_id fr e \<noteq> None" "work_left fr e \<le> work_left fr d0" by auto
  have "work_left fr e < n" using e(3) new(3) assms(7) by (simp add: max_map_fanout_def)
  then show ?thesis using drive_ends [OF e(1,2)] assms(5) by blast
qed

theorem flow_survives_witness:
  "\<exists>e'. drive 2005 sample_host (\<lambda>d xs. xs) 1 JNull
     (snd (next_engine (secs 600) (secs 700) (secs 701) [] (snd (claim_flow_run 0 [] sample_flow)))) = Some e' \<and> flow_over 1 e'"
proof (rule flow_survives [OF _ _ _ sample_flow_created])
  show "validate_spec (\<lambda>ks. ks) sample_spec = Inr ()" by (simp add: validate_simps numeral_eq_Suc)
  show "ledger_wf flow_db"
    by (simp add: flow_db_def insert_flow_def insert_script_def empty_db_def ledger_wf_def)
  have "ledger_untouched 1 sample_flow (snd (claim_flow_run 0 [] sample_flow))"
    by (simp add: ledger_untouched_def claim_flow_run_def rows_of_def get_script_def flow_run_by_id_def
        find_update_where [where key = fr_id] split: option.split)
  from lives_on [OF lives_beside [OF lives_new this]]
  show "lives sample_host (\<lambda>d xs. xs) 1 JNull sample_flow
     (snd (next_engine (secs 600) (secs 700) (secs 701) [] (snd (claim_flow_run 0 [] sample_flow))))" .
  show "(2005::nat) = 1002 * length (spec_steps sample_spec) + 1"
    by (simp add: sample_spec_def spec_steps_def get_as_def jget_def)
qed simp_all

section \<open>Dying while a step executes\<close>

text \<open>A step is marked running, none failed, and every pending one waits for a step without a result.\<close>

definition dead_end :: "flow_step list \<Rightarrow> bool" where
  "dead_end steps =
     ((\<exists>s\<in>set steps. fs_status s = SRunning) \<and>
      (\<forall>s\<in>set steps. fs_status s \<in> {SRunning, SSucceeded, SSkipped} \<or>
         fs_status s = SPending \<and>
         (\<exists>x\<in>set (fs_depends_on s). \<forall>t\<in>set steps. fs_step_id t = x \<longrightarrow> fs_status t \<notin> {SSucceeded, SSkipped})))"

lemma resolve_waits:
  "(\<And>s. s \<in> set ss \<Longrightarrow> decide env input outs sk s = Wait) \<Longrightarrow> resolve_pending env fr input outs sk ss d = (False, [], d)"
  by (induction ss) simp_all

lemma dead_end_pass:
  assumes de: "dead_end (steps_of fr d)"
  shows "drive_pass env sched fr input d = Idle (touch_flow_run (ee_clock env d) fr d)"
proof -
  let ?steps = "steps_of fr d"
  have same: "steps_of fr (touch_flow_run now fr d) = ?steps" for now by (simp add: steps_of_rows touch_flow)
  have st: "\<not> (\<exists>s\<in>set ?steps. fs_status s = SFailed)" "\<exists>s\<in>set ?steps. unfinished s"
    "filter (\<lambda>s. fs_status s = SExpanded) ?steps = []"
    using de by (force simp: dead_end_def unfinished_def filter_empty_conv)+
  have w: "decide env input (step_outputs ?steps) (skipped_steps ?steps) s = Wait"
    if s: "s \<in> set (filter (\<lambda>s. fs_status s = SPending) ?steps)" for s
  proof -
    from s de obtain x where x: "x \<in> set (fs_depends_on s)"
      "\<forall>t\<in>set ?steps. fs_step_id t = x \<longrightarrow> fs_status t \<notin> {SSucceeded, SSkipped}"
      by (force simp: dead_end_def)
    then have "map_of (step_outputs ?steps) x = None" "x \<notin> set (skipped_steps ?steps)"
      using step_outputs_iff [of ?steps x] skipped_iff [of x ?steps] by blast+
    with x(1) show ?thesis by (auto simp: decide_def)
  qed
  have "resolve_pending env fr input (step_outputs ?steps) (skipped_steps ?steps)
      (filter (\<lambda>s. fs_status s = SPending) ?steps) e = (False, [], e)" for e
    by (rule resolve_waits) (rule w)
  with st show ?thesis by (simp add: drive_pass_def Let_def same)
qed

lemma dead_end_drive: "dead_end (steps_of fr d) \<Longrightarrow> drive n env sched fr input d = None"
proof (induction n arbitrary: d)
  case (Suc n)
  have "steps_of fr (touch_flow_run now fr d) = steps_of fr d" for now by (simp add: steps_of_rows touch_flow)
  with Suc show ?case by (simp add: dead_end_pass)
qed simp

text \<open>
  C15. A flow does not survive an engine that dies while the last steps that could go on execute: the steps
  are left marked running, the next engine takes the flow over and polls for ever, since no pass resets a
  running step and nobody else finishes it.
\<close>
theorem dying_step_hangs:
  assumes "dead_end (steps_of fr d)"
    and "next_engine lease reaped claimed locked d = (Some (fr, input), d')"
  shows "drive n env sched fr input d' = None"
proof (rule dead_end_drive)
  have "rows_of fr d' = rows_of fr d"
    using next_engine_untouched [of fr d lease reaped claimed locked] assms(2) by (simp add: ledger_untouched_def)
  with assms(1) show "dead_end (steps_of fr d')" by (simp add: steps_of_rows)
qed

text \<open>The sample flow, its engine dead in the middle of the first step; ten minutes later.\<close>

definition broken_flow :: db where
  "broken_flow = set_step_running 1 ''a'' 1 (snd (claim_flow_run 0 [] sample_flow))"

theorem dying_step_hangs_witness:
  "\<exists>input d'. next_engine (secs 600) (secs 700) (secs 701) [] broken_flow = (Some (1, input), d') \<and>
     drive 1000000 sample_host (\<lambda>d xs. xs) 1 input d' = None"
proof -
  have rows: "\<exists>a b. steps_of 1 broken_flow = [a, b] \<and> fs_status a = SRunning \<and> fs_step_id a = ''a'' \<and>
      fs_status b = SPending \<and> fs_step_id b = ''b'' \<and> fs_depends_on b = [''a'']"
    by (simp add: broken_flow_def sample_flow_def set_step_running_def upd_step_def claim_flow_run_def
        select_first_def steps_of_def sample_flow_simps step_deps_def List.map_filter_simps default_input_def)
  then have de: "dead_end (steps_of 1 broken_flow)" by (auto simp: dead_end_def)
  have "\<exists>input d'. next_engine (secs 600) (secs 700) (secs 701) [] broken_flow = (Some (1, input), d')"
    by (simp add: next_engine_def broken_flow_def sample_flow_def set_step_running_def upd_step_def
        claim_flow_run_def reap_orphan_flow_runs_def select_first_def sample_flow_simps secs_def)
  with dying_step_hangs [OF de] show ?thesis by blast
qed

end
