(* ===== verification/Http_Guard.thy ===== *)
theory Http_Guard
  imports Receipt "HOL-Library.AList" "HOL-Library.Word"
begin

unbundle bit_operations_syntax

text \<open>
  What stands in front of the handlers of \<open>src/http.rs\<close>: the bearer gate, the shape of a webhook
  token, the fixed-window rate limiter, the client address it is keyed by, and the idempotency key
  of a delivery.

  A header map is the function that reads a header as text (its first value, if that is visible
  ASCII); IP addresses are the standard library's and stay abstract.
\<close>

type_synonym headers = "string \<Rightarrow> string option"

section \<open>The bearer gate\<close>

definition byte_word :: "char \<Rightarrow> 8 word" where
  "byte_word c = of_nat (of_char c)"

fun xor_diff :: "string \<Rightarrow> string \<Rightarrow> 8 word \<Rightarrow> 8 word" where
  "xor_diff (x # xs) (y # ys) diff = xor_diff xs ys (diff OR (byte_word x XOR byte_word y))"
| "xor_diff _ _ diff = diff"

definition ct_eq :: "string \<Rightarrow> string \<Rightarrow> bool" where
  "ct_eq a b = (if length a \<noteq> length b then False else xor_diff a b 0 = 0)"

definition bearer_matches :: "string option \<Rightarrow> string \<Rightarrow> bool" where
  "bearer_matches auth_header expected =
     (case auth_header of
        None \<Rightarrow> False
      | Some h \<Rightarrow>
          (case strip_prefix ''Bearer '' h of None \<Rightarrow> False | Some tok \<Rightarrow> ct_eq tok expected))"

text \<open>\<open>next\<close> is the rest of the router.\<close>

definition auth_gate :: "string option \<Rightarrow> headers \<Rightarrow> 'r \<Rightarrow> 'r \<Rightarrow> 'r" where
  "auth_gate token hs unauthorized next_run =
     (case token of
        Some expected \<Rightarrow>
          if \<not> bearer_matches (hs ''authorization'') expected then unauthorized else next_run
      | None \<Rightarrow> next_run)"

lemma or_eq_zero: "(x OR y = 0) = (x = 0 \<and> y = (0 :: 8 word))"
  by (auto simp: bit_eq_iff bit_or_iff)

lemma byte_word_eq: "byte_word x = byte_word y \<longleftrightarrow> x = y"
proof
  have lt: "(of_char c :: nat) < 256" for c by (simp add: of_char_def horner_sum_of_bool_2_less)
  assume "byte_word x = byte_word y"
  then have "unat (byte_word x) = unat (byte_word y)" by simp
  then have "(of_char x :: nat) = of_char y"
    using lt [of x] lt [of y] by (simp add: byte_word_def unat_of_nat)
  then show "x = y" by simp
qed simp

lemma xor_diff_zero:
  "length a = length b \<Longrightarrow> xor_diff a b diff = 0 \<longleftrightarrow> diff = 0 \<and> a = b"
proof (induction a b diff rule: xor_diff.induct)
  case (1 x xs y ys diff)
  have "(byte_word x XOR byte_word y = 0) = (x = y)" by (metis byte_word_eq xor_self_eq xor.right_neutral xor.assoc xor.left_neutral)
  then show ?case using 1 by (simp only: xor_diff.simps or_eq_zero length_Cons Suc_inject list.inject) blast
qed auto

lemma ct_eq_iff: "ct_eq a b \<longleftrightarrow> a = b"
  by (auto simp: ct_eq_def xor_diff_zero)

text \<open>
  C34. The gate lets a request through exactly when no token is configured or the
  \<open>Authorization\<close> header is \<open>Bearer \<close> followed by the configured token, byte for byte.
\<close>
theorem auth_gate_exact:
  "auth_gate token hs False True \<longleftrightarrow>
     token = None \<or> hs ''authorization'' = map_option (\<lambda>t. ''Bearer '' @ t) token"
proof (cases token)
  case (Some t)
  have "bearer_matches (hs ''authorization'') t \<longleftrightarrow> hs ''authorization'' = Some (''Bearer '' @ t)"
    by (auto simp: bearer_matches_def ct_eq_iff strip_prefix_None split: option.splits)
  with Some show ?thesis by (simp add: auth_gate_def)
qed (simp add: auth_gate_def)

section \<open>Webhook tokens and client addresses\<close>

definition is_alnum :: "char \<Rightarrow> bool" where
  "is_alnum c =
     (let n = of_char c :: nat in
      (48 \<le> n \<and> n \<le> 57) \<or> (65 \<le> n \<and> n \<le> 90) \<or> (97 \<le> n \<and> n \<le> 122))"

definition is_well_formed_webhook_token :: "string \<Rightarrow> bool" where
  "is_well_formed_webhook_token t =
     (6 \<le> length t \<and> length t \<le> 128 \<and> (\<forall>b\<in>set t. is_alnum b \<or> b = CHR ''-'' \<or> b = CHR ''_''))"

definition trusted_proxies :: "(string \<Rightarrow> 'ip option) \<Rightarrow> (string \<Rightarrow> string option) \<Rightarrow> 'ip list" where
  "trusted_proxies parse_ip env =
     List.map_filter (\<lambda>s. parse_ip (trim s))
       (split_on CHR '','' (case env ''DOKAN_TRUSTED_PROXIES'' of Some v \<Rightarrow> v | None \<Rightarrow> []))"

definition client_ip :: "('ip \<Rightarrow> string) \<Rightarrow> headers \<Rightarrow> 'ip \<Rightarrow> 'ip list \<Rightarrow> string" where
  "client_ip show_ip hs peer trusted =
     (if peer \<in> set trusted then
        (case Option.bind (hs ''x-forwarded-for'')
                (\<lambda>xff. find (\<lambda>s. s \<noteq> []) (map trim (split_on CHR '','' xff))) of
           Some first \<Rightarrow> first
         | None \<Rightarrow> show_ip peer)
      else show_ip peer)"

section \<open>The rate limiter\<close>

text \<open>\<open>u64::saturating_sub\<close> is subtraction on \<open>nat\<close>; the counter stops at \<open>max\<close>, so it never wraps.\<close>

record limiter =
  lm_window :: nat
  lm_max :: nat
  lm_inner :: "(string \<times> nat \<times> nat) list"

definition limiter_new :: "nat \<Rightarrow> nat \<Rightarrow> limiter" where
  "limiter_new window hi = \<lparr>lm_window = window, lm_max = hi, lm_inner = []\<rparr>"

definition check_at :: "string \<Rightarrow> nat \<Rightarrow> limiter \<Rightarrow> bool \<times> limiter" where
  "check_at key now l =
     (let m = (if 4096 < length (lm_inner l)
               then filter (\<lambda>(k, start, c). now - start < lm_window l) (lm_inner l)
               else lm_inner l);
          e = (case map_of m key of Some x \<Rightarrow> x | None \<Rightarrow> (now, 0));
          e' = (if lm_window l \<le> now - fst e then (now, 0) else e)
      in if lm_max l \<le> snd e' then (False, l\<lparr>lm_inner := AList.update key e' m\<rparr>)
         else (True, l\<lparr>lm_inner := AList.update key (fst e', snd e' + 1) m\<rparr>))"

definition webhook_limiter :: limiter where "webhook_limiter = limiter_new 1 20"
definition webhook_ip_limiter :: limiter where "webhook_ip_limiter = limiter_new 10 100"

text \<open>The times at which a sequence of calls gets \<open>key\<close> through.\<close>

fun accepted :: "string \<Rightarrow> (string \<times> nat) list \<Rightarrow> limiter \<Rightarrow> nat list" where
  "accepted key [] l = []"
| "accepted key ((k, now) # calls) l =
     (case check_at k now l of
        (passed, l') \<Rightarrow> (if k = key \<and> passed then [now] else []) @ accepted key calls l')"

definition limiter_ok :: "limiter \<Rightarrow> bool" where
  "limiter_ok l = (distinct (map fst (lm_inner l)) \<and> (\<forall>x\<in>set (lm_inner l). snd (snd x) \<le> lm_max l))"

abbreviation entry :: "limiter \<Rightarrow> string \<Rightarrow> (nat \<times> nat) option" where
  "entry l k \<equiv> map_of (lm_inner l) k"

lemma map_of_filter_distinct:
  "distinct (map fst m) \<Longrightarrow>
   map_of (filter (\<lambda>(k, v). P v) m) key = (case map_of m key of Some v \<Rightarrow> if P v then Some v else None | None \<Rightarrow> None)"
  by (induction m) (auto simp: map_of_eq_None_iff rev_image_eqI split: option.splits dest: map_of_SomeD)

lemma set_alist_update: "x \<in> set (AList.update k v m) \<Longrightarrow> x = (k, v) \<or> x \<in> set m"
  by (induction m) (auto split: if_splits)

text \<open>What one call does to the entries, the pruned ones included.\<close>

lemma check_at_entries:
  assumes "limiter_ok l" and "check_at k now l = (passed, l')"
  shows "limiter_ok l'" and "lm_window l' = lm_window l" and "lm_max l' = lm_max l"
    and "j \<noteq> k \<Longrightarrow> entry l' j = entry l j \<or>
           (entry l' j = None \<and> (\<exists>s c. entry l j = Some (s, c) \<and> lm_window l \<le> now - s))"
    and "\<exists>s c. entry l' k = Some (s, c) \<and>
           ((\<exists>c0. entry l k = Some (s, c0) \<and> now - s < lm_window l \<and> c = c0 + of_bool passed) \<or>
            (s = now \<and> c = of_bool passed \<and>
             (\<forall>s0 c0. entry l k = Some (s0, c0) \<longrightarrow> lm_window l \<le> now - s0)))"
proof -
  define m where "m = (if 4096 < length (lm_inner l)
      then filter (\<lambda>(k, start, c). now - start < lm_window l) (lm_inner l) else lm_inner l)"
  define e where "e = (case map_of m k of Some x \<Rightarrow> x | None \<Rightarrow> (now, 0))"
  define e' where "e' = (if lm_window l \<le> now - fst e then (now, 0) else e)"
  define e2 where "e2 = (fst e', snd e' + of_bool passed)"
  have r: "passed = (snd e' < lm_max l)" "l' = l\<lparr>lm_inner := AList.update k e2 m\<rparr>"
    using assms(2) by (auto simp: check_at_def Let_def m_def e_def e'_def e2_def split: if_splits)
  have dist: "distinct (map fst (lm_inner l))" using assms(1) by (simp add: limiter_ok_def)
  have look: "map_of m j = (case entry l j of Some (s, c) \<Rightarrow>
      if 4096 < length (lm_inner l) \<and> lm_window l \<le> now - s then None else Some (s, c) | None \<Rightarrow> None)" for j
    using map_of_filter_distinct [OF dist, of "\<lambda>(s, c). now - s < lm_window l" j]
    by (auto simp: m_def case_prod_unfold split: option.splits)
  have "distinct (map fst m)" using dist by (auto simp: m_def intro: distinct_map_filter)
  moreover have "\<forall>x\<in>set m. snd (snd x) \<le> lm_max l" using assms(1) by (auto simp: m_def limiter_ok_def)
  ultimately have m: "limiter_ok (l\<lparr>lm_inner := m\<rparr>)" by (simp add: limiter_ok_def)
  have "snd e' \<le> lm_max l"
    using m by (auto simp: e'_def e_def limiter_ok_def dest!: map_of_SomeD split: option.splits)
  then have e2: "snd e2 \<le> lm_max l" using r(1) by (auto simp: e2_def)
  show "limiter_ok l'"
    using m e2 by (auto simp: r(2) limiter_ok_def distinct_update dest!: set_alist_update)
  show "lm_window l' = lm_window l" "lm_max l' = lm_max l" by (simp_all add: r(2))
  show "j \<noteq> k \<Longrightarrow> entry l' j = entry l j \<or>
      (entry l' j = None \<and> (\<exists>s c. entry l j = Some (s, c) \<and> lm_window l \<le> now - s))"
    by (auto simp: r(2) update_conv' look split: option.splits)
  have "entry l' k = Some e2" by (simp add: r(2) update_conv')
  then show "\<exists>s c. entry l' k = Some (s, c) \<and>
      ((\<exists>c0. entry l k = Some (s, c0) \<and> now - s < lm_window l \<and> c = c0 + of_bool passed) \<or>
       (s = now \<and> c = of_bool passed \<and>
        (\<forall>s0 c0. entry l k = Some (s0, c0) \<longrightarrow> lm_window l \<le> now - s0)))"
    by (cases e2) (auto simp: e2_def e'_def e_def look split: option.splits if_splits)
qed

lemma accepted_times: "set (accepted key calls l) \<subseteq> set (map snd calls)"
  by (induction key calls l rule: accepted.induct) (auto split: prod.splits if_splits)

lemma accepted_none:
  "\<forall>x\<in>set calls. \<not> P (snd x) \<Longrightarrow> filter P (accepted key calls l) = []"
  using accepted_times [of key calls l] by (auto simp: filter_empty_conv)

text \<open>Within one window the counter is never reset, so what is left of it bounds the hits.\<close>

lemma accepted_open_window:
  assumes "sorted (map snd calls)" and "limiter_ok l" and "entry l key = Some (s, c)"
    and "0 < lm_window l" and "b \<le> s + lm_window l"
  shows "length (filter (\<lambda>t. t < b) (accepted key calls l)) \<le> lm_max l - c"
  using assms
proof (induction calls arbitrary: l c)
  case (Cons x calls)
  obtain k now where x: "x = (k, now)" by (cases x)
  show ?case
  proof (cases "now < b")
    case False
    then have "filter (\<lambda>t. t < b) (accepted key (x # calls) l) = []"
      using Cons.prems(1) x by (intro accepted_none) fastforce
    then show ?thesis by simp
  next
    case True
    obtain passed l' where ck: "check_at k now l = (passed, l')" by fastforce
    note e = check_at_entries [OF Cons.prems(2) ck]
    have live: "now - s < lm_window l" using True Cons.prems(4,5) by linarith
    have srt: "sorted (map snd calls)" using Cons.prems(1) by simp
    have "entry l' key = Some (s, c + of_bool (k = key \<and> passed))"
    proof (cases "k = key")
      case True
      then show ?thesis using e(5) Cons.prems(3) live by fastforce
    next
      case False
      then show ?thesis using e(4) [of key] Cons.prems(3) live by auto
    qed
    moreover from this e(1) have "c + of_bool (k = key \<and> passed) \<le> lm_max l"
      using e(3) by (fastforce simp: limiter_ok_def dest: map_of_SomeD)
    ultimately show ?thesis
      using Cons.IH [OF srt e(1), of "c + of_bool (k = key \<and> passed)"] Cons.prems(4,5) e(2,3) True ck
      by (cases "k = key \<and> passed") (auto simp: x)
  qed
qed simp

lemma accepted_any_window:
  assumes "sorted (map snd calls)" and "limiter_ok l" and "0 < lm_window l"
    and "\<forall>x\<in>set calls. a \<le> snd x" and "b \<le> a + lm_window l"
  shows "length (filter (\<lambda>t. t < b) (accepted key calls l)) \<le>
    (case entry l key of None \<Rightarrow> lm_max l | Some (s, c) \<Rightarrow> lm_max l - c + lm_max l)"
  using assms
proof (induction calls arbitrary: l)
  case Nil
  then show ?case by simp
next
  case (Cons x calls)
  obtain k now where x: "x = (k, now)" by (cases x)
  obtain passed l' where ck: "check_at k now l = (passed, l')" by fastforce
  note e = check_at_entries [OF Cons.prems(2) ck]
  have srt: "sorted (map snd calls)" and ge: "\<forall>x\<in>set calls. a \<le> snd x" and an: "a \<le> now"
    using Cons.prems(1,4) x by simp_all
  have ih: "length (filter (\<lambda>t. t < b) (accepted key calls l')) \<le>
      (case entry l' key of None \<Rightarrow> lm_max l | Some (s, c) \<Rightarrow> lm_max l - c + lm_max l)"
    using Cons.IH [OF srt e(1)] Cons.prems(3,5) ge e(2,3) by (auto split: option.splits)
  have step: "length (filter (\<lambda>t. t < b) (accepted key (x # calls) l)) \<le>
      of_bool (k = key \<and> passed) + length (filter (\<lambda>t. t < b) (accepted key calls l'))"
    by (simp add: x ck)
  show ?case
  proof (cases "k = key")
    case False
    with e(4) [of key] ih step show ?thesis by (auto split: option.splits)
  next
    case True
    from e(5) obtain s c where sc: "entry l' k = Some (s, c)"
      and d: "(\<exists>c0. entry l k = Some (s, c0) \<and> now - s < lm_window l \<and> c = c0 + of_bool passed) \<or>
        (s = now \<and> c = of_bool passed \<and> (\<forall>s0 c0. entry l k = Some (s0, c0) \<longrightarrow> lm_window l \<le> now - s0))"
      by blast
    have cm: "c \<le> lm_max l"
      using sc e(1,3) by (fastforce simp: limiter_ok_def dest: map_of_SomeD)
    from d show ?thesis
    proof
      assume "\<exists>c0. entry l k = Some (s, c0) \<and> now - s < lm_window l \<and> c = c0 + of_bool passed"
      with step ih sc cm True show ?thesis by auto
    next
      assume r: "s = now \<and> c = of_bool passed \<and> (\<forall>s0 c0. entry l k = Some (s0, c0) \<longrightarrow> lm_window l \<le> now - s0)"
      have "length (filter (\<lambda>t. t < b) (accepted key calls l')) \<le> lm_max l - c"
        using accepted_open_window [OF srt e(1), of key now c b] sc r True an Cons.prems(3,5) e(2,3) by simp
      with step r cm True show ?thesis by (auto split: option.splits)
    qed
  qed
qed

text \<open>
  Whatever the requests and however the table is pruned, in no interval as long as the window
  does the limiter let a key through more than twice its maximum.
\<close>
theorem limiter_bound:
  assumes "sorted (map snd calls)" and "0 < window"
  shows "length (filter (\<lambda>t. a \<le> t \<and> t < a + window)
    (accepted key calls (limiter_new window hi))) \<le> 2 * hi"
proof -
  have "length (filter (\<lambda>t. a \<le> t \<and> t < a + window) (accepted key calls l)) \<le> 2 * lm_max l"
    if "sorted (map snd calls)" "limiter_ok l" "lm_window l = window" for l
    using that
  proof (induction calls arbitrary: l)
    case (Cons x calls)
    obtain k now where x: "x = (k, now)" by (cases x)
    obtain passed l' where ck: "check_at k now l = (passed, l')" by fastforce
    note e = check_at_entries [OF Cons.prems(2) ck]
    show ?case
    proof (cases "a \<le> now")
      case True
      then have ge: "\<forall>y\<in>set (x # calls). a \<le> snd y" using Cons.prems(1) x by fastforce
      then have "filter (\<lambda>t. a \<le> t \<and> t < a + window) (accepted key (x # calls) l) =
          filter (\<lambda>t. t < a + window) (accepted key (x # calls) l)"
        using accepted_times [of key "x # calls" l] by (intro filter_cong) auto
      moreover have "length (filter (\<lambda>t. t < a + window) (accepted key (x # calls) l)) \<le>
          (case entry l key of None \<Rightarrow> lm_max l | Some (s, c) \<Rightarrow> lm_max l - c + lm_max l)"
        using accepted_any_window [OF Cons.prems(1,2) _ ge, of "a + window" key] Cons.prems(3) assms(2) by simp
      ultimately show ?thesis by (auto split: option.splits)
    next
      case False
      then show ?thesis using Cons.IH [of l'] Cons.prems(1,3) e(1-3) by (simp add: x ck)
    qed
  qed simp
  from this [OF assms(1), of "limiter_new window hi"] show ?thesis
    by (simp add: limiter_new_def limiter_ok_def)
qed

theorem limiter_bound_witness:
  "accepted ''k'' [(''k'', 0), (''k'', 9), (''k'', 9), (''k'', 10)] (limiter_new 10 2) = [0, 9, 10] \<and>
   length (filter (\<lambda>t. (1::nat) \<le> t \<and> t < 1 + 10)
     (accepted ''k'' [(''k'', 0), (''k'', 9), (''k'', 9), (''k'', 10)] (limiter_new 10 2))) \<le> 2 * 2"
proof
  show "accepted ''k'' [(''k'', 0), (''k'', 9), (''k'', 9), (''k'', 10)] (limiter_new 10 2) = [0, 9, 10]"
    by code_simp
  show "length (filter (\<lambda>t. (1::nat) \<le> t \<and> t < 1 + 10)
     (accepted ''k'' [(''k'', 0), (''k'', 9), (''k'', 9), (''k'', 10)] (limiter_new 10 2))) \<le> 2 * 2"
    by (rule limiter_bound) simp_all
qed

section \<open>The idempotency key of a delivery\<close>

definition delivery_headers :: "string list" where
  "delivery_headers = [''idempotency-key'', ''x-idempotency-key'', ''x-github-delivery'', ''x-request-id'']"

definition delivery_id :: "headers \<Rightarrow> string \<Rightarrow> string option" where
  "delivery_id hs h =
     (case hs h of None \<Rightarrow> None | Some v \<Rightarrow> (if trim v \<noteq> [] then Some (trim v) else None))"

definition webhook_idempotency_key :: "crypto \<Rightarrow> string \<Rightarrow> headers \<Rightarrow> string \<Rightarrow> string" where
  "webhook_idempotency_key cr token hs body =
     (case find (\<lambda>h. delivery_id hs h \<noteq> None) delivery_headers of
        Some h \<Rightarrow> ''wh:'' @ token @ '':'' @ h @ '':'' @ the (delivery_id hs h)
      | None \<Rightarrow> ''wh:'' @ token @ '':body:'' @ sha256_hex cr (token @ [CHR 0x1F] @ body))"

text \<open>What a delivery is known by.\<close>

definition delivery :: "crypto \<Rightarrow> string \<Rightarrow> headers \<Rightarrow> string \<Rightarrow> string \<times> string \<times> string" where
  "delivery cr token hs body =
     (case find (\<lambda>h. delivery_id hs h \<noteq> None) delivery_headers of
        Some h \<Rightarrow> (token, h, the (delivery_id hs h))
      | None \<Rightarrow> (token, ''body'', sha256_hex cr (token @ [CHR 0x1F] @ body)))"

lemma append_colon_inject:
  "CHR '':'' \<notin> set a \<Longrightarrow> CHR '':'' \<notin> set b \<Longrightarrow> a @ CHR '':'' # x = b @ CHR '':'' # y \<longleftrightarrow> a = b \<and> x = y"
proof (induction a arbitrary: b)
  case Nil
  then show ?case by (cases b) auto
next
  case (Cons c a)
  then show ?case by (cases b) auto
qed

lemma token_no_colon: "is_well_formed_webhook_token t \<Longrightarrow> CHR '':'' \<notin> set t"
  by (auto simp: is_well_formed_webhook_token_def is_alnum_def Let_def)

text \<open>
  For well-formed tokens two deliveries share an idempotency key exactly when they came to the
  same webhook with the same delivery id under the same header, or neither carried a delivery id
  and their bodies have the same hash: webhooks never collide with each other.
\<close>
theorem webhook_key_exact:
  assumes "is_well_formed_webhook_token t" and "is_well_formed_webhook_token u"
  shows "webhook_idempotency_key cr t hs b = webhook_idempotency_key cr u gs c \<longleftrightarrow>
         delivery cr t hs b = delivery cr u gs c"
proof -
  let ?k = "\<lambda>(t, h, v). ''wh:'' @ t @ '':'' @ h @ '':'' @ v"
  have key: "webhook_idempotency_key cr t hs b = ?k (delivery cr t hs b)" for t hs b
    by (simp add: webhook_idempotency_key_def delivery_def split: option.split)
  have ok: "fst (delivery cr t hs b) = t \<and> CHR '':'' \<notin> set (fst (snd (delivery cr t hs b)))" for t hs b
    by (auto simp: delivery_def delivery_headers_def dest!: find_SomeD split: option.split)
  obtain h v where d: "delivery cr t hs b = (t, h, v)" "CHR '':'' \<notin> set h"
    using ok [of t hs b] by (cases "delivery cr t hs b") auto
  obtain g w where d': "delivery cr u gs c = (u, g, w)" "CHR '':'' \<notin> set g"
    using ok [of u gs c] by (cases "delivery cr u gs c") auto
  show ?thesis
    using append_colon_inject [OF token_no_colon [OF assms(1)] token_no_colon [OF assms(2)]]
      append_colon_inject [OF d(2) d'(2)]
    by (simp add: key d(1) d'(1))
qed

theorem webhook_key_exact_witness:
  "is_well_formed_webhook_token ''whtok-1'' \<and>
   webhook_idempotency_key toy_crypto ''whtok-1'' (\<lambda>h. None) ''a'' \<noteq>
   webhook_idempotency_key toy_crypto ''whtok-1'' [''x-request-id'' \<mapsto> ''7''] ''a''"
proof -
  have t: "is_well_formed_webhook_token ''whtok-1''" by code_simp
  have "delivery toy_crypto ''whtok-1'' (\<lambda>h. None) ''a'' \<noteq>
        delivery toy_crypto ''whtok-1'' [''x-request-id'' \<mapsto> ''7''] ''a''"
    by (simp add: delivery_def delivery_headers_def delivery_id_def trim_def trim_start_def trim_end_def is_ws_def)
  with webhook_key_exact [OF t t, of toy_crypto "\<lambda>h. None" "''a''" "[''x-request-id'' \<mapsto> ''7'']" "''a''"] t
  show ?thesis by simp
qed

end
