(* ===== verification/Quota.thy ===== *)
theory Quota
  imports Db_Runs
begin

text \<open>
  Per-agent backpressure (\<open>src/quota.rs\<close>): the one check that \<open>run_script\<close> and a schedule tick
  make before they enqueue on an agent's behalf, and what a refusal looks like to a caller.
  The compute budget is a double in the source and a rational here.
\<close>

definition agent_max_concurrent :: int where "agent_max_concurrent = 25"
definition agent_compute_budget_secs :: rat where "agent_compute_budget_secs = 3600"
definition agent_budget_window_secs :: int where "agent_budget_window_secs = 86400"

datatype refusal = Concurrency int | Budget rat

fun refusal_code :: "refusal \<Rightarrow> string" where
  "refusal_code (Concurrency _) = ''quota_exceeded''"
| "refusal_code (Budget _) = ''budget_exceeded''"

fun refusal_envelope :: "string \<Rightarrow> refusal \<Rightarrow> json" where
  "refusal_envelope aid (Concurrency in_flight) =
     mk_obj [(''error'', JStr (refusal_code (Concurrency in_flight))),
       (''message'', JStr ''this agent has too many runs in flight''),
       (''hint'', JStr ''wait for in-flight runs to finish or back off''), (''agent_id'', JStr aid),
       (''in_flight'', JInt in_flight), (''limit'', JInt agent_max_concurrent)]"
| "refusal_envelope aid (Budget spent) =
     mk_obj [(''error'', JStr (refusal_code (Budget spent))),
       (''message'', JStr ''this agent exhausted its rolling compute budget''),
       (''hint'', JStr ''retry after the budget window rolls over''), (''agent_id'', JStr aid),
       (''compute_seconds_24h'', JFloat spent), (''budget'', JFloat agent_compute_budget_secs)]"

text \<open>\<open>{:.0}\<close>: to the nearest integer, a tie to the even one.\<close>

definition round_even :: "rat \<Rightarrow> int" where
  "round_even q =
     (let f = \<lfloor>q\<rfloor>; r = q - of_int f in
      if r < 1 / 2 \<or> (r = 1 / 2 \<and> even f) then f else f + 1)"

fun refusal_reason :: "refusal \<Rightarrow> string" where
  "refusal_reason (Concurrency in_flight) =
     ''quota_exceeded: '' @ int_str in_flight @ '' runs in flight (limit '' @
       int_str agent_max_concurrent @ '')''"
| "refusal_reason (Budget spent) =
     ''budget_exceeded: '' @ int_str (round_even spent) @ '' s of compute in 24 h (budget '' @
       int_str (round_even agent_compute_budget_secs) @ '' s)''"

definition quota_decide :: "int \<Rightarrow> rat \<Rightarrow> refusal option" where
  "quota_decide in_flight spent =
     (if agent_max_concurrent \<le> in_flight then Some (Concurrency in_flight)
      else if agent_compute_budget_secs \<le> spent then Some (Budget spent)
      else None)"

definition quota_check :: "time \<Rightarrow> string \<Rightarrow> db \<Rightarrow> refusal option" where
  "quota_check now aid d =
     (let in_flight = agent_running_count aid d in
      if agent_max_concurrent \<le> in_flight then quota_decide in_flight 0
      else quota_decide in_flight (agent_compute_seconds now aid agent_budget_window_secs d))"

text \<open>The short cut does not change the decision.\<close>

lemma quota_check_decide:
  "quota_check now aid d =
     quota_decide (agent_running_count aid d) (agent_compute_seconds now aid agent_budget_window_secs d)"
  by (simp add: quota_check_def quota_decide_def Let_def)

lemma quota_check_None:
  "quota_check now aid d = None \<longleftrightarrow>
     agent_running_count aid d < agent_max_concurrent \<and>
     agent_compute_seconds now aid agent_budget_window_secs d < agent_compute_budget_secs"
  by (auto simp: quota_check_decide quota_decide_def not_le)

end
