(* ===== verification/Mcp_Base.thy ===== *)
theory Mcp_Base
  imports Quota Content_Key Receipt Db_Flows
begin

text \<open>
  What the tools of \<open>src/mcp.rs\<close> share: argument clean-up and validation, the error envelope,
  and input files resolved to content-addressed handles.

  A tool returns a JSON value (\<open>Inr\<close>), which for an expected error is an envelope, or a JSON-RPC
  error (\<open>Inl\<close>).
\<close>

datatype mcp_error = InternalError string | InvalidParams string

type_synonym tool_result = "(mcp_error + json) \<times> db"

section \<open>Arguments\<close>

text \<open>A client that sends an object or array as a string: decoded once; a scalar string is kept.\<close>

definition destringify :: "(string \<Rightarrow> json option) \<Rightarrow> json \<Rightarrow> json" where
  "destringify parse v =
     (case v of
        JStr s \<Rightarrow>
          (case parse s of
             Some w \<Rightarrow> if as_object w \<noteq> None \<or> as_array w \<noteq> None then w else v
           | None \<Rightarrow> v)
      | _ \<Rightarrow> v)"

definition max_blob_bytes :: nat where
  "max_blob_bytes = 32 * 1024 * 1024"

definition validate_blob_bytes :: "nat \<Rightarrow> string + unit" where
  "validate_blob_bytes len =
     (if len = 0 then Inl ''blob is empty (0 bytes)''
      else if max_blob_bytes < len
      then Inl (''blob too large: '' @ nat_str len @ '' bytes (cap '' @ nat_str max_blob_bytes @ '' bytes / 32 MiB)'')
      else Inr ())"

definition validate_timeout :: "int option \<Rightarrow> int \<Rightarrow> string + unit" where
  "validate_timeout timeout_secs max_secs =
     (case timeout_secs of
        None \<Rightarrow> Inr ()
      | Some t \<Rightarrow>
          if 1 \<le> t \<and> t \<le> max_secs then Inr ()
          else Inl (''timeout_secs must be between 1 and '' @ int_str max_secs @
                 '' (this daemon'' @ [CHR 0x27] @ ''s --max-timeout-secs); got '' @ int_str t))"

text \<open>\<open>clamp\<close> of an optional limit.\<close>

definition clamp_limit :: "int option \<Rightarrow> int \<Rightarrow> int \<Rightarrow> nat" where
  "clamp_limit limit dflt hi = nat (max 1 (min hi (case limit of Some n \<Rightarrow> n | None \<Rightarrow> dflt)))"

text \<open>\<open>split_whitespace\<close>\<close>

fun split_by :: "(char \<Rightarrow> bool) \<Rightarrow> string \<Rightarrow> string list" where
  "split_by P [] = [[]]"
| "split_by P (c # cs) =
     (if P c then [] # split_by P cs
      else (case split_by P cs of [] \<Rightarrow> [[c]] | w # ws \<Rightarrow> (c # w) # ws))"

definition split_ws :: "string \<Rightarrow> string list" where
  "split_ws s = filter (\<lambda>w. w \<noteq> []) (split_by is_ws s)"

definition validate_cron :: "string \<Rightarrow> string + unit" where
  "validate_cron expr =
     (let n = length (split_ws expr) in
      if n \<noteq> 6 then
        Inl (''cron must be 6 fields (leading SECONDS): `sec min hour day month weekday` '' @
             [CHR 0xE2, CHR 0x80, CHR 0x94] @ '' got '' @ nat_str n @
             ''. A standard 5-field crontab needs a leading `0 ` (e.g. `0 '' @ expr @ ''`).'')
      else Inr ())"

section \<open>The error envelope\<close>

definition error_envelope :: "string \<Rightarrow> string \<Rightarrow> string option \<Rightarrow> json \<Rightarrow> json" where
  "error_envelope code msg hint extra =
     (let o1 = mk_obj [(''error'', JStr code), (''message'', JStr msg)];
          o2 = (case hint of Some h \<Rightarrow> set_key ''hint'' (JStr h) o1 | None \<Rightarrow> o1)
      in case extra of JObj m \<Rightarrow> fold (\<lambda>(k, v) j. set_key k v j) m o2 | _ \<Rightarrow> o2)"

definition err_ctx :: "string \<Rightarrow> string \<Rightarrow> string option \<Rightarrow> json \<Rightarrow> mcp_error + json" where
  "err_ctx code msg hint extra = Inr (error_envelope code msg hint extra)"

definition mcp_err :: "string \<Rightarrow> string \<Rightarrow> string option \<Rightarrow> mcp_error + json" where
  "mcp_err code msg hint = err_ctx code msg hint (mk_obj [])"

definition internal :: "(db_error \<Rightarrow> string) \<Rightarrow> db_error \<Rightarrow> mcp_error + json" where
  "internal db_msg e = Inl (InternalError (db_msg e))"

text \<open>The envelope keeps its code unless the context itself has an \<open>error\<close> field.\<close>

lemma fold_set_key:
  "k \<notin> fst ` set m \<Longrightarrow> jget k (fold (\<lambda>(k, v) j. set_key k v j) m (JObj n)) = map_of n k"
proof (induction m arbitrary: n)
  case Nil
  then show ?case by (simp add: jget_def)
next
  case (Cons x m)
  then show ?case by (cases x) auto
qed

lemma error_envelope_code:
  assumes "\<forall>m. extra = JObj m \<longrightarrow> ''error'' \<notin> fst ` set m"
  shows "jget ''error'' (error_envelope code msg hint extra) = Some (JStr code)"
proof -
  have o2: "\<exists>n. (case hint of Some h \<Rightarrow> set_key ''hint'' (JStr h) (mk_obj [(''error'', JStr code), (''message'', JStr msg)])
      | None \<Rightarrow> mk_obj [(''error'', JStr code), (''message'', JStr msg)]) = JObj n \<and>
      map_of n ''error'' = Some (JStr code)"
    by (cases hint) (simp_all add: mk_obj_def)
  then obtain n where n: "(case hint of Some h \<Rightarrow> set_key ''hint'' (JStr h) (mk_obj [(''error'', JStr code), (''message'', JStr msg)])
      | None \<Rightarrow> mk_obj [(''error'', JStr code), (''message'', JStr msg)]) = JObj n"
    "map_of n ''error'' = Some (JStr code)" by blast
  show ?thesis
  proof (cases extra)
    case (JObj m)
    then show ?thesis using assms fold_set_key [of "''error''" m n] n(2)
      by (simp only: error_envelope_def Let_def n(1) json.case) simp
  qed (simp_all add: error_envelope_def Let_def n jget_def)
qed

definition script_not_found :: "int \<Rightarrow> mcp_error + json" where
  "script_not_found i =
     err_ctx ''script_not_found'' ''no script with that id'' (Some ''check list_scripts for valid ids'')
       (mk_obj [(''id'', JInt i)])"

section \<open>Input files\<close>

definition bad_dest_name :: "string \<Rightarrow> bool" where
  "bad_dest_name name = (name = [] \<or> CHR ''/'' \<in> set name \<or> contains_str name ''..'')"

text \<open>\<open>files\<close> is the entries of the \<open>HashMap\<close> in the order its iteration happens to give them.\<close>

fun resolve_entries ::
    "(string \<times> string) list \<Rightarrow> (string \<times> json) list \<Rightarrow> db \<Rightarrow> json + (string \<times> json) list" where
  "resolve_entries [] m d = Inr m"
| "resolve_entries ((name, handle) # fs) m d =
     (if bad_dest_name name then
        Inl (mk_obj [(''error'', JStr ''invalid_file_name''),
          (''message'', JStr ''a file dest name is invalid''), (''name'', JStr name),
          (''hint'', JStr (''dest names must be plain filenames (no '' @ [CHR 0x27] @ ''/'' @ [CHR 0x27] @
             '' or '' @ [CHR 0x27] @ ''..'' @ [CHR 0x27] @ '')''))])
      else if \<not> blob_exists handle d then
        Inl (mk_obj [(''error'', JStr ''unknown_blob_handle''),
          (''message'', JStr ''an input file handle is unknown''), (''name'', JStr name),
          (''handle'', JStr handle),
          (''hint'', JStr ''upload the file with upload_blob first; nothing was created'')])
      else resolve_entries fs (obj_insert name (JStr handle) m) d)"

definition resolve_files :: "(string \<times> string) list option \<Rightarrow> db \<Rightarrow> json + json option" where
  "resolve_files files d =
     (case files of
        None \<Rightarrow> Inr None
      | Some fs \<Rightarrow>
          if fs = [] then Inr None
          else (case resolve_entries fs [] d of Inl e \<Rightarrow> Inl e | Inr m \<Rightarrow> Inr (Some (JObj m))))"

text \<open>What resolves names stored blobs under plain file names.\<close>

lemma resolve_entries_ok:
  "resolve_entries fs m d = Inr m' \<Longrightarrow>
   (\<forall>x\<in>set m. \<not> bad_dest_name (fst x) \<and> (\<exists>h. snd x = JStr h \<and> blob_exists h d)) \<Longrightarrow>
   (\<forall>x\<in>set m'. \<not> bad_dest_name (fst x) \<and> (\<exists>h. snd x = JStr h \<and> blob_exists h d))"
proof (induction fs m d rule: resolve_entries.induct)
  case (2 name handle fs m d)
  have ins: "x \<in> set (obj_insert k v n) \<Longrightarrow> x = (k, v) \<or> x \<in> set n" for x k v n
    by (induction k v n rule: obj_insert.induct) (auto split: if_splits)
  from "2.prems"(1) have ok: "\<not> bad_dest_name name" "\<not> \<not> blob_exists handle d"
    and r: "resolve_entries fs (obj_insert name (JStr handle) m) d = Inr m'"
    by (simp_all split: if_splits)
  show ?case
  proof (rule "2.IH" [OF ok r], rule ballI)
    fix x
    assume "x \<in> set (obj_insert name (JStr handle) m)"
    from ins [OF this] ok "2.prems"(2)
    show "\<not> bad_dest_name (fst x) \<and> (\<exists>h. snd x = JStr h \<and> blob_exists h d)" by auto
  qed
qed simp

lemma resolve_files_ok:
  assumes "resolve_files files d = Inr (Some v)"
  obtains m where "v = JObj m"
    and "\<And>x. x \<in> set m \<Longrightarrow> \<not> bad_dest_name (fst x) \<and> (\<exists>h. snd x = JStr h \<and> blob_exists h d)"
proof -
  from assms obtain fs m where m: "resolve_entries fs [] d = Inr m" "v = JObj m"
    by (auto simp: resolve_files_def split: option.splits if_splits sum.splits)
  from resolve_entries_ok [OF m(1)] m(2) that show ?thesis by auto
qed

end
