(* ===== verification/Mcp_Runs.thy ===== *)
theory Mcp_Runs
  imports Mcp_Base Flow_Engine
begin

text \<open>
  The tools of \<open>src/mcp.rs\<close> that an agent runs scripts with: enqueue or recall, read logs, wait,
  cancel, blobs, receipts, verify and reproduce.

  A tool's statements run one after the other here; a poll loop hands the database to
  \<open>others\<close>, everything the rest of the system does while it sleeps.
\<close>

section \<open>Run or recall\<close>

record run_request =
  rq_script_id :: int
  rq_input :: "json option"
  rq_cache :: "bool option"
  rq_agent_id :: string
  rq_idempotency_key :: "string option"
  rq_files :: "(string \<times> string) list option"
  rq_capture_output :: "bool option"

definition request_cache_key :: "exec_env \<Rightarrow> script \<Rightarrow> json \<Rightarrow> json option \<Rightarrow> db \<Rightarrow> string" where
  "request_cache_key env sc input inb d =
     run_cache_key (sha256_hex (ee_crypto env)) (c_print (ee_crypto env)) (sc_runtime sc)
       (case image_digest env d (sc_runtime sc) of Some g \<Rightarrow> g | None \<Rightarrow> [])
       (sc_source sc) input (secrets_generation d) inb"

definition recalled :: "string \<Rightarrow> int \<times> int option \<times> json option \<Rightarrow> json" where
  "recalled key hit =
     (case hit of (rid, exit, result) \<Rightarrow>
        let o1 = mk_obj [(''run_id'', JInt rid), (''status'', JStr ''recalled''),
              (''exit'', jopt JInt exit), (''cache_key'', JStr key)]
        in case result of Some r \<Rightarrow> set_key ''result'' r o1 | None \<Rightarrow> o1)"

definition enqueued :: "int \<Rightarrow> string option \<Rightarrow> db \<Rightarrow> tool_result" where
  "enqueued rid key d =
     (let d' = (case key of Some k \<Rightarrow> set_run_cache_key rid k d | None \<Rightarrow> d);
          o1 = mk_obj [(''run_id'', JInt rid), (''status'', JStr ''pending'')]
      in (Inr (case key of Some k \<Rightarrow> set_key ''cache_key'' (JStr k) o1 | None \<Rightarrow> o1), d'))"

definition enqueue_request ::
    "exec_env \<Rightarrow> run_request \<Rightarrow> json \<Rightarrow> json option \<Rightarrow> string option \<Rightarrow> db \<Rightarrow> tool_result" where
  "enqueue_request env a input inb key d =
     (let aid = trim (rq_agent_id a); now = ee_clock env d; cap = (rq_capture_output a = Some True) in
      if aid = [] then
        (Inr (mk_obj [(''error'', JStr ''agent_id_required''), (''message'', JStr ''agent_id is required''),
           (''hint'', JStr (''pass your agent id '' @ [CHR 0xE2, CHR 0x80, CHR 0x94] @
              '' it tags provenance, scopes secrets, and meters quota''))]), d)
      else (case quota_check now aid d of
        Some refusal \<Rightarrow> (Inr (refusal_envelope aid refusal), d)
      | None \<Rightarrow>
          (case rq_idempotency_key a of
             Some k \<Rightarrow>
               (case insert_run_idempotent now (rq_script_id a) input (Some aid) inb cap k d of
                  Inl e \<Rightarrow> (internal (ee_db_msg env) e, d)
                | Inr ((rid, created), d1) \<Rightarrow>
                    if created then enqueued rid key d1
                    else (Inr (mk_obj [(''run_id'', JInt rid),
                        (''status'', JStr (case find_run_by_idempotency k d1 of
                            Some (_, st) \<Rightarrow> status_str st | None \<Rightarrow> ''pending'')),
                        (''idempotent'', JBool True)]), d1))
           | None \<Rightarrow>
               (case insert_run_with_blobs now (rq_script_id a) input (Some aid) inb cap d of
                  Inl e \<Rightarrow> (internal (ee_db_msg env) e, d)
                | Inr (rid, d1) \<Rightarrow> enqueued rid key d1))))"

definition run_script :: "exec_env \<Rightarrow> run_request \<Rightarrow> db \<Rightarrow> tool_result" where
  "run_script env a d =
     (case get_script (rq_script_id a) d of
        None \<Rightarrow> (script_not_found (rq_script_id a), d)
      | Some sc \<Rightarrow>
          let input = destringify (c_parse (ee_crypto env))
                (case rq_input a of Some v \<Rightarrow> v | None \<Rightarrow> mk_obj []) in
          (case resolve_files (rq_files a) d of
             Inl envelope \<Rightarrow> (Inr envelope, d)
           | Inr inb \<Rightarrow>
               if rq_cache a = Some True then
                 let key = request_cache_key env sc input inb d in
                 (case find_cached_run key d of
                    Some hit \<Rightarrow> (Inr (recalled key hit), d)
                  | None \<Rightarrow> enqueue_request env a input inb (Some key) d)
               else enqueue_request env a input inb None d))"

section \<open>Logs\<close>

definition render_line :: "log_row \<Rightarrow> string" where
  "render_line l = int_str (l_seq l) @ ''|'' @ l_stream l @ ''|'' @ l_line l"

definition status_or :: "string \<Rightarrow> int \<Rightarrow> db \<Rightarrow> string" where
  "status_or dflt rid d =
     (case get_run_status rid d of Some st \<Rightarrow> status_str st | None \<Rightarrow> dflt)"

definition run_output_blobs :: "int \<Rightarrow> db \<Rightarrow> json option" where
  "run_output_blobs rid d = Option.bind (run_by_id rid d) r_output_blobs"

definition run_progress :: "int \<Rightarrow> db \<Rightarrow> string option" where
  "run_progress rid d = Option.bind (run_by_id rid d) r_progress"

definition next_cursor :: "int \<Rightarrow> log_row list \<Rightarrow> int" where
  "next_cursor after lines = (if lines = [] then after else l_seq (last lines))"

definition add_outputs :: "int \<Rightarrow> db \<Rightarrow> json \<Rightarrow> json" where
  "add_outputs rid d o1 =
     (let o2 = (case run_result rid d of Some r \<Rightarrow> set_key ''result'' r o1 | None \<Rightarrow> o1);
          o3 = (case run_output_blobs rid d of Some b \<Rightarrow> set_key ''output_blobs'' b o2 | None \<Rightarrow> o2)
      in case run_progress rid d of Some p \<Rightarrow> set_key ''progress'' (JStr p) o3 | None \<Rightarrow> o3)"

definition read_logs :: "int \<Rightarrow> int option \<Rightarrow> int option \<Rightarrow> db \<Rightarrow> mcp_error + json" where
  "read_logs rid after_cursor limit d =
     (let after = (case after_cursor of Some c \<Rightarrow> c | None \<Rightarrow> 0);
          lines = read_logs_after rid after (clamp_limit limit 200 1000) d;
          nc = next_cursor after lines
      in Inr (add_outputs rid d (mk_obj
           [(''status'', JStr (status_or ''unknown'' rid d)),
            (''lines'', JArr (map (\<lambda>l. JStr (render_line l)) lines)),
            (''next_cursor'', JInt nc),
            (''note'', JStr (int_str (max 0 (max_log_seq rid d - nc)) @ '' more after cursor''))])))"

section \<open>Waiting\<close>

definition terminal_status :: "string \<Rightarrow> bool" where
  "terminal_status st = (st \<in> {''succeeded'', ''failed'', ''canceled''})"

text \<open>At most \<open>n\<close> polls of the status, a sleep after each that was not terminal.\<close>

fun poll_status :: "(nat \<Rightarrow> db \<Rightarrow> db) \<Rightarrow> nat \<Rightarrow> nat \<Rightarrow> int \<Rightarrow> string \<Rightarrow> db \<Rightarrow> string \<times> db" where
  "poll_status others k 0 rid st d = (st, d)"
| "poll_status others k (Suc n) rid st d =
     (let st' = status_or ''unknown'' rid d in
      if terminal_status st' then (st', d) else poll_status others (Suc k) n rid st' (others k d))"

definition wait_for :: "(nat \<Rightarrow> db \<Rightarrow> db) \<Rightarrow> int \<Rightarrow> nat option \<Rightarrow> db \<Rightarrow> tool_result" where
  "wait_for others rid timeout d =
     (let ticks = min (case timeout of Some t \<Rightarrow> t | None \<Rightarrow> 30) 120 * 2;
          (st, d') = poll_status others 0 ticks rid ''unknown'' d;
          top_seq = max_log_seq rid d';
          lines = read_logs_after rid (max 0 (top_seq - 40)) 40 d'
      in (Inr (add_outputs rid d' (mk_obj
            [(''status'', JStr st), (''tail'', JArr (map (\<lambda>l. JStr (render_line l)) lines)),
             (''next_cursor'', JInt top_seq)])), d'))"

text \<open>The kill of the container is best effort: \<open>executor_cancel\<close> of \<open>Executor_Table\<close>.\<close>

definition mcp_cancel :: "exec_env \<Rightarrow> int \<Rightarrow> db \<Rightarrow> tool_result" where
  "mcp_cancel env rid d =
     (case cancel_run (ee_clock env d) rid ''canceled by operator'' d of
        (canceled, d') \<Rightarrow>
          (Inr (mk_obj [(''run_id'', JInt rid),
             (''status'', JStr (if canceled then ''canceled'' else ''already_succeeded''))]), d'))"

section \<open>Blobs\<close>

definition upload_blob :: "exec_env \<Rightarrow> string \<Rightarrow> db \<Rightarrow> tool_result" where
  "upload_blob env data d =
     (case c_unb64 (ee_crypto env) data of
        None \<Rightarrow> (Inl (InvalidParams ''data is not valid base64''), d)
      | Some bytes \<Rightarrow>
          (case validate_blob_bytes (length bytes) of
             Inl e \<Rightarrow> (Inl (InvalidParams e), d)
           | Inr _ \<Rightarrow>
               (case put_blob (sha256_hex (ee_crypto env)) (ee_clock env d) bytes d of
                  ((sha, sz), d') \<Rightarrow>
                    (Inr (mk_obj [(''handle'', JStr sha), (''sha'', JStr sha), (''size'', JInt sz)]), d'))))"

definition download_blob :: "exec_env \<Rightarrow> string \<Rightarrow> db \<Rightarrow> tool_result" where
  "download_blob env handle d =
     (case get_blob (ee_clock env d) handle d of
        (Some bytes, d') \<Rightarrow>
          (Inr (mk_obj [(''data'', JStr (c_b64 (ee_crypto env) bytes)), (''size'', JInt (int (length bytes)))]), d')
      | (None, d') \<Rightarrow>
          (Inr (mk_obj [(''error'', JStr ''unknown_blob_handle''),
             (''message'', JStr ''no blob with that handle''),
             (''hint'', JStr ''the handle is the sha from upload_blob''), (''handle'', JStr handle)]), d'))"

section \<open>Receipts\<close>

definition no_receipt :: "int \<Rightarrow> mcp_error + json" where
  "no_receipt rid =
     err_ctx ''no_receipt'' ''this run has no receipt yet''
       (Some ''receipts attach once a run reaches a terminal state'') (mk_obj [(''run_id'', JInt rid)])"

definition get_receipt :: "int \<Rightarrow> db \<Rightarrow> mcp_error + json" where
  "get_receipt rid d = (case run_receipt rid d of Some r \<Rightarrow> Inr r | None \<Rightarrow> no_receipt rid)"

definition mcp_verify :: "exec_env \<Rightarrow> string set option \<Rightarrow> int \<Rightarrow> db \<Rightarrow> (mcp_error + json) panics" where
  "mcp_verify env trusted rid d =
     (case run_receipt rid d of
        None \<Rightarrow> Some (no_receipt rid)
      | Some receipt \<Rightarrow>
          map_option (\<lambda>rep.
            let hmac_valid = verify_hmac (ee_crypto env) (ee_signer env) receipt in
            Inr (mk_obj
              [(''run_id'', JInt rid), (''ok'', JBool (report_ok rep \<and> hmac_valid)),
               (''ed25519_valid'', JBool (vr_ed25519_valid rep)), (''hmac_valid'', JBool hmac_valid),
               (''binding_consistent'', JBool (vr_binding_consistent rep)),
               (''hermetic'', JBool (vr_hermetic rep)),
               (''deterministic'', JBool (get_as as_bool ''deterministic'' receipt = Some True)),
               (''keyid'', JStr (vr_keyid rep)), (''trust_enforced'', JBool (vr_trust_enforced rep)),
               (''pinned'', JBool (vr_pinned rep))]))
          (verify_receipt_with (ee_crypto env) receipt trusted))"

section \<open>Reproduce\<close>

definition run_reproduce_inputs ::
    "int \<Rightarrow> db \<Rightarrow> (int \<times> json \<times> json option \<times> string option \<times> bool) option" where
  "run_reproduce_inputs rid d =
     map_option (\<lambda>r. (r_script_id r, (case r_input r of Some v \<Rightarrow> v | None \<Rightarrow> JObj []),
        r_input_blobs r, r_agent_id r, r_capture_output r)) (run_by_id rid d)"

definition repro_verdict :: "int \<Rightarrow> string \<Rightarrow> int \<Rightarrow> (string \<times> json) list \<Rightarrow> json" where
  "repro_verdict rid name code extra =
     set_key ''run_id'' (JInt rid) (set_key ''code'' (JInt code)
       (set_key ''verdict'' (JStr name) (mk_obj extra)))"

text \<open>The agent a re-run is charged to: the caller's, else the original's, else \<open>reproduce\<close>.\<close>

definition repro_agent :: "string option \<Rightarrow> string option \<Rightarrow> string" where
  "repro_agent agent_id orig_aid =
     (case (case agent_id of Some s \<Rightarrow> (if trim s \<noteq> [] then Some (trim s) else None) | None \<Rightarrow> None) of
        Some s \<Rightarrow> s
      | None \<Rightarrow> (case orig_aid of Some s \<Rightarrow> s | None \<Rightarrow> ''reproduce''))"

text \<open>Steps 5 and 6: poll the re-run, then compare the two receipts.\<close>

definition repro_compare ::
    "(nat \<Rightarrow> db \<Rightarrow> db) \<Rightarrow> int \<Rightarrow> json \<Rightarrow> nat \<Rightarrow> int \<Rightarrow> db \<Rightarrow> json \<times> db" where
  "repro_compare others rid orig timeout_secs repro_id d =
     (let (st, d') = poll_status others 0 (timeout_secs * 2) repro_id ''pending'' d;
          orig_output = or_empty (get_as as_str ''output_sha256'' orig) in
      if st \<noteq> ''succeeded'' \<and> st \<noteq> ''failed'' then
        (repro_verdict rid ''INCONCLUSIVE'' 7 [(''repro_run_id'', JInt repro_id),
           (''reason'', JStr ''timeout_or_unrunnable''), (''status'', JStr st)], d')
      else (case run_receipt repro_id d' of
        None \<Rightarrow> (repro_verdict rid ''INCONCLUSIVE'' 7 [(''repro_run_id'', JInt repro_id),
                   (''reason'', JStr ''no_repro_receipt'')], d')
      | Some repro \<Rightarrow>
          let repro_output = or_empty (get_as as_str ''output_sha256'' repro) in
          if repro_output = orig_output \<and>
             canonical_input_blobs (jget ''output_blobs'' repro) = canonical_input_blobs (jget ''output_blobs'' orig)
          then (repro_verdict rid ''REPRODUCED'' 0 [(''repro_run_id'', JInt repro_id),
                  (''output_sha256'', JStr orig_output)], d')
          else (repro_verdict rid ''DIVERGED'' 6 [(''repro_run_id'', JInt repro_id),
                  (''expected_output_sha256'', JStr orig_output),
                  (''actual_output_sha256'', JStr repro_output),
                  (''detail'', JStr ''re-execution produced a different output; the workload is not byte-reproducible (unseeded RNG / wall-clock / map iteration order)'')], d')))"

definition reproduce_run ::
    "exec_env \<Rightarrow> string set option \<Rightarrow> (nat \<Rightarrow> db \<Rightarrow> db) \<Rightarrow> int \<Rightarrow> nat \<Rightarrow> string option \<Rightarrow> db
     \<Rightarrow> (string + json \<times> db) panics" where
  "reproduce_run env trusted others rid timeout_secs agent_id d =
     (let inconclusive = (\<lambda>extra. Some (Inr (repro_verdict rid ''INCONCLUSIVE'' 7 extra, d))) in
      case run_receipt rid d of
        None \<Rightarrow> inconclusive [(''reason'', JStr ''no_receipt''),
          (''detail'', JStr ''original run has no receipt to compare against'')]
      | Some orig \<Rightarrow>
          if get_as as_bool ''network'' orig \<noteq> Some False then
            inconclusive [(''reason'', JStr ''non_deterministic''),
              (''detail'', JStr ''original run had network enabled; output is not a pure function of inputs'')]
          else (case verify_receipt_with (ee_crypto env) orig trusted of
            None \<Rightarrow> None
          | Some rep \<Rightarrow>
              let hmac_ok = verify_hmac (ee_crypto env) (ee_signer env) orig;
                  orig_source = or_empty (get_as as_str ''source_sha256'' orig) in
              if \<not> (report_ok rep \<and> hmac_ok) then
                Some (Inr (repro_verdict rid ''TAMPERED'' 5
                  [(''reason'', JStr ''receipt_failed_verification''),
                   (''ed25519_valid'', JBool (vr_ed25519_valid rep)), (''hmac_valid'', JBool hmac_ok),
                   (''binding_consistent'', JBool (vr_binding_consistent rep))], d))
              else (case run_reproduce_inputs rid d of
                None \<Rightarrow> inconclusive [(''reason'', JStr ''run_not_found'')]
              | Some (sid, input, inb, orig_aid, cap) \<Rightarrow>
                  (case get_script sid d of
                     None \<Rightarrow> inconclusive [(''reason'', JStr ''script_not_found''), (''script_id'', JInt sid)]
                   | Some sc \<Rightarrow>
                       let current = sha256_hex (ee_crypto env) (sc_source sc) in
                       if current \<noteq> orig_source then
                         inconclusive [(''reason'', JStr ''source_changed''), (''script_id'', JInt sid),
                           (''original_source_sha256'', JStr orig_source),
                           (''current_source_sha256'', JStr current),
                           (''detail'', JStr (''script source changed since the original run; the exact bytes can'' @ [CHR 0x27] @
                             ''t be reproduced '' @ [CHR 0xE2, CHR 0x80, CHR 0x94] @ '' no run created''))]
                       else (case insert_run_with_blobs (ee_clock env d) sid input
                                (Some (repro_agent agent_id orig_aid)) inb cap d of
                         Inl e \<Rightarrow> Some (Inl (ee_db_msg env e))
                       | Inr (repro_id, d1) \<Rightarrow>
                           Some (Inr (repro_compare others rid orig timeout_secs repro_id d1)))))))"

definition reproduce ::
    "exec_env \<Rightarrow> string set option \<Rightarrow> (nat \<Rightarrow> db \<Rightarrow> db) \<Rightarrow> int \<Rightarrow> nat option \<Rightarrow> string option \<Rightarrow> db
     \<Rightarrow> tool_result panics" where
  "reproduce env trusted others rid timeout agent_id d =
     map_option (\<lambda>r. case r of Inl e \<Rightarrow> (Inl (InternalError e), d) | Inr (v, d') \<Rightarrow> (Inr v, d'))
       (reproduce_run env trusted others rid (min (case timeout of Some t \<Rightarrow> t | None \<Rightarrow> 120) 300) agent_id d)"

end
