(* ===== verification/Cron_Ticks.thy ===== *)
theory Cron_Ticks
  imports Quota Exactly_Once
begin

text \<open>
  Cron scheduling (\<open>src/cron.rs\<close>): what a tick enqueues, the table of live tickers, and the
  zoned ticker's loop over the wall clock.

  The cron grammar and the time-zone database are other crates' code (croner,
  tokio-cron-scheduler, chrono-tz) and are the fields of \<open>cron_lib\<close>.
\<close>

record ('c, 'z) cron_lib =
  cl_parse :: "string \<Rightarrow> string + 'c"
  cl_zone :: "string \<Rightarrow> 'z option"
  cl_zone_name :: "'z \<Rightarrow> string"
  cl_next :: "'c \<Rightarrow> 'z option \<Rightarrow> time \<Rightarrow> time option"  \<comment> \<open>\<open>find_next_occurrence(_, false)\<close>\<close>
  cl_job :: "string \<Rightarrow> string option"  \<comment> \<open>the error of \<open>Job::new_async\<close> or of adding the job\<close>

definition parse_timezone :: "('c, 'z) cron_lib \<Rightarrow> string \<Rightarrow> string + 'z" where
  "parse_timezone lib name =
     (case cl_zone lib (trim name) of
        Some z \<Rightarrow> Inr z
      | None \<Rightarrow> Inl (''unknown time zone `'' @ name @ ''` (expected an IANA name such as Europe/Zurich)''))"

text \<open>Cron fields are whole seconds: the sub-second part of \<open>after\<close> is dropped first.\<close>

definition next_fire :: "('c, 'z) cron_lib \<Rightarrow> 'c \<Rightarrow> 'z option \<Rightarrow> time \<Rightarrow> time option" where
  "next_fire lib c tz after = cl_next lib c tz (after - after mod 1000000)"

definition timestamp :: "time \<Rightarrow> int" where
  "timestamp t = t div 1000000"

definition tick_key :: "int \<Rightarrow> int \<Rightarrow> string" where
  "tick_key schedule_id tick_epoch = ''schedule:'' @ int_str schedule_id @ '':'' @ int_str tick_epoch"

definition schedule_next_fire :: "('c, 'z) cron_lib \<Rightarrow> schedule \<Rightarrow> time \<Rightarrow> time option" where
  "schedule_next_fire lib s now =
     (case cl_parse lib (sd_cron s) of
        Inl _ \<Rightarrow> None
      | Inr c \<Rightarrow>
          (case sd_timezone s of
             None \<Rightarrow> next_fire lib c None now
           | Some name \<Rightarrow>
               (case parse_timezone lib name of
                  Inl _ \<Rightarrow> None
                | Inr z \<Rightarrow> next_fire lib c (Some z) now)))"

section \<open>A tick\<close>

definition sched_input :: "schedule \<Rightarrow> json" where
  "sched_input s = (case sd_input s of Some v \<Rightarrow> v | None \<Rightarrow> JObj [])"

text \<open>The run id is returned only for a run this tick created.\<close>

definition enqueue_tick :: "time \<Rightarrow> schedule \<Rightarrow> int \<Rightarrow> db \<Rightarrow> int option \<times> db" where
  "enqueue_tick now s tick_epoch d =
     (let key = (if sd_idempotency s then Some (tick_key (sd_id s) tick_epoch) else None) in
      case Option.bind (sd_agent_id s) (\<lambda>aid. quota_check now aid d) of
        Some refusal \<Rightarrow>
          (case insert_refused_run now (sd_script_id s) (sched_input s) (sd_agent_id s)
                  (refusal_reason refusal) key d of
             Inl _ \<Rightarrow> (None, d) | Inr (_, d') \<Rightarrow> (None, d'))
      | None \<Rightarrow>
          (case key of
             Some k \<Rightarrow>
               (case insert_run_idempotent now (sd_script_id s) (sched_input s) (sd_agent_id s)
                       (sd_input_blobs s) (sd_capture_output s) k d of
                  Inl _ \<Rightarrow> (None, d)
                | Inr ((i, created), d') \<Rightarrow> (if created then Some i else None, d'))
           | None \<Rightarrow>
               (case insert_run_with_blobs now (sd_script_id s) (sched_input s) (sd_agent_id s)
                       (sd_input_blobs s) (sd_capture_output s) d of
                  Inl _ \<Rightarrow> (None, d) | Inr (i, d') \<Rightarrow> (Some i, d'))))"

section \<open>The tickers\<close>

text \<open>
  A ticker is known by the handle the scheduler (a job's uuid) or the runtime (a task) gave it.  The
  code stops a job in a task of its own; here it has stopped when the operation returns, so a tick that
  falls in between, with the row already disabled, is one of a ticker not yet stopped.
\<close>

datatype ticker = UtcTicker nat | ZonedTicker nat

record cron_state =
  cr_jobs :: "(int \<times> ticker) list"
  cr_live :: "(ticker \<times> schedule) list"  \<comment> \<open>what is ticking in the process\<close>
  cr_next :: nat  \<comment> \<open>the next fresh handle\<close>

definition stop_ticker :: "ticker \<Rightarrow> cron_state \<Rightarrow> cron_state" where
  "stop_ticker t cr = cr\<lparr>cr_live := filter (\<lambda>(u, _). u \<noteq> t) (cr_live cr)\<rparr>"

definition cron_add :: "('c, 'z) cron_lib \<Rightarrow> schedule \<Rightarrow> cron_state \<Rightarrow> string + cron_state" where
  "cron_add lib s cr =
     (let install = (\<lambda>t.
            let cr1 = cr\<lparr>cr_jobs := AList.update (sd_id s) t (cr_jobs cr),
                         cr_live := cr_live cr @ [(t, s)], cr_next := Suc (cr_next cr)\<rparr>
            in (case map_of (cr_jobs cr) (sd_id s) of Some old \<Rightarrow> stop_ticker old cr1 | None \<Rightarrow> cr1))
      in case sd_timezone s of
           None \<Rightarrow>
             (case cl_job lib (sd_cron s) of
                Some e \<Rightarrow> Inl e | None \<Rightarrow> Inr (install (UtcTicker (cr_next cr))))
         | Some name \<Rightarrow>
             (case cl_parse lib (sd_cron s) of
                Inl e \<Rightarrow> Inl (''schedule '' @ int_str (sd_id s) @ '': '' @ e)
              | Inr c \<Rightarrow>
                  (case parse_timezone lib name of
                     Inl e \<Rightarrow> Inl (''schedule '' @ int_str (sd_id s) @ '': '' @ e)
                   | Inr z \<Rightarrow> Inr (install (ZonedTicker (cr_next cr))))))"

definition cron_remove :: "int \<Rightarrow> cron_state \<Rightarrow> db \<Rightarrow> bool \<times> cron_state \<times> db" where
  "cron_remove i cr d =
     (let cr' = (case map_of (cr_jobs cr) i of
                   Some t \<Rightarrow> stop_ticker t (cr\<lparr>cr_jobs := AList.delete i (cr_jobs cr)\<rparr>)
                 | None \<Rightarrow> cr);
          (n, d') = set_schedule_enabled i False d
      in (0 < n, cr', d'))"

text \<open>Boot: every enabled schedule, a broken one skipped.\<close>

definition cron_start :: "('c, 'z) cron_lib \<Rightarrow> db \<Rightarrow> cron_state" where
  "cron_start lib d =
     fold (\<lambda>s cr. case cron_add lib s cr of Inl _ \<Rightarrow> cr | Inr cr' \<Rightarrow> cr') (enabled_schedules d)
       \<lparr>cr_jobs = [], cr_live = [], cr_next = 0\<rparr>"

section \<open>The zoned ticker\<close>

text \<open>
  The loop of \<open>zoned_ticker\<close> over the clock readings it makes: it sleeps while the reading is
  before the next occurrence, enqueues at that occurrence's second, reads the clock again and
  goes on from there.  The result is the list of epochs it enqueues for.
\<close>

function zoned_ticks ::
    "('c, 'z) cron_lib \<Rightarrow> 'c \<Rightarrow> 'z \<Rightarrow> time \<Rightarrow> time list \<Rightarrow> int list" where
  "zoned_ticks lib c z after readings =
     (case next_fire lib c (Some z) after of
        None \<Rightarrow> []
      | Some nx \<Rightarrow>
          (case dropWhile (\<lambda>t. t < nx) readings of
             [] \<Rightarrow> []
           | now # rest \<Rightarrow>
               timestamp nx #
               (case rest of [] \<Rightarrow> [] | again # rest' \<Rightarrow> zoned_ticks lib c z (max again nx) rest')))"
  by pat_completeness auto
termination
proof (relation "measure (\<lambda>(lib, c, z, after, readings). length readings)")
  fix lib :: "('c, 'z) cron_lib" and c z after readings nx now rest and again :: time and rest'
  assume "dropWhile (\<lambda>t. t < nx) readings = now # rest" and "rest = again # rest'"
  then have "length (now # again # rest') \<le> length readings" by (metis length_dropWhile_le)
  then show "((lib, c, z, max again nx, rest'), lib, c, z, after, readings)
      \<in> measure (\<lambda>(lib, c, z, after, readings). length readings)" by simp
qed simp

declare zoned_ticks.simps [simp del]

end
