(* ===== verification/Mcp_Scripts.thy ===== *)
theory Mcp_Scripts
  imports Mcp_Base Cron_Ticks
begin

text \<open>
  The registry tools of \<open>src/mcp.rs\<close>: scripts (search, catalog, upload with upsert, delete),
  reactive triggers and secrets.  A script's embedding is a column the model leaves out; what
  pgvector and pg_trgm compute over the rows comes in as a parameter.
\<close>

section \<open>Finding scripts\<close>

definition script_summary :: "script \<Rightarrow> json" where
  "script_summary s =
     mk_obj [(''id'', JInt (sc_id s)), (''name'', JStr (sc_name s)),
       (''runtime'', JStr (sc_runtime s)), (''desc'', jopt JStr (sc_description s))]"

definition showing :: "nat \<Rightarrow> nat \<Rightarrow> json" where
  "showing n count = JStr (''showing '' @ nat_str n @ '' of '' @ nat_str count)"

text \<open>\<open>metric s\<close> is \<open>embedding <=> $1\<close>, \<open>None\<close> where the embedding is NULL.\<close>

definition semantic_search :: "(script \<Rightarrow> rat option) \<Rightarrow> nat \<Rightarrow> db \<Rightarrow> script list \<times> nat" where
  "semantic_search metric limit d =
     (let cs = filter (\<lambda>s. metric s \<noteq> None) (scripts d)
      in (take limit (sort_key (\<lambda>s. the (metric s)) cs), length cs))"

text \<open>Postgres's \<open>ILIKE\<close> and \<open>similarity\<close>; a NULL description matches no pattern.\<close>

record text_match =
  tm_ilike :: "string \<Rightarrow> string \<Rightarrow> bool"
  tm_similarity :: "string \<Rightarrow> string \<Rightarrow> rat"

definition script_matches :: "text_match \<Rightarrow> string \<Rightarrow> script \<Rightarrow> bool" where
  "script_matches tm query s =
     (let pat = ''%'' @ query @ ''%''; desc = (case sc_description s of Some t \<Rightarrow> t | None \<Rightarrow> []) in
      tm_ilike tm (sc_name s) pat \<or>
      (case sc_description s of Some t \<Rightarrow> tm_ilike tm t pat | None \<Rightarrow> False) \<or>
      tm_similarity tm (sc_name s) query > 1 / 5 \<or> tm_similarity tm desc query > 1 / 5)"

definition script_rank :: "text_match \<Rightarrow> string \<Rightarrow> script \<Rightarrow> rat" where
  "script_rank tm query s =
     max (tm_similarity tm (sc_name s) query)
         (tm_similarity tm (case sc_description s of Some t \<Rightarrow> t | None \<Rightarrow> []) query)"

definition search_scripts :: "text_match \<Rightarrow> string \<Rightarrow> nat \<Rightarrow> db \<Rightarrow> script list \<times> nat" where
  "search_scripts tm query limit d =
     (let cs = filter (script_matches tm query) (scripts d)
      in (take limit (sort_key (\<lambda>s. - script_rank tm query s) (rev (sort_key sc_id cs))), length cs))"

text \<open>\<open>emb\<close> is the embedder, when one is loaded: what it says of a query, as distances.\<close>

definition search_script ::
    "(string \<Rightarrow> (script \<Rightarrow> rat option) option) option \<Rightarrow> text_match \<Rightarrow> string \<Rightarrow> int option \<Rightarrow> db
     \<Rightarrow> mcp_error + json" where
  "search_script emb tm query limit d =
     (let n = clamp_limit limit 10 100;
          fuzzy = (search_scripts tm query n d, ''fuzzy'');
          ((rows, count), mode) =
            (case emb of
               None \<Rightarrow> fuzzy
             | Some e \<Rightarrow>
                 (case e query of
                    Some metric \<Rightarrow> (semantic_search metric n d, ''semantic'') | None \<Rightarrow> fuzzy))
      in Inr (mk_obj [(''results'', JArr (map script_summary rows)), (''mode'', JStr mode),
           (''note'', showing (length rows) count)]))"

definition mcp_list_scripts :: "int option \<Rightarrow> db \<Rightarrow> mcp_error + json" where
  "mcp_list_scripts limit d =
     (let (rows, count) = list_scripts (clamp_limit limit 50 500) d
      in Inr (mk_obj [(''scripts'', JArr (map script_summary rows)),
           (''note'', showing (length rows) count)]))"

section \<open>Uploading\<close>

record upload_args =
  up_name :: string
  up_runtime :: string
  up_source :: string
  up_description :: "string option"
  up_created_by :: "string option"
  up_upsert :: "bool option"
  up_network :: "bool option"
  up_mem_limit_mb :: "int option"
  up_cpu_limit :: "rat option"
  up_feed_prev_result :: "bool option"
  up_timeout_secs :: "int option"
  up_secrets :: "string list option"

definition opt_true :: "bool option \<Rightarrow> bool" where
  "opt_true b = (b = Some True)"

definition set_allowlist :: "upload_args \<Rightarrow> int \<Rightarrow> db \<Rightarrow> db" where
  "set_allowlist a i d =
     (case up_secrets a of Some names \<Rightarrow> set_script_secrets i (Some names) d | None \<Rightarrow> d)"

definition uploaded :: "int \<Rightarrow> int \<Rightarrow> string \<Rightarrow> json" where
  "uploaded i version status =
     mk_obj [(''script_id'', JInt i), (''version'', JInt version), (''status'', JStr status)]"

text \<open>An upload that finds its name taken, and may reuse it.\<close>

definition upsert_script :: "(db_error \<Rightarrow> string) \<Rightarrow> upload_args \<Rightarrow> int \<times> string \<times> int \<Rightarrow> db \<Rightarrow> tool_result" where
  "upsert_script db_msg a prior d =
     (case prior of (i, source, version) \<Rightarrow>
        if source = up_source a then
          let (changed, d1) = update_script_meta i (up_runtime a) (up_description a) (up_created_by a)
                (opt_true (up_network a)) (up_mem_limit_mb a) (up_cpu_limit a)
                (opt_true (up_feed_prev_result a)) (up_timeout_secs a) d
          in (Inr (uploaded i version (if changed then ''metadata_updated'' else ''unchanged'')),
              set_allowlist a i d1)
        else
          (case update_script i (up_runtime a) (up_source a) (up_description a) (up_created_by a)
                  (opt_true (up_network a)) (up_mem_limit_mb a) (up_cpu_limit a)
                  (opt_true (up_feed_prev_result a)) (up_timeout_secs a) d of
             Inl e \<Rightarrow> (internal db_msg e, d)
           | Inr (version', d1) \<Rightarrow> (Inr (uploaded i version' ''updated''), set_allowlist a i d1)))"

definition insert_upload :: "upload_args \<Rightarrow> db \<Rightarrow> tool_result" where
  "insert_upload a d =
     (let prior = find_script_by_name (up_name a) d;
          ((i, version), d1) = insert_script (up_name a) (up_runtime a) (up_source a)
             (up_description a) (up_created_by a) (opt_true (up_network a)) (up_mem_limit_mb a)
             (up_cpu_limit a) (opt_true (up_feed_prev_result a)) (up_timeout_secs a) d;
          out = uploaded i version ''uploaded''
      in (Inr (case prior of
            None \<Rightarrow> out
          | Some (existing, _, _) \<Rightarrow>
              set_key ''warning'' (JStr (''another script named '' @ [CHR 0x27] @ up_name a @ [CHR 0x27] @
                '' already exists (id '' @ int_str existing @ ''); this created a NEW id '' @ int_str i @
                ''. Pass upsert=true to update in place instead of accumulating duplicates.'')) out),
          set_allowlist a i d1))"

definition upload_script :: "(db_error \<Rightarrow> string) \<Rightarrow> int \<Rightarrow> upload_args \<Rightarrow> db \<Rightarrow> tool_result" where
  "upload_script db_msg max_timeout a d =
     (case validate_timeout (up_timeout_secs a) max_timeout of
        Inl e \<Rightarrow>
          (err_ctx ''invalid_timeout'' e
             (Some ''omit timeout_secs for the 300 s default, or ask the operator to raise DOKAN_MAX_TIMEOUT_SECS'')
             (mk_obj [(''max_timeout_secs'', JInt max_timeout)]), d)
      | Inr _ \<Rightarrow>
          (case (if opt_true (up_upsert a) then find_script_by_name (up_name a) d else None) of
             Some prior \<Rightarrow> upsert_script db_msg a prior d
           | None \<Rightarrow> insert_upload a d))"

section \<open>Deleting\<close>

text \<open>The tickers of the schedules that went with the script are stopped one by one.\<close>

definition mcp_delete_script ::
    "(db_error \<Rightarrow> string) \<Rightarrow> int \<Rightarrow> cron_state option \<Rightarrow> db
     \<Rightarrow> (mcp_error + json) \<times> cron_state option \<times> db" where
  "mcp_delete_script db_msg i cr d =
     (case delete_script i d of
        Inl e \<Rightarrow> (internal db_msg e, cr, d)
      | Inr (NotFound, d1) \<Rightarrow> (script_not_found i, cr, d1)
      | Inr (BlockedByFlow n, d1) \<Rightarrow>
          (Inr (mk_obj [(''error'', JStr ''referenced_by_flow''),
             (''message'', JStr ''a flow still references this script''), (''id'', JInt i),
             (''flow_steps'', JInt n),
             (''hint'', JStr ''a flow depends on this script; delete/retire the flow first'')]), cr, d1)
      | Inr (Deleted n scheds, d1) \<Rightarrow>
          (let (cr', d2) = (case cr of
                 None \<Rightarrow> (None, d1)
               | Some c \<Rightarrow>
                   let (c', d') = fold (\<lambda>s (c, d). snd (cron_remove s c d)) scheds (c, d1)
                   in (Some c', d'))
           in (Inr (mk_obj [(''script_id'', JInt i), (''status'', JStr ''deleted''),
                 (''runs_removed'', JInt (int n)), (''schedules_removed'', JInt (int (length scheds)))]),
               cr', d2)))"

end
