(* ===== verification/Mcp_Admin.thy ===== *)
theory Mcp_Admin
  imports Mcp_Scripts Flow_Engine
begin

text \<open>
  The remaining tools of \<open>src/mcp.rs\<close>: triggers, secrets, flows, schedules, webhooks, the run
  list and \<open>whoami\<close>, with the statements of \<open>src/db.rs\<close> only they use.  Rendering a time as
  RFC 3339 text is chrono's and comes in as a parameter.
\<close>

section \<open>Triggers and secrets\<close>

definition on_result ::
    "(db_error \<Rightarrow> string) \<Rightarrow> int \<Rightarrow> json option \<Rightarrow> int \<Rightarrow> string option \<Rightarrow> db \<Rightarrow> tool_result" where
  "on_result db_msg src predicate tgt agent d =
     (case find (\<lambda>i. get_script i d = None) [src, tgt] of
        Some i \<Rightarrow> (script_not_found i, d)
      | None \<Rightarrow>
          let p = (case predicate of Some v \<Rightarrow> v | None \<Rightarrow> mk_obj []) in
          if as_object p = None then
            (mcp_err ''predicate_must_be_object'' ''predicate must be a JSON object''
               (Some (''e.g. {'' @ [CHR 0x22] @ ''verdict'' @ [CHR 0x22] @ '':'' @ [CHR 0x22] @ ''FAIL'' @ [CHR 0x22] @ ''}'')), d)
          else (case insert_trigger src p tgt agent d of
                  Inl e \<Rightarrow> (internal db_msg e, d)
                | Inr (i, d') \<Rightarrow> (Inr (mk_obj [(''trigger_id'', JInt i), (''status'', JStr ''armed'')]), d')))"

definition script_ref :: "script \<Rightarrow> json" where
  "script_ref s = mk_obj [(''script_id'', JInt (sc_id s)), (''name'', JStr (sc_name s))]"

text \<open>The two joins drop a trigger whose scripts are gone.\<close>

definition list_triggers :: "db \<Rightarrow> json list" where
  "list_triggers d =
     take 100 (List.map_filter (\<lambda>t.
       case (get_script (tg_source t) d, get_script (tg_target t) d) of
         (Some s, Some g) \<Rightarrow>
           Some (mk_obj [(''trigger_id'', JInt (tg_id t)), (''on'', script_ref s),
             (''when'', tg_predicate t), (''run'', script_ref g),
             (''agent_id'', jopt JStr (tg_agent_id t))])
       | _ \<Rightarrow> None) (rev (sort_key tg_id (filter tg_enabled (triggers d)))))"

definition mcp_delete_trigger :: "int \<Rightarrow> db \<Rightarrow> tool_result" where
  "mcp_delete_trigger i d =
     (case delete_trigger i d of
        (removed, d') \<Rightarrow>
          (Inr (mk_obj [(''trigger_id'', JInt i),
             (''status'', JStr (if removed then ''deleted'' else ''not_found''))]), d'))"

definition set_secret ::
    "(string \<Rightarrow> string) \<Rightarrow> string \<Rightarrow> string \<Rightarrow> string option \<Rightarrow> db \<Rightarrow> tool_result" where
  "set_secret seal name val agent d =
     (if trim name = [] then (mcp_err ''empty_name'' ''name must be non-empty'' None, d)
      else (Inr (mk_obj [(''name'', JStr name),
              (''scope'', JStr (case agent of Some a \<Rightarrow> a | None \<Rightarrow> ''global'')),
              (''status'', JStr ''set'')]), upsert_secret seal name val agent d))"

definition list_secrets :: "string option \<Rightarrow> db \<Rightarrow> mcp_error + json" where
  "list_secrets agent d = Inr (mk_obj [(''secrets'', JArr (map JStr (secret_names agent d)))])"

section \<open>Flows\<close>

fun step_status_str :: "step_status \<Rightarrow> string" where
  "step_status_str SPending = ''pending''"
| "step_status_str SRunning = ''running''"
| "step_status_str SSucceeded = ''succeeded''"
| "step_status_str SFailed = ''failed''"
| "step_status_str SSkipped = ''skipped''"
| "step_status_str SExpanded = ''expanded''"

fun flow_status_str :: "flow_status \<Rightarrow> string" where
  "flow_status_str FPending = ''pending''"
| "flow_status_str FRunning = ''running''"
| "flow_status_str FSucceeded = ''succeeded''"
| "flow_status_str FFailed = ''failed''"
| "flow_status_str FCompFailed = ''compensation_failed''"

text \<open>\<open>order\<close> is the iteration order of the validator's hash map of nodes.\<close>

definition compose_flow :: "(string list \<Rightarrow> string list) \<Rightarrow> (string \<Rightarrow> json option) \<Rightarrow> json \<Rightarrow> db \<Rightarrow> tool_result" where
  "compose_flow node_order parse spec d =
     (let sp = destringify parse spec in
      case validate_spec node_order sp of
        Inl e \<Rightarrow>
          (err_ctx ''invalid_spec'' ''the flow spec is invalid'' None (mk_obj [(''detail'', JStr e)]), d)
      | Inr _ \<Rightarrow>
          (case insert_flow sp d of
             (i, d') \<Rightarrow> (Inr (mk_obj [(''flow_id'', JInt i), (''status'', JStr ''composed'')]), d')))"

definition run_flow ::
    "(db_error \<Rightarrow> string) \<Rightarrow> (string \<Rightarrow> json option) \<Rightarrow> int \<Rightarrow> json option \<Rightarrow> db \<Rightarrow> tool_result" where
  "run_flow db_msg parse fid input d =
     (case get_flow_spec fid d of
        None \<Rightarrow>
          (err_ctx ''flow_not_found'' ''no flow with that id''
             (Some ''check the flow_id from compose_flow'') (mk_obj [(''id'', JInt fid)]), d)
      | Some spec \<Rightarrow>
          (case insert_flow_run fid spec
                  (destringify parse (case input of Some v \<Rightarrow> v | None \<Rightarrow> mk_obj [])) d of
             Inl e \<Rightarrow> (internal db_msg e, d)
           | Inr (i, d') \<Rightarrow>
               (Inr (mk_obj [(''flow_run_id'', JInt i), (''status'', JStr ''pending'')]), d')))"

text \<open>\<open>split_part(step_id, '#', 2)::bigint\<close>; \<open>None\<close> where the cast fails, and the query with it.\<close>

definition flow_failed_child_idx ::
    "(string \<Rightarrow> int option) \<Rightarrow> int \<Rightarrow> nat \<Rightarrow> db \<Rightarrow> (string \<times> int) list option" where
  "flow_failed_child_idx bigint fr cap d =
     (let cs = filter (\<lambda>s. fs_flow_run s = fr \<and> fs_status s = SFailed \<and> is_child s) (flow_steps d);
          part2 = (\<lambda>s. let ps = split_on CHR ''#'' (fs_step_id s) in if 1 < length ps then ps ! 1 else []);
          rows = map (\<lambda>s. map_option (Pair (child_parent s)) (bigint (part2 s))) cs
      in if None \<in> set rows then None
         else let ok = map the rows
              in Some (concat (map (\<lambda>p. take cap (sort_key snd (filter (\<lambda>x. fst x = p) ok)))
                   (remdups (map fst ok)))))"

definition map_counts_of :: "string \<Rightarrow> (string \<times> step_status \<times> int) list \<Rightarrow> (int \<times> int \<times> int) option" where
  "map_counts_of p groups =
     (let gs = filter (\<lambda>g. fst g = p) groups;
          tally = (\<lambda>P. sum_list (map (snd \<circ> snd) (filter (P \<circ> fst \<circ> snd) gs)))
      in if gs = [] then None
         else Some (tally (\<lambda>_. True), tally (\<lambda>st. st = SSucceeded), tally (\<lambda>st. st = SFailed)))"

definition flow_step_item ::
    "(string \<times> step_status \<times> int) list \<Rightarrow> (string \<times> int) list \<Rightarrow> flow_step \<Rightarrow> json" where
  "flow_step_item groups failed_idx s =
     (let o1 = mk_obj [(''id'', JStr (fs_step_id s)), (''status'', JStr (step_status_str (fs_status s)))];
          o2 = (case map_counts_of (fs_step_id s) groups of
            None \<Rightarrow> set_key ''out'' (jopt JStr (fs_output s)) o1
          | Some (n, ok, failed) \<Rightarrow>
              let m1 = mk_obj [(''n'', JInt n), (''ok'', JInt ok), (''failed'', JInt failed)];
                  idx = map snd (filter (\<lambda>x. fst x = fs_step_id s) failed_idx);
                  m2 = (if 0 < failed then
                     let m = set_key ''failed_children'' (JArr (map JInt idx)) m1 in
                     if int (length idx) < failed
                     then set_key ''failed_children_truncated'' (JInt (failed - int (length idx))) m else m
                   else m1)
              in set_key ''map'' m2 o1)
      in if fs_compensated s then set_key ''comp'' (JBool True) o2 else o2)"

definition get_flow_run ::
    "(string \<Rightarrow> int option) \<Rightarrow> string \<Rightarrow> int \<Rightarrow> int option \<Rightarrow> int option \<Rightarrow> db \<Rightarrow> mcp_error + json" where
  "get_flow_run bigint cast_error fr limit after d =
     (let st = (case flow_run_status fr d of Some s \<Rightarrow> flow_status_str s | None \<Rightarrow> ''unknown'');
          from = max 0 (case after of Some n \<Rightarrow> n | None \<Rightarrow> 0);
          count = flow_top_step_count fr d;
          page = flow_top_steps fr (clamp_limit limit 200 1000) (nat from) d
      in case flow_failed_child_idx bigint fr 20 d of
           None \<Rightarrow> Inl (InternalError cast_error)
         | Some failed_idx \<Rightarrow>
             let nxt = from + int (length page);
                 out = mk_obj [(''status'', JStr st),
                   (''steps'', JArr (map (flow_step_item (flow_map_counts fr d) failed_idx) page)),
                   (''total_steps'', JInt count)]
             in Inr (if nxt < count then set_key ''next_cursor'' (JInt nxt) out else out))"

section \<open>Schedules\<close>

definition schedule_json :: "('c, 'z) cron_lib \<Rightarrow> (time \<Rightarrow> string) \<Rightarrow> db \<Rightarrow> time \<Rightarrow> schedule \<Rightarrow> json" where
  "schedule_json lib rfc3339 d now s =
     (let o1 = mk_obj [(''schedule_id'', JInt (sd_id s)), (''script_id'', JInt (sd_script_id s)),
            (''script'', jopt (\<lambda>c. JStr (sc_name c)) (get_script (sd_script_id s) d)),
            (''cron'', JStr (sd_cron s)),
            (''next_fire'', jopt (\<lambda>t. JStr (rfc3339 t)) (schedule_next_fire lib s now))];
          o2 = (case sd_agent_id s of Some a \<Rightarrow> set_key ''agent_id'' (JStr a) o1 | None \<Rightarrow> o1);
          o3 = (case sd_timezone s of Some z \<Rightarrow> set_key ''timezone'' (JStr z) o2 | None \<Rightarrow> o2);
          o4 = (case sd_input_blobs s of
                  Some (JObj m) \<Rightarrow>
                    if m \<noteq> [] then set_key ''files'' (JArr (map (JStr \<circ> fst) m)) o3 else o3
                | _ \<Rightarrow> o3);
          o5 = (if sd_capture_output s then set_key ''capture_output'' (JBool True) o4 else o4)
      in if sd_idempotency s then set_key ''idempotency'' (JBool True) o5 else o5)"

definition mcp_list_schedules :: "('c, 'z) cron_lib \<Rightarrow> (time \<Rightarrow> string) \<Rightarrow> time \<Rightarrow> db \<Rightarrow> mcp_error + json" where
  "mcp_list_schedules lib rfc3339 now d =
     Inr (mk_obj [(''schedules'', JArr (map (schedule_json lib rfc3339 d now) (list_schedules d)))])"

record schedule_args =
  sa_script_id :: int
  sa_cron :: string
  sa_input :: "json option"
  sa_agent_id :: "string option"
  sa_files :: "(string \<times> string) list option"
  sa_capture_output :: "bool option"
  sa_idempotency :: "bool option"
  sa_timezone :: "string option"

definition scheduler_disabled :: "mcp_error + json" where
  "scheduler_disabled =
     mcp_err ''scheduler_disabled'' ''the cron scheduler is not enabled on this daemon'' None"

definition invalid_cron :: "string \<Rightarrow> mcp_error + json" where
  "invalid_cron e =
     err_ctx ''invalid_cron'' ''the cron expression is invalid''
       (Some ''6 fields with leading seconds, e.g. 0 */5 * * * *'') (mk_obj [(''detail'', JStr e)])"

text \<open>The time zone the caller named, if any.\<close>

definition zone_arg :: "('c, 'z) cron_lib \<Rightarrow> string option \<Rightarrow> (mcp_error + json) + 'z option" where
  "zone_arg lib name =
     (case map_option trim name of
        None \<Rightarrow> Inr None
      | Some n \<Rightarrow>
          if n = [] then Inr None
          else (case parse_timezone lib n of
                  Inr z \<Rightarrow> Inr (Some z)
                | Inl e \<Rightarrow>
                    Inl (err_ctx ''invalid_timezone'' e
                      (Some ''use an IANA name, e.g. Europe/Zurich or America/New_York'')
                      (mk_obj [(''timezone'', JStr n)]))))"

text \<open>
  Insert the row, start its ticker; a ticker that does not start disables the row again.
\<close>

definition install_schedule ::
    "('c, 'z) cron_lib \<Rightarrow> (time \<Rightarrow> string) \<Rightarrow> (db_error \<Rightarrow> string) \<Rightarrow> time \<Rightarrow> schedule_args \<Rightarrow> schedule_opts
     \<Rightarrow> json \<Rightarrow> 'c \<Rightarrow> 'z option \<Rightarrow> cron_state \<Rightarrow> db \<Rightarrow> (mcp_error + json) \<times> cron_state \<times> db" where
  "install_schedule lib rfc3339 db_msg now a opts input c tz cr d =
     (case insert_schedule (sa_script_id a) (sa_cron a) input opts d of
        Inl e \<Rightarrow> (internal db_msg e, cr, d)
      | Inr (i, d1) \<Rightarrow>
          (case get_schedule i d1 of
             None \<Rightarrow> (Inl (InternalError (''schedule '' @ int_str i @ '' vanished after insert'')), cr, d1)
           | Some stored \<Rightarrow>
               (case cron_add lib stored cr of
                  Inl e \<Rightarrow> (Inl (InternalError e), cr, snd (set_schedule_enabled i False d1))
                | Inr cr' \<Rightarrow>
                    let out = mk_obj [(''schedule_id'', JInt i), (''cron'', JStr (sa_cron a)),
                          (''status'', JStr ''scheduled''),
                          (''next_fire'', jopt (\<lambda>t. JStr (rfc3339 t)) (next_fire lib c tz now))]
                    in (Inr (case so_timezone opts of
                               Some z \<Rightarrow> set_key ''timezone'' (JStr z) out | None \<Rightarrow> out), cr', d1))))"

definition schedule_script ::
    "('c, 'z) cron_lib \<Rightarrow> (time \<Rightarrow> string) \<Rightarrow> (db_error \<Rightarrow> string) \<Rightarrow> (string \<Rightarrow> json option) \<Rightarrow> time
     \<Rightarrow> schedule_args \<Rightarrow> cron_state option \<Rightarrow> db \<Rightarrow> (mcp_error + json) \<times> cron_state option \<times> db" where
  "schedule_script lib rfc3339 db_msg parse now a cron d =
     (case cron of
        None \<Rightarrow> (scheduler_disabled, None, d)
      | Some cr \<Rightarrow>
          (case validate_cron (sa_cron a) of
             Inl e \<Rightarrow> (invalid_cron e, cron, d)
           | Inr _ \<Rightarrow>
          (case cl_parse lib (sa_cron a) of
             Inl e \<Rightarrow> (invalid_cron e, cron, d)
           | Inr c \<Rightarrow>
          (case zone_arg lib (sa_timezone a) of
             Inl r \<Rightarrow> (r, cron, d)
           | Inr tz \<Rightarrow>
               if get_script (sa_script_id a) d = None then (script_not_found (sa_script_id a), cron, d)
               else if map_option trim (sa_agent_id a) = Some [] then
                 (mcp_err ''agent_id_required'' ''agent_id must be non-empty when given''
                    (Some ''pass your agent id, or omit it for a schedule without agent''), cron, d)
               else (case resolve_files (sa_files a) d of
                  Inl envelope \<Rightarrow> (Inr envelope, cron, d)
                | Inr inb \<Rightarrow>
                    let opts = \<lparr>so_agent_id = map_option trim (sa_agent_id a), so_input_blobs = inb,
                          so_capture_output = opt_true (sa_capture_output a),
                          so_idempotency = opt_true (sa_idempotency a),
                          so_timezone = map_option (cl_zone_name lib) tz\<rparr>;
                        input = destringify parse (case sa_input a of Some v \<Rightarrow> v | None \<Rightarrow> mk_obj [])
                    in (case install_schedule lib rfc3339 db_msg now a opts input c tz cr d of
                          (r, cr', d') \<Rightarrow> (r, Some cr', d')))))))"

definition unschedule :: "int \<Rightarrow> cron_state option \<Rightarrow> db \<Rightarrow> (mcp_error + json) \<times> cron_state option \<times> db" where
  "unschedule i cron d =
     (case cron of
        None \<Rightarrow> (scheduler_disabled, None, d)
      | Some cr \<Rightarrow>
          (case cron_remove i cr d of
             (removed, cr', d') \<Rightarrow>
               (Inr (mk_obj [(''schedule_id'', JInt i),
                  (''status'', JStr (if removed then ''unscheduled'' else ''not_found''))]), Some cr', d')))"

section \<open>Webhooks\<close>

text \<open>\<open>token\<close> is what \<open>random_token\<close> drew.\<close>

definition create_webhook ::
    "(db_error \<Rightarrow> string) \<Rightarrow> string \<Rightarrow> string \<Rightarrow> int \<Rightarrow> string option \<Rightarrow> db \<Rightarrow> tool_result" where
  "create_webhook db_msg token target i agent d =
     (if target \<noteq> ''script'' \<and> target \<noteq> ''flow'' then
        (mcp_err ''bad_target'' (''target must be '' @ [CHR 0x22] @ ''script'' @ [CHR 0x22] @ '' or '' @
           [CHR 0x22] @ ''flow'' @ [CHR 0x22]) None, d)
      else if \<not> (if target = ''flow'' then get_flow_spec i d \<noteq> None else get_script i d \<noteq> None) then
        (err_ctx (target @ ''_not_found'') ''the target does not exist''
           (Some ''create the script/flow before the webhook'') (mk_obj [(''id'', JInt i)]), d)
      else (case insert_webhook token target i agent d of
              Inl e \<Rightarrow> (internal db_msg e, d)
            | Inr (w, d') \<Rightarrow>
                (Inr (mk_obj [(''webhook_id'', JInt w), (''token'', JStr token),
                   (''path'', JStr (''/hook/'' @ token)), (''status'', JStr ''created'')]), d')))"

definition mcp_delete_webhook :: "int \<Rightarrow> db \<Rightarrow> tool_result" where
  "mcp_delete_webhook i d =
     (case delete_webhook i d of
        (deleted, d') \<Rightarrow> (Inr (mk_obj [(''webhook_id'', JInt i), (''deleted'', JBool deleted)]), d'))"

section \<open>The run list\<close>

definition run_status_counts :: "db \<Rightarrow> (string \<times> int) list" where
  "run_status_counts d =
     map (\<lambda>st. (status_str st, int (length (filter (\<lambda>r. r_status r = st) (runs d)))))
       (remdups (map r_status (runs d)))"

text \<open>A status no row can have selects nothing.\<close>

definition runs_with_status :: "string option \<Rightarrow> int option \<Rightarrow> nat \<Rightarrow> db \<Rightarrow> run list" where
  "runs_with_status st sid limit d =
     (case st of
        None \<Rightarrow> list_runs None sid limit d
      | Some s \<Rightarrow>
          (case find (\<lambda>x. status_str x = s) [Pending, Running, Succeeded, Failed, Canceled] of
             Some x \<Rightarrow> list_runs (Some x) sid limit d | None \<Rightarrow> []))"

definition run_item :: "(time \<Rightarrow> string) \<Rightarrow> db \<Rightarrow> run \<Rightarrow> json" where
  "run_item rfc3339 d r =
     (let o1 = mk_obj [(''run_id'', JInt (r_id r)), (''script_id'', JInt (r_script_id r)),
            (''script'', jopt (\<lambda>s. JStr (sc_name s)) (get_script (r_script_id r) d)),
            (''status'', JStr (status_str (r_status r))), (''outcome'', JStr (outcome_of r)),
            (''exit'', jopt JInt (r_exit_code r)), (''at'', JStr (rfc3339 (r_created_at r)))];
          o2 = (case r_error r of Some e \<Rightarrow> set_key ''error'' (JStr e) o1 | None \<Rightarrow> o1)
      in case r_progress r of Some p \<Rightarrow> set_key ''progress'' (JStr p) o2 | None \<Rightarrow> o2)"

definition mcp_list_runs ::
    "(time \<Rightarrow> string) \<Rightarrow> string option \<Rightarrow> int option \<Rightarrow> int option \<Rightarrow> string option \<Rightarrow> db \<Rightarrow> mcp_error + json" where
  "mcp_list_runs rfc3339 st limit sid want d =
     (let rows = runs_with_status st sid (clamp_limit limit 20 200) d;
          outs = map outcome_of rows;
          shown = filter (\<lambda>r. want = None \<or> want = Some (outcome_of r)) rows
      in Inr (mk_obj
           [(''counts'', mk_obj (map (\<lambda>(k, n). (k, JInt n)) (run_status_counts d))),
            (''outcomes'', mk_obj (map (\<lambda>k. (k, JInt (int (count_list outs k)))) (remdups outs))),
            (''all_green'', JBool (''error'' \<notin> set outs \<and> ''verdict'' \<notin> set outs)),
            (''recent'', JArr (map (run_item rfc3339 d) shown))]))"

section \<open>Who am I\<close>

definition supported_runtimes :: "string list" where
  "supported_runtimes = [''python'', ''node'', ''bash'']"

text \<open>\<open>f64::round\<close>: to the nearest integer, a tie away from zero.\<close>

definition round_away :: "rat \<Rightarrow> int" where
  "round_away q = (if 0 \<le> q then \<lfloor>q + 1 / 2\<rfloor> else - \<lfloor>1 / 2 - q\<rfloor>)"

definition whoami :: "exec_env \<Rightarrow> string option \<Rightarrow> db \<Rightarrow> mcp_error + json" where
  "whoami env agent d =
     (let (in_flight, spent) = (case agent of
            Some aid \<Rightarrow> (agent_running_count aid d,
              agent_compute_seconds (ee_clock env d) aid agent_budget_window_secs d)
          | None \<Rightarrow> (0, 0))
      in Inr (mk_obj
        [(''agent_id'', jopt JStr agent),
         (''runtimes'', JArr (map JStr supported_runtimes)),
         (''limits'', mk_obj
            [(''mem_mb'', JInt (fst (ee_limits env) div (1024 * 1024))),
             (''cpus'', JFloat (of_int (snd (ee_limits env)) / 1000000000)),
             (''default_timeout_secs'', JInt default_timeout_secs),
             (''max_timeout_secs'', JInt (ee_max_timeout env))]),
         (''secrets'', JArr (map JStr (secret_names agent d))),
         (''quota'', mk_obj [(''max_concurrent'', JInt agent_max_concurrent), (''in_flight'', JInt in_flight)]),
         (''budget'', mk_obj [(''compute_seconds_24h'', JFloat (of_int (round_away (spent * 10)) / 10)),
            (''compute_budget'', JFloat agent_compute_budget_secs)]),
         (''input_contract'', JStr ''job reads DOKAN_INPUT (JSON env), secrets as env vars; emit `::dokan:result:: {json}` for a structured result'')]))"

end
