(* ===== verification/Catalog.thy ===== *)
theory Catalog
  imports Mcp_Admin
begin

text \<open>
  The inventories: scripts with their policy flags, blobs, webhooks and executors, as the statements
  of \<open>src/db.rs\<close> read them and as the tools of \<open>src/mcp.rs\<close> print them.

  Columns that only Postgres' own defaults write (\<open>created_at\<close>, \<open>started_at\<close>) are no part of a row
  here; they come in as a function of the row's key.  Rows with equal sort keys may come in either
  order; the model lists the younger first.
\<close>

section \<open>Statements\<close>

record script_full =
  sf_id :: int
  sf_name :: string
  sf_runtime :: string
  sf_description :: "string option"
  sf_network :: bool
  sf_mem_limit_mb :: "int option"
  sf_cpu_limit :: "rat option"
  sf_feed_prev_result :: bool
  sf_timeout_secs :: "int option"

definition full_of :: "script \<Rightarrow> script_full" where
  "full_of s =
     \<lparr>sf_id = sc_id s, sf_name = sc_name s, sf_runtime = sc_runtime s, sf_description = sc_description s,
      sf_network = sc_network s, sf_mem_limit_mb = sc_mem_limit_mb s, sf_cpu_limit = sc_cpu_limit s,
      sf_feed_prev_result = sc_feed_prev_result s, sf_timeout_secs = sc_timeout_secs s\<rparr>"

definition list_scripts_full :: "nat \<Rightarrow> db \<Rightarrow> script_full list \<times> nat" where
  "list_scripts_full limit d =
     (map full_of (take limit (rev (sort_key sc_id (scripts d)))), length (scripts d))"

record blob_meta =
  bm_sha :: string
  bm_size :: int
  bm_created_at :: time
  bm_last_used_at :: time

definition list_blobs :: "(string \<Rightarrow> time) \<Rightarrow> nat \<Rightarrow> db \<Rightarrow> blob_meta list \<times> nat" where
  "list_blobs created limit d =
     (map (\<lambda>b. \<lparr>bm_sha = b_sha b, bm_size = b_size b, bm_created_at = created (b_sha b),
                bm_last_used_at = b_last_used_at b\<rparr>)
        (take limit (rev (sort_key b_last_used_at (blobs d)))), length (blobs d))"

definition list_webhooks :: "(time \<Rightarrow> string) \<Rightarrow> (int \<Rightarrow> time) \<Rightarrow> db \<Rightarrow> json list" where
  "list_webhooks rfc3339 created d =
     map (\<lambda>w. mk_obj [(''webhook_id'', JInt (wh_id w)), (''token'', JStr (wh_token w)),
            (''kind'', JStr (wh_kind w)), (''target_id'', JInt (wh_target_id w)),
            (''agent_id'', jopt JStr (wh_agent_id w)), (''created_at'', JStr (rfc3339 (created (wh_id w))))])
       (rev (sort_key wh_id (webhooks d)))"

text \<open>\<open>list_executors\<close> of the store, printed; \<open>started\<close> is the column \<open>started_at\<close>.\<close>

definition executor_rows :: "(time \<Rightarrow> string) \<Rightarrow> (string \<Rightarrow> time) \<Rightarrow> time \<Rightarrow> int \<Rightarrow> db \<Rightarrow> json list" where
  "executor_rows rfc3339 started now live d =
     map (\<lambda>(e, alive). mk_obj [(''id'', JStr (ex_id e)), (''host'', JStr (ex_host e)), (''caps'', JStr (ex_caps e)),
            (''started_at'', JStr (rfc3339 (started (ex_id e)))), (''last_seen'', JStr (rfc3339 (ex_last_seen e))),
            (''live'', JBool alive)])
       (list_executors now live d)"

section \<open>Tools\<close>

definition blob_item :: "(time \<Rightarrow> string) \<Rightarrow> blob_meta \<Rightarrow> json" where
  "blob_item rfc3339 b =
     mk_obj [(''handle'', JStr (bm_sha b)), (''size'', JInt (bm_size b)),
       (''created_at'', JStr (rfc3339 (bm_created_at b))), (''last_used_at'', JStr (rfc3339 (bm_last_used_at b)))]"

definition mcp_list_blobs :: "(time \<Rightarrow> string) \<Rightarrow> (string \<Rightarrow> time) \<Rightarrow> int option \<Rightarrow> db \<Rightarrow> mcp_error + json" where
  "mcp_list_blobs rfc3339 created limit d =
     (let (rows, count) = list_blobs created (clamp_limit limit 50 500) d
      in Inr (mk_obj [(''blobs'', JArr (map (blob_item rfc3339) rows)), (''note'', showing (length rows) count)]))"

definition mcp_get_script ::
    "(time \<Rightarrow> string) \<Rightarrow> (int \<Rightarrow> time) \<Rightarrow> int \<Rightarrow> bool option \<Rightarrow> db \<Rightarrow> mcp_error + json" where
  "mcp_get_script rfc3339 created i include_source d =
     (case get_script i d of
        None \<Rightarrow> err_ctx ''not_found'' ''no script with that id'' (Some ''check list_scripts for valid ids'')
                  (mk_obj [(''id'', JInt i)])
      | Some s \<Rightarrow>
          let v = mk_obj [(''id'', JInt (sc_id s)), (''name'', JStr (sc_name s)), (''runtime'', JStr (sc_runtime s)),
                (''desc'', jopt JStr (sc_description s)), (''created_by'', jopt JStr (sc_created_by s)),
                (''version'', JInt (sc_version s)), (''network'', JBool (sc_network s)),
                (''created_at'', JStr (rfc3339 (created (sc_id s)))),
                (''mem_limit_mb'', jopt JInt (sc_mem_limit_mb s)), (''cpu_limit'', jopt JFloat (sc_cpu_limit s)),
                (''feed_prev_result'', JBool (sc_feed_prev_result s)),
                (''timeout_secs'', jopt JInt (sc_timeout_secs s))]
          in Inr (if opt_true include_source then set_key ''source'' (JStr (sc_source s)) v
                  else set_key ''source_bytes'' (JInt (int (length (sc_source s)))) v))"

definition mcp_list_executors :: "(time \<Rightarrow> string) \<Rightarrow> (string \<Rightarrow> time) \<Rightarrow> time \<Rightarrow> db \<Rightarrow> mcp_error + json" where
  "mcp_list_executors rfc3339 started now d =
     Inr (mk_obj [(''executors'', JArr (executor_rows rfc3339 started now 30 d))])"

definition mcp_list_triggers :: "db \<Rightarrow> mcp_error + json" where
  "mcp_list_triggers d = Inr (mk_obj [(''triggers'', JArr (list_triggers d))])"

definition mcp_list_webhooks :: "(time \<Rightarrow> string) \<Rightarrow> (int \<Rightarrow> time) \<Rightarrow> db \<Rightarrow> mcp_error + json" where
  "mcp_list_webhooks rfc3339 created d = Inr (mk_obj [(''webhooks'', JArr (list_webhooks rfc3339 created d))])"

section \<open>What the catalogs promise\<close>

text \<open>The two script catalogs agree: the flags are those of the scripts the plain catalog lists.\<close>

lemma list_scripts_full_rows: "list_scripts_full n d = (map full_of (fst (list_scripts n d)), snd (list_scripts n d))"
  by (simp add: list_scripts_full_def list_scripts_def)

lemma get_script_hides_source:
  assumes "mcp_get_script rfc3339 created i include d = Inr v" and "jget ''source'' v = Some src"
  shows "include = Some True \<and> (\<exists>s. get_script i d = Some s \<and> src = JStr (sc_source s))"
proof (cases "get_script i d")
  case None
  with assms show ?thesis
    by (auto simp: mcp_get_script_def err_ctx_def error_envelope_def mk_obj_def jget_def split: if_splits)
next
  case (Some s)
  with assms show ?thesis
    by (cases "opt_true include") (auto simp: mcp_get_script_def opt_true_def mk_obj_def Let_def jget_def split: if_splits)
qed

end
