(* ===== verification/Http.thy ===== *)
theory Http
  imports Http_Guard Mcp_Runs Catalog
begin

text \<open>
  The handlers of \<open>src/http.rs\<close>: the inbound webhook, the operator's JSON API and the log
  stream.  The routes that lead to them are in \<open>Router\<close>.
\<close>

datatype response = TextResp nat string | HtmlResp string | JsonResp nat json | SseResp "json list"

definition health :: "string \<Rightarrow> bool \<Rightarrow> response" where
  "health version db_up =
     JsonResp (if db_up then 200 else 503)
       (mk_obj [(''status'', JStr (if db_up then ''ok'' else ''degraded'')),
          (''version'', JStr version), (''db'', JStr (if db_up then ''up'' else ''down''))])"

section \<open>Inbound webhooks\<close>

record 'ip hook_request =
  hk_peer :: 'ip
  hk_token :: string
  hk_headers :: headers
  hk_body :: string

record hook_state =
  hs_ip_limiter :: limiter
  hs_token_limiter :: limiter
  hs_db :: db

definition rate_limited :: response where
  "rate_limited = TextResp 429 ''rate limited''"

definition no_such_webhook :: response where
  "no_such_webhook = TextResp 404 ''no such webhook''"

definition enqueue_failed :: response where
  "enqueue_failed = TextResp 500 ''enqueue failed''"

text \<open>A body that is not JSON is wrapped; \<open>lossy\<close> is \<open>from_utf8_lossy\<close>.\<close>

definition hook_input :: "(string \<Rightarrow> json option) \<Rightarrow> (string \<Rightarrow> string) \<Rightarrow> string \<Rightarrow> json" where
  "hook_input parse lossy body =
     (case parse body of Some v \<Rightarrow> v | None \<Rightarrow> mk_obj [(''raw'', JStr (lossy body))])"

definition fired :: "string \<Rightarrow> int \<Rightarrow> response" where
  "fired field i = JsonResp 202 (mk_obj [(field, JInt i), (''status'', JStr ''pending'')])"

definition refired :: "string \<Rightarrow> int \<Rightarrow> string option \<Rightarrow> response" where
  "refired field i st =
     JsonResp 200 (mk_obj [(field, JInt i),
       (''status'', JStr (case st of Some s \<Rightarrow> s | None \<Rightarrow> ''pending'')), (''idempotent'', JBool True)])"

definition fire_flow :: "int \<Rightarrow> json \<Rightarrow> string \<Rightarrow> db \<Rightarrow> response \<times> db" where
  "fire_flow target input idem d =
     (case get_flow_spec target d of
        None \<Rightarrow> (TextResp 404 ''flow gone'', d)
      | Some spec \<Rightarrow>
          (case insert_flow_run_idempotent target spec input idem d of
             Inl e \<Rightarrow> (enqueue_failed, d)
           | Inr ((i, created), d') \<Rightarrow>
               ((if created then fired ''flow_run_id'' i
                 else refired ''flow_run_id'' i
                   (map_option (\<lambda>x. flow_status_str (snd x)) (find_flow_run_by_idempotency idem d'))), d')))"

definition fire_script :: "time \<Rightarrow> int \<Rightarrow> json \<Rightarrow> string option \<Rightarrow> string \<Rightarrow> db \<Rightarrow> response \<times> db" where
  "fire_script now target input agent idem d =
     (case insert_run_idempotent now target input agent None False idem d of
        Inl e \<Rightarrow> (enqueue_failed, d)
      | Inr ((i, created), d') \<Rightarrow>
          ((if created then fired ''run_id'' i
            else refired ''run_id'' i
              (map_option (\<lambda>x. status_str (snd x)) (find_run_by_idempotency idem d'))), d'))"

definition webhook_fire ::
    "('ip \<Rightarrow> string) \<Rightarrow> 'ip list \<Rightarrow> exec_env \<Rightarrow> (string \<Rightarrow> string) \<Rightarrow> nat \<Rightarrow> 'ip hook_request
     \<Rightarrow> hook_state \<Rightarrow> response \<times> hook_state" where
  "webhook_fire show_ip trusted env lossy now_s rq s =
     (let (ip_ok, ipl) = check_at (client_ip show_ip (hk_headers rq) (hk_peer rq) trusted) now_s (hs_ip_limiter s);
          s1 = s\<lparr>hs_ip_limiter := ipl\<rparr>
      in if \<not> ip_ok then (rate_limited, s1)
         else if \<not> is_well_formed_webhook_token (hk_token rq) then (no_such_webhook, s1)
         else let (tok_ok, tl) = check_at (hk_token rq) now_s (hs_token_limiter s1);
                  s2 = s1\<lparr>hs_token_limiter := tl\<rparr>
              in if \<not> tok_ok then (rate_limited, s2)
                 else (case find_webhook_by_token (hk_token rq) (hs_db s2) of
                    None \<Rightarrow> (no_such_webhook, s2)
                  | Some (kind, target, agent) \<Rightarrow>
                      let input = hook_input (c_parse (ee_crypto env)) lossy (hk_body rq);
                          idem = webhook_idempotency_key (ee_crypto env) (hk_token rq) (hk_headers rq) (hk_body rq);
                          (r, d) = (if kind = ''flow'' then fire_flow target input idem (hs_db s2)
                            else fire_script (ee_clock env (hs_db s2)) target input agent idem (hs_db s2))
                      in (r, s2\<lparr>hs_db := d\<rparr>)))"

section \<open>The operator's API\<close>

definition api_run_item :: "(time \<Rightarrow> string) \<Rightarrow> db \<Rightarrow> run \<Rightarrow> json" where
  "api_run_item rfc3339 d r =
     (let sc = get_script (r_script_id r) d in
      mk_obj [(''run_id'', JInt (r_id r)), (''script_id'', JInt (r_script_id r)),
        (''status'', JStr (status_str (r_status r))), (''outcome'', JStr (outcome_of r)),
        (''exit'', jopt JInt (r_exit_code r)), (''error'', jopt JStr (r_error r)),
        (''created_at'', JStr (rfc3339 (r_created_at r))),
        (''script_name'', jopt (\<lambda>s. JStr (sc_name s)) sc),
        (''script_desc'', jopt JStr (Option.bind sc sc_description)),
        (''created_by'', jopt JStr (Option.bind sc sc_created_by)),
        (''progress'', jopt JStr (r_progress r)), (''input_blobs'', jopt id (r_input_blobs r))])"

definition api_list_runs :: "(time \<Rightarrow> string) \<Rightarrow> int option \<Rightarrow> db \<Rightarrow> response" where
  "api_list_runs rfc3339 limit d =
     JsonResp 200 (mk_obj
       [(''counts'', mk_obj (map (\<lambda>(k, n). (k, JInt n)) (run_status_counts d))),
        (''recent'', JArr (map (api_run_item rfc3339 d) (list_runs None None (clamp_limit limit 30 200) d)))])"

definition api_cancel_run :: "exec_env \<Rightarrow> int \<Rightarrow> db \<Rightarrow> response \<times> db" where
  "api_cancel_run env rid d =
     (let st = status_or [] rid d in
      if terminal_status st then
        (JsonResp 409 (mk_obj [(''error'', JStr ''run already terminal''), (''status'', JStr st)]), d)
      else (JsonResp 200 (mk_obj [(''run_id'', JInt rid), (''status'', JStr ''canceled'')]),
            snd (cancel_run (ee_clock env d) rid ''canceled by operator'' d)))"

definition api_trigger_run :: "exec_env \<Rightarrow> int \<Rightarrow> json option \<Rightarrow> db \<Rightarrow> response \<times> db" where
  "api_trigger_run env sid input d =
     (case insert_run (ee_clock env d) sid (case input of Some v \<Rightarrow> v | None \<Rightarrow> mk_obj []) None d of
        Inr (rid, d') \<Rightarrow> (JsonResp 200 (mk_obj [(''run_id'', JInt rid), (''status'', JStr ''pending'')]), d')
      | Inl e \<Rightarrow> (JsonResp 400 (mk_obj [(''error'', JStr (ee_db_msg env e))]), d))"

definition api_run_logs :: "int \<Rightarrow> int option \<Rightarrow> db \<Rightarrow> response" where
  "api_run_logs rid after_cursor d =
     (let after = (case after_cursor of Some c \<Rightarrow> c | None \<Rightarrow> 0);
          lines = read_logs_after rid after 500 d
      in JsonResp 200 (mk_obj [(''status'', JStr (status_or [] rid d)),
           (''lines'', JArr (map (\<lambda>l. JStr (render_line l)) lines)),
           (''next_cursor'', JInt (next_cursor after lines))]))"

definition api_list_secrets :: "db \<Rightarrow> response" where
  "api_list_secrets d = JsonResp 200 (mk_obj [(''secrets'', JArr (map JStr (secret_names None d)))])"

definition api_set_secret :: "(string \<Rightarrow> string) \<Rightarrow> string \<Rightarrow> string \<Rightarrow> db \<Rightarrow> response \<times> db" where
  "api_set_secret seal name val d =
     (JsonResp 200 (mk_obj [(''name'', JStr name), (''status'', JStr ''set'')]), upsert_secret seal name val None d)"

definition api_list_schedules :: "('c, 'z) cron_lib \<Rightarrow> (time \<Rightarrow> string) \<Rightarrow> time \<Rightarrow> db \<Rightarrow> response" where
  "api_list_schedules lib rfc3339 now d =
     JsonResp 200 (mk_obj [(''schedules'', JArr (map (\<lambda>s. mk_obj
       [(''schedule_id'', JInt (sd_id s)), (''script_id'', JInt (sd_script_id s)),
        (''script_name'', jopt (\<lambda>c. JStr (sc_name c)) (get_script (sd_script_id s) d)),
        (''cron'', JStr (sd_cron s)), (''timezone'', jopt JStr (sd_timezone s)),
        (''agent_id'', jopt JStr (sd_agent_id s)),
        (''next_fire'', jopt (\<lambda>t. JStr (rfc3339 t)) (schedule_next_fire lib s now))])
       (list_schedules d)))])"

definition api_list_scripts :: "int option \<Rightarrow> db \<Rightarrow> response" where
  "api_list_scripts limit d =
     JsonResp 200 (mk_obj [(''scripts'', JArr (map (\<lambda>s. mk_obj
       [(''id'', JInt (sf_id s)), (''name'', JStr (sf_name s)), (''runtime'', JStr (sf_runtime s)),
        (''desc'', jopt JStr (sf_description s)), (''network'', JBool (sf_network s)),
        (''mem_limit_mb'', jopt JInt (sf_mem_limit_mb s)), (''cpu_limit'', jopt JFloat (sf_cpu_limit s)),
        (''feed_prev_result'', JBool (sf_feed_prev_result s)),
        (''timeout_secs'', jopt JInt (sf_timeout_secs s))])
       (fst (list_scripts_full (clamp_limit limit 200 500) d))))])"

definition api_list_blobs :: "(time \<Rightarrow> string) \<Rightarrow> (string \<Rightarrow> time) \<Rightarrow> int option \<Rightarrow> db \<Rightarrow> response" where
  "api_list_blobs rfc3339 created limit d =
     JsonResp 200 (mk_obj [(''blobs'',
       JArr (map (blob_item rfc3339) (fst (list_blobs created (clamp_limit limit 200 500) d))))])"

definition no_receipt_response :: response where
  "no_receipt_response = JsonResp 404 (mk_obj [(''error'', JStr ''no receipt for this run'')])"

definition api_run_receipt :: "int \<Rightarrow> db \<Rightarrow> response" where
  "api_run_receipt rid d =
     (case run_receipt rid d of Some r \<Rightarrow> JsonResp 200 r | None \<Rightarrow> no_receipt_response)"

definition api_verify_run :: "exec_env \<Rightarrow> string set option \<Rightarrow> int \<Rightarrow> db \<Rightarrow> response panics" where
  "api_verify_run env trusted rid d =
     (case run_receipt rid d of
        None \<Rightarrow> Some no_receipt_response
      | Some r \<Rightarrow>
          map_option (\<lambda>rep. JsonResp 200 (mk_obj
            [(''run_id'', JInt rid), (''ok'', JBool (report_ok rep)),
             (''ed25519_valid'', JBool (vr_ed25519_valid rep)),
             (''binding_consistent'', JBool (vr_binding_consistent rep)),
             (''hermetic'', JBool (vr_hermetic rep)),
             (''deterministic'', JBool (get_as as_bool ''deterministic'' r = Some True)),
             (''keyid'', JStr (vr_keyid rep)), (''trust_enforced'', JBool (vr_trust_enforced rep)),
             (''pinned'', JBool (vr_pinned rep))]))
          (verify_receipt_with (ee_crypto env) r trusted))"

definition api_reproduce_run ::
    "exec_env \<Rightarrow> string set option \<Rightarrow> (nat \<Rightarrow> db \<Rightarrow> db) \<Rightarrow> int \<Rightarrow> db \<Rightarrow> (response \<times> db) panics" where
  "api_reproduce_run env trusted others rid d =
     map_option (\<lambda>r. case r of
         Inr (v, d') \<Rightarrow> (JsonResp 200 v, d')
       | Inl e \<Rightarrow> (JsonResp 500 (mk_obj [(''error'', JStr e)]), d))
       (reproduce_run env trusted others rid 120 None d)"

definition receipt_pubkey :: "exec_env \<Rightarrow> response" where
  "receipt_pubkey env =
     JsonResp 200 (mk_obj [(''alg'', JStr ''ed25519''),
       (''keyid'', JStr (ed_keyid (ee_crypto env) (ee_signer env))),
       (''public_key'', JStr (ed_public_b64 (ee_crypto env) (ee_signer env))),
       (''encoding'', JStr ''base64'')])"

section \<open>The log stream\<close>

text \<open>
  One poll reads the log and then the status: two statements, between which the rest of the
  system may move on, so a poll sees two databases.  \<open>run_stream\<close> is the events over the polls a
  client waits through.
\<close>

definition stream_event :: "int \<Rightarrow> int \<Rightarrow> db \<Rightarrow> db \<Rightarrow> (string \<times> log_row list) \<times> int \<times> bool" where
  "stream_event rid cursor d_logs d_status =
     (let lines = read_logs_after rid cursor 500 d_logs; st = status_or [] rid d_status
      in ((st, lines), next_cursor cursor lines, terminal_status st))"

fun stream_events :: "int \<Rightarrow> int \<Rightarrow> (db \<times> db) list \<Rightarrow> (string \<times> log_row list) list" where
  "stream_events rid cursor [] = []"
| "stream_events rid cursor ((d1, d2) # polls) =
     (case stream_event rid cursor d1 d2 of
        (ev, next, terminal) \<Rightarrow> ev # (if terminal then [] else stream_events rid next polls))"

definition event_data :: "string \<times> log_row list \<Rightarrow> int \<Rightarrow> json" where
  "event_data ev cursor =
     mk_obj [(''status'', JStr (fst ev)), (''lines'', JArr (map (\<lambda>l. JStr (render_line l)) (snd ev))),
       (''cursor'', JInt cursor)]"

text \<open>The cursors after each event, and the stream as it goes over the wire.\<close>

fun with_cursors :: "int \<Rightarrow> (string \<times> log_row list) list \<Rightarrow> json list" where
  "with_cursors cursor [] = []"
| "with_cursors cursor (ev # evs) =
     (let next = next_cursor cursor (snd ev) in event_data ev next # with_cursors next evs)"

definition run_stream :: "int \<Rightarrow> (db \<times> db) list \<Rightarrow> (string \<times> log_row list) list" where
  "run_stream rid polls = stream_events rid 0 polls"

end
