(* ===== verification/Entry_Laws.thy ===== *)
theory Entry_Laws
  imports Http Cron_Ticks Queue_Laws
begin

text \<open>
  The ways a run enters the queue: an agent's \<open>run_script\<close>, a schedule's tick, a webhook and the
  operator's trigger.  They share a contract, stated as the locale \<open>entry_point\<close>: a call adds at
  most one row, a waiting or a refused one, and leaves every other row alone.  Two of them meter
  their agent, which \<open>metered\<close> adds to the contract.
\<close>

section \<open>The contract\<close>

definition adds :: "db \<Rightarrow> (run \<Rightarrow> bool) \<Rightarrow> db \<Rightarrow> bool" where
  "adds d P d' = (runs d' = runs d \<or> (\<exists>r. runs d' = runs d @ [r] \<and> P r))"

definition in_flight :: "string \<Rightarrow> run \<Rightarrow> bool" where
  "in_flight aid r = (r_agent_id r = Some aid \<and> r_status r \<in> {Pending, Running})"

lemma running_count: "agent_running_count aid d = int (length (filter (in_flight aid) (runs d)))"
  by (simp add: agent_running_count_def in_flight_def [abs_def])

lemma adds_same: "runs d' = runs d \<Longrightarrow> adds d P d'"
  by (simp add: adds_def)

lemma adds_mono: "adds d P d' \<Longrightarrow> (\<And>r. P r \<Longrightarrow> Q r) \<Longrightarrow> adds d Q d'"
  by (auto simp: adds_def)

locale entry_point =
  fixes enter :: "'a \<Rightarrow> db \<Rightarrow> db" and admits :: "'a \<Rightarrow> db \<Rightarrow> run \<Rightarrow> bool"
  assumes one_row: "runs_wf d \<Longrightarrow> adds d (admits a d) (enter a d)"
    and keeps_wf: "runs_wf d \<Longrightarrow> runs_wf (enter a d)"
    and not_started: "admits a d r \<Longrightarrow> r_status r \<in> {Pending, Failed} \<and> r_started_at r = None"
begin

lemma untouched: "runs_wf d \<Longrightarrow> r \<in> set (runs d) \<Longrightarrow> r \<in> set (runs (enter a d))"
  using one_row [of d a] by (auto simp: adds_def)

lemma admitted: "runs_wf d \<Longrightarrow> r \<in> set (runs (enter a d)) \<Longrightarrow> r \<notin> set (runs d) \<Longrightarrow> admits a d r"
  using one_row [of d a] by (auto simp: adds_def)

lemma one_more: "runs_wf d \<Longrightarrow> length (runs (enter a d)) \<le> Suc (length (runs d))"
  using one_row [of d a] by (auto simp: adds_def)

lemma sequence_wf: "runs_wf d \<Longrightarrow> runs_wf (fold enter as d)"
  by (induction as arbitrary: d) (auto simp: keeps_wf)

lemma sequence_untouched: "runs_wf d \<Longrightarrow> r \<in> set (runs d) \<Longrightarrow> r \<in> set (runs (fold enter as d))"
  by (induction as arbitrary: d) (auto simp: keeps_wf untouched)

lemma sequence_fresh:
  "runs_wf d \<Longrightarrow> r \<in> set (runs (fold enter as d)) \<Longrightarrow> r \<notin> set (runs d) \<Longrightarrow>
   r_status r \<in> {Pending, Failed} \<and> r_started_at r = None"
proof (induction as arbitrary: d)
  case (Cons a as)
  show ?case
  proof (cases "r \<in> set (runs (enter a d))")
    case True
    with admitted [OF Cons.prems(1)] Cons.prems(3) show ?thesis by (blast dest: not_started)
  next
    case False
    with Cons.IH [OF keeps_wf [OF Cons.prems(1)]] Cons.prems(2) show ?thesis by simp
  qed
qed simp

lemma sequence_length: "runs_wf d \<Longrightarrow> length (runs (fold enter as d)) \<le> length (runs d) + length as"
proof (induction as arbitrary: d)
  case (Cons a as)
  from Cons.IH [OF keeps_wf [OF Cons.prems], of a] one_more [OF Cons.prems, of a] show ?case by simp
qed simp

end

locale metered = entry_point +
  fixes clock :: "'a \<Rightarrow> db \<Rightarrow> time"
  assumes checked: "admits a d r \<Longrightarrow> in_flight aid r \<Longrightarrow> quota_check (clock a d) aid d = None"
begin

lemma within_quota:
  assumes "runs_wf d" and "agent_running_count aid d \<le> agent_max_concurrent"
  shows "agent_running_count aid (enter a d) \<le> agent_max_concurrent"
proof -
  consider "runs (enter a d) = runs d" | r where "runs (enter a d) = runs d @ [r]" "admits a d r"
    using one_row [OF assms(1), of a] by (auto simp: adds_def)
  then show ?thesis
  proof cases
    case 1
    with assms(2) show ?thesis by (simp add: running_count)
  next
    case 2
    then show ?thesis
    proof (cases "in_flight aid r")
      case True
      from checked [OF 2(2) True] have "agent_running_count aid d < agent_max_concurrent"
        by (simp add: quota_check_None)
      with 2 show ?thesis by (simp add: running_count)
    qed (use assms(2) 2 in \<open>simp add: running_count\<close>)
  qed
qed

lemma sequence_within_quota:
  "runs_wf d \<Longrightarrow> agent_running_count aid d \<le> agent_max_concurrent \<Longrightarrow>
   agent_running_count aid (fold enter as d) \<le> agent_max_concurrent"
  by (induction as arbitrary: d) (simp_all add: keeps_wf within_quota)

end

section \<open>The inserts\<close>

definition queued :: "int \<Rightarrow> json \<Rightarrow> string option \<Rightarrow> json option \<Rightarrow> run \<Rightarrow> bool" where
  "queued sid input agent inb r =
     (r_status r = Pending \<and> r_started_at r = None \<and> r_script_id r = sid \<and> r_input r = Some input \<and>
      r_agent_id r = agent \<and> r_input_blobs r = inb)"

lemma insert_run_with_blobs_row:
  assumes "insert_run_with_blobs now sid input agent inb cap d = Inr (i, d')"
  shows "i = run_seq d" and "\<exists>r. runs d' = runs d @ [r] \<and> r_id r = i \<and> queued sid input agent inb r"
  using assms by (auto simp: insert_run_with_blobs_def queued_def new_run_def split: if_splits)

lemma insert_run_idempotent_row:
  assumes "insert_run_idempotent now sid input agent inb cap k d = Inr ((i, created), d')"
  shows "\<not> created \<Longrightarrow> runs d' = runs d"
    and "created \<Longrightarrow> i = run_seq d \<and>
      (\<exists>r. runs d' = runs d @ [r] \<and> r_id r = i \<and> queued sid input agent inb r)"
  using assms
  by (auto simp: insert_run_idempotent_def queued_def new_run_def split: if_splits option.splits)

lemma set_cache_key_row:
  assumes "runs_wf d" and "runs d1 = runs d @ [r]" and "r_id r = run_seq d"
  shows "runs (set_run_cache_key (run_seq d) k d1) = runs d @ [r\<lparr>r_cache_key := Some k\<rparr>]"
proof -
  have "update_where (\<lambda>q. r_id q = run_seq d) f (runs d) = runs d" for f
    unfolding update_where_def using assms(1) by (intro map_idI) (auto simp: runs_wf_def)
  with assms(2,3) show ?thesis by (simp add: set_run_cache_key_def update_where_def)
qed

lemma enqueued_adds:
  assumes "runs_wf d" and "runs d1 = runs d @ [r]" and "r_id r = run_seq d" and "queued sid input agent inb r"
  shows "adds d (queued sid input agent inb) (snd (enqueued (run_seq d) key d1))"
proof (cases key)
  case None
  with assms show ?thesis by (auto simp: adds_def enqueued_def)
next
  case (Some k)
  with assms(4) set_cache_key_row [OF assms(1-3)] show ?thesis
    by (simp add: adds_def enqueued_def queued_def)
qed

lemma enqueued_wf: "runs_wf d \<Longrightarrow> runs_wf (snd (enqueued rid key d))"
  by (simp add: enqueued_def column_wf split: option.split)

section \<open>An agent's request\<close>

definition resolved :: "run_request \<Rightarrow> db \<Rightarrow> json option \<Rightarrow> bool" where
  "resolved a d inb = (resolve_files (rq_files a) d = Inr inb)"

definition tool_admits :: "exec_env \<times> run_request \<Rightarrow> db \<Rightarrow> run \<Rightarrow> bool" where
  "tool_admits = (\<lambda>(env, a) d r.
     r_status r = Pending \<and> r_started_at r = None \<and> r_script_id r = rq_script_id a \<and>
     trim (rq_agent_id a) \<noteq> [] \<and> r_agent_id r = Some (trim (rq_agent_id a)) \<and>
     quota_check (ee_clock env d) (trim (rq_agent_id a)) d = None \<and> resolved a d (r_input_blobs r))"

lemma enqueue_request_adds:
  assumes wf: "runs_wf d" and res: "resolved a d inb"
  shows "adds d (tool_admits (env, a) d) (snd (enqueue_request env a input inb key d))"
    and "runs_wf (snd (enqueue_request env a input inb key d))"
proof -
  let ?aid = "trim (rq_agent_id a)"
  let ?Q = "queued (rq_script_id a) input (Some ?aid) inb"
  let ?now = "ee_clock env d"
  let ?cap = "rq_capture_output a = Some True"
  let ?r = "snd (enqueue_request env a input inb key d)"
  have "adds d (tool_admits (env, a) d) ?r \<and> runs_wf ?r"
  proof (cases "?aid = [] \<or> quota_check ?now ?aid d \<noteq> None")
    case True
    then have "?r = d" by (auto simp: enqueue_request_def Let_def)
    with wf show ?thesis by (simp add: adds_def)
  next
    case False
    then have ok: "?aid \<noteq> []" "quota_check ?now ?aid d = None" by auto
    have up: "adds d ?Q d' \<Longrightarrow> adds d (tool_admits (env, a) d) d'" for d'
      by (erule adds_mono) (use ok res in \<open>simp add: tool_admits_def queued_def\<close>)
    show ?thesis
    proof (cases "rq_idempotency_key a")
      case None
      show ?thesis
      proof (cases "insert_run_with_blobs ?now (rq_script_id a) input (Some ?aid) inb ?cap d")
        case (Inl e)
        with None ok wf show ?thesis by (simp add: enqueue_request_def Let_def adds_def)
      next
        case (Inr x)
        obtain i d1 where x: "x = (i, d1)" by (cases x)
        note row = insert_run_with_blobs_row [OF Inr [unfolded x]]
        from row obtain r where r: "runs d1 = runs d @ [r]" "r_id r = run_seq d" "?Q r" by blast
        have "?r = snd (enqueued (run_seq d) key d1)"
          using None ok Inr x row(1) by (simp add: enqueue_request_def Let_def)
        with up [OF enqueued_adds [OF wf r]] enqueued_wf insert_run_with_blobs_wf [OF wf Inr [unfolded x]]
        show ?thesis by simp
      qed
    next
      case (Some k)
      show ?thesis
      proof (cases "insert_run_idempotent ?now (rq_script_id a) input (Some ?aid) inb ?cap k d")
        case (Inl e)
        with Some ok wf show ?thesis by (simp add: enqueue_request_def Let_def adds_def)
      next
        case (Inr x)
        obtain i created d1 where x: "x = ((i, created), d1)" by (metis prod.exhaust)
        note row = insert_run_idempotent_row [OF Inr [unfolded x]]
        have wf1: "runs_wf d1" using insert_run_idempotent_wf [OF wf Inr [unfolded x]] .
        show ?thesis
        proof (cases created)
          case True
          with row(2) obtain r where r: "runs d1 = runs d @ [r]" "r_id r = run_seq d" "?Q r" and i: "i = run_seq d"
            by blast
          have "?r = snd (enqueued (run_seq d) key d1)"
            using Some ok Inr x True i by (simp add: enqueue_request_def Let_def)
          with up [OF enqueued_adds [OF wf r]] enqueued_wf [OF wf1] show ?thesis by simp
        next
          case False
          then have "?r = d1" using Some ok Inr x by (simp add: enqueue_request_def Let_def)
          with row(1) False wf1 show ?thesis by (simp add: adds_def)
        qed
      qed
    qed
  qed
  then show "adds d (tool_admits (env, a) d) ?r" "runs_wf ?r" by simp_all
qed

lemma run_script_cases:
  "snd (run_script env a d) = d \<or>
   (\<exists>input inb key. resolved a d inb \<and> snd (run_script env a d) = snd (enqueue_request env a input inb key d))"
proof (cases "\<exists>sc inb. get_script (rq_script_id a) d = Some sc \<and> resolve_files (rq_files a) d = Inr inb")
  case False
  then have "snd (run_script env a d) = d"
    by (auto simp: run_script_def Let_def split: option.split sum.split)
  then show ?thesis ..
next
  case True
  then obtain sc inb where s: "get_script (rq_script_id a) d = Some sc" and r: "resolve_files (rq_files a) d = Inr inb"
    by blast
  let ?input = "destringify (c_parse (ee_crypto env)) (case rq_input a of Some v \<Rightarrow> v | None \<Rightarrow> mk_obj [])"
  let ?key = "request_cache_key env sc ?input inb d"
  consider "snd (run_script env a d) = d"
    | key where "snd (run_script env a d) = snd (enqueue_request env a ?input inb key d)"
    using s r by (cases "rq_cache a = Some True"; cases "find_cached_run ?key d") (simp_all add: run_script_def Let_def)
  then show ?thesis using r unfolding resolved_def by cases blast+
qed

fun by_tool :: "exec_env \<times> run_request \<Rightarrow> db \<Rightarrow> db" where
  "by_tool (env, a) d = snd (run_script env a d)"

fun tool_clock :: "exec_env \<times> run_request \<Rightarrow> db \<Rightarrow> time" where
  "tool_clock (env, a) d = ee_clock env d"

lemma by_tool_adds:
  assumes "runs_wf d"
  shows "adds d (tool_admits x d) (by_tool x d) \<and> runs_wf (by_tool x d)"
proof -
  obtain env a where x: "x = (env, a)" by (cases x)
  from run_script_cases [of env a d] show ?thesis
    unfolding x by (elim disjE exE conjE) (simp_all add: adds_same assms enqueue_request_adds)
qed

interpretation tool: metered by_tool tool_admits tool_clock
  by unfold_locales (simp_all add: by_tool_adds, auto simp: tool_admits_def in_flight_def)

section \<open>The other entries\<close>

lemma insert_refused_run_row:
  assumes "insert_refused_run now sid input agent reason k d = Inr (i, d')"
  shows "adds d (\<lambda>r. r_status r = Failed \<and> r_started_at r = None \<and> r_error r = Some reason) d'"
  using assms by (auto simp: adds_def insert_refused_run_def new_run_def split: if_splits)

lemma insert_run_with_blobs_adds:
  "insert_run_with_blobs now sid input agent inb cap d = Inr (i, d') \<Longrightarrow> adds d (queued sid input agent inb) d'"
  using insert_run_with_blobs_row(2) unfolding adds_def by blast

lemma insert_run_idempotent_adds:
  assumes "insert_run_idempotent now sid input agent inb cap k d = Inr (c, d')"
  shows "adds d (queued sid input agent inb) d'"
  using insert_run_idempotent_row [of now sid input agent inb cap k d "fst c" "snd c" d'] assms
  unfolding adds_def prod.collapse by blast

fun by_tick :: "time \<times> schedule \<times> int \<Rightarrow> db \<Rightarrow> db" where
  "by_tick (now, s, epoch) d = snd (enqueue_tick now s epoch d)"

fun tick_clock :: "time \<times> schedule \<times> int \<Rightarrow> db \<Rightarrow> time" where
  "tick_clock (now, s, epoch) d = now"

definition tick_admits :: "time \<times> schedule \<times> int \<Rightarrow> db \<Rightarrow> run \<Rightarrow> bool" where
  "tick_admits = (\<lambda>(now, s, epoch) d r. r_started_at r = None \<and>
     (case Option.bind (sd_agent_id s) (\<lambda>aid. quota_check now aid d) of
        Some refusal \<Rightarrow> r_status r = Failed \<and> r_error r = Some (refusal_reason refusal)
      | None \<Rightarrow> queued (sd_script_id s) (sched_input s) (sd_agent_id s) (sd_input_blobs s) r))"

lemma by_tick_adds:
  assumes wf: "runs_wf d"
  shows "adds d (tick_admits x d) (by_tick x d) \<and> runs_wf (by_tick x d)"
proof -
  obtain now s epoch where x: "x = (now, s, epoch)" by (metis prod_cases3)
  let ?q = "Option.bind (sd_agent_id s) (\<lambda>aid. quota_check now aid d)"
  let ?key = "if sd_idempotency s then Some (tick_key (sd_id s) epoch) else None"
  show ?thesis
  proof (cases ?q)
    case (Some refusal)
    let ?ins = "insert_refused_run now (sd_script_id s) (sched_input s) (sd_agent_id s) (refusal_reason refusal) ?key d"
    have eq: "by_tick x d = or_unchanged d ?ins"
      using Some by (auto simp: x enqueue_tick_def Let_def or_unchanged_def split: sum.split prod.split)
    have "adds d (tick_admits x d) d'" if "?ins = Inr (i, d')" for i d'
      by (rule adds_mono [OF insert_refused_run_row [OF that]]) (simp add: tick_admits_def x Some)
    moreover have "runs_wf d'" if "?ins = Inr (i, d')" for i d' using insert_refused_run_wf [OF wf that] .
    ultimately show ?thesis unfolding eq using wf by (auto simp: or_unchanged_def adds_same split: sum.split)
  next
    case None
    note q = this
    have up: "adds d (queued (sd_script_id s) (sched_input s) (sd_agent_id s) (sd_input_blobs s)) d' \<Longrightarrow>
        adds d (tick_admits x d) d'" for d'
      by (erule adds_mono) (use q in \<open>simp add: tick_admits_def x queued_def\<close>)
    show ?thesis
    proof (cases "sd_idempotency s")
      case True
      let ?ins = "insert_run_idempotent now (sd_script_id s) (sched_input s) (sd_agent_id s) (sd_input_blobs s)
          (sd_capture_output s) (tick_key (sd_id s) epoch) d"
      have eq: "by_tick x d = or_unchanged d ?ins"
        using q True by (auto simp: x enqueue_tick_def Let_def or_unchanged_def split: sum.split prod.split)
      have "adds d (tick_admits x d) d' \<and> runs_wf d'" if "?ins = Inr (c, d')" for c d'
        using that up insert_run_idempotent_adds insert_run_idempotent_wf [OF wf] by blast
      then show ?thesis unfolding eq using wf by (auto simp: or_unchanged_def adds_same split: sum.split)
    next
      case False
      let ?ins = "insert_run_with_blobs now (sd_script_id s) (sched_input s) (sd_agent_id s) (sd_input_blobs s)
          (sd_capture_output s) d"
      have eq: "by_tick x d = or_unchanged d ?ins"
        using q False by (auto simp: x enqueue_tick_def Let_def or_unchanged_def split: sum.split prod.split)
      have "adds d (tick_admits x d) d' \<and> runs_wf d'" if "?ins = Inr (c, d')" for c d'
        using that up insert_run_with_blobs_adds insert_run_with_blobs_wf [OF wf] by blast
      then show ?thesis unfolding eq using wf by (auto simp: or_unchanged_def adds_same split: sum.split)
    qed
  qed
qed

lemma tick_metered:
  assumes "tick_admits x d r" and "in_flight aid r"
  shows "quota_check (tick_clock x d) aid d = None"
proof -
  obtain now s epoch where x: "x = (now, s, epoch)" by (metis prod_cases3)
  from assms show ?thesis unfolding x
    by (cases "sd_agent_id s") (auto simp: tick_admits_def in_flight_def queued_def split: option.splits)
qed

lemma tick_not_started: "tick_admits x d r \<Longrightarrow> r_status r \<in> {Pending, Failed} \<and> r_started_at r = None"
  by (cases x) (auto simp: tick_admits_def queued_def split: option.splits)

interpretation tick: metered by_tick tick_admits tick_clock
  by unfold_locales (simp_all only: by_tick_adds tick_metered tick_not_started)

text \<open>A webhook call, on either of its targets: a flow's start leaves the run table alone.\<close>

record hook_call =
  hc_env :: exec_env
  hc_lossy :: "string \<Rightarrow> string"
  hc_now :: nat
  hc_request :: "string hook_request"
  hc_trusted :: "string list"
  hc_ip_limiter :: limiter
  hc_token_limiter :: limiter

definition by_hook :: "hook_call \<Rightarrow> db \<Rightarrow> db" where
  "by_hook c d = hs_db (snd (webhook_fire id (hc_trusted c) (hc_env c) (hc_lossy c) (hc_now c) (hc_request c)
     \<lparr>hs_ip_limiter = hc_ip_limiter c, hs_token_limiter = hc_token_limiter c, hs_db = d\<rparr>))"

definition hook_admits :: "hook_call \<Rightarrow> db \<Rightarrow> run \<Rightarrow> bool" where
  "hook_admits c d r =
     (r_status r = Pending \<and> r_started_at r = None \<and> r_input_blobs r = None \<and>
      (\<exists>kind. kind \<noteq> ''flow'' \<and>
        find_webhook_by_token (hk_token (hc_request c)) d = Some (kind, r_script_id r, r_agent_id r)))"

lemma by_hook_cases:
  "by_hook c d = d \<or> (\<exists>target input idem. by_hook c d = snd (fire_flow target input idem d)) \<or>
   (\<exists>kind target agent now input idem. kind \<noteq> ''flow'' \<and>
      find_webhook_by_token (hk_token (hc_request c)) d = Some (kind, target, agent) \<and>
      by_hook c d = snd (fire_script now target input agent idem d))"
proof -
  let ?rq = "hc_request c" and ?env = "hc_env c"
  let ?in = "hook_input (c_parse (ee_crypto ?env)) (hc_lossy c) (hk_body ?rq)"
  let ?idem = "webhook_idempotency_key (ee_crypto ?env) (hk_token ?rq) (hk_headers ?rq) (hk_body ?rq)"
  obtain ip_ok ipl where ip: "check_at (client_ip id (hk_headers ?rq) (hk_peer ?rq) (hc_trusted c)) (hc_now c)
      (hc_ip_limiter c) = (ip_ok, ipl)" by fastforce
  obtain tok_ok tl where tok: "check_at (hk_token ?rq) (hc_now c) (hc_token_limiter c) = (tok_ok, tl)" by fastforce
  have shed: "by_hook c d = d" if "\<not> (ip_ok \<and> is_well_formed_webhook_token (hk_token ?rq) \<and> tok_ok)"
    using that by (cases ip_ok; cases "is_well_formed_webhook_token (hk_token ?rq)")
      (simp_all add: by_hook_def webhook_fire_def Let_def ip tok)
  show ?thesis
  proof (cases "find_webhook_by_token (hk_token ?rq) d")
    case None
    have "by_hook c d = d"
    proof (cases "ip_ok \<and> is_well_formed_webhook_token (hk_token ?rq) \<and> tok_ok")
      case True
      with ip tok None show ?thesis by (simp add: by_hook_def webhook_fire_def)
    qed (use shed in blast)
    then show ?thesis ..
  next
    case (Some w)
    obtain kind target agent where w: "w = (kind, target, agent)" by (metis prod_cases3)
    let ?fire = "if kind = ''flow'' then fire_flow target ?in ?idem d
           else fire_script (ee_clock ?env d) target ?in agent ?idem d"
    have "by_hook c d = d \<or> by_hook c d = snd ?fire"
    proof (cases "ip_ok \<and> is_well_formed_webhook_token (hk_token ?rq) \<and> tok_ok")
      case True
      with ip tok Some w show ?thesis by (simp add: by_hook_def webhook_fire_def split_beta Let_def)
    qed (use shed in blast)
    note fire = this
    show ?thesis
    proof (cases "kind = ''flow''")
      case True
      with fire have "by_hook c d = d \<or> by_hook c d = snd (fire_flow target ?in ?idem d)" by simp
      then show ?thesis by (elim disjE) (intro disjI1, assumption, intro disjI2 disjI1 exI)
    next
      case False
      with fire have "by_hook c d = d \<or> by_hook c d = snd (fire_script (ee_clock ?env d) target ?in agent ?idem d)"
        by (simp only: if_False)
      then show ?thesis
        using False Some [unfolded w] by (elim disjE) (intro disjI1, assumption, intro disjI2 exI conjI)
    qed
  qed
qed

lemma insert_steps_queue:
  "insert_steps ss d = Inr d' \<Longrightarrow>
   runs d' = runs d \<and> run_seq d' = run_seq d \<and> scripts d' = scripts d \<and> script_seq d' = script_seq d \<and>
   triggers d' = triggers d"
  by (induction ss arbitrary: d) (force split: if_splits)+

lemma insert_ledger_queue:
  "insert_ledger fid spec input key d = Inr (i, d') \<Longrightarrow>
   runs d' = runs d \<and> run_seq d' = run_seq d \<and> scripts d' = scripts d \<and> script_seq d' = script_seq d \<and>
   triggers d' = triggers d"
  by (auto simp: insert_ledger_def Let_def split: if_splits option.splits sum.splits dest!: insert_steps_queue)

lemma fire_flow_queue:
  "runs (snd (fire_flow target input idem d)) = runs d \<and>
   (runs_wf d \<longrightarrow> runs_wf (snd (fire_flow target input idem d)))"
  by (auto simp: fire_flow_def insert_flow_run_idempotent_def split: option.split sum.split
      dest!: insert_ledger_queue intro: runs_wf_cong)

lemma by_hook_adds:
  assumes wf: "runs_wf d"
  shows "adds d (hook_admits c d) (by_hook c d) \<and> runs_wf (by_hook c d)"
  using by_hook_cases [of c d]
proof (elim disjE exE conjE)
  fix kind target agent now input idem
  assume k: "kind \<noteq> ''flow''" "find_webhook_by_token (hk_token (hc_request c)) d = Some (kind, target, agent)"
    and eq: "by_hook c d = snd (fire_script now target input agent idem d)"
  let ?ins = "insert_run_idempotent now target input agent None False idem d"
  have eq': "by_hook c d = or_unchanged d ?ins"
    unfolding eq by (auto simp: fire_script_def or_unchanged_def split: sum.split prod.split)
  have "adds d (hook_admits c d) d'" if "?ins = Inr (x, d')" for x d'
    by (rule adds_mono [OF insert_run_idempotent_adds [OF that]]) (use k in \<open>auto simp: hook_admits_def queued_def\<close>)
  moreover have "runs_wf d'" if "?ins = Inr (x, d')" for x d' using insert_run_idempotent_wf [OF wf that] .
  ultimately show ?thesis unfolding eq' using wf by (auto simp: or_unchanged_def adds_same split: sum.split)
qed (simp_all add: adds_same wf fire_flow_queue)

interpretation hook: entry_point by_hook hook_admits
  by unfold_locales (simp_all add: by_hook_adds, auto simp: hook_admits_def)

fun by_operator :: "exec_env \<times> int \<times> json option \<Rightarrow> db \<Rightarrow> db" where
  "by_operator (env, sid, input) d = snd (api_trigger_run env sid input d)"

definition operator_admits :: "exec_env \<times> int \<times> json option \<Rightarrow> db \<Rightarrow> run \<Rightarrow> bool" where
  "operator_admits = (\<lambda>(env, sid, input) d r. r_status r = Pending \<and> r_started_at r = None \<and>
     r_script_id r = sid \<and> r_agent_id r = None)"

lemma by_operator_adds:
  assumes wf: "runs_wf d"
  shows "adds d (operator_admits x d) (by_operator x d) \<and> runs_wf (by_operator x d)"
proof -
  obtain env sid input where x: "x = (env, sid, input)" by (metis prod_cases3)
  let ?in = "case input of Some v \<Rightarrow> v | None \<Rightarrow> mk_obj []"
  let ?ins = "insert_run_with_blobs (ee_clock env d) sid ?in None None False d"
  have eq: "by_operator x d = or_unchanged d ?ins"
    by (auto simp: x api_trigger_run_def insert_run_def or_unchanged_def split: sum.split prod.split)
  have "adds d (operator_admits x d) d'" if "?ins = Inr (i, d')" for i d'
    by (rule adds_mono [OF insert_run_with_blobs_adds [OF that]]) (simp add: x operator_admits_def queued_def)
  moreover have "runs_wf d'" if "?ins = Inr (i, d')" for i d' using insert_run_with_blobs_wf [OF wf that] .
  ultimately show ?thesis unfolding eq using wf by (auto simp: or_unchanged_def adds_same split: sum.split)
qed

interpretation operator: entry_point by_operator operator_admits
  by unfold_locales (simp_all add: by_operator_adds, auto simp: operator_admits_def)

section \<open>All of them together\<close>

datatype entry =
    Tool "exec_env \<times> run_request"
  | Tick "time \<times> schedule \<times> int"
  | Hook hook_call
  | Operator "exec_env \<times> int \<times> json option"

fun enter :: "entry \<Rightarrow> db \<Rightarrow> db" where
  "enter (Tool x) = by_tool x"
| "enter (Tick x) = by_tick x"
| "enter (Hook x) = by_hook x"
| "enter (Operator x) = by_operator x"

fun entry_admits :: "entry \<Rightarrow> db \<Rightarrow> run \<Rightarrow> bool" where
  "entry_admits (Tool x) = tool_admits x"
| "entry_admits (Tick x) = tick_admits x"
| "entry_admits (Hook x) = hook_admits x"
| "entry_admits (Operator x) = operator_admits x"

interpretation any: entry_point enter entry_admits
proof
  fix d a
  assume "runs_wf d"
  then show "adds d (entry_admits a d) (enter a d)" "runs_wf (enter a d)"
    by (cases a; simp add: tool.one_row tick.one_row hook.one_row operator.one_row
      tool.keeps_wf tick.keeps_wf hook.keeps_wf operator.keeps_wf)+
next
  fix a d r
  assume "entry_admits a d r"
  then show "r_status r \<in> {Pending, Failed} \<and> r_started_at r = None"
    by (cases a) (auto dest: tool.not_started tick.not_started hook.not_started operator.not_started)
qed

text \<open>
  Whatever arrives through the agent tool, the scheduler, the webhooks and the operator, and in
  whatever order, every run that was in the queue is still there as it was, each arrival adds at
  most one run, and a run that was added has not been started: it waits, or records a refusal.
\<close>
theorem arrivals_only_append:
  assumes "runs_wf d"
  shows "set (runs d) \<subseteq> set (runs (fold enter es d)) \<and>
    length (runs (fold enter es d)) \<le> length (runs d) + length es \<and>
    (\<forall>r\<in>set (runs (fold enter es d)) - set (runs d). r_status r \<in> {Pending, Failed} \<and> r_started_at r = None) \<and>
    runs_wf (fold enter es d)"
  using any.sequence_untouched [OF assms] any.sequence_length [OF assms] any.sequence_fresh [OF assms]
    any.sequence_wf [OF assms] by blast

theorem arrivals_only_append_witness:
  "\<exists>es. length es = 2 \<and> length (runs (fold enter es sample_db)) = 2 \<and> runs_wf (fold enter es sample_db)"
proof -
  let ?es = "[Operator (sample_host, 1, None), Operator (sample_host, 7, None)]"
  have "length (runs (fold enter ?es sample_db)) = 2"
    by (simp add: api_trigger_run_def insert_run_def sample_simps)
  moreover have "runs_wf (fold enter ?es sample_db)"
    using arrivals_only_append [OF sample_wf, of ?es] by blast
  moreover have "length ?es = 2" by simp
  ultimately show ?thesis by blast
qed

end
