(* ===== verification/Quota_Laws.thy ===== *)
theory Quota_Laws
  imports Entry_Laws
begin

text \<open>
  What the per-agent quota of \<open>src/quota.rs\<close> bounds.  The check and the insert are two statements
  of the handler, so between them other callers may have passed their own check; the bound counts
  them.  Runs that triggers enqueue are not checked at all.
\<close>

section \<open>The admission rule\<close>

text \<open>
  C18. A run that \<open>run_script\<close> adds belongs to the (trimmed, non-empty) agent that asked for it,
  was within the agent's concurrency and compute quota when it was added, waits, and carries the
  files of the request, each under a plain name and with a blob that exists.
\<close>
theorem run_script_admits:
  assumes "runs_wf d" and "r \<in> set (runs (snd (run_script env a d)))" and "r \<notin> set (runs d)"
  shows "trim (rq_agent_id a) \<noteq> [] \<and> r_agent_id r = Some (trim (rq_agent_id a)) \<and> r_status r = Pending \<and>
    agent_running_count (trim (rq_agent_id a)) d < 25 \<and>
    agent_compute_seconds (ee_clock env d) (trim (rq_agent_id a)) 86400 d < 3600 \<and>
    agent_running_count (trim (rq_agent_id a)) (snd (run_script env a d)) \<le> 25 \<and>
    resolve_files (rq_files a) d = Inr (r_input_blobs r) \<and>
    (\<forall>m. r_input_blobs r = Some (JObj m) \<longrightarrow>
      (\<forall>x\<in>set m. \<not> bad_dest_name (fst x) \<and> (\<exists>h. snd x = JStr h \<and> blob_exists h d)))"
proof -
  have adm: "tool_admits (env, a) d r"
    using tool.admitted [OF assms(1), of r "(env, a)"] assms(2,3) by simp
  let ?aid = "trim (rq_agent_id a)"
  from adm have q: "agent_running_count ?aid d < agent_max_concurrent"
    "agent_compute_seconds (ee_clock env d) ?aid agent_budget_window_secs d < agent_compute_budget_secs"
    by (simp_all add: tool_admits_def quota_check_None)
  have "agent_running_count ?aid (snd (run_script env a d)) \<le> agent_max_concurrent"
    using tool.within_quota [OF assms(1), of ?aid "(env, a)"] q(1) by simp
  moreover have "\<not> bad_dest_name (fst x) \<and> (\<exists>h. snd x = JStr h \<and> blob_exists h d)"
    if "r_input_blobs r = Some (JObj m)" "x \<in> set m" for m x
  proof -
    from adm that(1) have "resolve_files (rq_files a) d = Inr (Some (JObj m))"
      by (simp add: tool_admits_def resolved_def)
    from resolve_files_ok [OF this] that(2) show ?thesis by (metis json.inject(6))
  qed
  ultimately show ?thesis using adm q
    by (simp add: tool_admits_def resolved_def agent_max_concurrent_def agent_budget_window_secs_def
        agent_compute_budget_secs_def)
qed

theorem run_script_admits_witness:
  "\<exists>a r. r \<in> set (runs (snd (run_script sample_host a sample_db))) \<and> r \<notin> set (runs sample_db) \<and>
     r_agent_id r = Some ''a'' \<and> agent_running_count ''a'' (snd (run_script sample_host a sample_db)) \<le> 25"
proof -
  let ?a = "\<lparr>rq_script_id = 1, rq_input = None, rq_cache = None, rq_agent_id = '' a '', rq_idempotency_key = None,
     rq_files = None, rq_capture_output = None\<rparr>"
  have aid: "trim '' a '' = ''a''" by (simp add: trim_def trim_start_def trim_end_def is_ws_def)
  have "quota_check (ee_clock sample_host sample_db) ''a'' sample_db = None"
    by (simp add: quota_check_None agent_running_count_def agent_compute_seconds_def agent_max_concurrent_def
        agent_compute_budget_secs_def sample_simps)
  then obtain r where r: "runs (snd (run_script sample_host ?a sample_db)) = runs sample_db @ [r]" "r_id r = 2"
    by (auto simp: run_script_def enqueue_request_def enqueued_def aid resolve_files_def sample_simps)
  have new: "r \<notin> set (runs sample_db)" using r(2) by (auto simp: sample_simps)
  have "r \<in> set (runs (snd (run_script sample_host ?a sample_db)))" unfolding r(1) by simp
  with run_script_admits [OF sample_wf this new] new show ?thesis by (auto simp: aid)
qed

section \<open>Concurrent callers\<close>

text \<open>
  The callers of one agent that have passed the check and not yet inserted are counted by
  \<open>qs_waiting\<close>; at most \<open>k\<close> of them are in that window at a time.  Any statement of anybody may run in
  between.  Some of them bring runs of the agent in, or back, without asking the quota: an
  enqueue by the operator, a webhook or a reproduction, a trigger, a retry; \<open>qs_extra\<close> counts those
  runs since a caller last passed its check.
\<close>

record quota_state =
  qs_db :: db
  qs_waiting :: nat
  qs_extra :: nat

fun unmetered :: "string \<Rightarrow> stmt \<Rightarrow> db \<Rightarrow> nat" where
  "unmetered aid (InsertRun now sid input agent inb cap) d = (if agent = Some aid then 1 else 0)"
| "unmetered aid (InsertIdem now sid input agent inb cap k) d = (if agent = Some aid then 1 else 0)"
| "unmetered aid (Requeue rid) d =
     (case run_by_id rid d of
        None \<Rightarrow> 0
      | Some r \<Rightarrow> if r_agent_id r = Some aid \<and> r_status r \<notin> {Pending, Running} then 1 else 0)"
| "unmetered aid (FireTriggers contains now rid v) d =
     length (filter (\<lambda>t. trigger_fires contains rid v d t \<and> tg_agent_id t = Some aid) (triggers d))"
| "unmetered aid s d = 0"

inductive quota_step :: "string \<Rightarrow> nat \<Rightarrow> quota_state \<Rightarrow> quota_state \<Rightarrow> bool" for aid k where
  check: "quota_check now aid (qs_db s) = None \<Longrightarrow> qs_waiting s < k \<Longrightarrow>
    quota_step aid k s (s\<lparr>qs_waiting := qs_waiting s + 1, qs_extra := 0\<rparr>)"
| insert_run: "0 < qs_waiting s \<Longrightarrow>
    quota_step aid k s
      (s\<lparr>qs_db := exec_stmt (InsertRun now sid input (Some aid) inb cap) (qs_db s), qs_waiting := qs_waiting s - 1\<rparr>)"
| insert_idem: "0 < qs_waiting s \<Longrightarrow>
    quota_step aid k s
      (s\<lparr>qs_db := exec_stmt (InsertIdem now sid input (Some aid) inb cap key) (qs_db s), qs_waiting := qs_waiting s - 1\<rparr>)"
| other: "quota_step aid k s
    (s\<lparr>qs_db := exec_stmt st (qs_db s), qs_extra := qs_extra s + unmetered aid st (qs_db s)\<rparr>)"

lemma filter_update_where_le:
  "(\<And>r. r \<in> set rs \<Longrightarrow> Q r \<Longrightarrow> P (f r) \<Longrightarrow> P r) \<Longrightarrow>
   length (filter P (update_where Q f rs)) \<le> length (filter P rs)"
  by (induction rs) (auto simp: update_where_def le_SucI)

lemma filter_conj_le: "length (filter (\<lambda>x. Q x \<and> P x) rs) \<le> length (filter P rs)"
  by (induction rs) auto

lemma in_flight_update:
  "(\<And>r. r \<in> set (runs d) \<Longrightarrow> Q r \<Longrightarrow> in_flight aid (f r) \<Longrightarrow> in_flight aid r) \<Longrightarrow>
   agent_running_count aid (d\<lparr>runs := update_where Q f (runs d)\<rparr>) \<le> agent_running_count aid d"
  by (simp add: running_count filter_update_where_le)

lemma claim_count:
  assumes "runs_wf d"
  shows "agent_running_count aid (snd (claim_run now caps locked d)) \<le> agent_running_count aid d"
proof (cases "select_first r_id (claimable caps locked d) (runs d)")
  case (Some r)
  then have r: "r \<in> set (runs d)" "claimable caps locked d r" by (auto dest: select_first_Some)
  have "r_status q = Pending" if "q \<in> set (runs d)" "r_id q = r_id r" for q
  proof -
    have "q = r" using assms that r(1) by (auto simp: runs_wf_def distinct_map inj_on_def)
    with r(2) show ?thesis by (simp add: claimable_def)
  qed
  then show ?thesis
    by (auto simp: Some claim_run_def in_flight_def start_run_def intro!: in_flight_update)
qed (simp add: claim_run_def)

lemma filter_update_one:
  assumes "distinct (map key rs)"
  shows "length (filter P (update_where (\<lambda>q. key q = i) f rs)) \<le> length (filter P rs) +
    (case find (\<lambda>q. key q = i) rs of None \<Rightarrow> 0 | Some q \<Rightarrow> if P q then 0 else 1)"
  using assms
proof (induction rs)
  case (Cons x rs)
  show ?case
  proof (cases "key x = i")
    case True
    with Cons.prems have "\<forall>q\<in>set rs. key q \<noteq> i" by (simp add: image_iff) metis
    then have "update_where (\<lambda>q. key q = i) f rs = rs" by (induction rs) (simp_all add: update_where_def)
    with True show ?thesis by (simp add: update_where_def)
  next
    case False
    with Cons show ?thesis by (simp add: update_where_def)
  qed
qed (simp add: update_where_def)

lemma requeue_count:
  assumes "runs_wf d"
  shows "agent_running_count aid (requeue rid d) \<le> agent_running_count aid d + int (unmetered aid (Requeue rid) d)"
proof -
  from assms have "distinct (map r_id (runs d))" by (simp add: runs_wf_def)
  note one = filter_update_one [OF this, of "in_flight aid" rid back_to_pending]
  show ?thesis
  proof (cases "run_by_id rid d")
    case None
    with one show ?thesis by (simp add: requeue_def running_count run_by_id_def back_to_pending_def)
  next
    case (Some r)
    show ?thesis
    proof (cases "r_agent_id r = Some aid")
      case True
      with one Some show ?thesis
        by (auto simp: requeue_def running_count run_by_id_def in_flight_def back_to_pending_def split: if_splits)
    next
      case False
      have "in_flight aid (back_to_pending q) \<Longrightarrow> in_flight aid q" if "q \<in> set (runs d)" "r_id q = rid" for q
        using run_by_id_in [OF assms that(1)] that(2) Some False by (simp add: in_flight_def back_to_pending_def)
      then have "agent_running_count aid (requeue rid d) \<le> agent_running_count aid d"
        unfolding requeue_def by (intro in_flight_update) (auto simp: back_to_pending_def)
      then show ?thesis by simp
    qed
  qed
qed

lemma targets_count:
  "agent_running_count aid (snd (enqueue_targets now input ts d)) =
     agent_running_count aid d + int (length (filter (\<lambda>t. tg_agent_id t = Some aid) ts))"
proof (induction ts arbitrary: d)
  case (Cons x ts)
  let ?d = "d\<lparr>runs := runs d @ [new_run (run_seq d) (tg_target x) input (tg_agent_id x) now], run_seq := run_seq d + 1\<rparr>"
  have "agent_running_count aid ?d = agent_running_count aid d + (if tg_agent_id x = Some aid then 1 else 0)"
    by (simp add: running_count in_flight_def new_run_def)
  with Cons.IH [of ?d] show ?case by (cases "tg_agent_id x = Some aid") (simp_all add: split_beta Let_def)
qed simp

lemma triggers_count:
  "agent_running_count aid (snd (fire_triggers contains now rid v d)) =
     agent_running_count aid d + int (unmetered aid (FireTriggers contains now rid v) d)"
  by (simp add: fire_triggers_def targets_count conj_commute)

lemma stmt_count:
  assumes wf: "runs_wf d"
  shows "agent_running_count aid (exec_stmt st d) \<le> agent_running_count aid d + int (unmetered aid st d)"
proof (cases st)
  case (InsertRun now sid input agent inb cap)
  then show ?thesis
    by (auto simp: or_unchanged_def insert_run_with_blobs_def running_count in_flight_def new_run_def split: sum.split)
next
  case (InsertIdem now sid input agent inb cap k)
  then show ?thesis
    by (auto simp: or_unchanged_def insert_run_idempotent_def running_count in_flight_def new_run_def
        split: sum.split option.split)
next
  case (Requeue rid)
  with requeue_count [OF wf] show ?thesis by simp
next
  case (FireTriggers contains now rid v)
  with triggers_count show ?thesis by simp
next
  case (InsertRefused now sid input agent reason k)
  then show ?thesis
    by (auto simp: or_unchanged_def insert_refused_run_def running_count in_flight_def new_run_def split: sum.split)
next
  case (Claim now caps locked)
  with claim_count [OF wf] show ?thesis by simp
next
  case (Mark rid)
  then show ?thesis
    by (auto simp: or_unchanged_def mark_attempt_def in_flight_def intro!: in_flight_update split: option.split)
next
  case (Touch now rid)
  then show ?thesis by (auto simp: touch_run_def in_flight_def intro!: in_flight_update)
next
  case (Finish now rid ok code err)
  then show ?thesis by (auto simp: finish_run_def in_flight_def intro!: in_flight_update)
next
  case (Cancel now rid reason)
  then show ?thesis by (auto simp: cancel_run_def Let_def in_flight_def intro!: in_flight_update)
next
  case (Reap now lease)
  then show ?thesis
    by (auto simp: reap_orphan_runs_def Let_def in_flight_def back_to_pending_def intro!: in_flight_update)
next
  case (FailStale now age)
  then show ?thesis by (auto simp: fail_stale_pending_def Let_def in_flight_def intro!: in_flight_update)
next
  case (DeleteScript i)
  then show ?thesis
    by (auto simp: or_unchanged_def delete_script_def Let_def running_count delete_where_def filter_conj_le split: sum.split)
next
  case (GcOld now days)
  then show ?thesis
    by (simp add: gc_old_def gc_logs_def split_beta Let_def running_count delete_where_def filter_conj_le)
qed (auto simp: set_run_result_def set_run_output_blobs_def set_run_receipt_def update_run_progress_def
       set_run_cache_key_def in_flight_def insert_trigger_def delete_trigger_def insert_script_def update_script_def
       or_unchanged_def running_count intro!: filter_update_where_le split: sum.split option.split)

lemma insert_count:
  "agent_running_count aid (exec_stmt (InsertRun now sid input agent inb cap) d) \<le> agent_running_count aid d + 1"
  "agent_running_count aid (exec_stmt (InsertIdem now sid input agent inb cap key) d) \<le> agent_running_count aid d + 1"
  by (auto simp: or_unchanged_def insert_run_with_blobs_def insert_run_idempotent_def running_count
      split: sum.split option.split)

definition quota_inv :: "string \<Rightarrow> nat \<Rightarrow> quota_state \<Rightarrow> bool" where
  "quota_inv aid k s =
     (runs_wf (qs_db s) \<and> qs_waiting s \<le> k \<and>
      agent_running_count aid (qs_db s) + int (qs_waiting s) \<le> agent_max_concurrent + int k - 1 + int (qs_extra s))"

lemma quota_step_inv:
  assumes "quota_step aid k s s'" and "quota_inv aid k s"
  shows "quota_inv aid k s'"
  using assms(1)
proof cases
  case (check now)
  then have "agent_running_count aid (qs_db s) < agent_max_concurrent" by (simp add: quota_check_None)
  with check assms(2) show ?thesis by (simp add: quota_inv_def)
next
  case (insert_run now sid input inb cap)
  let ?d = "exec_stmt (InsertRun now sid input (Some aid) inb cap) (qs_db s)"
  have "runs_wf ?d" using assms(2) exec_stmt_wf unfolding quota_inv_def by blast
  moreover have "agent_running_count aid ?d \<le> agent_running_count aid (qs_db s) + 1" by (rule insert_count)
  ultimately show ?thesis
    using insert_run(2) assms(2) unfolding insert_run(1) quota_inv_def by (auto simp del: exec_stmt.simps)
next
  case (insert_idem now sid input inb cap key)
  let ?d = "exec_stmt (InsertIdem now sid input (Some aid) inb cap key) (qs_db s)"
  have "runs_wf ?d" using assms(2) exec_stmt_wf unfolding quota_inv_def by blast
  moreover have "agent_running_count aid ?d \<le> agent_running_count aid (qs_db s) + 1" by (rule insert_count)
  ultimately show ?thesis
    using insert_idem(2) assms(2) unfolding insert_idem(1) quota_inv_def by (auto simp del: exec_stmt.simps)
next
  case (other st)
  let ?d = "exec_stmt st (qs_db s)"
  have "runs_wf (qs_db s)" using assms(2) by (simp add: quota_inv_def)
  note stmt_count [OF this, of aid st] and exec_stmt_wf [OF this, of st]
  with assms(2) show ?thesis unfolding other quota_inv_def by (simp del: exec_stmt.simps unmetered.simps)
qed

text \<open>
  C17. However the statements of an agent's callers and of everybody else interleave, with at most
  \<open>k\<close> callers between their quota check and their insert at any time, the agent has at most
  \<open>24 + k + u\<close> runs waiting or running, where \<open>u\<close> counts its runs that entered the queue, or came
  back to it, without a quota check since a caller last passed one: targets of triggers, enqueues by
  operator, webhooks and reproductions, retries.  For callers that do not overlap and without such
  runs it is the limit of 25 itself.
\<close>
theorem quota_bound:
  assumes "(quota_step aid k)\<^sup>*\<^sup>* \<lparr>qs_db = d0, qs_waiting = 0, qs_extra = 0\<rparr> s"
    and "runs_wf d0" and "agent_running_count aid d0 \<le> 24 + int k"
  shows "agent_running_count aid (qs_db s) \<le> 24 + int k + int (qs_extra s)"
proof -
  have start: "quota_inv aid k \<lparr>qs_db = d0, qs_waiting = 0, qs_extra = 0\<rparr>"
    using assms(2,3) by (simp add: quota_inv_def agent_max_concurrent_def)
  from assms(1) have "quota_inv aid k s"
    by (induction rule: rtranclp_induct) (simp_all add: start quota_step_inv)
  then show ?thesis by (simp add: quota_inv_def agent_max_concurrent_def)
qed

text \<open>A checked caller, and then a run of the same agent that nobody checked.\<close>

theorem quota_bound_witness:
  "\<exists>s. (quota_step ''a'' 1)\<^sup>*\<^sup>* \<lparr>qs_db = sample_db, qs_waiting = 0, qs_extra = 0\<rparr> s \<and>
     qs_db s = exec_stmts [InsertRun 9 1 (JObj []) (Some ''a'') None False, InsertRun 9 1 (JObj []) (Some ''a'') None False] sample_db \<and>
     qs_extra s = 1 \<and> agent_running_count ''a'' (qs_db s) \<le> 26"
proof -
  let ?ins = "InsertRun 9 1 (JObj []) (Some ''a'') None False"
  let ?s0 = "\<lparr>qs_db = sample_db, qs_waiting = 0, qs_extra = 0\<rparr>"
  let ?s1 = "\<lparr>qs_db = sample_db, qs_waiting = 1, qs_extra = 0\<rparr>"
  let ?s2 = "\<lparr>qs_db = exec_stmt ?ins sample_db, qs_waiting = 0, qs_extra = 0\<rparr>"
  let ?s3 = "\<lparr>qs_db = exec_stmt ?ins (exec_stmt ?ins sample_db), qs_waiting = 0, qs_extra = 1\<rparr>"
  have none: "agent_running_count ''a'' sample_db = 0"
    by (simp add: agent_running_count_def sample_simps)
  have "agent_compute_seconds 9 ''a'' agent_budget_window_secs sample_db = 0"
    by (simp add: agent_compute_seconds_def sample_simps)
  with none have "quota_check 9 ''a'' sample_db = None"
    by (simp add: quota_check_None agent_max_concurrent_def agent_compute_budget_secs_def)
  then have s1: "quota_step ''a'' 1 ?s0 ?s1" using check [of 9 "''a''" ?s0 1] by simp
  have s2: "quota_step ''a'' 1 ?s1 ?s2"
    using insert_run [of ?s1 "''a''" 1 9 1 "JObj []" None False] by (simp del: exec_stmt.simps)
  have s3: "quota_step ''a'' 1 ?s2 ?s3"
    using other [of "''a''" 1 ?s2 ?ins] by (simp del: exec_stmt.simps)
  from s1 s2 s3 have reach: "(quota_step ''a'' 1)\<^sup>*\<^sup>* ?s0 ?s3"
    by (meson converse_rtranclp_into_rtranclp rtranclp.rtrancl_refl)
  from quota_bound [OF reach sample_wf] none have "agent_running_count ''a'' (qs_db ?s3) \<le> 26"
    by (simp del: exec_stmt.simps)
  with reach show ?thesis by (intro exI [of _ ?s3]) (simp add: exec_stmts_def del: exec_stmt.simps)
qed

text \<open>
  Triggers are outside the bound: an agent at its limit gets one run more for every trigger that
  names it and fires.
\<close>
lemma triggers_bypass_quota:
  assumes "t \<in> set (triggers d)" and "trigger_fires contains rid v d t" and "tg_agent_id t = Some aid"
  shows "agent_running_count aid d < agent_running_count aid (snd (fire_triggers contains now rid v d))"
proof -
  have "t \<in> set (filter (\<lambda>t. trigger_fires contains rid v d t \<and> tg_agent_id t = Some aid) (triggers d))"
    using assms by simp
  then have "0 < length (filter (\<lambda>t. trigger_fires contains rid v d t \<and> tg_agent_id t = Some aid) (triggers d))"
    by (rule length_pos_if_in_set)
  then show ?thesis unfolding triggers_count by simp
qed

end
