(* ===== verification/Mcp_Laws.thy ===== *)
theory Mcp_Laws
  imports Http Receipt Queue_Laws
begin

text \<open>
  What the reading and checking tools of \<open>src/mcp.rs\<close> promise: pages of a log, the verdict of a
  reproduction, and where run-or-recall and the log stream fall short.
\<close>

section \<open>Log pages\<close>

text \<open>A client that follows the cursors, asking for pages of the given sizes.\<close>

fun read_pages :: "int \<Rightarrow> int \<Rightarrow> nat list \<Rightarrow> db \<Rightarrow> log_row list" where
  "read_pages rid after [] d = []"
| "read_pages rid after (n # ns) d =
     (let page = read_logs_after rid after n d in page @ read_pages rid (next_cursor after page) ns d)"

definition lines_after :: "int \<Rightarrow> int \<Rightarrow> db \<Rightarrow> log_row list" where
  "lines_after rid after d = sort_key l_seq (filter (\<lambda>l. l_run_id l = rid \<and> after < l_seq l) (logs d))"

lemma read_logs_after_take: "read_logs_after rid after n d = take n (lines_after rid after d)"
  by (simp add: read_logs_after_def lines_after_def)

definition logs_keyed :: "db \<Rightarrow> bool" where
  "logs_keyed d = distinct (map (\<lambda>l. (l_run_id l, l_seq l)) (logs d))"

lemma lines_after_mono: "after \<le> c \<Longrightarrow> lines_after rid c d = filter (\<lambda>l. c < l_seq l) (lines_after rid after d)"
  by (auto simp: lines_after_def filter_sort [symmetric] filter_filter intro!: arg_cong [of _ _ "sort_key l_seq"] filter_cong)

lemma lines_after_strict:
  assumes "logs_keyed d"
  shows "sorted_wrt (<) (map l_seq (lines_after rid after d))"
proof -
  let ?P = "\<lambda>l. l_run_id l = rid \<and> after < l_seq l"
  have "distinct (map (\<lambda>l. (l_run_id l, l_seq l)) (filter ?P (logs d)))"
    using assms by (simp add: logs_keyed_def distinct_map_filter)
  then have "distinct (map l_seq (filter ?P (logs d)))"
    by (auto simp: distinct_map inj_on_def)
  then have "distinct (map l_seq (lines_after rid after d))"
    by (simp add: lines_after_def distinct_map)
  moreover have "sorted (map l_seq (lines_after rid after d))" by (simp add: lines_after_def)
  ultimately show ?thesis by (simp add: strict_sorted_iff)
qed

lemma filter_above_take:
  assumes "sorted_wrt (<) (map f xs)" and "0 < n" and "n \<le> length xs"
  shows "filter (\<lambda>x. (f (last (take n xs)) :: int) < f x) xs = drop n xs"
proof -
  have last: "last (take n xs) = xs ! (n - 1)"
    using assms(2,3) by (cases n) (simp_all add: take_Suc_conv_app_nth)
  have le: "f x \<le> f (xs ! (n - 1))" if "x \<in> set (take n xs)" for x
  proof -
    from that obtain i where i: "i < n" "i < length xs" "x = xs ! i" by (auto simp: in_set_conv_nth)
    show ?thesis
    proof (cases "i = n - 1")
      case False
      with i assms(3) have "i < n - 1" "n - 1 < length xs" by auto
      with assms(1) show ?thesis unfolding i(3) by (auto simp: sorted_wrt_iff_nth_less intro: less_imp_le)
    qed (simp add: i)
  qed
  have gt: "f (xs ! (n - 1)) < f x" if "x \<in> set (drop n xs)" for x
  proof -
    from that obtain i where i: "i < length xs - n" "x = xs ! (n + i)" by (auto simp: in_set_conv_nth)
    then have "n - 1 < n + i" "n + i < length xs" using assms(2) by auto
    with assms(1) show ?thesis unfolding i(2) by (auto simp: sorted_wrt_iff_nth_less)
  qed
  have "filter (\<lambda>x. f (xs ! (n - 1)) < f x) (take n xs) = []"
    using le by (auto simp: filter_empty_conv not_less)
  moreover have "filter (\<lambda>x. f (xs ! (n - 1)) < f x) (drop n xs) = drop n xs"
    using gt by (intro filter_True) blast
  ultimately show "filter (\<lambda>x. f (last (take n xs)) < f x) xs = drop n xs"
    unfolding last by (metis append_take_drop_id filter_append self_append_conv2)
qed

lemma next_page:
  assumes "logs_keyed d"
  shows "lines_after rid (next_cursor after (take n (lines_after rid after d))) d = drop n (lines_after rid after d)"
proof -
  let ?xs = "lines_after rid after d"
  consider "n = 0 \<or> ?xs = []" | "length ?xs < n" "?xs \<noteq> []" | "0 < n" "n \<le> length ?xs" by force
  then show ?thesis
  proof cases
    case 1
    then show ?thesis by (auto simp: next_cursor_def)
  next
    case 2
    then have t: "take n ?xs = take (length ?xs) ?xs" "drop n ?xs = drop (length ?xs) ?xs" by simp_all
    have cur: "next_cursor after (take n ?xs) = l_seq (last (take (length ?xs) ?xs))"
      using 2(2) t by (simp add: next_cursor_def)
    have "after \<le> l_seq (last ?xs)"
      using last_in_set [OF 2(2)] by (auto simp: lines_after_def)
    with filter_above_take [OF lines_after_strict [OF assms], of "length ?xs" rid after] 2(2)
    show ?thesis unfolding cur t(2) by (simp add: lines_after_mono)
  next
    case 3
    then have ne: "take n ?xs \<noteq> []" by auto
    then have "last (take n ?xs) \<in> set ?xs" by (meson in_set_takeD last_in_set)
    then have "after \<le> l_seq (last (take n ?xs))" by (auto simp: lines_after_def)
    with filter_above_take [OF lines_after_strict [OF assms] 3] ne show ?thesis
      by (simp add: next_cursor_def lines_after_mono)
  qed
qed

text \<open>
  C39. Following the cursors of \<open>read_logs\<close> loses and repeats nothing: pages of any sizes, one after
  the other, are the lines after the first cursor in sequence order, up to the sum of the sizes.
\<close>
theorem log_pages_complete:
  assumes "logs_keyed d"
  shows "read_pages rid after ns d = take (sum_list ns) (lines_after rid after d)"
proof (induction ns arbitrary: after)
  case (Cons n ns)
  let ?xs = "lines_after rid after d"
  have "read_pages rid after (n # ns) d = take n ?xs @ take (sum_list ns) (drop n ?xs)"
    by (simp add: read_logs_after_take Cons.IH next_page [OF assms])
  then show ?case by (simp add: take_add)
qed simp

theorem log_pages_complete_witness:
  "map l_line (read_pages 1 0 [1, 0, 2] (sample_db\<lparr>logs :=
     [\<lparr>l_run_id = 1, l_seq = 3, l_stream = ''stdout'', l_line = ''c''\<rparr>, \<lparr>l_run_id = 1, l_seq = 1, l_stream = ''stdout'', l_line = ''a''\<rparr>]\<rparr>)) =
   [''a'', ''c'']"
proof -
  let ?d = "sample_db\<lparr>logs :=
     [\<lparr>l_run_id = 1, l_seq = 3, l_stream = ''stdout'', l_line = ''c''\<rparr>, \<lparr>l_run_id = 1, l_seq = 1, l_stream = ''stdout'', l_line = ''a''\<rparr>]\<rparr>"
  have "logs_keyed ?d" by (simp add: logs_keyed_def)
  from log_pages_complete [OF this, of 1 0 "[1, 0, 2]"] show ?thesis by (simp add: lines_after_def)
qed

section \<open>The log stream\<close>

text \<open>
  A poll of the stream reads the log first and the status second and stops at a terminal status, so
  lines written in between are in no event: what the run prints just before it ends is lost.
\<close>
lemma stream_drops_tail:
  assumes "read_logs_after rid 0 500 d1 = []" and "get_run_status rid d2 = Some Succeeded"
  shows "run_stream rid ((d1, d2) # polls) = [(''succeeded'', [])]"
  using assms
  by (simp add: run_stream_def stream_event_def Let_def status_or_def terminal_status_def)

section \<open>Reproduction\<close>

lemma verdict_name: "jget ''verdict'' (repro_verdict rid name code extra) = Some (JStr name)"
  by (simp add: repro_verdict_def mk_obj_def jget_def)

lemma poll_status_terminal:
  "poll_status others k n rid st d = (st', d') \<Longrightarrow> terminal_status st' \<Longrightarrow> \<not> terminal_status st \<Longrightarrow>
   status_or ''unknown'' rid d' = st'"
  by (induction others k n rid st d rule: poll_status.induct) (auto simp: Let_def split: if_splits)

lemma status_or_succeeded_failed:
  assumes "status_or ''unknown'' rid d = st" and "st = ''succeeded'' \<or> st = ''failed''"
  shows "get_run_status rid d = Some Succeeded \<or> get_run_status rid d = Some Failed"
proof (cases "get_run_status rid d")
  case (Some x)
  with assms show ?thesis by (cases x) (auto simp: status_or_def)
qed (use assms in \<open>auto simp: status_or_def\<close>)

lemma repro_compare_reproduced:
  assumes "repro_compare others rid orig t repro_id d = (v, d')" and "jget ''verdict'' v = Some (JStr ''REPRODUCED'')"
  shows "\<exists>repro. run_receipt repro_id d' = Some repro \<and>
    or_empty (get_as as_str ''output_sha256'' repro) = or_empty (get_as as_str ''output_sha256'' orig) \<and>
    canonical_input_blobs (jget ''output_blobs'' repro) = canonical_input_blobs (jget ''output_blobs'' orig) \<and>
    (get_run_status repro_id d' = Some Succeeded \<or> get_run_status repro_id d' = Some Failed)"
proof -
  obtain st d2 where p: "poll_status others 0 (t * 2) repro_id ''pending'' d = (st, d2)" by fastforce
  have st: "st = ''succeeded'' \<or> st = ''failed''"
  proof (rule ccontr)
    assume "\<not> ?thesis"
    then have "v = repro_verdict rid ''INCONCLUSIVE'' 7 [(''repro_run_id'', JInt repro_id),
        (''reason'', JStr ''timeout_or_unrunnable''), (''status'', JStr st)]"
      using assms(1) p by (simp add: repro_compare_def)
    with assms(2) show False by (simp add: verdict_name)
  qed
  then have "status_or ''unknown'' repro_id d2 = st"
    by (intro poll_status_terminal [OF p]) (auto simp: terminal_status_def)
  from status_or_succeeded_failed [OF this st] assms p st show ?thesis
    by (auto simp: repro_compare_def verdict_name Let_def split: option.splits if_splits)
qed


definition toy_signer :: signer where "toy_signer = \<lparr>sg_key = ''k'', sg_ed = ''e''\<rparr>"

definition toy_receipt :: json where "toy_receipt = build_receipt toy_reader toy_signer toy_inputs"

definition toy_repro_host :: exec_env where
  "toy_repro_host = sample_host\<lparr>ee_crypto := toy_reader, ee_signer := toy_signer\<rparr>"

definition toy_repro_db :: db where "toy_repro_db = set_run_receipt 1 toy_receipt sample_db"

text \<open>While the tool sleeps, a worker runs the re-run and attaches its receipt.\<close>

definition toy_worker :: "nat \<Rightarrow> db \<Rightarrow> db" where
  "toy_worker k d = set_run_receipt 2 toy_receipt (finish_run 9 2 Succeeded (Some 0) None d)"

lemma toy_receipt_fields:
  "get_as as_bool ''network'' toy_receipt = Some False"
  "get_as as_str ''source_sha256'' toy_receipt = Some (sha256_hex toy_reader ''print(1)'')"
  by (simp_all add: toy_receipt_def build_receipt_def toy_inputs_def toy_reader_def toy_crypto_def get_as_def
      sha256_hex_def Let_def)

lemma toy_receipt_verifies:
  "verify_hmac toy_reader toy_signer toy_receipt"
  "\<exists>rep. verify_receipt_with toy_reader toy_receipt None = Some rep \<and> report_ok rep"
  using built_classified [OF toy_ok toy_parse, where trusted = None and sg = toy_signer]
  by (auto simp: toy_receipt_def toy_reader_def toy_crypto_def toy_inputs_def classify_with_def split: if_splits)

lemma toy_repro_rows:
  "run_receipt 1 toy_repro_db = Some toy_receipt" "run_seq toy_repro_db = 2"
  "run_reproduce_inputs 1 toy_repro_db = Some (1, JObj [], None, None, False)"
  "\<exists>sc. get_script 1 toy_repro_db = Some sc \<and> sc_source sc = ''print(1)''"
  by (simp_all add: toy_repro_db_def set_run_receipt_def run_receipt_def run_reproduce_inputs_def
      update_where_def sample_simps)

lemma toy_rerun:
  assumes "insert_run_with_blobs now 1 (JObj []) agent None False toy_repro_db = Inr (2, d1)"
  shows "jget ''verdict'' (fst (repro_compare toy_worker 1 toy_receipt 1 2 d1)) = Some (JStr ''REPRODUCED'')"
proof -
  have pend: "get_run_status 2 d1 = Some Pending"
    and done_st: "get_run_status 2 (toy_worker 0 d1) = Some Succeeded"
    and rcpt: "run_receipt 2 (toy_worker 0 d1) = Some toy_receipt"
    using assms by (auto simp: toy_worker_def toy_repro_db_def set_run_receipt_def run_receipt_def
        update_where_def sample_simps split: if_splits)
  have "poll_status toy_worker 0 2 2 ''pending'' d1 = (''succeeded'', toy_worker 0 d1)"
    using pend done_st by (simp add: numeral_2_eq_2 status_or_def terminal_status_def)
  with rcpt show ?thesis by (simp add: repro_compare_def verdict_name)
qed


section \<open>Run or recall\<close>

text \<open>
  The cache key is computed when a run is enqueued, the source is read when it is claimed.  Here a
  script is changed between the two and changed back afterwards: an identical request is answered
  with the result of the other source.
\<close>

definition cached_request :: run_request where
  "cached_request = \<lparr>rq_script_id = 1, rq_input = None, rq_cache = Some True, rq_agent_id = ''a'',
     rq_idempotency_key = None, rq_files = None, rq_capture_output = None\<rparr>"

definition one_script :: db where
  "one_script = exec_stmt (InsertScript ''s'' ''python'' ''print(1)'' None None False None None False None) empty_db"

definition cached_key :: "exec_env \<Rightarrow> string" where
  "cached_key env = request_cache_key env (hd (scripts one_script))
     (destringify (c_parse (ee_crypto env)) (mk_obj [])) None one_script"

definition queued_row :: "exec_env \<Rightarrow> run" where
  "queued_row env = (new_run 1 1 (destringify (c_parse (ee_crypto env)) (mk_obj [])) (Some ''a'')
     (ee_clock env one_script))\<lparr>r_cache_key := Some (cached_key env)\<rparr>"

lemmas one_script_simps = one_script_def insert_script_def empty_db_def get_script_def

lemma enqueue_cached:
  "run_script env cached_request one_script =
     (fst (enqueued 1 (Some (cached_key env)) one_script), one_script\<lparr>runs := [queued_row env], run_seq := 2\<rparr>)"
proof -
  have none: "runs one_script = []" "run_seq one_script = 1" and sc: "get_script 1 one_script = Some (hd (scripts one_script))"
    by (simp_all add: one_script_simps)
  have miss: "find_cached_run k one_script = None" for k
    by (simp add: find_cached_run_def none select_last_def)
  have quota: "quota_check now ''a'' one_script = None" for now
    by (simp add: quota_check_None agent_running_count_def agent_compute_seconds_def none
        agent_max_concurrent_def agent_compute_budget_secs_def)
  have aid: "trim ''a'' = ''a''" by (simp add: trim_def trim_start_def trim_end_def is_ws_def)
  show ?thesis
    by (simp add: run_script_def cached_request_def sc resolve_files_def Let_def miss enqueue_request_def aid quota
        insert_run_with_blobs_def none enqueued_def set_run_cache_key_def update_where_def queued_row_def
        cached_key_def new_run_def)
qed

lemma recall_of_other_source:
  fixes v :: json
  assumes "\<And>d d'. ee_digest env d = ee_digest env d'"
  defines "d1 \<equiv> snd (run_script env cached_request one_script)"
  defines "d2 \<equiv> exec_stmt (UpdateScript 1 ''python'' ''print(2)'' None None False None None False None) d1"
  defines "d3 \<equiv> snd (claim_run 5 [''python''] [] d2)"
  defines "d4 \<equiv> finish_run 6 1 Succeeded (Some 0) None (set_run_result 1 v d3)"
  defines "d5 \<equiv> exec_stmt (UpdateScript 1 ''python'' ''print(1)'' None None False None None False None) d4"
  shows "map_option cj_source (fst (claim_run 5 [''python''] [] d2)) = Some ''print(2)''"
    and "fst (run_script env cached_request d5) = Inr (recalled (cached_key env) (1, Some 0, Some v))"
proof -
  obtain sc where s: "scripts one_script = [sc]" "sc_id sc = 1" "sc_runtime sc = ''python''" "sc_source sc = ''print(1)''"
    "sc_description sc = None" "sc_created_by sc = None" "\<not> sc_network sc" "sc_mem_limit_mb sc = None"
    "sc_cpu_limit sc = None" "\<not> sc_feed_prev_result sc" "sc_timeout_secs sc = None"
    by (simp add: one_script_simps)
  let ?s2 = "sc\<lparr>sc_source := ''print(2)'', sc_version := sc_version sc + 1\<rparr>"
  let ?s5 = "sc\<lparr>sc_version := 2 + sc_version sc\<rparr>"
  have d1: "d1 = one_script\<lparr>runs := [queued_row env], run_seq := 2\<rparr>" by (simp add: d1_def enqueue_cached)
  have d2: "d2 = one_script\<lparr>scripts := [?s2], runs := [queued_row env], run_seq := 2\<rparr>"
    by (simp add: d2_def or_unchanged_def update_script_def get_script_def d1 s update_where_def)
  have sel: "select_first r_id (claimable [''python''] [] d2) (runs d2) = Some (queued_row env)"
    by (simp add: d2 select_first_def claimable_def queued_row_def new_run_def get_script_def s)
  show "map_option cj_source (fst (claim_run 5 [''python''] [] d2)) = Some ''print(2)''"
    using sel by (simp add: claim_run_def get_script_def d2 queued_row_def new_run_def job_of_def s)
  have d3: "d3 = one_script\<lparr>scripts := [?s2], runs := [start_run 5 (queued_row env)], run_seq := 2\<rparr>"
    using sel by (simp add: d3_def claim_run_def d2 update_where_def)
  define r where "r = hd (runs d4)"
  have d4: "d4 = one_script\<lparr>scripts := [?s2], runs := [r], run_seq := 2\<rparr>"
    and r: "r_id r = 1" "r_status r = Succeeded" "r_cache_key r = Some (cached_key env)" "r_exit_code r = Some 0"
      "r_result r = Some v"
    by (simp_all add: r_def d4_def finish_run_def set_run_result_def d3 start_run_def queued_row_def new_run_def
        update_where_def)
  have d5: "d5 = one_script\<lparr>scripts := [?s5], runs := [r], run_seq := 2\<rparr>"
    by (simp add: d5_def or_unchanged_def update_script_def get_script_def d4 s update_where_def)
  have key: "request_cache_key env ?s5 (destringify (c_parse (ee_crypto env)) (mk_obj [])) None d5 = cached_key env"
  proof -
    have "image_digest env d5 rt = image_digest env one_script rt" for rt
      using assms(1) [of d5 one_script] by (cases "runtime_spec rt") (auto simp: image_digest_def)
    moreover have "secrets_generation d5 = secrets_generation one_script" by (simp add: d5)
    ultimately show ?thesis by (simp add: request_cache_key_def cached_key_def s)
  qed
  have hit: "find_cached_run (cached_key env) d5 = Some (1, Some 0, Some v)"
    by (simp add: find_cached_run_def select_last_def d5 r)
  have sc5: "get_script 1 d5 = Some ?s5" by (simp add: get_script_def d5 s)
  show "fst (run_script env cached_request d5) = Inr (recalled (cached_key env) (1, Some 0, Some v))"
    using hit by (simp add: run_script_def cached_request_def sc5 resolve_files_def Let_def key)
qed

end
