(* ===== verification/Cron_Laws.thy ===== *)
theory Cron_Laws
  imports Mcp_Admin Queue_Laws
begin

text \<open>
  Scheduling, proved: a tick records exactly one run however many daemons make it, the tickers of
  a process are those of its enabled schedules, and the zoned ticker never fires an occurrence
  twice.
\<close>

section \<open>A tick happens once\<close>

definition rows_with_key :: "string \<Rightarrow> db \<Rightarrow> run list" where
  "rows_with_key k d = filter (\<lambda>r. r_idempotency_key r = Some k) (runs d)"

lemma rows_with_key_le_1: "runs_wf d \<Longrightarrow> length (rows_with_key k d) \<le> 1"
proof -
  have "distinct (idem_keys rs) \<Longrightarrow> length (filter (\<lambda>r. r_idempotency_key r = Some k) rs) \<le> 1" for rs
  proof (induction rs)
    case (Cons r rs)
    show ?case
    proof (cases "r_idempotency_key r = Some k")
      case True
      with Cons.prems have "k \<notin> set (idem_keys rs)" by simp
      then have "filter (\<lambda>r. r_idempotency_key r = Some k) rs = []"
        by (auto simp: set_idem_keys filter_empty_conv)
      with True show ?thesis by simp
    next
      case False
      with Cons show ?thesis by (auto split: option.splits)
    qed
  qed simp
  moreover assume "runs_wf d"
  ultimately show ?thesis by (simp add: rows_with_key_def runs_wf_def)
qed

lemma has_idem_key_rows: "has_idem_key k d \<longleftrightarrow> rows_with_key k d \<noteq> []"
  by (auto simp: has_idem_key_def rows_with_key_def filter_empty_conv)

lemma enqueue_tick_wf:
  assumes "runs_wf d"
  shows "runs_wf (snd (enqueue_tick now s e d))"
proof (cases "Option.bind (sd_agent_id s) (\<lambda>aid. quota_check now aid d)")
  case (Some refusal)
  then show ?thesis
    using insert_refused_run_wf [OF assms] assms
    by (simp add: enqueue_tick_def Let_def split: sum.split prod.split)
next
  case None
  then show ?thesis
    using insert_run_idempotent_wf [OF assms] insert_run_with_blobs_wf [OF assms] assms
    by (simp add: enqueue_tick_def Let_def split: sum.split prod.split)
qed

text \<open>A first tick records one run, and the same tick again anywhere records nothing more.\<close>

lemma tick_records:
  assumes "sd_idempotency s" and "get_script (sd_script_id s) d \<noteq> None"
    and "enqueue_tick now s e d = (r, d')"
  shows "has_idem_key (tick_key (sd_id s) e) d'"
  using assms
  by (auto simp: enqueue_tick_def insert_run_idempotent_def insert_refused_run_def has_idem_key_def Let_def
      find_None split: option.splits if_splits sum.splits)

lemma tick_again:
  assumes "sd_idempotency s" and "has_idem_key (tick_key (sd_id s) e) d"
  shows "enqueue_tick now s e d = (None, d\<lparr>run_seq := run_seq d + 1\<rparr>)"
proof -
  obtain r where "find (\<lambda>r. r_idempotency_key r = Some (tick_key (sd_id s) e)) (runs d) = Some r"
    using assms(2) by (metis (mono_tags, lifting) find_None has_idem_key_def option.exhaust)
  with assms show ?thesis
    by (auto simp: enqueue_tick_def insert_run_idempotent_def insert_refused_run_def Let_def split: option.split)
qed

lemma tick_key_inject: "tick_key i e = tick_key j f \<longleftrightarrow> i = j \<and> e = f"
proof -
  have nc: "CHR '':'' \<notin> set (int_str k)" for k by (rule int_str_no_char) simp_all
  have "int_str i @ CHR '':'' # int_str e = int_str j @ CHR '':'' # int_str f \<longleftrightarrow> i = j \<and> e = f"
  proof
    assume eq: "int_str i @ CHR '':'' # int_str e = int_str j @ CHR '':'' # int_str f"
    then have "split_on CHR '':'' (int_str i @ CHR '':'' # int_str e) =
        split_on CHR '':'' (int_str j @ CHR '':'' # int_str f)" by simp
    then show "i = j \<and> e = f" using nc by (simp add: split_on_append split_on_notin)
  qed simp
  then show ?thesis by (simp add: tick_key_def)
qed

text \<open>
  C35. A tick of an idempotent schedule leaves exactly one record for its schedule and second, a
  run or a refusal, and the same tick made by any other daemon afterwards, whatever the quota says
  then, adds none; ticks of other schedules or seconds never share its key.
\<close>
theorem tick_once:
  assumes "runs_wf d" and "sd_idempotency s" and "get_script (sd_script_id s) d \<noteq> None"
    and "enqueue_tick now s e d = (r, d')"
  shows "length (rows_with_key (tick_key (sd_id s) e) d') = 1 \<and>
    enqueue_tick now' s e d' = (None, d'\<lparr>run_seq := run_seq d' + 1\<rparr>) \<and>
    (\<forall>i f. tick_key i f = tick_key (sd_id s) e \<longrightarrow> i = sd_id s \<and> f = e)"
proof -
  have k: "has_idem_key (tick_key (sd_id s) e) d'" using tick_records [OF assms(2-4)] .
  have "runs_wf d'" using enqueue_tick_wf [OF assms(1), of now s e] assms(4) by simp
  from rows_with_key_le_1 [OF this, of "tick_key (sd_id s) e"] k
  have "length (rows_with_key (tick_key (sd_id s) e) d') = 1"
    by (cases "rows_with_key (tick_key (sd_id s) e) d'") (simp_all add: has_idem_key_rows)
  with tick_again [OF assms(2) k] show ?thesis by (simp add: tick_key_inject)
qed

definition sample_schedule :: schedule where
  "sample_schedule =
     \<lparr>sd_id = 3, sd_script_id = 1, sd_cron = ''0 0 * * * *'', sd_input = None, sd_enabled = True,
      sd_agent_id = None, sd_input_blobs = None, sd_capture_output = False, sd_idempotency = True,
      sd_timezone = None\<rparr>"

theorem tick_once_witness:
  "fst (enqueue_tick 0 sample_schedule 60 sample_db) = Some 2 \<and>
   fst (enqueue_tick 9 sample_schedule 60 (snd (enqueue_tick 0 sample_schedule 60 sample_db))) = None"
proof
  show first: "fst (enqueue_tick 0 sample_schedule 60 sample_db) = Some 2"
    by (simp add: enqueue_tick_def sample_schedule_def insert_run_idempotent_def has_idem_key_def sample_simps)
  obtain r d' where t: "enqueue_tick 0 sample_schedule 60 sample_db = (r, d')" by fastforce
  have "sd_idempotency sample_schedule" by (simp add: sample_schedule_def)
  moreover have "get_script (sd_script_id sample_schedule) sample_db \<noteq> None"
    by (simp add: sample_schedule_def sample_simps)
  ultimately show "fst (enqueue_tick 9 sample_schedule 60 (snd (enqueue_tick 0 sample_schedule 60 sample_db))) = None"
    using tick_once [OF sample_wf _ _ t, of 9] t by simp
qed

text \<open>
  A tick does not look at the row again: the ticker of another daemon keeps enqueueing runs of a
  schedule that was disabled.
\<close>

lemma disabled_schedule_still_ticks:
  assumes "get_script (sd_script_id s) d \<noteq> None" and "sd_agent_id s = None" and "\<not> sd_idempotency s"
  shows "fst (enqueue_tick now s e (snd (set_schedule_enabled (sd_id s) False d))) = Some (run_seq d)"
  using assms
  by (simp add: enqueue_tick_def insert_run_with_blobs_def set_schedule_enabled_def get_script_def)

section \<open>The zoned ticker\<close>

text \<open>What is relied on of the cron crate: the next occurrence is later, and on a whole second.\<close>

definition next_ok :: "('c, 'z) cron_lib \<Rightarrow> bool" where
  "next_ok lib =
     (\<forall>c z t u. cl_next lib c z t = Some u \<longrightarrow> t < u \<and> u mod 1000000 = 0)"

lemma next_fire_later:
  assumes "next_ok lib" and "next_fire lib c z t = Some u"
  shows "t < u" and "u mod 1000000 = 0"
proof -
  have lt: "t - t mod 1000000 < u" and u: "u mod 1000000 = 0"
    using assms by (auto simp: next_ok_def next_fire_def)
  define q k where "q = t div 1000000" and "k = u div 1000000"
  have t: "t = 1000000 * q + t mod 1000000" and "t mod 1000000 < 1000000" by (simp_all add: q_def)
  moreover have "u = 1000000 * k" using u mult_div_mod_eq [of 1000000 u] by (simp only: k_def add_0_right)
  moreover from t lt this have "q + 1 \<le> k" by linarith
  ultimately show "t < u" by linarith
  show "u mod 1000000 = 0" by (rule u)
qed

lemma zoned_ticks_after:
  assumes "next_ok lib"
  shows "sorted_wrt (<) (zoned_ticks lib c z after readings) \<and>
    (\<forall>e\<in>set (zoned_ticks lib c z after readings). after < e * 1000000 \<and>
       (\<exists>t. after \<le> t \<and> next_fire lib c (Some z) t = Some (e * 1000000)))"
  using assms
proof (induction lib c z after readings rule: zoned_ticks.induct)
  case (1 lib c z after readings)
  show ?case
  proof (cases "next_fire lib c (Some z) after")
    case None
    then have "zoned_ticks lib c z after readings = []" by (subst zoned_ticks.simps) simp
    then show ?thesis by simp
  next
    case (Some nx)
    note nx = next_fire_later [OF "1.prems" Some]
    have ts: "timestamp nx * 1000000 = nx"
      unfolding timestamp_def using nx(2) by (metis add.right_neutral div_mult_mod_eq)
    show ?thesis
    proof (cases "dropWhile (\<lambda>t. t < nx) readings")
      case Nil
      then have "zoned_ticks lib c z after readings = []"
        using Some by (subst zoned_ticks.simps) (simp del: dropWhile_eq_Nil_conv)
      then show ?thesis by simp
    next
      case (Cons now rest)
      show ?thesis
      proof (cases rest)
        case Nil
        then have "zoned_ticks lib c z after readings = [timestamp nx]"
          using Some Cons by (subst zoned_ticks.simps) simp
        with ts nx(1) Some show ?thesis by auto
      next
        case r: (Cons again rest')
        let ?more = "zoned_ticks lib c z (max again nx) rest'"
        have eq: "zoned_ticks lib c z after readings = timestamp nx # ?more"
          using Some Cons r by (subst zoned_ticks.simps) simp
        have ih: "sorted_wrt (<) ?more" "\<forall>e\<in>set ?more. max again nx < e * 1000000 \<and>
            (\<exists>t. max again nx \<le> t \<and> next_fire lib c (Some z) t = Some (e * 1000000))"
          using "1.IH" [OF Some Cons r "1.prems"] by auto
        have "\<forall>e\<in>set ?more. timestamp nx < e" using ih(2) ts by fastforce
        moreover have "\<forall>e\<in>set ?more. after < e * 1000000 \<and>
            (\<exists>t. after \<le> t \<and> next_fire lib c (Some z) t = Some (e * 1000000))"
          using ih(2) nx(1) by (meson dual_order.strict_trans le_less_trans less_imp_le max.cobounded2 order_trans)
        ultimately show ?thesis unfolding eq using ih(1) ts nx(1) Some by auto
      qed
    qed
  qed
qed

text \<open>
  Whatever the wall clock does between its readings, backwards or over many occurrences, the
  zoned ticker enqueues for strictly increasing seconds, each an occurrence of the schedule: none
  twice and none that is not due.
\<close>
theorem zoned_ticks_strict:
  assumes "next_ok lib"
  shows "sorted_wrt (<) (zoned_ticks lib c z after readings) \<and>
    (\<forall>e\<in>set (zoned_ticks lib c z after readings). after < e * 1000000 \<and>
       (\<exists>t. after \<le> t \<and> next_fire lib c (Some z) t = Some (e * 1000000)))"
  using assms by (rule zoned_ticks_after)

text \<open>A schedule that fires every second.\<close>

definition every_second :: "(unit, unit) cron_lib" where
  "every_second =
     \<lparr>cl_parse = (\<lambda>s. Inr ()), cl_zone = (\<lambda>s. Some ()), cl_zone_name = (\<lambda>z. ''UTC''),
      cl_next = (\<lambda>c z t. Some (t - t mod 1000000 + 1000000)), cl_job = (\<lambda>s. None)\<rparr>"

theorem zoned_ticks_strict_witness:
  "zoned_ticks every_second () () 0 [500000, 1000100, 5000000, 400, 9000000] = [1, 6] \<and>
   sorted_wrt (<) (zoned_ticks every_second () () 0 [500000, 1000100, 5000000, 400, 9000000])"
proof
  show "zoned_ticks every_second () () 0 [500000, 1000100, 5000000, 400, 9000000] = [1, 6]"
    by (simp add: zoned_ticks.simps next_fire_def every_second_def timestamp_def)
  have "t < t - t mod 1000000 + 1000000 \<and> (t - t mod 1000000 + 1000000) mod 1000000 = 0" for t :: int
    using pos_mod_bound [of 1000000 t] by (simp add: minus_mod_eq_mult_div)
  then have "next_ok every_second" by (simp add: next_ok_def every_second_def)
  from zoned_ticks_strict [OF this]
  show "sorted_wrt (<) (zoned_ticks every_second () () 0 [500000, 1000100, 5000000, 400, 9000000])" by blast
qed

section \<open>The tickers of a process\<close>

fun handle :: "ticker \<Rightarrow> nat" where
  "handle (UtcTicker n) = n"
| "handle (ZonedTicker n) = n"

text \<open>
  Every live ticker is the one its schedule is known to have, and its schedule is an enabled row,
  or one of \<open>gone\<close>: schedules whose rows are already deleted and whose tickers are about to stop.
\<close>

definition ticker_ok :: "int set \<Rightarrow> cron_state \<Rightarrow> db \<Rightarrow> ticker \<Rightarrow> schedule \<Rightarrow> bool" where
  "ticker_ok gone cr d t s =
     (map_of (cr_jobs cr) (sd_id s) = Some t \<and> handle t < cr_next cr \<and>
      (sd_id s \<in> gone \<or> (s \<in> set (schedules d) \<and> sd_enabled s)))"

definition cron_ok :: "int set \<Rightarrow> cron_state \<Rightarrow> db \<Rightarrow> bool" where
  "cron_ok gone cr d =
     (distinct (map fst (cr_live cr)) \<and> (\<forall>x\<in>set (cr_live cr). ticker_ok gone cr d (fst x) (snd x)) \<and>
      (\<forall>i t. map_of (cr_jobs cr) i = Some t \<longrightarrow> handle t < cr_next cr))"

definition sched_fresh :: "db \<Rightarrow> bool" where
  "sched_fresh d = (\<forall>s\<in>set (schedules d). sd_id s < schedule_seq d)"

lemma cron_ok_one_ticker:
  assumes "cron_ok gone cr d"
  shows "distinct (map (sd_id \<circ> snd) (cr_live cr))"
proof -
  have d: "distinct (map fst (cr_live cr))" and t: "\<forall>x\<in>set (cr_live cr). ticker_ok gone cr d (fst x) (snd x)"
    using assms by (auto simp: cron_ok_def)
  have "inj_on (sd_id \<circ> snd) (set (cr_live cr))"
  proof (rule inj_onI)
    fix x y
    assume x: "x \<in> set (cr_live cr)" and y: "y \<in> set (cr_live cr)" and eq: "(sd_id \<circ> snd) x = (sd_id \<circ> snd) y"
    have "map_of (cr_jobs cr) (sd_id (snd x)) = Some (fst x)" "map_of (cr_jobs cr) (sd_id (snd y)) = Some (fst y)"
      using t x y by (auto simp: ticker_ok_def)
    with eq have "fst x = fst y" by simp
    with d x y show "x = y" by (metis distinct_map inj_onD)
  qed
  with d show ?thesis by (simp add: distinct_map)
qed

lemma stop_ticker_sel [simp]:
  "cr_jobs (stop_ticker t cr) = cr_jobs cr" "cr_next (stop_ticker t cr) = cr_next cr"
  "set (cr_live (stop_ticker t cr)) = {x \<in> set (cr_live cr). fst x \<noteq> t}"
  "map fst (cr_live (stop_ticker t cr)) = filter (\<lambda>u. u \<noteq> t) (map fst (cr_live cr))"
  by (auto simp: stop_ticker_def filter_map comp_def case_prod_unfold)

lemma cron_add_cases:
  assumes "cron_add lib s cr = Inr cr'"
  obtains t where "handle t = cr_next cr"
    and "cr_jobs cr' = AList.update (sd_id s) t (cr_jobs cr)" and "cr_next cr' = Suc (cr_next cr)"
    and "set (cr_live cr') = {x \<in> set (cr_live cr) \<union> {(t, s)}. map_of (cr_jobs cr) (sd_id s) \<noteq> Some (fst x)}"
    and "map fst (cr_live cr') =
      filter (\<lambda>u. map_of (cr_jobs cr) (sd_id s) \<noteq> Some u) (map fst (cr_live cr) @ [t])"
proof -
  let ?in = "\<lambda>t. let cr1 = cr\<lparr>cr_jobs := AList.update (sd_id s) t (cr_jobs cr),
      cr_live := cr_live cr @ [(t, s)], cr_next := Suc (cr_next cr)\<rparr>
    in (case map_of (cr_jobs cr) (sd_id s) of Some old \<Rightarrow> stop_ticker old cr1 | None \<Rightarrow> cr1)"
  have "cr' = ?in (UtcTicker (cr_next cr)) \<or> cr' = ?in (ZonedTicker (cr_next cr))"
    using assms by (auto simp: cron_add_def Let_def split: option.splits sum.splits)
  then obtain t where t: "handle t = cr_next cr" "cr' = ?in t" by (metis handle.simps)
  show ?thesis
    by (rule that [of t]) (auto simp: t Let_def intro: filter_cong split: option.splits)
qed

lemma cron_add_ok:
  assumes ok: "cron_ok gone cr d" and add: "cron_add lib s cr = Inr cr'"
    and s: "s \<in> set (schedules d)" "sd_enabled s"
  shows "cron_ok gone cr' d"
proof -
  from add obtain t where t: "handle t = cr_next cr"
    and j: "cr_jobs cr' = AList.update (sd_id s) t (cr_jobs cr)" and n: "cr_next cr' = Suc (cr_next cr)"
    and l: "set (cr_live cr') = {x \<in> set (cr_live cr) \<union> {(t, s)}. map_of (cr_jobs cr) (sd_id s) \<noteq> Some (fst x)}"
    and m: "map fst (cr_live cr') =
      filter (\<lambda>u. map_of (cr_jobs cr) (sd_id s) \<noteq> Some u) (map fst (cr_live cr) @ [t])"
    by (rule cron_add_cases)
  have old: "handle (fst x) < cr_next cr" if "x \<in> set (cr_live cr)" for x
    using ok that by (auto simp: cron_ok_def ticker_ok_def)
  have "distinct (map fst (cr_live cr) @ [t])" using ok old t by (fastforce simp: cron_ok_def)
  then have "distinct (map fst (cr_live cr'))" unfolding m by (rule distinct_filter)
  moreover have "ticker_ok gone cr' d (fst x) (snd x)" if x: "x \<in> set (cr_live cr')" for x
  proof (cases "x = (t, s)")
    case True
    then show ?thesis using s t by (simp add: ticker_ok_def j n update_conv')
  next
    case False
    with x l have in_old: "x \<in> set (cr_live cr)" and ne: "map_of (cr_jobs cr) (sd_id s) \<noteq> Some (fst x)" by auto
    then have "ticker_ok gone cr d (fst x) (snd x)" using ok by (simp add: cron_ok_def)
    with ne show ?thesis by (auto simp: ticker_ok_def j n update_conv')
  qed
  moreover have "\<forall>i u. map_of (cr_jobs cr') i = Some u \<longrightarrow> handle u < cr_next cr'"
    using ok t by (auto simp: cron_ok_def j n update_conv' less_Suc_eq)
  ultimately show ?thesis by (simp add: cron_ok_def)
qed

lemma cron_remove_ok:
  assumes ok: "cron_ok gone cr d" and r: "cron_remove i cr d = (b, cr', d')"
  shows "cron_ok (gone - {i}) cr' d'"
    and "schedules d' = update_where (\<lambda>s. sd_id s = i) (\<lambda>s. s\<lparr>sd_enabled := False\<rparr>) (schedules d)"
    and "schedule_seq d' = schedule_seq d"
proof -
  let ?c = "case map_of (cr_jobs cr) i of
      Some t \<Rightarrow> stop_ticker t (cr\<lparr>cr_jobs := AList.delete i (cr_jobs cr)\<rparr>) | None \<Rightarrow> cr"
  have cr': "cr' = ?c" and d': "d' = snd (set_schedule_enabled i False d)"
    using r by (auto simp: cron_remove_def Let_def split: prod.splits)
  show sch: "schedules d' = update_where (\<lambda>s. sd_id s = i) (\<lambda>s. s\<lparr>sd_enabled := False\<rparr>) (schedules d)"
    and "schedule_seq d' = schedule_seq d" by (simp_all add: d' set_schedule_enabled_def)
  have keep: "s \<in> set (schedules d) \<Longrightarrow> sd_id s \<noteq> i \<Longrightarrow> s \<in> set (schedules d')" for s
    by (auto simp: sch set_update_where image_iff)
  have live: "x \<in> set (cr_live cr') \<Longrightarrow> x \<in> set (cr_live cr) \<and> sd_id (snd x) \<noteq> i" for x
    using ok by (auto simp: cr' cron_ok_def ticker_ok_def split: option.splits)
  have jobs: "k \<noteq> i \<Longrightarrow> map_of (cr_jobs cr') k = map_of (cr_jobs cr) k"
    "map_of (cr_jobs cr') k = Some u \<Longrightarrow> map_of (cr_jobs cr) k = Some u" "cr_next cr' = cr_next cr" for k u
    by (auto simp: cr' delete_conv' split: option.splits if_splits)
  have "distinct (map fst (cr_live cr'))"
    using ok by (auto simp: cr' cron_ok_def split: option.split)
  moreover have "ticker_ok (gone - {i}) cr' d' (fst x) (snd x)" if "x \<in> set (cr_live cr')" for x
    using live [OF that] ok keep jobs(1,3) by (auto simp: cron_ok_def ticker_ok_def)
  moreover have "\<forall>k u. map_of (cr_jobs cr') k = Some u \<longrightarrow> handle u < cr_next cr'"
    using ok jobs(2,3) unfolding cron_ok_def by metis
  ultimately show "cron_ok (gone - {i}) cr' d'" by (simp add: cron_ok_def)
qed

lemma remove_all_ok:
  "cron_ok gone cr d \<Longrightarrow> fold (\<lambda>s (c, d). snd (cron_remove s c d)) ids (cr, d) = (cr', d') \<Longrightarrow>
   cron_ok (gone - set ids) cr' d' \<and> schedule_seq d' = schedule_seq d \<and>
   sd_id ` set (schedules d') = sd_id ` set (schedules d)"
proof (induction ids arbitrary: gone cr d)
  case (Cons i ids)
  obtain b cr1 d1 where r: "cron_remove i cr d = (b, cr1, d1)" by (metis prod_cases3)
  note ok = cron_remove_ok [OF Cons.prems(1) r]
  have "fold (\<lambda>s (c, d). snd (cron_remove s c d)) ids (cr1, d1) = (cr', d')" using Cons.prems(2) r by simp
  note ih = Cons.IH [OF ok(1) this]
  have "gone - {i} - set ids = gone - set (i # ids)" by auto
  moreover have "sd_id ` set (schedules d1) = sd_id ` set (schedules d)"
    unfolding ok(2) set_update_where image_image by (rule image_cong) simp_all
  ultimately show ?case using ih ok(3) by simp
qed simp

text \<open>
  The life of a process's scheduler: its own tools, and whatever everybody else commits, other
  processes with schedulers of their own included.  The third component is what they took away behind
  this one's back: the ids of schedules they disabled, deleted or changed since it started.
\<close>

definition withdrawn :: "db \<Rightarrow> db \<Rightarrow> int set" where
  "withdrawn d d' = sd_id ` {s \<in> set (schedules d). sd_enabled s \<and> s \<notin> set (schedules d')}"

inductive cron_step ::
    "('c, 'z) cron_lib \<Rightarrow> cron_state \<times> db \<times> int set \<Rightarrow> cron_state \<times> db \<times> int set \<Rightarrow> bool" for lib where
  schedule: "schedule_script lib rfc3339 db_msg parse now a (Some cr) d = (r, Some cr', d') \<Longrightarrow>
    cron_step lib (cr, d, gone) (cr', d', gone)"
| unschedule: "unschedule i (Some cr) d = (r, Some cr', d') \<Longrightarrow>
    cron_step lib (cr, d, gone) (cr', d', gone - {i})"
| delete: "mcp_delete_script db_msg i (Some cr) d = (r, Some cr', d') \<Longrightarrow>
    cron_step lib (cr, d, gone) (cr', d', gone)"
| other: "sched_fresh d' \<Longrightarrow> cron_step lib (cr, d, gone) (cr, d', gone \<union> withdrawn d d')"

lemma cron_ok_mono:
  "cron_ok gone cr d \<Longrightarrow> (\<And>s. s \<in> set (schedules d) \<Longrightarrow> sd_enabled s \<Longrightarrow> s \<in> set (schedules d') \<or> sd_id s \<in> gone') \<Longrightarrow>
   gone \<subseteq> gone' \<Longrightarrow> cron_ok gone' cr d'"
  unfolding cron_ok_def ticker_ok_def by blast

lemma insert_schedule_row:
  assumes "insert_schedule script expr input opts d = Inr (k, d1)"
  shows "\<exists>row. schedules d1 = schedules d @ [row] \<and> sd_id row = k \<and> sd_enabled row \<and> k = schedule_seq d \<and>
    schedule_seq d1 = schedule_seq d + 1"
  using assms by (auto simp: insert_schedule_def Let_def split: if_splits)

lemma install_schedule_ok:
  assumes ok: "cron_ok gone cr d" and f: "sched_fresh d"
    and i: "install_schedule lib rfc3339 db_msg now a opts input c tz cr d = (r, cr', d')"
  shows "cron_ok gone cr' d' \<and> sched_fresh d'"
proof (cases "insert_schedule (sa_script_id a) (sa_cron a) input opts d")
  case (Inl e)
  with i ok f show ?thesis by (simp add: install_schedule_def)
next
  case (Inr x)
  obtain k d1 where x: "x = (k, d1)" by (cases x)
  from insert_schedule_row [OF Inr [unfolded x]]
  obtain row where row: "schedules d1 = schedules d @ [row]" "sd_id row = k" "sd_enabled row"
    "k = schedule_seq d" "schedule_seq d1 = schedule_seq d + 1" by blast
  have ok1: "cron_ok gone cr d1" by (rule cron_ok_mono [OF ok]) (simp_all add: row)
  have f1: "sched_fresh d1" using f row by (auto simp: sched_fresh_def)
  show ?thesis
  proof (cases "get_schedule k d1")
    case None
    with i Inr x ok1 f1 show ?thesis by (simp add: install_schedule_def)
  next
    case (Some stored)
    then have "find (\<lambda>s. sd_id s = k) (schedules d1) = Some stored"
      by (auto simp: get_schedule_def split: option.splits if_splits)
    moreover have "find (\<lambda>s. sd_id s = k) (schedules d) = None"
      using f row(4) by (auto simp: find_None sched_fresh_def)
    ultimately have st: "stored = row" using row by (simp add: find_append)
    show ?thesis
    proof (cases "cron_add lib stored cr")
      case (Inl e)
      with i Inr x Some have d': "cr' = cr" "d' = snd (set_schedule_enabled k False d1)"
        by (simp_all add: install_schedule_def)
      have "s \<in> set (schedules d')" if "s \<in> set (schedules d)" for s
      proof -
        have "sd_id s \<noteq> k" using f that row(4) by (auto simp: sched_fresh_def)
        then show ?thesis using that by (auto simp: d' set_schedule_enabled_def set_update_where row(1) image_iff)
      qed
      with cron_ok_mono [OF ok, of d' gone] f1 show ?thesis
        by (auto simp: d' sched_fresh_def set_schedule_enabled_def set_update_where)
    next
      case add: (Inr cr1)
      with i Inr x Some have "cr' = cr1" "d' = d1" by (auto simp: install_schedule_def Let_def)
      with cron_add_ok [OF ok1 add] st row f1 show ?thesis by simp
    qed
  qed
qed

lemma cron_step_ok:
  assumes "cron_step lib (cr, d, gone) (cr', d', gone')" and ok: "cron_ok gone cr d" and f: "sched_fresh d"
  shows "cron_ok gone' cr' d' \<and> sched_fresh d'"
  using assms(1)
proof cases
  case (schedule rfc3339 db_msg parse now a r)
  then have "(cr' = cr \<and> d' = d) \<or> (\<exists>opts input c tz r.
      install_schedule lib rfc3339 db_msg now a opts input c tz cr d = (r, cr', d'))"
    by (auto simp: schedule_script_def Let_def split: sum.splits if_splits prod.splits)
  with ok f have "cron_ok gone cr' d' \<and> sched_fresh d'" by (elim disjE exE) (simp, rule install_schedule_ok)
  with schedule show ?thesis by simp
next
  case (unschedule i r)
  then obtain b where r: "cron_remove i cr d = (b, cr', d')"
    by (auto simp: unschedule_def split: prod.splits)
  from cron_remove_ok [OF ok r] f unschedule(1) show ?thesis by (auto simp: sched_fresh_def set_update_where)
next
  case (delete db_msg i r)
  show ?thesis
  proof (cases "delete_script i d")
    case (Inl e)
    with delete ok f show ?thesis by (simp add: mcp_delete_script_def)
  next
    case (Inr x)
    obtain res d1 where x: "x = (res, d1)" by (cases x)
    show ?thesis
    proof (cases "\<exists>n scheds. res = Deleted n scheds")
      case False
      with Inr x have "d1 = d" by (auto simp: delete_script_def Let_def split: if_splits)
      with False delete Inr x ok f show ?thesis by (cases res) (simp_all add: mcp_delete_script_def)
    next
      case True
      then obtain n scheds where res: "res = Deleted n scheds" by blast
      from Inr x res have d1: "schedules d1 = delete_where (\<lambda>s. sd_script_id s = i) (schedules d)"
        "scheds = map sd_id (filter (\<lambda>s. sd_script_id s = i) (schedules d))" "schedule_seq d1 = schedule_seq d"
        by (auto simp: delete_script_def Let_def split: if_splits)
      obtain c2 d2 where fo: "fold (\<lambda>s (c, d). snd (cron_remove s c d)) scheds (cr, d1) = (c2, d2)" by fastforce
      with delete Inr x res have eq: "cr' = c2" "d' = d2" by (simp_all add: mcp_delete_script_def)
      have "cron_ok (gone \<union> set scheds) cr d1" by (rule cron_ok_mono [OF ok]) (auto simp: d1)
      from remove_all_ok [OF this fo] have "cron_ok (gone \<union> set scheds - set scheds) c2 d2" by simp
      then have "cron_ok gone c2 d2" by (rule cron_ok_mono) auto
      with remove_all_ok [OF \<open>cron_ok (gone \<union> set scheds) cr d1\<close> fo]
      have fin: "cron_ok gone c2 d2" "schedule_seq d2 = schedule_seq d1"
        "sd_id ` set (schedules d2) = sd_id ` set (schedules d1)" by simp_all
      have "sched_fresh d2" unfolding sched_fresh_def
      proof
        fix s
        assume "s \<in> set (schedules d2)"
        then have "sd_id s \<in> sd_id ` set (schedules d1)" using fin(3) by blast
        then show "sd_id s < schedule_seq d2" using f fin(2) d1 by (auto simp: sched_fresh_def)
      qed
      with fin(1) eq delete(1) show ?thesis by simp
    qed
  qed
next
  case other
  have "cron_ok (gone \<union> withdrawn d d') cr d'"
    by (rule cron_ok_mono [OF ok]) (auto simp: withdrawn_def)
  with other show ?thesis by simp
qed

lemma cron_start_ok: "cron_ok {} (cron_start lib d) d"
proof -
  have "cron_ok {} (fold (\<lambda>s cr. case cron_add lib s cr of Inl _ \<Rightarrow> cr | Inr cr' \<Rightarrow> cr') ss cr) d"
    if "cron_ok {} cr d" "\<forall>s\<in>set ss. s \<in> set (schedules d) \<and> sd_enabled s" for ss cr
    using that
  proof (induction ss arbitrary: cr)
    case (Cons s ss)
    then have "cron_ok {} (case cron_add lib s cr of Inl _ \<Rightarrow> cr | Inr cr' \<Rightarrow> cr') d"
      using cron_add_ok [OF Cons.prems(1)] by (auto split: sum.split)
    with Cons.IH Cons.prems(2) show ?case by simp
  qed simp
  moreover have "cron_ok {} \<lparr>cr_jobs = [], cr_live = [], cr_next = 0\<rparr> d" by (simp add: cron_ok_def)
  ultimately show ?thesis unfolding cron_start_def by (simp add: enabled_schedules_def)
qed

text \<open>
  C36. From boot on, through scheduling, unscheduling, deleted scripts and failed starts, and whatever
  other processes on the database do: a process has at most one ticker per schedule, the one it can
  stop, and each ticks for a schedule that is in the database, enabled, as it was stored - or for one
  that another process disabled, deleted or changed since, of which this process learns nothing until
  it unschedules it itself.  As long as nobody else withdraws schedules, \<open>gone\<close> is empty and tickers
  and rows match.
\<close>
theorem tickers_match_schedules:
  assumes "(cron_step lib)\<^sup>*\<^sup>* (cron_start lib d0, d0, {}) (cr, d, gone)" and "sched_fresh d0"
  shows "distinct (map (sd_id \<circ> snd) (cr_live cr)) \<and>
    (\<forall>x\<in>set (cr_live cr). map_of (cr_jobs cr) (sd_id (snd x)) = Some (fst x) \<and>
       (snd x \<in> set (schedules d) \<and> sd_enabled (snd x) \<or> sd_id (snd x) \<in> gone))"
proof -
  have "cron_ok (snd (snd x)) (fst x) (fst (snd x)) \<and> sched_fresh (fst (snd x))"
    if "(cron_step lib)\<^sup>*\<^sup>* (cron_start lib d0, d0, {}) x" for x
    using that
  proof (induction rule: rtranclp_induct)
    case base
    then show ?case using cron_start_ok assms(2) by simp
  next
    case (step y z)
    then show ?case
      using cron_step_ok [of lib "fst y" "fst (snd y)" "snd (snd y)" "fst z" "fst (snd z)" "snd (snd z)"] by simp
  qed
  from this [OF assms(1)] have ok: "cron_ok gone cr d" by simp
  then have "\<forall>x\<in>set (cr_live cr). map_of (cr_jobs cr) (sd_id (snd x)) = Some (fst x) \<and>
       (snd x \<in> set (schedules d) \<and> sd_enabled (snd x) \<or> sd_id (snd x) \<in> gone)"
    by (auto simp: cron_ok_def ticker_ok_def)
  with cron_ok_one_ticker [OF ok] show ?thesis by simp
qed

text \<open>A daemon that booted with one schedule, and another one that unschedules it.\<close>

theorem tickers_match_schedules_witness:
  "\<exists>cr d. (cron_step every_second)\<^sup>*\<^sup>*
     (cron_start every_second (sample_db\<lparr>schedules := [sample_schedule], schedule_seq := 4\<rparr>),
      sample_db\<lparr>schedules := [sample_schedule], schedule_seq := 4\<rparr>, {}) (cr, d, {3}) \<and>
     schedules d = [sample_schedule\<lparr>sd_enabled := False\<rparr>] \<and>
     map (sd_id \<circ> snd) (cr_live cr) = [3] \<and> distinct (map (sd_id \<circ> snd) (cr_live cr))"
proof -
  let ?d = "sample_db\<lparr>schedules := [sample_schedule], schedule_seq := 4\<rparr>"
  let ?d' = "snd (set_schedule_enabled 3 False ?d)" and ?cr = "cron_start every_second ?d"
  have row: "schedules ?d' = [sample_schedule\<lparr>sd_enabled := False\<rparr>]"
    by (simp add: set_schedule_enabled_def update_where_def sample_schedule_def)
  have on: "sd_enabled sample_schedule" "sd_id sample_schedule = 3" by (simp_all add: sample_schedule_def)
  then have "sample_schedule \<noteq> sample_schedule\<lparr>sd_enabled := False\<rparr>"
    by (metis schedule.select_convs(5) schedule.surjective schedule.update_convs(5))
  then have "{s \<in> set (schedules ?d). sd_enabled s \<and> s \<notin> set (schedules ?d')} = {sample_schedule}"
    unfolding row using on by auto
  then have gone: "withdrawn ?d ?d' = {3}" unfolding withdrawn_def using on by simp
  have "sched_fresh ?d'"
    unfolding sched_fresh_def row by (simp add: set_schedule_enabled_def sample_schedule_def)
  from other [OF this, of every_second ?cr ?d "{}"]
  have reach: "(cron_step every_second)\<^sup>*\<^sup>* (?cr, ?d, {}) (?cr, ?d', {3})" unfolding gone by simp
  have "map (sd_id \<circ> snd) (cr_live ?cr) = [3]"
    by (simp add: cron_start_def enabled_schedules_def cron_add_def every_second_def sample_schedule_def sample_simps)
  moreover have "distinct (map (sd_id \<circ> snd) (cr_live ?cr))"
    using tickers_match_schedules [OF reach] by (simp add: sched_fresh_def sample_schedule_def)
  ultimately show ?thesis using reach row by (intro exI [of _ ?cr] exI [of _ ?d'] conjI)
qed

end
