(* ===== verification/Pool.thy ===== *)
theory Pool
  imports Receipt "HOL-Library.AList" "HOL-Library.Multiset"
begin

text \<open>
  The warm container pool (\<open>src/pool.rs\<close>): containers are started ahead of need, handed out once
  and discarded, while a filler keeps a buffer per image.

  Docker is the record \<open>docker\<close> of the calls the pool makes, over a world of its own.  What the
  pool does under one lock is one step here; the other tasks may run between two steps.
\<close>

section \<open>Docker\<close>

record mount =
  mt_target :: string
  mt_source :: string
  mt_read_only :: bool

record container_spec =
  cs_image :: string
  cs_cmd :: "string list"
  cs_memory :: int
  cs_nano_cpus :: int
  cs_pids_limit :: int
  cs_cap_drop :: "string list"
  cs_security_opt :: "string list"
  cs_readonly_rootfs :: bool
  cs_tmpfs :: "(string \<times> string) list"
  cs_network_mode :: "string option"
  cs_mounts :: "mount list option"
  cs_labels :: "(string \<times> string) list"

record image_info =
  im_repo_digests :: "string list option"
  im_id :: "string option"

record 'w docker =
  dk_inspect :: "string \<Rightarrow> 'w \<Rightarrow> image_info option"
  dk_pull :: "string \<Rightarrow> 'w \<Rightarrow> string option \<times> 'w"  \<comment> \<open>the first error of the pull stream\<close>
  dk_create :: "container_spec \<Rightarrow> 'w \<Rightarrow> (string + string) \<times> 'w"
  dk_start :: "string \<Rightarrow> 'w \<Rightarrow> string option \<times> 'w"
  dk_remove :: "string \<Rightarrow> 'w \<Rightarrow> 'w"
  dk_list_warm :: "'w \<Rightarrow> string option list option"

record pool =
  po_target_idle :: nat
  po_mem_bytes :: int
  po_nano_cpus :: int
  po_idle :: "(string \<times> string list) list"
  po_known :: "string list"
  po_digests :: "(string \<times> string) list"

definition pool_new :: "nat \<Rightarrow> int \<Rightarrow> int \<Rightarrow> pool" where
  "pool_new target mem cpus =
     \<lparr>po_target_idle = target, po_mem_bytes = mem, po_nano_cpus = cpus, po_idle = [],
      po_known = [], po_digests = []\<rparr>"

section \<open>Images\<close>

definition pool_digest :: "string \<Rightarrow> pool \<Rightarrow> string option" where
  "pool_digest img p = map_of (po_digests p) img"

text \<open>A repo digest, else the local image id; an empty one is not kept.\<close>

definition image_digest_of :: "image_info \<Rightarrow> string" where
  "image_digest_of im =
     (case im_repo_digests im of
        Some (g # _) \<Rightarrow> g
      | _ \<Rightarrow> (case im_id im of Some i \<Rightarrow> i | None \<Rightarrow> []))"

definition resolve_digest :: "'w docker \<Rightarrow> string \<Rightarrow> pool \<Rightarrow> 'w \<Rightarrow> pool" where
  "resolve_digest dk img p w =
     (if pool_digest img p \<noteq> None then p
      else (case dk_inspect dk img w of
              None \<Rightarrow> p
            | Some im \<Rightarrow>
                if image_digest_of im = [] then p
                else p\<lparr>po_digests := AList.update img (image_digest_of im) (po_digests p)\<rparr>))"

definition ensure_image :: "'w docker \<Rightarrow> string \<Rightarrow> 'w \<Rightarrow> (string + unit) \<times> 'w" where
  "ensure_image dk img w =
     (if dk_inspect dk img w \<noteq> None then (Inr (), w)
      else (case dk_pull dk img w of
              (Some e, w') \<Rightarrow> (Inl (''pull '' @ img @ '': '' @ e), w') | (None, w') \<Rightarrow> (Inr (), w')))"

fun resolve_all :: "'w docker \<Rightarrow> string list \<Rightarrow> pool \<times> 'w \<Rightarrow> pool \<times> 'w" where
  "resolve_all dk [] s = s"
| "resolve_all dk (img # imgs) (p, w) =
     (case ensure_image dk img w of
        (Inr _, w') \<Rightarrow> resolve_all dk imgs (resolve_digest dk img p w', w')
      | (Inl _, w') \<Rightarrow> resolve_all dk imgs (p, w'))"

section \<open>Creating containers\<close>

definition pids_limit :: int where "pids_limit = 512"

definition mounts_for :: "string option \<Rightarrow> string option \<Rightarrow> mount list option" where
  "mounts_for input_dir output_dir =
     (let ms = (case input_dir of
                  Some dir \<Rightarrow> [\<lparr>mt_target = ''/input'', mt_source = dir, mt_read_only = True\<rparr>] | None \<Rightarrow> []) @
               (case output_dir of
                  Some dir \<Rightarrow> [\<lparr>mt_target = ''/output'', mt_source = dir, mt_read_only = False\<rparr>] | None \<Rightarrow> [])
      in if ms = [] then None else Some ms)"

definition container_body ::
    "string \<Rightarrow> int \<Rightarrow> int \<Rightarrow> bool \<Rightarrow> string option \<Rightarrow> string option \<Rightarrow> container_spec" where
  "container_body img mem cpus isolated input_dir output_dir =
     \<lparr>cs_image = img, cs_cmd = [''sleep'', ''infinity''], cs_memory = mem, cs_nano_cpus = cpus,
      cs_pids_limit = pids_limit, cs_cap_drop = [''ALL''],
      cs_security_opt = [''no-new-privileges''], cs_readonly_rootfs = True,
      cs_tmpfs = [(''/tmp'', ''rw,nosuid,nodev,exec''),
                  (''/run/secrets'', ''rw,nosuid,nodev,noexec,mode=0700,uid=65534,gid=65534'')],
      cs_network_mode = (if isolated then Some ''none'' else None),
      cs_mounts = mounts_for input_dir output_dir,
      cs_labels = [(''dokan.role'', ''warm'')]\<rparr>"

definition create_one ::
    "'w docker \<Rightarrow> string \<Rightarrow> int \<Rightarrow> int \<Rightarrow> bool \<Rightarrow> string option \<Rightarrow> string option \<Rightarrow> pool \<times> 'w
     \<Rightarrow> (string + string) \<times> pool \<times> 'w" where
  "create_one dk img mem cpus isolated input_dir output_dir s =
     (case s of (p, w) \<Rightarrow>
        (case ensure_image dk img w of
           (Inl e, w1) \<Rightarrow> (Inl e, p, w1)
         | (Inr _, w1) \<Rightarrow>
             let p1 = resolve_digest dk img p w1 in
             (case dk_create dk (container_body img mem cpus isolated input_dir output_dir) w1 of
                (Inl e, w2) \<Rightarrow> (Inl e, p1, w2)
              | (Inr i, w2) \<Rightarrow>
                  (case dk_start dk i w2 of
                     (Some e, w3) \<Rightarrow> (Inl e, p1, w3) | (None, w3) \<Rightarrow> (Inr i, p1, w3)))))"

definition acquire_isolated :: "'w docker \<Rightarrow> string \<Rightarrow> pool \<times> 'w \<Rightarrow> (string + string) \<times> pool \<times> 'w" where
  "acquire_isolated dk img s =
     create_one dk img (po_mem_bytes (fst s)) (po_nano_cpus (fst s)) True None None s"

definition acquire_with_caps ::
    "'w docker \<Rightarrow> string \<Rightarrow> int \<Rightarrow> int \<Rightarrow> bool \<Rightarrow> string option \<Rightarrow> string option \<Rightarrow> pool \<times> 'w
     \<Rightarrow> (string + string) \<times> pool \<times> 'w" where
  "acquire_with_caps dk img mem cpus isolated input_dir output_dir s =
     create_one dk img mem cpus isolated input_dir output_dir s"

definition create_idle :: "'w docker \<Rightarrow> string \<Rightarrow> pool \<times> 'w \<Rightarrow> (string + string) \<times> pool \<times> 'w" where
  "create_idle dk img s =
     create_one dk img (po_mem_bytes (fst s)) (po_nano_cpus (fst s)) False None None s"

definition set_target_idle :: "nat \<Rightarrow> pool \<Rightarrow> nat \<times> pool" where
  "set_target_idle n p = (n, p\<lparr>po_target_idle := n\<rparr>)"

definition prewarm :: "string list \<Rightarrow> pool \<Rightarrow> pool" where
  "prewarm images p = p\<lparr>po_known := fold List.insert images (po_known p)\<rparr>"

definition discard :: "'w docker \<Rightarrow> string \<Rightarrow> 'w \<Rightarrow> 'w" where
  "discard dk i w = dk_remove dk i w"

definition sweep_orphans :: "'w docker \<Rightarrow> 'w \<Rightarrow> nat \<times> 'w" where
  "sweep_orphans dk w =
     (case dk_list_warm dk w of
        None \<Rightarrow> (0, w)
      | Some cs \<Rightarrow>
          let ids = List.map_filter id cs in (length ids, fold (discard dk) ids w))"

section \<open>Checking out and filling\<close>

definition idle_of :: "string \<Rightarrow> pool \<Rightarrow> string list" where
  "idle_of img p = (case map_of (po_idle p) img of Some v \<Rightarrow> v | None \<Rightarrow> [])"

definition set_idle :: "string \<Rightarrow> string list \<Rightarrow> pool \<Rightarrow> pool" where
  "set_idle img v p = p\<lparr>po_idle := AList.update img v (po_idle p)\<rparr>"

text \<open>\<open>get_mut(image).and_then(pop)\<close>, under the lock.\<close>

definition pop_idle :: "string \<Rightarrow> pool \<Rightarrow> string option \<times> pool" where
  "pop_idle img p =
     (case rev (idle_of img p) of
        [] \<Rightarrow> (None, p) | i # v \<Rightarrow> (Some i, set_idle img (rev v) p))"

definition pool_acquire :: "'w docker \<Rightarrow> string \<Rightarrow> pool \<times> 'w \<Rightarrow> (string + string) \<times> pool \<times> 'w" where
  "pool_acquire dk img s =
     (case s of (p, w) \<Rightarrow>
        (case pop_idle img (p\<lparr>po_known := List.insert img (po_known p)\<rparr>) of
           (Some i, p1) \<Rightarrow> (Inr i, p1, w)
         | (None, p1) \<Rightarrow> create_idle dk img (p1, w)))"

fun pop_many :: "nat \<Rightarrow> string \<Rightarrow> pool \<Rightarrow> string list \<times> pool" where
  "pop_many 0 img p = ([], p)"
| "pop_many (Suc n) img p =
     (case pop_idle img p of
        (None, p1) \<Rightarrow> pop_many n img p1
      | (Some i, p1) \<Rightarrow> (case pop_many n img p1 of (ids, p2) \<Rightarrow> (i # ids, p2)))"

definition filler_burst :: nat where "filler_burst = 4"

definition scale_down :: "'w docker \<Rightarrow> string \<Rightarrow> nat \<Rightarrow> pool \<times> 'w \<Rightarrow> pool \<times> 'w" where
  "scale_down dk img excess s =
     (case s of (p, w) \<Rightarrow>
        (case pop_many excess img p of (ids, p1) \<Rightarrow> (p1, fold (discard dk) ids w)))"

definition fill_one :: "'w docker \<Rightarrow> string \<Rightarrow> pool \<times> 'w \<Rightarrow> pool \<times> 'w" where
  "fill_one dk img s =
     (case create_idle dk img s of
        (Inl _, s1) \<Rightarrow> s1
      | (Inr i, (p1, w1)) \<Rightarrow> (set_idle img (idle_of img p1 @ [i]) p1, w1))"

definition fill_image :: "'w docker \<Rightarrow> nat \<Rightarrow> string \<Rightarrow> pool \<times> 'w \<Rightarrow> pool \<times> 'w" where
  "fill_image dk target img s =
     (let have = length (idle_of img (fst s)) in
      if target < have then scale_down dk img (min (have - target) filler_burst) s
      else (fill_one dk img ^^ min (target - have) filler_burst) s)"

definition filler_tick :: "'w docker \<Rightarrow> pool \<times> 'w \<Rightarrow> pool \<times> 'w" where
  "filler_tick dk s = fold (fill_image dk (po_target_idle (fst s))) (po_known (fst s)) s"

section \<open>A container is used once\<close>

text \<open>
  Everything that happens to the pool after boot, one lock scope at a time, in whatever order the
  workers, the filler and the autoscaler get to run.
\<close>

datatype pool_event =
    Acquire string
  | Isolated string
  | Caps string int int bool "string option" "string option"
  | FillOne string
  | ScaleDown string nat
  | Discard string
  | Retarget nat

definition handed :: "(string + string) \<times> 's \<Rightarrow> string list \<times> 's" where
  "handed r = (case r of (Inr i, s) \<Rightarrow> ([i], s) | (Inl _, s) \<Rightarrow> ([], s))"

text \<open>The containers an event takes out of the pool: handed to a run, or removed by the filler.\<close>

fun pool_step :: "'w docker \<Rightarrow> pool_event \<Rightarrow> pool \<times> 'w \<Rightarrow> string list \<times> pool \<times> 'w" where
  "pool_step dk (Acquire img) s = handed (pool_acquire dk img s)"
| "pool_step dk (Isolated img) s = handed (acquire_isolated dk img s)"
| "pool_step dk (Caps img mem cpus nonet inp out) s = handed (acquire_with_caps dk img mem cpus nonet inp out s)"
| "pool_step dk (FillOne img) s = ([], fill_one dk img s)"
| "pool_step dk (ScaleDown img n) s = (fst (pop_many n img (fst s)), scale_down dk img n s)"
| "pool_step dk (Discard i) s = ([], (fst s, discard dk i (snd s)))"
| "pool_step dk (Retarget n) s = ([], (snd (set_target_idle n (fst s)), snd s))"

fun taken_out :: "'w docker \<Rightarrow> pool_event list \<Rightarrow> pool \<times> 'w \<Rightarrow> string list" where
  "taken_out dk [] s = []"
| "taken_out dk (e # es) s = (case pool_step dk e s of (ids, s') \<Rightarrow> ids @ taken_out dk es s')"

fun pool_steps :: "'w docker \<Rightarrow> pool_event list \<Rightarrow> pool \<times> 'w \<Rightarrow> pool \<times> 'w" where
  "pool_steps dk [] s = s"
| "pool_steps dk (e # es) s = pool_steps dk es (snd (pool_step dk e s))"

lemma pool_steps_append: "pool_steps dk (es @ fs) s = pool_steps dk fs (pool_steps dk es s)"
  by (induction es arbitrary: s) auto

lemma pool_steps_power: "pool_steps dk (replicate n (FillOne img)) s = (fill_one dk img ^^ n) s"
  by (induction n arbitrary: s) (simp_all add: funpow_swap1)

text \<open>A tick of the filler is a sequence of these steps.\<close>

lemma fill_image_steps: "\<exists>es. fill_image dk target img s = pool_steps dk es s"
proof (cases "target < length (idle_of img (fst s))")
  case True
  then have "fill_image dk target img s =
      pool_steps dk [ScaleDown img (min (length (idle_of img (fst s)) - target) filler_burst)] s"
    by (simp add: fill_image_def Let_def)
  then show ?thesis by blast
next
  case False
  then have "fill_image dk target img s =
      pool_steps dk (replicate (min (target - length (idle_of img (fst s))) filler_burst) (FillOne img)) s"
    by (simp add: fill_image_def Let_def pool_steps_power)
  then show ?thesis by blast
qed

lemma filler_tick_steps: "\<exists>es. filler_tick dk s = pool_steps dk es s"
proof -
  have "\<exists>es. fold (fill_image dk target) imgs s = pool_steps dk es s" for target imgs s
  proof (induction imgs arbitrary: s)
    case Nil
    show ?case by (rule exI [of _ "[]"]) simp
  next
    case (Cons img imgs)
    obtain es where es: "fill_image dk target img s = pool_steps dk es s"
      using fill_image_steps by blast
    obtain fs where "fold (fill_image dk target) imgs (pool_steps dk es s) = pool_steps dk fs (pool_steps dk es s)"
      using Cons.IH by blast
    then show ?case by (auto simp: es pool_steps_append intro!: exI [of _ "es @ fs"])
  qed
  then show ?thesis by (simp add: filler_tick_def)
qed

text \<open>
  What is relied on of Docker: a container id is never given to a second container.  \<open>ids w\<close> is
  the set of ids the engine has ever given out.
\<close>

definition fresh_ids :: "'w docker \<Rightarrow> ('w \<Rightarrow> string set) \<Rightarrow> bool" where
  "fresh_ids dk ids =
     ((\<forall>spec w. case dk_create dk spec w of
         (Inr i, w') \<Rightarrow> i \<notin> ids w \<and> insert i (ids w) \<subseteq> ids w' | (Inl _, w') \<Rightarrow> ids w \<subseteq> ids w') \<and>
      (\<forall>img w. ids w \<subseteq> ids (snd (dk_pull dk img w))) \<and>
      (\<forall>i w. ids w \<subseteq> ids (snd (dk_start dk i w))) \<and>
      (\<forall>i w. ids w \<subseteq> ids (dk_remove dk i w)))"

definition all_idle :: "pool \<Rightarrow> string list" where
  "all_idle p = concat (map snd (po_idle p))"

definition pool_ok :: "('w \<Rightarrow> string set) \<Rightarrow> string list \<Rightarrow> pool \<times> 'w \<Rightarrow> bool" where
  "pool_ok ids out s =
     (distinct (map fst (po_idle (fst s))) \<and> distinct (out @ all_idle (fst s)) \<and>
      set (out @ all_idle (fst s)) \<subseteq> ids (snd s))"

lemma mset_set_idle:
  assumes "distinct (map fst (po_idle p))"
  shows "mset (all_idle (set_idle img v p)) + mset (idle_of img p) = mset (all_idle p) + mset v"
proof -
  have "mset (concat (map snd (AList.update img v m))) +
      mset (case map_of m img of Some v \<Rightarrow> v | None \<Rightarrow> []) = mset (concat (map snd m)) + mset v"
    if "distinct (map fst m)" for m :: "(string \<times> string list) list"
    using that by (induction m) (auto simp: ac_simps)
  from this [OF assms] show ?thesis by (simp add: all_idle_def set_idle_def idle_of_def)
qed

lemma keys_set_idle:
  "distinct (map fst (po_idle p)) \<Longrightarrow> distinct (map fst (po_idle (set_idle img v p)))"
  by (simp add: set_idle_def distinct_update)

lemma pop_idle_Some:
  assumes "pop_idle img p = (Some i, p')" and "distinct (map fst (po_idle p))"
  shows "mset (all_idle p) = add_mset i (mset (all_idle p'))" and "distinct (map fst (po_idle p'))"
proof -
  from assms(1) obtain v where v: "rev (idle_of img p) = i # v" "p' = set_idle img (rev v) p"
    by (auto simp: pop_idle_def split: list.splits)
  have "idle_of img p = rev v @ [i]" using v(1) by (metis rev_rev_ident rev.simps(2))
  with mset_set_idle [OF assms(2), of img "rev v"] v(2)
  show "mset (all_idle p) = add_mset i (mset (all_idle p'))" by simp
  show "distinct (map fst (po_idle p'))" using v(2) keys_set_idle [OF assms(2)] by simp
qed

lemma pop_idle_None: "pop_idle img p = (None, p') \<Longrightarrow> p' = p"
  by (auto simp: pop_idle_def split: list.splits)

lemma pop_many_mset:
  "pop_many n img p = (out, p') \<Longrightarrow> distinct (map fst (po_idle p)) \<Longrightarrow>
   mset (all_idle p) = mset out + mset (all_idle p') \<and> distinct (map fst (po_idle p'))"
proof (induction n arbitrary: p out)
  case (Suc n)
  show ?case
  proof (cases "pop_idle img p")
    case (Pair r q)
    show ?thesis
    proof (cases r)
      case None
      then show ?thesis using Suc.IH [of p out] Suc.prems Pair pop_idle_None by auto
    next
      case (Some i)
      with Suc.prems(1) Pair obtain ids where "pop_many n img q = (ids, p')" "out = i # ids"
        by (auto split: prod.splits)
      with Suc.IH [of q ids] pop_idle_Some [of img p i q] Pair Some Suc.prems(2) show ?thesis by auto
    qed
  qed
qed auto

lemma fresh_pull: "fresh_ids dk ids \<Longrightarrow> ids w \<subseteq> ids (snd (dk_pull dk img w))"
  and fresh_start: "fresh_ids dk ids \<Longrightarrow> ids w \<subseteq> ids (snd (dk_start dk i w))"
  and fresh_remove: "fresh_ids dk ids \<Longrightarrow> ids w \<subseteq> ids (dk_remove dk i w)"
  by (simp_all add: fresh_ids_def)

lemma fresh_create:
  "fresh_ids dk ids \<Longrightarrow> dk_create dk spec w = (Inr i, w') \<Longrightarrow> i \<notin> ids w \<and> insert i (ids w) \<subseteq> ids w'"
  "fresh_ids dk ids \<Longrightarrow> dk_create dk spec w = (Inl e, w') \<Longrightarrow> ids w \<subseteq> ids w'"
  unfolding fresh_ids_def by (metis (mono_tags, lifting) case_prod_conv sum.case)+

lemma ensure_image_ids: "fresh_ids dk ids \<Longrightarrow> ensure_image dk img w = (r, w') \<Longrightarrow> ids w \<subseteq> ids w'"
  using fresh_pull [of dk ids w img]
  by (auto simp: ensure_image_def split: if_splits prod.splits option.splits)

lemma resolve_digest_idle [simp]: "po_idle (resolve_digest dk img p w) = po_idle p"
  by (simp add: resolve_digest_def split: option.split)

text \<open>A container that is created is new, and the buffers stay as they were.\<close>

lemma create_one_ids:
  assumes "fresh_ids dk ids" and "create_one dk img mem cpus nonet inp out (p, w) = (r, p', w')"
  shows "po_idle p' = po_idle p" and "ids w \<subseteq> ids w'"
    and "\<And>i. r = Inr i \<Longrightarrow> i \<notin> ids w \<and> i \<in> ids w'"
proof -
  obtain e1 w1 where en: "ensure_image dk img w = (e1, w1)" by fastforce
  note w1 = ensure_image_ids [OF assms(1) en]
  let ?spec = "container_body img mem cpus nonet inp out"
  obtain c w2 where cr: "dk_create dk ?spec w1 = (c, w2)" by fastforce
  have "po_idle p' = po_idle p \<and> ids w \<subseteq> ids w' \<and> (\<forall>i. r = Inr i \<longrightarrow> i \<notin> ids w \<and> i \<in> ids w')"
  proof (cases e1)
    case (Inl e)
    then show ?thesis using assms(2) en w1 by (auto simp: create_one_def)
  next
    case e1: (Inr u)
    show ?thesis
    proof (cases c)
      case (Inl e)
      then show ?thesis
        using assms(2) en cr e1 w1 fresh_create(2) [OF assms(1), of ?spec w1 e w2]
        by (auto simp: create_one_def Let_def)
    next
      case (Inr i)
      obtain st w3 where s: "dk_start dk i w2 = (st, w3)" by fastforce
      have "ids w2 \<subseteq> ids w3" using fresh_start [OF assms(1), of w2 i] s by simp
      then show ?thesis
        using assms(2) en cr e1 w1 Inr s fresh_create(1) [OF assms(1), of ?spec w1 i w2]
        by (auto simp: create_one_def Let_def split: option.splits)
    qed
  qed
  then show "po_idle p' = po_idle p" "ids w \<subseteq> ids w'" "\<And>i. r = Inr i \<Longrightarrow> i \<notin> ids w \<and> i \<in> ids w'"
    by auto
qed

lemma pool_okI:
  assumes "pool_ok ids out (p, w)" and "distinct (map fst (po_idle p'))" and "ids w \<subseteq> ids w'"
    and "mset (out' @ all_idle p') = mset (out @ all_idle p)"
  shows "pool_ok ids out' (p', w')"
proof -
  have "distinct (out' @ all_idle p') = distinct (out @ all_idle p)"
    using assms(4) by (rule mset_eq_imp_distinct_iff)
  moreover have "set (out' @ all_idle p') = set (out @ all_idle p)"
    using assms(4) by (rule mset_eq_setD)
  ultimately show ?thesis using assms(1-3) unfolding pool_ok_def by (metis fst_conv order_trans snd_conv)
qed

lemma pool_ok_new:
  assumes "pool_ok ids out (p, w)" and "distinct (map fst (po_idle p'))" and "ids w \<subseteq> ids w'"
    and "mset (out' @ all_idle p') = add_mset i (mset (out @ all_idle p))"
    and "i \<notin> ids w" and "i \<in> ids w'"
  shows "pool_ok ids out' (p', w')"
proof -
  have m: "mset (out' @ all_idle p') = mset (i # out @ all_idle p)" using assms(4) by simp
  have "i \<notin> set (out @ all_idle p)" using assms(1,5) by (auto simp: pool_ok_def)
  then have "distinct (out' @ all_idle p')"
    using assms(1) mset_eq_imp_distinct_iff [OF m] by (simp add: pool_ok_def)
  moreover have "set (out' @ all_idle p') \<subseteq> ids w'"
    using assms(1,3,6) mset_eq_setD [OF m] by (auto simp: pool_ok_def)
  ultimately show ?thesis using assms(2) by (simp add: pool_ok_def)
qed

lemma create_one_ok:
  assumes "fresh_ids dk ids" and ok: "pool_ok ids out (p, w)"
    and c: "create_one dk img mem cpus nonet inp outd (p, w) = (r, p', w')"
  shows "pool_ok ids (out @ (case r of Inr i \<Rightarrow> [i] | Inl _ \<Rightarrow> [])) (p', w')"
proof -
  note r = create_one_ids [OF assms(1) c]
  have k: "distinct (map fst (po_idle p'))" using ok r(1) by (simp add: pool_ok_def)
  show ?thesis
  proof (cases r)
    case (Inl e)
    then show ?thesis using pool_okI [OF ok k r(2), of out] by (simp add: all_idle_def r(1))
  next
    case (Inr i)
    then show ?thesis
      using pool_ok_new [OF ok k r(2), of "out @ [i]" i] r(3) by (simp add: all_idle_def r(1))
  qed
qed

lemma handed_create:
  assumes "fresh_ids dk ids" and "pool_ok ids out (p, w)"
    and "handed (create_one dk img mem cpus nonet inp outd (p, w)) = (xs, s')"
  shows "pool_ok ids (out @ xs) s'"
proof -
  obtain r p' w' where c: "create_one dk img mem cpus nonet inp outd (p, w) = (r, p', w')"
    by (metis prod_cases3)
  show ?thesis using create_one_ok [OF assms(1,2) c] assms(3) c
    by (auto simp: handed_def split: sum.splits)
qed

lemma fold_discard_ids: "fresh_ids dk ids \<Longrightarrow> ids w \<subseteq> ids (fold (discard dk) xs w)"
proof (induction xs arbitrary: w)
  case (Cons x xs)
  from Cons.IH [OF Cons.prems, of "discard dk x w"] fresh_remove [OF Cons.prems, of w x]
  show ?case by (simp add: discard_def subset_trans)
qed simp

lemma pool_step_ok:
  assumes f: "fresh_ids dk ids" and ok: "pool_ok ids out s" and st: "pool_step dk e s = (xs, s')"
  shows "pool_ok ids (out @ xs) s'"
proof -
  obtain p w where s: "s = (p, w)" by (cases s)
  note ok = ok [unfolded s] and st = st [unfolded s]
  have keys: "distinct (map fst (po_idle p))" using ok by (simp add: pool_ok_def)
  show ?thesis
  proof (cases e)
    case (Acquire img)
    let ?p = "p\<lparr>po_known := List.insert img (po_known p)\<rparr>"
    have ok': "pool_ok ids out (?p, w)" using ok by (simp add: pool_ok_def all_idle_def)
    obtain r q where pop: "pop_idle img ?p = (r, q)" by fastforce
    show ?thesis
    proof (cases r)
      case None
      with pop_idle_None pop have q: "q = ?p" by blast
      from st Acquire pop None q have "handed (create_idle dk img (?p, w)) = (xs, s')"
        by (simp add: pool_acquire_def)
      from handed_create [OF f ok' this [unfolded create_idle_def]] show ?thesis .
    next
      case (Some i)
      with st Acquire pop have "xs = [i]" "s' = (q, w)" by (simp_all add: pool_acquire_def handed_def)
      with pop_idle_Some [OF pop [unfolded Some]] keys pool_okI [OF ok', of q w "out @ [i]"]
      show ?thesis by simp
    qed
  next
    case (Isolated img)
    with st handed_create [OF f ok] show ?thesis by (simp add: acquire_isolated_def)
  next
    case (Caps img mem cpus nonet inp outd)
    with st handed_create [OF f ok] show ?thesis by (simp add: acquire_with_caps_def)
  next
    case (FillOne img)
    obtain r p1 w1 where c: "create_idle dk img (p, w) = (r, p1, w1)" by (metis prod_cases3)
    note c' = c [unfolded create_idle_def]
    note r = create_one_ids [OF f c']
    have k1: "distinct (map fst (po_idle p1))" using keys r(1) by simp
    show ?thesis
    proof (cases r)
      case (Inl e)
      then show ?thesis using st FillOne c create_one_ok [OF f ok c'] by (simp add: fill_one_def)
    next
      case (Inr i)
      with st FillOne c have "xs = []" "s' = (set_idle img (idle_of img p1 @ [i]) p1, w1)"
        by (simp_all add: fill_one_def)
      moreover have "mset (all_idle (set_idle img (idle_of img p1 @ [i]) p1)) = add_mset i (mset (all_idle p))"
        using mset_set_idle [OF k1, of img "idle_of img p1 @ [i]"] by (simp add: all_idle_def r(1))
      ultimately show ?thesis
        using pool_ok_new [OF ok keys_set_idle [OF k1] r(2), of out _ _ i] r(3) Inr by simp
    qed
  next
    case (ScaleDown img n)
    obtain ids' p' where pm: "pop_many n img p = (ids', p')" by fastforce
    with st ScaleDown have "xs = ids'" "s' = (p', fold (discard dk) ids' w)"
      by (auto simp: scale_down_def)
    moreover from pop_many_mset [OF pm keys] have "pool_ok ids (out @ ids') (p', fold (discard dk) ids' w)"
      by (intro pool_okI [OF ok _ fold_discard_ids [OF f]]) (simp_all add: ac_simps)
    ultimately show ?thesis by simp
  next
    case (Discard i)
    with st have "xs = []" "s' = (p, dk_remove dk i w)" by (simp_all add: discard_def)
    with pool_okI [OF ok keys fresh_remove [OF f, of w i] refl] show ?thesis by simp
  next
    case (Retarget n)
    with st have "xs = []" "s' = (p\<lparr>po_target_idle := n\<rparr>, w)" by (simp_all add: set_target_idle_def)
    with ok show ?thesis by (simp add: pool_ok_def all_idle_def)
  qed
qed

lemma taken_out_ok:
  "fresh_ids dk ids \<Longrightarrow> pool_ok ids out s \<Longrightarrow> distinct (out @ taken_out dk es s)"
proof (induction es arbitrary: out s)
  case Nil
  then show ?case by (simp add: pool_ok_def)
next
  case (Cons e es)
  obtain xs s' where st: "pool_step dk e s = (xs, s')" by (cases "pool_step dk e s")
  from Cons.IH [OF Cons.prems(1) pool_step_ok [OF Cons.prems st]] st show ?case by simp
qed

text \<open>
  C33. Over every interleaving of acquires, refills, scale-downs and discards, a container leaves
  the pool at most once: none is handed to two runs, and none the filler removed is handed out.
\<close>
theorem container_used_once:
  assumes "fresh_ids dk ids"
  shows "distinct (taken_out dk es (pool_new target mem cpus, w))"
  using taken_out_ok [OF assms, of "[]" "(pool_new target mem cpus, w)" es]
  by (simp add: pool_ok_def pool_new_def all_idle_def)

text \<open>A Docker whose ids are numbered and that always succeeds.\<close>

definition counting_docker :: "nat docker" where
  "counting_docker =
     \<lparr>dk_inspect = (\<lambda>_ _. Some \<lparr>im_repo_digests = None, im_id = Some ''sha''\<rparr>),
      dk_pull = (\<lambda>_ w. (None, w)), dk_create = (\<lambda>_ w. (Inr (nat_str w), Suc w)),
      dk_start = (\<lambda>_ w. (None, w)), dk_remove = (\<lambda>_ w. w), dk_list_warm = (\<lambda>_. Some [])\<rparr>"

theorem container_used_once_witness:
  "taken_out counting_docker
     [FillOne ''py'', Acquire ''py'', FillOne ''py'', Acquire ''py'', Acquire ''py'', Isolated ''py'']
     (pool_new 2 0 0, 0) = [''0'', ''1'', ''2'', ''3''] \<and>
   distinct (taken_out counting_docker
     [FillOne ''py'', Acquire ''py'', FillOne ''py'', Acquire ''py'', Acquire ''py'', Isolated ''py'']
     (pool_new 2 0 0, 0))"
proof
  show "taken_out counting_docker
     [FillOne ''py'', Acquire ''py'', FillOne ''py'', Acquire ''py'', Acquire ''py'', Isolated ''py'']
     (pool_new 2 0 0, 0) = [''0'', ''1'', ''2'', ''3'']"
    by (simp add: counting_docker_def pool_new_def fill_one_def create_idle_def create_one_def
        ensure_image_def resolve_digest_def pool_digest_def image_digest_of_def Let_def set_idle_def
        idle_of_def pool_acquire_def pop_idle_def handed_def acquire_isolated_def digit_char_def nat_str.simps [of 0]
        nat_str.simps [of "Suc n" for n] char_of_def bit_0)
  have "fresh_ids counting_docker (\<lambda>w. nat_str ` {..<w})"
    by (auto simp: fresh_ids_def counting_docker_def)
  then show "distinct (taken_out counting_docker
     [FillOne ''py'', Acquire ''py'', FillOne ''py'', Acquire ''py'', Acquire ''py'', Isolated ''py'']
     (pool_new 2 0 0, 0))" by (rule container_used_once)
qed

end
