(* ===== verification/Scale.thy ===== *)
theory Scale
  imports Db_Runs
begin

text \<open>
  Autoscaling by Little's law (\<open>src/scale.rs\<close>): the resizable semaphore that bounds the jobs in
  flight, and the controller that sizes it and the warm pool.  Rates and times are doubles in the
  source and rationals here.
\<close>

section \<open>The concurrency limiter\<close>

text \<open>\<open>cn_held\<close> counts the permits that jobs hold; the source leaves that to the permits.\<close>

record concurrency =
  cn_available :: nat
  cn_current :: nat
  cn_max :: nat
  cn_held :: nat

definition conc_new :: "nat \<Rightarrow> nat \<Rightarrow> concurrency" where
  "conc_new initial hi =
     (let m = max hi 1; i = max 1 (min initial m)
      in \<lparr>cn_available = i, cn_current = i, cn_max = m, cn_held = 0\<rparr>)"

definition conc_acquire :: "concurrency \<Rightarrow> concurrency option" where
  "conc_acquire c =
     (if cn_available c = 0 then None
      else Some (c\<lparr>cn_available := cn_available c - 1, cn_held := cn_held c + 1\<rparr>))"

definition conc_release :: "concurrency \<Rightarrow> concurrency" where
  "conc_release c = c\<lparr>cn_available := cn_available c + 1, cn_held := cn_held c - 1\<rparr>"

text \<open>\<open>forget_permits\<close> takes back at most what is available and says how much that was.\<close>

definition conc_set :: "nat \<Rightarrow> concurrency \<Rightarrow> nat \<times> concurrency" where
  "conc_set target c =
     (let t = max 1 (min target (cn_max c)); cur = cn_current c;
          c' = (if cur < t then c\<lparr>cn_available := cn_available c + (t - cur), cn_current := t\<rparr>
                else if t < cur then
                  let removed = min (cur - t) (cn_available c)
                  in c\<lparr>cn_available := cn_available c - removed, cn_current := cur - removed\<rparr>
                else c)
      in (cn_current c', c'))"

datatype conc_op = CAcquire | CRelease | CSet nat

text \<open>An acquire with nothing available waits; only a held permit is released.\<close>

fun conc_step :: "conc_op \<Rightarrow> concurrency \<Rightarrow> concurrency" where
  "conc_step CAcquire c = (case conc_acquire c of Some c' \<Rightarrow> c' | None \<Rightarrow> c)"
| "conc_step CRelease c = (if 0 < cn_held c then conc_release c else c)"
| "conc_step (CSet n) c = snd (conc_set n c)"

definition conc_ok :: "concurrency \<Rightarrow> bool" where
  "conc_ok c =
     (cn_held c + cn_available c = cn_current c \<and> 1 \<le> cn_current c \<and> cn_current c \<le> cn_max c)"

lemma conc_new_ok: "conc_ok (conc_new i m)"
  by (simp add: conc_new_def conc_ok_def Let_def)

lemma conc_step_ok: "conc_ok c \<Longrightarrow> conc_ok (conc_step op c) \<and> cn_max (conc_step op c) = cn_max c"
  by (cases op)
    (auto simp: conc_ok_def conc_acquire_def conc_release_def conc_set_def Let_def split: option.splits)

text \<open>
  However jobs start and finish and the controller resizes it, the limiter never has more
  jobs in flight than its ceiling, keeps at least one slot, and lets a job in whenever fewer are in
  flight than its current size.
\<close>
theorem concurrency_bounded:
  "let c = fold conc_step ops (conc_new initial hi) in
     cn_held c \<le> cn_current c \<and> 1 \<le> cn_current c \<and> cn_current c \<le> max hi 1 \<and>
     (conc_acquire c = None \<longleftrightarrow> cn_held c = cn_current c)"
proof -
  have "conc_ok (fold conc_step ops c) \<and> cn_max (fold conc_step ops c) = cn_max c" if "conc_ok c" for c
    using that by (induction ops arbitrary: c) (simp_all add: conc_step_ok)
  from this [OF conc_new_ok, of initial hi] show ?thesis
    by (auto simp: conc_ok_def conc_acquire_def conc_new_def Let_def)
qed

section \<open>The controller\<close>

record scale_cfg =
  sc_conc_floor :: nat
  sc_conc_max :: nat
  sc_warm_floor :: nat
  sc_warm_max :: nat
  sc_headroom :: rat

text \<open>\<open>Ord::clamp\<close> asserts that its bounds are ordered.\<close>

definition clamp_usize :: "nat \<Rightarrow> nat \<Rightarrow> nat \<Rightarrow> nat option" where
  "clamp_usize lo hi n = (if hi < lo then None else Some (max lo (min n hi)))"

text \<open>\<open>avg(finished_at - started_at)\<close> over the runs that finished in the window.\<close>

definition mean_run_duration_secs :: "time \<Rightarrow> int \<Rightarrow> db \<Rightarrow> rat option" where
  "mean_run_duration_secs now window d =
     (let ts = List.map_filter (\<lambda>r. case (r_started_at r, r_finished_at r) of
             (Some s, Some f) \<Rightarrow> (if f > now - secs window then Some (f - s) else None)
           | _ \<Rightarrow> None) (runs d)
      in if ts = [] then None else Some (of_int (sum_list ts) / 1000000 / of_nat (length ts)))"

definition scale_window :: int where "scale_window = 10"
definition scale_alpha :: rat where "scale_alpha = 2 / 5"
definition nominal_w :: rat where "nominal_w = 2 / 5"

definition next_lambda :: "int \<Rightarrow> rat \<Rightarrow> rat" where
  "next_lambda arrivals lambda =
     scale_alpha * (of_int arrivals / of_int scale_window) + (1 - scale_alpha) * lambda"

definition service_time :: "rat option \<Rightarrow> rat" where
  "service_time w = max (1 / 20) (min 600 (case w of Some x \<Rightarrow> x | None \<Rightarrow> nominal_w))"

definition scale_target :: "scale_cfg \<Rightarrow> rat \<Rightarrow> rat \<Rightarrow> nat" where
  "scale_target cfg lambda w = nat \<lceil>lambda * w * sc_headroom cfg\<rceil>"

text \<open>One tick: the new rate, the resized limiter and the new warm target; \<open>None\<close> is a panic.\<close>

definition autoscale_tick ::
    "scale_cfg \<Rightarrow> time \<Rightarrow> db \<Rightarrow> rat \<Rightarrow> concurrency \<Rightarrow> (rat \<times> concurrency \<times> nat) option" where
  "autoscale_tick cfg now d lambda c =
     (let lambda' = next_lambda (arrivals_last_secs now scale_window d) lambda;
          w = service_time (mean_run_duration_secs now 60 d);
          target = scale_target cfg lambda' w
      in case clamp_usize (sc_conc_floor cfg) (sc_conc_max cfg) target of
           None \<Rightarrow> None
         | Some n \<Rightarrow>
             let (_, c') = conc_set n c in
             (case clamp_usize (sc_warm_floor cfg) (sc_warm_max cfg) target of
                None \<Rightarrow> None
              | Some m \<Rightarrow> Some (lambda', c', m)))"

text \<open>The command line sets floor and ceiling apart: nothing keeps them in order.\<close>

definition boot_scale_cfg :: "nat \<Rightarrow> nat \<Rightarrow> nat \<Rightarrow> nat \<Rightarrow> scale_cfg" where
  "boot_scale_cfg concurrency max_concurrency warm_idle max_warm =
     \<lparr>sc_conc_floor = concurrency, sc_conc_max = max_concurrency, sc_warm_floor = warm_idle,
      sc_warm_max = max_warm, sc_headroom = 13 / 10\<rparr>"

text \<open>
  The controller's first tick panics, and autoscaling with it, exactly when the configured
  floor of the concurrency or of the warm pool is above its ceiling.
\<close>
theorem autoscaler_panics_iff:
  "autoscale_tick (boot_scale_cfg concurrency max_concurrency warm_idle max_warm) now d lambda c = None \<longleftrightarrow>
     max_concurrency < concurrency \<or> max_warm < warm_idle"
  by (auto simp: autoscale_tick_def boot_scale_cfg_def clamp_usize_def Let_def split: option.splits prod.splits if_splits)

end
