(* ===== verification/Vault.thy ===== *)
theory Vault
  imports Receipt Db_Store
begin

text \<open>
  Secrets: sealing at rest (\<open>src/crypto.rs\<close>) and the per-process cache of opened secrets
  (\<open>all_secrets_for\<close> of \<open>src/db.rs\<close>) under concurrent readers and writers.

  ChaCha20-Poly1305 and the UTF-8 check are the fields of \<open>aead\<close>; a sealed value starts with the
  nonce the random generator gave.
\<close>

section \<open>Sealing\<close>

record aead =
  ae_seal :: "string \<Rightarrow> string \<Rightarrow> string option"  \<comment> \<open>nonce, plaintext\<close>
  ae_open :: "string \<Rightarrow> string \<Rightarrow> string option"  \<comment> \<open>nonce, ciphertext\<close>
  ae_utf8 :: "string \<Rightarrow> bool"

definition seal_prefix :: string where "seal_prefix = ''enc:v1:''"
definition nonce_len :: nat where "nonce_len = 12"

text \<open>\<open>cipher\<close> is \<open>None\<close> when no \<open>DOKAN_SECRET_KEY\<close> is configured.\<close>

definition encrypt :: "crypto \<Rightarrow> aead option \<Rightarrow> string \<Rightarrow> string \<Rightarrow> string" where
  "encrypt cr cipher nonce plain =
     (case cipher of
        None \<Rightarrow> plain
      | Some ae \<Rightarrow>
          (case ae_seal ae nonce plain of
             None \<Rightarrow> plain
           | Some ct \<Rightarrow> seal_prefix @ c_b64 cr (nonce @ ct)))"

definition decrypt :: "crypto \<Rightarrow> aead option \<Rightarrow> string \<Rightarrow> string" where
  "decrypt cr cipher stored =
     (case strip_prefix seal_prefix stored of
        None \<Rightarrow> stored
      | Some rest \<Rightarrow>
          (case cipher of
             None \<Rightarrow> []
           | Some ae \<Rightarrow>
               (case c_unb64 cr rest of
                  None \<Rightarrow> []
                | Some blob \<Rightarrow>
                    if length blob < nonce_len then []
                    else (case ae_open ae (take nonce_len blob) (drop nonce_len blob) of
                            Some b \<Rightarrow> if ae_utf8 ae b then b else []
                          | None \<Rightarrow> []))))"

definition random_token :: "string \<Rightarrow> string" where
  "random_token bytes = hex bytes"

definition to_lower :: "string \<Rightarrow> string" where
  "to_lower s = map (\<lambda>c. let n = of_char c :: nat in if 65 \<le> n \<and> n \<le> 90 then char_of (n + 32) else c) s"

definition dev_insecure :: "(string \<Rightarrow> string option) \<Rightarrow> bool" where
  "dev_insecure env =
     (case env ''DOKAN_DEV_INSECURE'' of Some v \<Rightarrow> v = ''1'' \<or> to_lower v = ''true'' | None \<Rightarrow> False)"

definition secret_key_configured :: "(string \<Rightarrow> string option) \<Rightarrow> bool" where
  "secret_key_configured env = (case env ''DOKAN_SECRET_KEY'' of Some k \<Rightarrow> k \<noteq> [] | None \<Rightarrow> False)"

text \<open>\<open>chacha\<close> is \<open>ChaCha20Poly1305::new\<close> on the 32-byte digest of the passphrase.\<close>

definition secret_crypto_from_env ::
    "crypto \<Rightarrow> (string \<Rightarrow> aead) \<Rightarrow> (string \<Rightarrow> string option) \<Rightarrow> aead option" where
  "secret_crypto_from_env cr chacha env =
     (case env ''DOKAN_SECRET_KEY'' of
        Some k \<Rightarrow> (if k \<noteq> [] then Some (chacha (c_sha cr k)) else None)
      | None \<Rightarrow> None)"

text \<open>The documented contract of an AEAD and of base64.\<close>

definition aead_ok :: "crypto \<Rightarrow> aead \<Rightarrow> bool" where
  "aead_ok cr ae =
     ((\<forall>n p ct. length n = nonce_len \<longrightarrow> ae_seal ae n p = Some ct \<longrightarrow> ae_open ae n ct = Some p) \<and>
      (\<forall>b. c_unb64 cr (c_b64 cr b) = Some b))"

text \<open>
  C32. Under a configured key every secret that is text is sealed and reads back as it was written,
  and a daemon that lacks the key reads it as empty.
\<close>
theorem seal_roundtrip:
  assumes "aead_ok cr ae" and "length nonce = nonce_len" and "ae_utf8 ae plain"
    and "ae_seal ae nonce plain \<noteq> None"
  shows "starts_with seal_prefix (encrypt cr (Some ae) nonce plain) \<and>
    decrypt cr (Some ae) (encrypt cr (Some ae) nonce plain) = plain \<and>
    decrypt cr None (encrypt cr (Some ae) nonce plain) = []"
proof -
  obtain ct where ct: "ae_seal ae nonce plain = Some ct" using assms(4) by auto
  have b: "c_unb64 cr (c_b64 cr b) = Some b" for b using assms(1) by (simp add: aead_ok_def)
  have o: "ae_open ae nonce ct = Some plain" using assms(1,2) ct by (simp add: aead_ok_def)
  have sp: "strip_prefix seal_prefix (seal_prefix @ x) = Some x" for x by simp
  show ?thesis
    using assms(2,3) by (simp add: encrypt_def decrypt_def starts_with_def ct b o sp del: strip_prefix_Some)
qed

text \<open>A cipher that reverses the text.\<close>

definition toy_aead :: aead where
  "toy_aead = \<lparr>ae_seal = (\<lambda>n p. Some (rev p)), ae_open = (\<lambda>n c. Some (rev c)), ae_utf8 = (\<lambda>s. True)\<rparr>"

theorem seal_roundtrip_witness:
  "encrypt toy_crypto (Some toy_aead) ''abcdefghijkl'' ''sk'' = ''enc:v1:abcdefghijklks'' \<and>
   decrypt toy_crypto (Some toy_aead) (encrypt toy_crypto (Some toy_aead) ''abcdefghijkl'' ''sk'') = ''sk''"
proof
  show "encrypt toy_crypto (Some toy_aead) ''abcdefghijkl'' ''sk'' = ''enc:v1:abcdefghijklks''"
    by (simp add: encrypt_def toy_crypto_def toy_aead_def seal_prefix_def)
  have "aead_ok toy_crypto toy_aead" by (simp add: aead_ok_def toy_crypto_def toy_aead_def)
  from seal_roundtrip [OF this, of "''abcdefghijkl''" "''sk''"]
  show "decrypt toy_crypto (Some toy_aead) (encrypt toy_crypto (Some toy_aead) ''abcdefghijkl'' ''sk'') = ''sk''"
    by (simp add: toy_aead_def nonce_len_def)
qed

text \<open>
  Without a key values are stored as they are, and one that happens to start with the prefix is
  taken for a sealed one when it is read.
\<close>

lemma unsealed_prefix_lost: "decrypt cr None (encrypt cr None nonce (seal_prefix @ rest)) = []"
proof -
  have "strip_prefix seal_prefix (seal_prefix @ rest) = Some rest" by simp
  then show ?thesis by (simp add: encrypt_def decrypt_def del: strip_prefix_Some)
qed

lemma unsealed_roundtrip: "\<not> starts_with seal_prefix v \<Longrightarrow> decrypt cr None (encrypt cr None nonce v) = v"
  by (simp add: encrypt_def decrypt_def starts_with_iff strip_prefix_None split: option.split)

section \<open>The cache\<close>

text \<open>
  \<open>all_secrets_for\<close> in the pieces between which other tasks and other processes run: read the
  generation, look in the cache, read the two tables, store what was read.
\<close>

definition cache_lookup ::
    "int \<Rightarrow> string option \<Rightarrow> secrets_cache \<Rightarrow> (string \<times> string) list option" where
  "cache_lookup g agent c =
     (if cache_generation c = g then map_of (cache_by_agent c) agent else None)"

definition cache_store ::
    "int \<Rightarrow> string option \<Rightarrow> (string \<times> string) list \<Rightarrow> secrets_cache \<Rightarrow> secrets_cache" where
  "cache_store g agent v c =
     (let c' = (if cache_generation c \<noteq> g then \<lparr>cache_generation = g, cache_by_agent = []\<rparr> else c)
      in c'\<lparr>cache_by_agent := AList.update agent v (cache_by_agent c')\<rparr>)"

definition load_globals :: "(string \<Rightarrow> string) \<Rightarrow> db \<Rightarrow> (string \<times> string) list" where
  "load_globals unseal d = map (\<lambda>(n, v). (n, unseal v)) (secrets d)"

definition load_scoped ::
    "(string \<Rightarrow> string) \<Rightarrow> string option \<Rightarrow> db \<Rightarrow> (string \<times> string) list \<Rightarrow> (string \<times> string) list" where
  "load_scoped unseal agent d globals =
     (case agent of None \<Rightarrow> globals
      | Some aid \<Rightarrow> fold (\<lambda>(n, v) m. AList.update n (unseal v) m) (agent_scoped aid d) globals)"

lemma all_secrets_for_pieces:
  "all_secrets_for unseal agent d c =
     (case cache_lookup (secrets_generation d) agent c of
        Some v \<Rightarrow> (v, c)
      | None \<Rightarrow>
          let v = load_scoped unseal agent d (load_globals unseal d)
          in (v, cache_store (secrets_generation d) agent v c))"
  by (simp add: all_secrets_for_def cache_lookup_def cache_store_def load_scoped_def
      load_globals_def load_secrets_for_def Let_def split: option.split)

text \<open>
  A reader remembers the version of the database it started at (a ghost) beside what the code
  holds; the versions themselves are the history of the database.
\<close>

datatype reader =
    Fresh
  | GotGen "string option" int nat
  | Missed "string option" int nat
  | HalfRead "string option" int nat "(string \<times> string) list"
  | Read "string option" int nat "(string \<times> string) list"
  | Returned "string option" nat "(string \<times> string) list"

record vault =
  va_history :: "db list"
  va_cache :: secrets_cache
  va_readers :: "nat \<Rightarrow> reader"

definition current :: "vault \<Rightarrow> db" where
  "current s = last (va_history s)"

definition version :: "vault \<Rightarrow> nat" where
  "version s = length (va_history s) - 1"

definition same_secrets :: "db \<Rightarrow> db \<Rightarrow> bool" where
  "same_secrets d d' = (secrets d' = secrets d \<and> agent_secrets d' = agent_secrets d)"

text \<open>A commit anywhere: a secret is set, or the statement leaves secrets and generation alone.\<close>

definition commits :: "db \<Rightarrow> db \<Rightarrow> bool" where
  "commits d d' =
     ((\<exists>seal name v agent. d' = upsert_secret seal name v agent d) \<or>
      (same_secrets d d' \<and> secrets_generation d' = secrets_generation d))"

definition set_reader :: "nat \<Rightarrow> reader \<Rightarrow> vault \<Rightarrow> vault" where
  "set_reader i r s = s\<lparr>va_readers := (va_readers s)(i := r)\<rparr>"

inductive vault_step :: "(string \<Rightarrow> string) \<Rightarrow> vault \<Rightarrow> vault \<Rightarrow> bool" for unseal where
  commit: "commits (current s) d' \<Longrightarrow> vault_step unseal s (s\<lparr>va_history := va_history s @ [d']\<rparr>)"
| read_gen: "vault_step unseal s
    (set_reader i (GotGen agent (secrets_generation (current s)) (version s)) s)"
| hit: "va_readers s i = GotGen agent g t \<Longrightarrow> cache_lookup g agent (va_cache s) = Some v \<Longrightarrow>
    vault_step unseal s (set_reader i (Returned agent t v) s)"
| miss: "va_readers s i = GotGen agent g t \<Longrightarrow> cache_lookup g agent (va_cache s) = None \<Longrightarrow>
    vault_step unseal s (set_reader i (Missed agent g t) s)"
| globals: "va_readers s i = Missed agent g t \<Longrightarrow>
    vault_step unseal s (set_reader i (HalfRead agent g t (load_globals unseal (current s))) s)"
| scoped: "va_readers s i = HalfRead agent g t m \<Longrightarrow>
    vault_step unseal s (set_reader i (Read agent g t (load_scoped unseal agent (current s) m)) s)"
| store: "va_readers s i = Read agent g t v \<Longrightarrow>
    vault_step unseal s
      (set_reader i (Returned agent t v) (s\<lparr>va_cache := cache_store g agent v (va_cache s)\<rparr>))"

definition vault_boot :: "db \<Rightarrow> vault" where
  "vault_boot d = \<lparr>va_history = [d], va_cache = empty_cache, va_readers = (\<lambda>i. Fresh)\<rparr>"

text \<open>\<open>v\<close> is what the tables held at or after version \<open>t\<close>, each read in one statement.\<close>

definition as_of :: "(string \<Rightarrow> string) \<Rightarrow> db list \<Rightarrow> string option \<Rightarrow> nat \<Rightarrow> (string \<times> string) list \<Rightarrow> bool" where
  "as_of unseal h agent t v =
     (\<exists>t1 t2. t \<le> t1 \<and> t1 \<le> t2 \<and> t2 < length h \<and>
        v = load_scoped unseal agent (h ! t2) (load_globals unseal (h ! t1)))"

definition history_ok :: "db list \<Rightarrow> bool" where
  "history_ok h =
     (h \<noteq> [] \<and> (\<forall>j<length h. \<forall>i\<le>j. secrets_generation (h ! i) \<le> secrets_generation (h ! j) \<and>
        (secrets_generation (h ! i) = secrets_generation (h ! j) \<longrightarrow> same_secrets (h ! i) (h ! j))))"

definition cache_ok :: "(string \<Rightarrow> string) \<Rightarrow> db list \<Rightarrow> secrets_cache \<Rightarrow> bool" where
  "cache_ok unseal h c =
     (\<forall>agent v. map_of (cache_by_agent c) agent = Some v \<longrightarrow>
        (\<exists>t<length h. secrets_generation (h ! t) = cache_generation c \<and> as_of unseal h agent t v))"

definition started :: "db list \<Rightarrow> int \<Rightarrow> nat \<Rightarrow> bool" where
  "started h g t = (t < length h \<and> secrets_generation (h ! t) = g)"

fun reader_ok :: "(string \<Rightarrow> string) \<Rightarrow> db list \<Rightarrow> reader \<Rightarrow> bool" where
  "reader_ok unseal h Fresh = True"
| "reader_ok unseal h (GotGen agent g t) = started h g t"
| "reader_ok unseal h (Missed agent g t) = started h g t"
| "reader_ok unseal h (HalfRead agent g t m) =
     (started h g t \<and> (\<exists>t1. t \<le> t1 \<and> t1 < length h \<and> m = load_globals unseal (h ! t1)))"
| "reader_ok unseal h (Read agent g t v) = (started h g t \<and> as_of unseal h agent t v)"
| "reader_ok unseal h (Returned agent t v) = as_of unseal h agent t v"

definition vault_ok :: "(string \<Rightarrow> string) \<Rightarrow> vault \<Rightarrow> bool" where
  "vault_ok unseal s =
     (history_ok (va_history s) \<and> cache_ok unseal (va_history s) (va_cache s) \<and>
      (\<forall>i. reader_ok unseal (va_history s) (va_readers s i)))"

lemma as_of_grow: "as_of unseal h agent t v \<Longrightarrow> as_of unseal (h @ [d]) agent t v"
proof -
  assume "as_of unseal h agent t v"
  then obtain t1 t2 where t: "t \<le> t1" "t1 \<le> t2" "t2 < length h"
    "v = load_scoped unseal agent (h ! t2) (load_globals unseal (h ! t1))" by (auto simp: as_of_def)
  then have "(h @ [d]) ! t1 = h ! t1" "(h @ [d]) ! t2 = h ! t2" by (simp_all add: nth_append)
  with t show ?thesis unfolding as_of_def by (metis length_append_singleton less_SucI)
qed

lemma reader_ok_grow: "reader_ok unseal h r \<Longrightarrow> reader_ok unseal (h @ [d]) r"
proof (induction unseal h r rule: reader_ok.induct)
  case (4 unseal h agent g t m)
  then obtain t1 where "started h g t" "t \<le> t1" "t1 < length h" "m = load_globals unseal (h ! t1)" by auto
  then show ?case by (auto simp: started_def nth_append intro!: exI [of _ t1])
qed (auto simp: started_def nth_append intro: as_of_grow)

lemma cache_ok_grow: "cache_ok unseal h c \<Longrightarrow> cache_ok unseal (h @ [d]) c"
proof -
  assume c: "cache_ok unseal h c"
  show ?thesis unfolding cache_ok_def
  proof (intro allI impI)
    fix agent v
    assume "map_of (cache_by_agent c) agent = Some v"
    with c obtain t where t: "t < length h" "secrets_generation (h ! t) = cache_generation c"
      "as_of unseal h agent t v" by (auto simp: cache_ok_def)
    then show "\<exists>t<length (h @ [d]). secrets_generation ((h @ [d]) ! t) = cache_generation c \<and>
        as_of unseal (h @ [d]) agent t v"
      using as_of_grow [OF t(3), of d] by (intro exI [of _ t]) (simp add: nth_append)
  qed
qed

lemma history_ok_grow:
  assumes h: "history_ok h" and "commits (last h) d"
  shows "history_ok (h @ [d])"
proof -
  have ne: "h \<noteq> []" using h by (simp add: history_ok_def)
  let ?l = "length h - 1"
  have l: "last h = h ! ?l" "?l < length h" using ne by (simp_all add: last_conv_nth)
  have step: "secrets_generation (h ! ?l) \<le> secrets_generation d \<and>
      (secrets_generation (h ! ?l) = secrets_generation d \<longrightarrow> same_secrets (h ! ?l) d)"
    using assms(2) l(1) by (auto simp: commits_def upsert_secret_def Let_def)
  have "secrets_generation ((h @ [d]) ! i) \<le> secrets_generation ((h @ [d]) ! j) \<and>
      (secrets_generation ((h @ [d]) ! i) = secrets_generation ((h @ [d]) ! j) \<longrightarrow>
       same_secrets ((h @ [d]) ! i) ((h @ [d]) ! j))"
    if ij: "j < length (h @ [d])" "i \<le> j" for i j
  proof (cases "j < length h")
    case True
    with ij h show ?thesis by (simp add: history_ok_def nth_append)
  next
    case False
    with ij have j: "j = length h" by simp
    show ?thesis
    proof (cases "i < length h")
      case True
      then have "i \<le> ?l" by simp
      with h l(2) have "secrets_generation (h ! i) \<le> secrets_generation (h ! ?l)"
        "secrets_generation (h ! i) = secrets_generation (h ! ?l) \<longrightarrow> same_secrets (h ! i) (h ! ?l)"
        by (simp_all add: history_ok_def)
      with step True j show ?thesis by (auto simp: nth_append same_secrets_def)
    next
      case False
      with ij j show ?thesis by (simp add: same_secrets_def)
    qed
  qed
  with ne show ?thesis by (auto simp: history_ok_def)
qed

text \<open>A hit is as fresh as a read would have been: equal generations mean equal tables.\<close>

lemma hit_fresh:
  assumes h: "history_ok h" and g: "started h g t" and c: "cache_ok unseal h c"
    and hit: "cache_lookup g agent c = Some v"
  shows "as_of unseal h agent t v"
proof -
  from hit have cg: "cache_generation c = g" "map_of (cache_by_agent c) agent = Some v"
    by (auto simp: cache_lookup_def split: if_splits)
  with c obtain t' where t': "t' < length h" "secrets_generation (h ! t') = g" "as_of unseal h agent t' v"
    by (auto simp: cache_ok_def)
  then obtain t1 t2 where t12: "t' \<le> t1" "t1 \<le> t2" "t2 < length h"
    "v = load_scoped unseal agent (h ! t2) (load_globals unseal (h ! t1))" by (auto simp: as_of_def)
  have tg: "t < length h" "secrets_generation (h ! t) = g" using g by (simp_all add: started_def)
  have same: "same_secrets (h ! k) (h ! t)" if "t' \<le> k" "k \<le> t" for k
  proof -
    have "secrets_generation (h ! t') \<le> secrets_generation (h ! k)"
      and "secrets_generation (h ! k) \<le> secrets_generation (h ! t)"
      and "secrets_generation (h ! k) = secrets_generation (h ! t) \<longrightarrow> same_secrets (h ! k) (h ! t)"
      using h that tg(1) by (simp_all add: history_ok_def)
    with t'(2) tg(2) show ?thesis by simp
  qed
  have gl: "load_globals unseal (h ! t1) = load_globals unseal (h ! max t t1)"
    using same [of t1] t12(1) by (cases "t1 \<le> t") (auto simp: load_globals_def same_secrets_def max_def)
  have scp: "load_scoped unseal agent (h ! t2) m = load_scoped unseal agent (h ! max t t2) m" for m
    using same [of t2] t12(1,2)
    by (cases "t2 \<le> t") (auto simp: load_scoped_def agent_scoped_def same_secrets_def max_def split: option.split)
  show ?thesis
    unfolding as_of_def using t12 tg(1) gl scp by (intro exI [of _ "max t t1"] exI [of _ "max t t2"]) auto
qed

lemma cache_store_ok:
  assumes "cache_ok unseal h c" and "started h g t" and "as_of unseal h agent t v"
  shows "cache_ok unseal h (cache_store g agent v c)"
proof -
  have "cache_generation (cache_store g agent v c) = g" by (simp add: cache_store_def Let_def)
  moreover have "\<exists>t<length h. secrets_generation (h ! t) = g \<and> as_of unseal h a t w"
    if "map_of (cache_by_agent (cache_store g agent v c)) a = Some w" for a w
  proof (cases "a = agent")
    case True
    with that have "w = v" by (simp add: cache_store_def Let_def update_conv')
    with True assms(2,3) show ?thesis by (auto simp: started_def)
  next
    case False
    with that have "cache_generation c = g" "map_of (cache_by_agent c) a = Some w"
      by (auto simp: cache_store_def Let_def update_conv' split: if_splits)
    with assms(1) show ?thesis by (auto simp: cache_ok_def)
  qed
  ultimately show ?thesis by (simp add: cache_ok_def)
qed

lemma now_started: "history_ok h \<Longrightarrow> started h (secrets_generation (last h)) (length h - 1)"
  by (simp add: history_ok_def started_def last_conv_nth)

lemma vault_step_ok:
  assumes "vault_step unseal s s'" and "vault_ok unseal s"
  shows "vault_ok unseal s'"
proof -
  from assms(2) have h: "history_ok (va_history s)" and c: "cache_ok unseal (va_history s) (va_cache s)"
    and r: "\<And>i. reader_ok unseal (va_history s) (va_readers s i)" by (simp_all add: vault_ok_def)
  have ne: "va_history s \<noteq> []" using h by (simp add: history_ok_def)
  have lst: "current s = va_history s ! (length (va_history s) - 1)"
    using ne by (simp add: current_def last_conv_nth)
  have set: "vault_ok unseal (set_reader i x s)" if "reader_ok unseal (va_history s) x" for i x
    using h c r that by (simp add: vault_ok_def set_reader_def)
  from assms(1) show ?thesis
  proof cases
    case (commit d')
    then show ?thesis
      using history_ok_grow [OF h] cache_ok_grow [OF c] reader_ok_grow [OF r]
      by (simp add: vault_ok_def current_def)
  next
    case (read_gen i agent)
    then show ?thesis using set now_started [OF h] by (simp add: current_def version_def)
  next
    case (hit i agent g t v)
    then show ?thesis using r [of i] set hit_fresh [OF h _ c] by simp
  next
    case (miss i agent g t)
    then show ?thesis using r [of i] set by simp
  next
    case (globals i agent g t)
    then have st: "started (va_history s) g t" using r [of i] by simp
    then have "reader_ok unseal (va_history s) (HalfRead agent g t (load_globals unseal (current s)))"
      unfolding lst using ne
      by (auto simp: started_def intro!: exI [of _ "length (va_history s) - 1"])
    with globals show ?thesis using set by simp
  next
    case (scoped i agent g t m)
    then obtain t1 where "started (va_history s) g t" "t \<le> t1" "t1 < length (va_history s)"
      "m = load_globals unseal (va_history s ! t1)" using r [of i] by auto
    then have "reader_ok unseal (va_history s) (Read agent g t (load_scoped unseal agent (current s) m))"
      unfolding lst reader_ok.simps as_of_def using ne
      by (intro conjI exI [of _ t1] exI [of _ "length (va_history s) - 1"]) auto
    with scoped show ?thesis using set by simp
  next
    case (store i agent g t v)
    then have "started (va_history s) g t" "as_of unseal (va_history s) agent t v" using r [of i] by simp_all
    with store show ?thesis
      using h r cache_store_ok [OF c] by (simp add: vault_ok_def set_reader_def)
  qed
qed

lemma vault_boot_ok: "vault_ok unseal (vault_boot d)"
  by (simp add: vault_ok_def vault_boot_def history_ok_def cache_ok_def empty_cache_def same_secrets_def)

text \<open>
  C31. The cache never serves a stale secret: whatever commits and other readers interleave with
  it, a job that starts reading its secrets at version \<open>t\<close> of the database gets what the tables
  held at \<open>t\<close> or later, hit or miss.
\<close>
theorem secrets_never_stale:
  assumes "(vault_step unseal)\<^sup>*\<^sup>* (vault_boot d) s" and "va_readers s i = Returned agent t v"
  shows "as_of unseal (va_history s) agent t v"
proof -
  from assms(1) have "vault_ok unseal s"
    by (induction rule: rtranclp_induct) (auto intro: vault_boot_ok vault_step_ok)
  then have "reader_ok unseal (va_history s) (va_readers s i)" by (simp add: vault_ok_def)
  with assms(2) show ?thesis by simp
qed

theorem secrets_never_stale_witness:
  "\<exists>s. (vault_step id)\<^sup>*\<^sup>* (vault_boot empty_db) s \<and> va_readers s 0 = Returned None 0 [] \<and>
       length (va_history s) = 2 \<and> as_of id (va_history s) None 0 []"
proof -
  let ?s0 = "vault_boot empty_db"
  let ?s1 = "set_reader 0 (GotGen None (secrets_generation (current ?s0)) (version ?s0)) ?s0"
  let ?s2 = "set_reader 0 (Missed None 0 0) ?s1"
  let ?s3 = "set_reader 0 (HalfRead None 0 0 (load_globals id (current ?s2))) ?s2"
  let ?d = "upsert_secret id ''K'' ''v'' None empty_db"
  let ?s4 = "?s3\<lparr>va_history := va_history ?s3 @ [?d]\<rparr>"
  let ?s5 = "set_reader 0 (Read None 0 0 (load_scoped id None (current ?s4) (load_globals id (current ?s2)))) ?s4"
  let ?s6 = "set_reader 0 (Returned None 0 (load_scoped id None (current ?s4) (load_globals id (current ?s2))))
    (?s5\<lparr>va_cache := cache_store 0 None (load_scoped id None (current ?s4) (load_globals id (current ?s2))) (va_cache ?s5)\<rparr>)"
  note simps = set_reader_def vault_boot_def current_def version_def cache_lookup_def empty_cache_def empty_db_def
  have "vault_step id ?s0 ?s1" by (rule read_gen)
  moreover have "vault_step id ?s1 ?s2" by (rule miss) (simp_all add: simps)
  moreover have "vault_step id ?s2 ?s3" by (rule globals) (simp add: set_reader_def)
  moreover have "vault_step id ?s3 ?s4" by (rule commit) (auto simp: commits_def simps)
  moreover have "vault_step id ?s4 ?s5" by (rule scoped) (simp add: set_reader_def)
  moreover have "vault_step id ?s5 ?s6" by (rule store) (simp add: set_reader_def)
  ultimately have reach: "(vault_step id)\<^sup>*\<^sup>* ?s0 ?s6"
    by (meson converse_rtranclp_into_rtranclp rtranclp.rtrancl_refl)
  have v: "load_scoped id None (current ?s4) (load_globals id (current ?s2)) = []"
    by (simp add: load_scoped_def load_globals_def simps)
  have r: "va_readers ?s6 0 = Returned None 0 []" using v by (simp add: set_reader_def)
  have "length (va_history ?s6) = 2" by (simp add: set_reader_def vault_boot_def)
  with reach r secrets_never_stale [OF reach r] show ?thesis by blast
qed

end
