(* ===== verification/Update.thy ===== *)
theory Update
  imports Mcp_Base Vault
begin

text \<open>
  The self-updater (\<open>src/update.rs\<close>): the gate on versions, the checksum and signature checks, the
  atomic replacement of the running binary, and the exit code.

  The network, the file system's faults and the installed binary's answer to \<open>--version\<close> are the
  fields of \<open>update_env\<close>; versions are the semver crate's, with its order.
\<close>

section \<open>The gate\<close>

datatype gate = UpToDate | Ahead | DevBuild | GoUpdate

definition update_gate :: "'v::linorder \<Rightarrow> 'v \<Rightarrow> bool \<Rightarrow> bool \<Rightarrow> gate" where
  "update_gate cur latest force debug_build =
     (if cur = latest then UpToDate
      else if latest < cur \<and> \<not> force then Ahead
      else if debug_build \<and> \<not> force then DevBuild
      else GoUpdate)"

definition parse_tag :: "(string \<Rightarrow> 'v option) \<Rightarrow> string \<Rightarrow> 'v option" where
  "parse_tag parse_version tag =
     parse_version (case strip_prefix ''v'' tag of Some s \<Rightarrow> s | None \<Rightarrow> tag)"

definition asset_name_for :: "string \<Rightarrow> string \<Rightarrow> string option" where
  "asset_name_for os arch =
     map_option (\<lambda>t. ''dokan-'' @ t)
       (if os = ''macos'' \<and> arch = ''aarch64'' then Some ''aarch64-apple-darwin''
        else if os = ''macos'' \<and> arch = ''x86_64'' then Some ''x86_64-apple-darwin''
        else if os = ''linux'' \<and> arch = ''x86_64'' then Some ''x86_64-unknown-linux-gnu''
        else if os = ''linux'' \<and> arch = ''aarch64'' then Some ''aarch64-unknown-linux-gnu''
        else None)"

section \<open>Checksums and signatures\<close>

text \<open>The digest and the last word of a line of \<open>SHA256SUMS\<close>, if it has two words.\<close>

definition sums_entry :: "string \<Rightarrow> (string \<times> string) option" where
  "sums_entry line =
     (case split_ws (trim line) of
        digest # name # rest \<Rightarrow> Some (digest, dropWhile (\<lambda>c. c = CHR ''*'') (last (name # rest)))
      | _ \<Rightarrow> None)"

fun sha_in_lines :: "string list \<Rightarrow> string \<Rightarrow> string option" where
  "sha_in_lines [] asset = None"
| "sha_in_lines (line # ls) asset =
     (case sums_entry line of
        Some (digest, name) \<Rightarrow> if name = asset then Some (to_lower digest) else sha_in_lines ls asset
      | None \<Rightarrow> sha_in_lines ls asset)"

definition sha_for_asset :: "string \<Rightarrow> string \<Rightarrow> string option" where
  "sha_for_asset sumtext asset = sha_in_lines (split_on (CHR 0x0A) sumtext) asset"

text \<open>\<open>RELEASE_SIGNING_PUBKEY\<close> is empty in the source: only the environment pins a key.\<close>

definition release_signing_pubkey :: string where "release_signing_pubkey = []"

definition release_pubkey :: "(string \<Rightarrow> string option) \<Rightarrow> string option" where
  "release_pubkey env =
     (case map_option trim (env ''DOKAN_RELEASE_PUBKEY'') of
        Some k \<Rightarrow> (if k \<noteq> [] then Some k
                    else if release_signing_pubkey \<noteq> [] then Some release_signing_pubkey else None)
      | None \<Rightarrow> (if release_signing_pubkey \<noteq> [] then Some release_signing_pubkey else None))"

definition ed25519_verify_detached :: "crypto \<Rightarrow> string \<Rightarrow> string \<Rightarrow> string \<Rightarrow> bool" where
  "ed25519_verify_detached cr pubkey msg sig =
     (case c_unb64 cr (trim pubkey) of
        None \<Rightarrow> False
      | Some pk \<Rightarrow>
          if length pk \<noteq> 32 \<or> \<not> c_ed_point cr pk then False
          else (case c_unb64 cr (trim sig) of
                  None \<Rightarrow> False
                | Some sg \<Rightarrow> length sg = 64 \<and> c_ed_verify cr pk msg sg))"

section \<open>Installing\<close>

record release =
  rl_tag :: string
  rl_assets :: "(string \<times> string) list"  \<comment> \<open>name, download URL\<close>

record 'v update_env =
  ue_crypto :: crypto
  ue_getenv :: "string \<Rightarrow> string option"
  ue_os :: string
  ue_arch :: string
  ue_parse :: "string \<Rightarrow> 'v option"
  ue_show :: "'v \<Rightarrow> string"
  ue_current :: "'v option"
  ue_debug :: bool
  ue_latest :: "string + release"
  ue_download :: "string \<Rightarrow> string + string"
  ue_utf8 :: "string \<Rightarrow> bool"
  ue_create :: "string option"
  ue_write :: "string option"
  ue_chmod :: "string option"
  ue_rename :: "string option"
  ue_version_of :: "string \<Rightarrow> string option"  \<comment> \<open>what a binary prints, if it starts\<close>

text \<open>The running install: the bytes at the live path, and whether a temp file lies beside them.\<close>

record install_state =
  is_live :: string
  is_temp :: bool

definition asset_url :: "release \<Rightarrow> string \<Rightarrow> string option" where
  "asset_url rel name = map_of (rl_assets rel) name"

definition install_atomic :: "'v update_env \<Rightarrow> string \<Rightarrow> install_state \<Rightarrow> (string + unit) \<times> install_state" where
  "install_atomic ue bytes s =
     (case ue_create ue of
        Some e \<Rightarrow> (Inl e, s)
      | None \<Rightarrow>
          (case ue_write ue of
             Some e \<Rightarrow> (Inl e, s\<lparr>is_temp := True\<rparr>)
           | None \<Rightarrow>
               (case ue_chmod ue of
                  Some e \<Rightarrow> (Inl e, s\<lparr>is_temp := False\<rparr>)
                | None \<Rightarrow>
                    (case ue_rename ue of
                       Some e \<Rightarrow> (Inl e, s\<lparr>is_temp := False\<rparr>)
                     | None \<Rightarrow> (Inr (), \<lparr>is_live = bytes, is_temp = False\<rparr>)))))"

definition verify_installed :: "'v update_env \<Rightarrow> 'v \<Rightarrow> string \<Rightarrow> string + unit" where
  "verify_installed ue latest live =
     (case ue_version_of ue live of
        None \<Rightarrow> Inl ''spawning installed binary --version''
      | Some out \<Rightarrow>
          if contains_str out (ue_show ue latest) then Inr ()
          else Inl (''installed binary reports `'' @ trim out @ ''`, expected version '' @ ue_show ue latest))"

definition fetch_asset :: "'v update_env \<Rightarrow> release \<Rightarrow> string \<Rightarrow> string + string" where
  "fetch_asset ue rel name =
     (case asset_url rel name of
        None \<Rightarrow> Inl (''release '' @ rl_tag rel @ '' has no asset `'' @ name @ ''`'')
      | Some url \<Rightarrow> ue_download ue url)"

text \<open>The signature over the checksums, when a release key is pinned.\<close>

definition check_provenance :: "'v update_env \<Rightarrow> release \<Rightarrow> string \<Rightarrow> string + unit" where
  "check_provenance ue rel sumtext =
     (case release_pubkey (ue_getenv ue) of
        None \<Rightarrow> Inr ()
      | Some pubkey \<Rightarrow>
          (case fetch_asset ue rel ''SHA256SUMS.sig'' of
             Inl e \<Rightarrow> Inl e
           | Inr sig \<Rightarrow>
               if \<not> ue_utf8 ue sig then Inl ''SHA256SUMS.sig is not valid UTF-8''
               else if ed25519_verify_detached (ue_crypto ue) pubkey sumtext sig then Inr ()
               else Inl ''SHA256SUMS signature does not verify against the pinned release key''))"

definition check_sum :: "'v update_env \<Rightarrow> string \<Rightarrow> string \<Rightarrow> string \<Rightarrow> string + unit" where
  "check_sum ue sumtext name bin =
     (if \<not> ue_utf8 ue sumtext then Inl ''SHA256SUMS is not valid UTF-8''
      else (case sha_for_asset sumtext name of
              None \<Rightarrow> Inl (''SHA256SUMS has no entry for `'' @ name @ ''`'')
            | Some expected \<Rightarrow>
                let actual = hex (c_sha (ue_crypto ue) bin) in
                if actual \<noteq> expected then
                  Inl (''checksum mismatch for `'' @ name @ ''`: expected '' @ expected @ '', got '' @ actual)
                else Inr ()))"

definition update_install ::
    "'v update_env \<Rightarrow> release \<Rightarrow> 'v \<Rightarrow> install_state \<Rightarrow> (string + unit) \<times> install_state" where
  "update_install ue rel latest s =
     (case asset_name_for (ue_os ue) (ue_arch ue) of
        None \<Rightarrow> (Inl ''no prebuilt release asset for this platform (build from source instead)'', s)
      | Some name \<Rightarrow>
          if asset_url rel name = None \<or> asset_url rel ''SHA256SUMS'' = None
          then (Inl ''release is missing an asset'', s)
          else (case fetch_asset ue rel name of
            Inl e \<Rightarrow> (Inl e, s)
          | Inr bin \<Rightarrow>
          (case fetch_asset ue rel ''SHA256SUMS'' of
            Inl e \<Rightarrow> (Inl e, s)
          | Inr sumtext \<Rightarrow>
          (case check_provenance ue rel sumtext of
            Inl e \<Rightarrow> (Inl e, s)
          | Inr _ \<Rightarrow>
          (case check_sum ue sumtext name bin of
            Inl e \<Rightarrow> (Inl e, s)
          | Inr _ \<Rightarrow>
          (case install_atomic ue bin s of
            (Inl e, s1) \<Rightarrow> (Inl e, s1)
          | (Inr _, s1) \<Rightarrow> (verify_installed ue latest (is_live s1), s1)))))))"

text \<open>The exit code and the install it leaves.  Refreshing the skill files and cycling launchd
  come after a verified install and cannot fail it.\<close>

definition update_run :: "('v::linorder) update_env \<Rightarrow> bool \<Rightarrow> bool \<Rightarrow> install_state \<Rightarrow> nat \<times> install_state" where
  "update_run ue force check s =
     (case ue_current ue of
        None \<Rightarrow> (1, s)
      | Some cur \<Rightarrow>
          (case ue_latest ue of
             Inl e \<Rightarrow> (1, s)
           | Inr rel \<Rightarrow>
               (case parse_tag (ue_parse ue) (rl_tag rel) of
                  None \<Rightarrow> (1, s)
                | Some latest \<Rightarrow>
                    if check then (0, s)
                    else (case update_gate cur latest force (ue_debug ue) of
                            GoUpdate \<Rightarrow>
                              (case update_install ue rel latest s of
                                 (Inr _, s') \<Rightarrow> (0, s') | (Inl _, s') \<Rightarrow> (1, s'))
                          | _ \<Rightarrow> (0, s)))))"

section \<open>What may become the running binary\<close>

text \<open>\<open>bin\<close> is a release binary whose integrity, and provenance where a key is pinned, was checked.\<close>

definition vouched :: "'v update_env \<Rightarrow> release \<Rightarrow> string \<Rightarrow> bool" where
  "vouched ue rel bin =
     (\<exists>name sumtext.
        asset_name_for (ue_os ue) (ue_arch ue) = Some name \<and> fetch_asset ue rel name = Inr bin \<and>
        fetch_asset ue rel ''SHA256SUMS'' = Inr sumtext \<and>
        sha_for_asset sumtext name = Some (sha256_hex (ue_crypto ue) bin) \<and>
        (\<forall>k. release_pubkey (ue_getenv ue) = Some k \<longrightarrow>
           (\<exists>sig. fetch_asset ue rel ''SHA256SUMS.sig'' = Inr sig \<and>
              ed25519_verify_detached (ue_crypto ue) k sumtext sig)))"

lemma install_atomic_live:
  "install_atomic ue bytes s = (r, s') \<Longrightarrow> is_live s' = is_live s \<or> (is_live s' = bytes \<and> r = Inr ())"
  by (auto simp: install_atomic_def split: option.splits)

lemma update_install_live:
  assumes "update_install ue rel latest s = (r, s')" and "is_live s' \<noteq> is_live s"
  shows "vouched ue rel (is_live s')"
proof -
  from assms obtain name where name: "asset_name_for (ue_os ue) (ue_arch ue) = Some name"
    by (auto simp: update_install_def split: option.splits)
  from assms name obtain bin where bin: "fetch_asset ue rel name = Inr bin"
    by (auto simp: update_install_def split: if_splits sum.splits)
  from assms name bin obtain st where st: "fetch_asset ue rel ''SHA256SUMS'' = Inr st"
    by (auto simp: update_install_def split: if_splits sum.splits)
  from assms name bin st have prov: "check_provenance ue rel st = Inr ()"
    by (auto simp: update_install_def split: if_splits sum.splits)
  from assms name bin st prov have cs: "check_sum ue st name bin = Inr ()"
    by (auto simp: update_install_def split: if_splits sum.splits)
  obtain r1 s1 where ia: "install_atomic ue bin s = (r1, s1)" by fastforce
  from assms name bin st prov cs ia have "s' = s1"
    by (auto simp: update_install_def split: if_splits sum.splits)
  with install_atomic_live [OF ia] assms(2) have live: "is_live s' = bin" by auto
  have "sha_for_asset st name = Some (sha256_hex (ue_crypto ue) bin)"
    using cs by (auto simp: check_sum_def Let_def sha256_hex_def split: if_splits option.splits)
  moreover have "\<exists>sig. fetch_asset ue rel ''SHA256SUMS.sig'' = Inr sig \<and>
      ed25519_verify_detached (ue_crypto ue) k st sig" if "release_pubkey (ue_getenv ue) = Some k" for k
    using prov that by (auto simp: check_provenance_def split: sum.splits if_splits)
  ultimately show ?thesis using name bin st live by (auto simp: vouched_def)
qed

text \<open>
  C37. An update replaces the running binary only by the platform's asset of the latest release,
  with the hash \<open>SHA256SUMS\<close> gives it, signed under the pinned key if there is one, and never on
  \<open>--check\<close>; unforced, only by a newer version and never over a development build.
\<close>
theorem update_integrity:
  assumes "update_run ue force check s = (code, s')" and "is_live s' \<noteq> is_live s"
  shows "\<exists>cur rel latest. ue_current ue = Some cur \<and> ue_latest ue = Inr rel \<and>
    parse_tag (ue_parse ue) (rl_tag rel) = Some latest \<and> vouched ue rel (is_live s') \<and>
    \<not> check \<and> cur \<noteq> latest \<and> (force \<or> (cur < latest \<and> \<not> ue_debug ue))"
proof -
  from assms obtain cur rel latest where c: "ue_current ue = Some cur" "ue_latest ue = Inr rel"
    "parse_tag (ue_parse ue) (rl_tag rel) = Some latest"
    by (auto simp: update_run_def split: option.splits sum.splits)
  from assms c have nc: "\<not> check" by (auto simp: update_run_def)
  from assms c nc have g: "update_gate cur latest force (ue_debug ue) = GoUpdate"
    by (auto simp: update_run_def split: gate.splits)
  obtain r s1 where ui: "update_install ue rel latest s = (r, s1)" by fastforce
  with assms(1) c nc g have "s' = s1" by (auto simp: update_run_def split: sum.splits)
  with update_install_live [OF ui] assms(2) have "vouched ue rel (is_live s')" by simp
  moreover have "cur \<noteq> latest" "force \<or> (cur < latest \<and> \<not> ue_debug ue)"
    using g by (auto simp: update_gate_def split: if_splits)
  ultimately show ?thesis using c nc by blast
qed

text \<open>A release whose binary is \<open>bin\<close>, for an install that reports \<open>says\<close>.\<close>

definition toy_update :: "string \<Rightarrow> nat update_env" where
  "toy_update says =
     \<lparr>ue_crypto = toy_crypto, ue_getenv = (\<lambda>v. None), ue_os = ''linux'', ue_arch = ''x86_64'',
      ue_parse = (\<lambda>t. Some 2), ue_show = (\<lambda>v. ''2''), ue_current = Some 1, ue_debug = False,
      ue_latest = Inr \<lparr>rl_tag = ''v2'', rl_assets =
        [(''dokan-x86_64-unknown-linux-gnu'', ''b''), (''SHA256SUMS'', ''s'')]\<rparr>,
      ue_download = (\<lambda>u. if u = ''b'' then Inr ''bin''
        else Inr (hex (replicate 32 CHR ''h'') @ ''  dokan-x86_64-unknown-linux-gnu'')),
      ue_utf8 = (\<lambda>s. True), ue_create = None, ue_write = None, ue_chmod = None, ue_rename = None,
      ue_version_of = (\<lambda>b. Some says)\<rparr>"

lemma toy_update_ok:
  "update_run (toy_update ''dokan 2'') False False \<lparr>is_live = ''old'', is_temp = False\<rparr> =
     (0, \<lparr>is_live = ''bin'', is_temp = False\<rparr>)"
  by code_simp

text \<open>
  Past the rename a failure is no longer a no-op: the installed binary reports another version, the
  updater exits with 1 and says it stays on the old one, but the new binary is in place.
\<close>

lemma failed_update_replaces:
  "update_run (toy_update ''dokan 3'') False False \<lparr>is_live = ''old'', is_temp = False\<rparr> =
     (1, \<lparr>is_live = ''bin'', is_temp = False\<rparr>)"
  by code_simp

theorem update_integrity_witness:
  "vouched (toy_update ''dokan 2'') \<lparr>rl_tag = ''v2'', rl_assets =
     [(''dokan-x86_64-unknown-linux-gnu'', ''b''), (''SHA256SUMS'', ''s'')]\<rparr> ''bin''"
proof -
  have rel: "ue_latest (toy_update ''dokan 2'') = Inr \<lparr>rl_tag = ''v2'', rl_assets =
     [(''dokan-x86_64-unknown-linux-gnu'', ''b''), (''SHA256SUMS'', ''s'')]\<rparr>"
    by (simp add: toy_update_def)
  from update_integrity [OF toy_update_ok] rel show ?thesis by auto
qed

end
