(* ===== verification/Daemon.thy ===== *)
theory Daemon
  imports Vault Scale Db_Flows Exec Queue_Laws
begin

text \<open>
  The daemon's boot and housekeeping (\<open>src/main.rs\<close>): the security gate, which role the process
  plays, the retention settings, and the loops that reclaim what dead workers left.
\<close>

section \<open>Boot\<close>

definition missing_keys :: "crypto \<Rightarrow> (string \<Rightarrow> string option) \<Rightarrow> string list" where
  "missing_keys cr env =
     (if \<not> secret_key_configured env then [''DOKAN_SECRET_KEY''] else []) @
     (if \<not> key_configured env then [''DOKAN_RECEIPT_KEY''] else []) @
     (if \<not> ed_key_configured cr env then [''DOKAN_RECEIPT_ED25519_SECRET''] else [])"

text \<open>The error is the list of what is missing; the prose around it is left out.\<close>

definition preflight_security :: "crypto \<Rightarrow> (string \<Rightarrow> string option) \<Rightarrow> string list + unit" where
  "preflight_security cr env =
     (if dev_insecure env then Inr ()
      else if missing_keys cr env \<noteq> [] then Inl (missing_keys cr env) else Inr ())"

definition is_executor :: "string list \<Rightarrow> bool" where
  "is_executor caps = (\<exists>c\<in>set caps. trim c \<noteq> [])"

definition log_days :: "rat \<Rightarrow> rat \<Rightarrow> rat" where
  "log_days log_retention retention =
     (if 0 < log_retention then (if 0 < retention then min log_retention retention else log_retention)
      else retention)"

text \<open>
  C38. A daemon that boots without the development flag seals secrets and signs with the keys of
  its environment: never in plaintext, never with a built-in key.
\<close>
theorem boot_fails_closed:
  assumes "preflight_security cr env = Inr ()" and "\<not> dev_insecure env"
  shows "(\<exists>k. env ''DOKAN_SECRET_KEY'' = Some k \<and> k \<noteq> [] \<and>
            secret_crypto_from_env cr chacha env = Some (chacha (c_sha cr k))) \<and>
         (\<exists>k. env ''DOKAN_RECEIPT_KEY'' = Some k \<and> k \<noteq> [] \<and> sg_key (signer_from_env cr env) = k) \<and>
         (\<exists>k seed. env ''DOKAN_RECEIPT_ED25519_SECRET'' = Some k \<and> ed_seed_from_b64 cr k = Some seed \<and>
            sg_ed (signer_from_env cr env) = seed)"
proof -
  from assms have "missing_keys cr env = []" by (simp add: preflight_security_def split: if_splits)
  then have k: "secret_key_configured env" "key_configured env" "ed_key_configured cr env"
    by (simp_all add: missing_keys_def split: if_splits)
  from k(1) obtain a where a: "env ''DOKAN_SECRET_KEY'' = Some a" "a \<noteq> []"
    by (auto simp: secret_key_configured_def split: option.splits)
  from k(2) obtain b where b: "env ''DOKAN_RECEIPT_KEY'' = Some b" "b \<noteq> []"
    by (auto simp: key_configured_def split: option.splits)
  from k(3) obtain c seed where c: "env ''DOKAN_RECEIPT_ED25519_SECRET'' = Some c"
    "ed_seed_from_b64 cr c = Some seed"
    by (cases "env ''DOKAN_RECEIPT_ED25519_SECRET''") (auto simp: ed_key_configured_def)
  show ?thesis using a b c by (simp add: secret_crypto_from_env_def signer_from_env_def ed_from_env_def)
qed

theorem boot_fails_closed_witness:
  "let env = [''DOKAN_SECRET_KEY'' \<mapsto> ''s'', ''DOKAN_RECEIPT_KEY'' \<mapsto> ''r'',
      ''DOKAN_RECEIPT_ED25519_SECRET'' \<mapsto> replicate 32 CHR ''e''] in
   preflight_security toy_crypto env = Inr () \<and> sg_key (signer_from_env toy_crypto env) = ''r''"
proof -
  let ?env = "[''DOKAN_SECRET_KEY'' \<mapsto> ''s'', ''DOKAN_RECEIPT_KEY'' \<mapsto> ''r'',
      ''DOKAN_RECEIPT_ED25519_SECRET'' \<mapsto> replicate 32 CHR ''e'']"
  have p: "preflight_security toy_crypto ?env = Inr ()"
    by (simp add: preflight_security_def missing_keys_def secret_key_configured_def key_configured_def
        ed_key_configured_def ed_seed_from_b64_def toy_crypto_def trim_def trim_start_def trim_end_def is_ws_def)
  have n: "\<not> dev_insecure ?env" by (simp add: dev_insecure_def)
  from boot_fails_closed [OF p n] p show ?thesis by auto
qed

section \<open>Housekeeping\<close>

text \<open>Both TTLs are in days; zero or less switches a sweep off.\<close>

definition retention_tick :: "rat \<Rightarrow> time \<Rightarrow> db \<Rightarrow> db" where
  "retention_tick days now d = (if 0 < days then retention_sweep now days d else d)"

definition log_tick :: "rat \<Rightarrow> rat \<Rightarrow> time \<Rightarrow> db \<Rightarrow> db" where
  "log_tick log_retention retention now d =
     (let days = log_days log_retention retention
      in if 0 < days then snd (gc_logs now days d) else d)"

text \<open>\<open>pending_to\<close> is the pending timeout as a span of time; zero switches the check off.\<close>

definition reaper_tick :: "time \<Rightarrow> time \<Rightarrow> db \<Rightarrow> db" where
  "reaper_tick pending_to now d =
     (let d1 = (if 0 < pending_to then snd (fail_stale_pending now pending_to d) else d);
          d2 = snd (reap_orphan_runs now (secs run_lease_secs) d1)
      in snd (reap_orphan_flow_runs now (secs run_lease_secs) d2))"

lemma reap_flow_runs_runs [simp]: "runs (snd (reap_orphan_flow_runs now lease d)) = runs d"
  by (simp add: reap_orphan_flow_runs_def Let_def)

definition stale_row :: "time \<Rightarrow> time \<Rightarrow> run \<Rightarrow> bool" where
  "stale_row now pending_to r = (0 < pending_to \<and> r_status r = Pending \<and> r_created_at r < now - pending_to)"

text \<open>What a tick makes of a row.\<close>

definition reaped_row :: "time \<Rightarrow> time \<Rightarrow> run \<Rightarrow> run" where
  "reaped_row pending_to now r =
     (if stale_row now pending_to r
      then r\<lparr>r_status := Failed, r_error := Some ''unclaimed: pending past timeout'', r_finished_at := Some now\<rparr>
      else if r_status r = Running \<and> lease_expired now (secs run_lease_secs) r then back_to_pending r
      else r)"

lemma reaper_tick_runs: "runs (reaper_tick pending_to now d) = map (reaped_row pending_to now) (runs d)"
proof -
  have "runs (reaper_tick pending_to now d) =
      update_where (\<lambda>q. r_status q = Running \<and> lease_expired now (secs run_lease_secs) q) back_to_pending
        (if 0 < pending_to then update_where (\<lambda>q. r_status q = Pending \<and> r_created_at q < now - pending_to)
            (\<lambda>q. q\<lparr>r_status := Failed, r_error := Some ''unclaimed: pending past timeout'',
                   r_finished_at := Some now\<rparr>) (runs d) else runs d)"
    by (simp add: reaper_tick_def Let_def reap_orphan_runs_def fail_stale_pending_def)
  also have "\<dots> = map (reaped_row pending_to now) (runs d)"
    by (auto simp: update_where_def reaped_row_def stale_row_def)
  finally show ?thesis .
qed

lemma reaper_tick_lookup:
  "run_by_id i (reaper_tick pending_to now d) = map_option (reaped_row pending_to now) (run_by_id i d)"
proof -
  have id: "r_id (reaped_row pending_to now r) = r_id r" for r
    by (simp add: reaped_row_def)
  have "find (\<lambda>r. r_id r = i) (map (reaped_row pending_to now) rs) =
      map_option (reaped_row pending_to now) (find (\<lambda>r. r_id r = i) rs)" for rs
    by (induction rs) (simp_all add: id)
  then show ?thesis by (simp add: run_by_id_def reaper_tick_runs)
qed

text \<open>A run that beat within the lease and is running is left alone.\<close>

lemma reaper_spares:
  "run_by_id i d = Some r \<Longrightarrow> r_status r = Running \<Longrightarrow> r_heartbeat_at r = Some t \<Longrightarrow>
   now - t \<le> secs run_lease_secs \<Longrightarrow> run_by_id i (reaper_tick pending_to now d) = Some r"
  by (simp add: reaper_tick_lookup reaped_row_def stale_row_def lease_expired_def)

text \<open>
  The pending timeout counts from a run's creation: a run whose worker died is put back in the
  queue by one tick and, when it was enqueued longer ago than the timeout, failed by the next as
  never claimed, unless a worker claims it in between.
\<close>
theorem reaped_run_expires:
  assumes "run_by_id i d = Some r" and "r_status r = Running"
    and "lease_expired now (secs run_lease_secs) r"
    and "0 < pending_to" and "r_created_at r < now - pending_to" and "now \<le> now'"
  shows "get_run_status i (reaper_tick pending_to now d) = Some Pending \<and>
    get_run_status i (reaper_tick pending_to now' (reaper_tick pending_to now d)) = Some Failed \<and>
    run_error i (reaper_tick pending_to now' (reaper_tick pending_to now d)) =
      Some ''unclaimed: pending past timeout''"
  using assms
  by (simp add: get_run_status_def run_error_def reaper_tick_lookup reaped_row_def stale_row_def back_to_pending_def)

theorem reaped_run_expires_witness:
  "get_run_status 1 (reaper_tick (secs 1800) (secs 2030) (reaper_tick (secs 1800) (secs 2000)
     (snd (claim_run (secs 1000) [''python''] [] sample_db)))) = Some Failed"
proof -
  let ?d = "snd (claim_run (secs 1000) [''python''] [] sample_db)"
  obtain r where r: "run_by_id 1 ?d = Some r" "r_status r = Running" "r_heartbeat_at r = Some (secs 1000)"
    "r_created_at r = 0" by (simp add: sample_simps)
  have e: "lease_expired (secs 2000) (secs run_lease_secs) r"
    by (simp add: lease_expired_def r(3) secs_def run_lease_secs_def default_timeout_secs_def)
  from reaped_run_expires [OF r(1,2) e, of "secs 1800" "secs 2030"] r(4) show ?thesis
    by (simp add: secs_def)
qed

end
