(* ===== verification/Tools.thy ===== *)
theory Tools
  imports Catalog Mcp_Runs
begin

text \<open>
  The surface an agent sees: every tool that \<open>#[tool_router] impl Dokan\<close> of \<open>src/mcp.rs\<close> registers,
  with its parameter struct, as one function \<open>call_tool\<close> on the state a server shares with the rest of
  the daemon, the database and the scheduler.  The protocol (names, schemas, JSON-RPC) is rmcp's.
\<close>

section \<open>Parameter structs\<close>

record search_args =
  se_query :: string
  se_limit :: "int option"

record get_script_args =
  gs_id :: int
  gs_include_source :: "bool option"

record upload_blob_args =
  ub_data :: string
  ub_filename :: "string option"

record read_logs_args =
  rl_run_id :: int
  rl_after_cursor :: "int option"
  rl_limit :: "int option"

record wait_for_args =
  wf_run_id :: int
  wf_timeout :: "nat option"

record list_runs_args =
  lr_status :: "string option"
  lr_limit :: "int option"
  lr_script_id :: "int option"
  lr_outcome :: "string option"

record compose_flow_args =
  cf_name :: string
  cf_spec :: json

record run_flow_args =
  rf_flow_id :: int
  rf_input :: "json option"

record flow_run_args =
  fa_flow_run_id :: int
  fa_limit :: "int option"
  fa_after :: "int option"

record create_webhook_args =
  cw_target :: string
  cw_target_id :: int
  cw_agent_id :: "string option"

record on_result_args =
  or_source :: int
  or_predicate :: "json option"
  or_target :: int
  or_agent_id :: "string option"

record set_secret_args =
  ss_name :: string
  ss_value :: string
  ss_agent_id :: "string option"

record reproduce_args =
  rp_run_id :: int
  rp_timeout :: "nat option"
  rp_agent_id :: "string option"

text \<open>A call: the tool and its parameters (a struct of one field is that field).\<close>

datatype tool_call =
    SearchScript search_args
  | ListScripts "int option"
  | GetScript get_script_args
  | UploadScript upload_args
  | OnResult on_result_args
  | ListExecutors
  | ListTriggers
  | DeleteTriggerTool int
  | DeleteScriptTool int
  | UploadBlob upload_blob_args
  | ListBlobs "int option"
  | DownloadBlob string
  | RunScript run_request
  | ReadLogs read_logs_args
  | WaitFor wait_for_args
  | ListRuns list_runs_args
  | ComposeFlow compose_flow_args
  | RunFlow run_flow_args
  | GetFlowRun flow_run_args
  | ScheduleTool schedule_args
  | ListSchedules
  | CreateWebhook create_webhook_args
  | ListWebhooks
  | DeleteWebhook int
  | SetSecret set_secret_args
  | GetReceipt int
  | Reproduce reproduce_args
  | ListSecrets "string option"
  | Whoami "string option"
  | Unschedule int
  | CancelTool int
  | VerifyTool int

section \<open>The server\<close>

text \<open>
  What a server is made of beside the database and the scheduler: the executor's surroundings, the
  embedder (if loaded), and the columns and library functions the tools print with.  \<open>te_token\<close> is what
  \<open>random_token\<close> draws, \<open>te_others\<close> what the rest of the system does while a tool sleeps.
\<close>

record ('c, 'z) tool_env =
  te_exec :: exec_env
  te_trusted_keys :: "string set option"
  te_others :: "nat \<Rightarrow> db \<Rightarrow> db"
  te_seal :: "string \<Rightarrow> string"
  te_rfc3339 :: "time \<Rightarrow> string"
  te_script_created :: "int \<Rightarrow> time"
  te_blob_created :: "string \<Rightarrow> time"
  te_webhook_created :: "int \<Rightarrow> time"
  te_executor_started :: "string \<Rightarrow> time"
  te_lib :: "('c, 'z) cron_lib"
  te_embedder :: "(string \<Rightarrow> (script \<Rightarrow> rat option) option) option"
  te_text :: text_match
  te_node_order :: "string list \<Rightarrow> string list"
  te_bigint :: "string \<Rightarrow> int option"
  te_cast_error :: string
  te_token :: string

record tool_state =
  ts_cron :: "cron_state option"
  ts_db :: db

type_synonym tool_answer = "((mcp_error + json) \<times> tool_state) panics"

definition looks :: "(db \<Rightarrow> mcp_error + json) \<Rightarrow> tool_state \<Rightarrow> tool_answer" where
  "looks f s = Some (f (ts_db s), s)"

definition works :: "(db \<Rightarrow> tool_result) \<Rightarrow> tool_state \<Rightarrow> tool_answer" where
  "works f s = (case f (ts_db s) of (r, d) \<Rightarrow> Some (r, s\<lparr>ts_db := d\<rparr>))"

definition schedules_too ::
    "(cron_state option \<Rightarrow> db \<Rightarrow> (mcp_error + json) \<times> cron_state option \<times> db) \<Rightarrow> tool_state \<Rightarrow> tool_answer" where
  "schedules_too f s = (case f (ts_cron s) (ts_db s) of (r, cr, d) \<Rightarrow> Some (r, \<lparr>ts_cron = cr, ts_db = d\<rparr>))"

fun call_tool :: "('c, 'z) tool_env \<Rightarrow> tool_call \<Rightarrow> tool_state \<Rightarrow> tool_answer" where
  "call_tool te (SearchScript a) = looks (search_script (te_embedder te) (te_text te) (se_query a) (se_limit a))"
| "call_tool te (ListScripts limit) = looks (mcp_list_scripts limit)"
| "call_tool te (GetScript a) =
     looks (mcp_get_script (te_rfc3339 te) (te_script_created te) (gs_id a) (gs_include_source a))"
| "call_tool te (UploadScript a) =
     works (upload_script (ee_db_msg (te_exec te)) (ee_max_timeout (te_exec te)) a)"
| "call_tool te (OnResult a) =
     works (on_result (ee_db_msg (te_exec te)) (or_source a) (or_predicate a) (or_target a) (or_agent_id a))"
| "call_tool te ListExecutors =
     looks (\<lambda>d. mcp_list_executors (te_rfc3339 te) (te_executor_started te) (ee_clock (te_exec te) d) d)"
| "call_tool te ListTriggers = looks mcp_list_triggers"
| "call_tool te (DeleteTriggerTool i) = works (mcp_delete_trigger i)"
| "call_tool te (DeleteScriptTool i) = schedules_too (mcp_delete_script (ee_db_msg (te_exec te)) i)"
| "call_tool te (UploadBlob a) = works (upload_blob (te_exec te) (ub_data a))"
| "call_tool te (ListBlobs limit) = looks (mcp_list_blobs (te_rfc3339 te) (te_blob_created te) limit)"
| "call_tool te (DownloadBlob h) = works (download_blob (te_exec te) h)"
| "call_tool te (RunScript a) = works (run_script (te_exec te) a)"
| "call_tool te (ReadLogs a) = looks (read_logs (rl_run_id a) (rl_after_cursor a) (rl_limit a))"
| "call_tool te (WaitFor a) = works (wait_for (te_others te) (wf_run_id a) (wf_timeout a))"
| "call_tool te (ListRuns a) =
     looks (mcp_list_runs (te_rfc3339 te) (lr_status a) (lr_limit a) (lr_script_id a) (lr_outcome a))"
| "call_tool te (ComposeFlow a) =
     works (compose_flow (te_node_order te) (c_parse (ee_crypto (te_exec te))) (cf_spec a))"
| "call_tool te (RunFlow a) =
     works (run_flow (ee_db_msg (te_exec te)) (c_parse (ee_crypto (te_exec te))) (rf_flow_id a) (rf_input a))"
| "call_tool te (GetFlowRun a) =
     looks (get_flow_run (te_bigint te) (te_cast_error te) (fa_flow_run_id a) (fa_limit a) (fa_after a))"
| "call_tool te (ScheduleTool a) =
     (\<lambda>s. schedules_too (schedule_script (te_lib te) (te_rfc3339 te) (ee_db_msg (te_exec te))
        (c_parse (ee_crypto (te_exec te))) (ee_clock (te_exec te) (ts_db s)) a) s)"
| "call_tool te ListSchedules =
     looks (\<lambda>d. mcp_list_schedules (te_lib te) (te_rfc3339 te) (ee_clock (te_exec te) d) d)"
| "call_tool te (CreateWebhook a) =
     works (create_webhook (ee_db_msg (te_exec te)) (te_token te) (cw_target a) (cw_target_id a) (cw_agent_id a))"
| "call_tool te ListWebhooks = looks (mcp_list_webhooks (te_rfc3339 te) (te_webhook_created te))"
| "call_tool te (DeleteWebhook i) = works (mcp_delete_webhook i)"
| "call_tool te (SetSecret a) = works (set_secret (te_seal te) (ss_name a) (ss_value a) (ss_agent_id a))"
| "call_tool te (GetReceipt i) = looks (get_receipt i)"
| "call_tool te (Reproduce a) =
     (\<lambda>s. map_option (\<lambda>(r, d). (r, s\<lparr>ts_db := d\<rparr>))
        (reproduce (te_exec te) (te_trusted_keys te) (te_others te) (rp_run_id a) (rp_timeout a) (rp_agent_id a)
          (ts_db s)))"
| "call_tool te (ListSecrets agent) = looks (list_secrets agent)"
| "call_tool te (Whoami agent) = looks (whoami (te_exec te) agent)"
| "call_tool te (Unschedule i) = schedules_too (unschedule i)"
| "call_tool te (CancelTool i) = works (mcp_cancel (te_exec te) i)"
| "call_tool te (VerifyTool i) =
     (\<lambda>s. map_option (\<lambda>r. (r, s)) (mcp_verify (te_exec te) (te_trusted_keys te) i (ts_db s)))"

text \<open>What goes back over the wire: a text, or a protocol error.\<close>

datatype call_result = Success string | ProtocolError mcp_error

definition tool_ok :: "(json \<Rightarrow> string) \<Rightarrow> mcp_error + json \<Rightarrow> call_result" where
  "tool_ok to_string r = (case r of Inr v \<Rightarrow> Success (to_string v) | Inl e \<Rightarrow> ProtocolError e)"

end
