(* ===== verification/Router.thy ===== *)
theory Router
  imports Http
begin

text \<open>
  The HTTP surface as one function: the route tables of \<open>src/http.rs\<close> (\<open>operator_router\<close>,
  \<open>webhook_router\<close>, \<open>health_router\<close>) and how \<open>serve_http\<close> of \<open>src/main.rs\<close> puts them together with the
  bearer gate and the MCP service.

  What axum does is a parameter (\<open>axum\<close>): how a path matches a pattern, how the extractors read an
  argument, and its own answers.  A route table is what the calls of \<open>route\<close>, \<open>merge\<close> and \<open>layer\<close>
  build: an earlier entry wins, which no two patterns of the program make a difference of.
\<close>

datatype http_method = GET | HEAD | POST | OtherMethod string

record 'ip request =
  rq_method :: http_method
  rq_path :: string
  rq_query :: string
  rq_headers :: headers
  rq_body :: string
  rq_peer :: 'ip

text \<open>A path of \<open>route\<close>, or everything below a path of \<open>nest_service\<close>.\<close>

datatype pattern = Route string | Nest string

record 'ip axum =
  ax_match :: "pattern \<Rightarrow> string \<Rightarrow> string list option"  \<comment> \<open>the captured segments\<close>
  ax_i64 :: "string \<Rightarrow> int option"  \<comment> \<open>\<open>Path<i64>\<close> of a segment\<close>
  ax_query :: "string \<Rightarrow> string \<Rightarrow> int option option"  \<comment> \<open>an optional \<open>i64\<close> field of \<open>Query\<close>\<close>
  ax_json :: "'ip request \<Rightarrow> response + json"  \<comment> \<open>the body under \<open>Json\<close>\<close>
  ax_bad_path :: response
  ax_bad_query :: response
  ax_bad_body :: response
  ax_not_allowed :: response
  ax_fallback :: "'ip request \<Rightarrow> response"  \<comment> \<open>no route; \<open>layer\<close> wraps the router's fallback too, so this may be the gate's 401\<close>

type_synonym 'ip handler = "string list \<Rightarrow> 'ip request \<Rightarrow> hook_state \<Rightarrow> (response \<times> hook_state) panics"
type_synonym 'ip routes = "(pattern \<times> (http_method \<Rightarrow> 'ip handler)) list"

section \<open>Route tables\<close>

text \<open>A \<open>GET\<close> route serves \<open>HEAD\<close> too.\<close>

definition refuse :: "response \<Rightarrow> 'ip handler" where
  "refuse r = (\<lambda>caps rq s. Some (r, s))"

definition on_get :: "'ip axum \<Rightarrow> 'ip handler \<Rightarrow> http_method \<Rightarrow> 'ip handler" where
  "on_get ax h m = (if m = GET \<or> m = HEAD then h else refuse (ax_not_allowed ax))"

definition on_post :: "'ip axum \<Rightarrow> 'ip handler \<Rightarrow> http_method \<Rightarrow> 'ip handler" where
  "on_post ax h m = (if m = POST then h else refuse (ax_not_allowed ax))"

definition on_get_post :: "'ip axum \<Rightarrow> 'ip handler \<Rightarrow> 'ip handler \<Rightarrow> http_method \<Rightarrow> 'ip handler" where
  "on_get_post ax g p m = (if m = POST then p else on_get ax g m)"

definition layer :: "('ip handler \<Rightarrow> 'ip handler) \<Rightarrow> 'ip routes \<Rightarrow> 'ip routes" where
  "layer f rts = map (\<lambda>(p, mr). (p, \<lambda>m. f (mr m))) rts"

fun dispatch :: "'ip axum \<Rightarrow> 'ip routes \<Rightarrow> 'ip request \<Rightarrow> hook_state \<Rightarrow> (response \<times> hook_state) panics" where
  "dispatch ax [] rq s = Some (ax_fallback ax rq, s)"
| "dispatch ax ((p, mr) # rts) rq s =
     (case ax_match ax p (rq_path rq) of
        Some caps \<Rightarrow> mr (rq_method rq) caps rq s
      | None \<Rightarrow> dispatch ax rts rq s)"

section \<open>Extractors\<close>

definition with_db :: "(db \<Rightarrow> response \<times> db) \<Rightarrow> hook_state \<Rightarrow> (response \<times> hook_state) panics" where
  "with_db f s = (case f (hs_db s) of (r, d) \<Rightarrow> Some (r, s\<lparr>hs_db := d\<rparr>))"

definition reading :: "(db \<Rightarrow> response) \<Rightarrow> 'ip handler" where
  "reading f = (\<lambda>caps rq s. Some (f (hs_db s), s))"

definition with_id :: "'ip axum \<Rightarrow> (int \<Rightarrow> 'ip handler) \<Rightarrow> 'ip handler" where
  "with_id ax h = (\<lambda>caps rq s.
     case Option.bind (case caps of [x] \<Rightarrow> Some x | _ \<Rightarrow> None) (ax_i64 ax) of
       None \<Rightarrow> Some (ax_bad_path ax, s)
     | Some i \<Rightarrow> h i caps rq s)"

definition with_query :: "'ip axum \<Rightarrow> string \<Rightarrow> (int option \<Rightarrow> 'ip handler) \<Rightarrow> 'ip handler" where
  "with_query ax field h = (\<lambda>caps rq s.
     case ax_query ax field (rq_query rq) of
       None \<Rightarrow> Some (ax_bad_query ax, s)
     | Some v \<Rightarrow> h v caps rq s)"

definition with_json :: "'ip axum \<Rightarrow> (json \<Rightarrow> 'a option) \<Rightarrow> ('a \<Rightarrow> 'ip handler) \<Rightarrow> 'ip handler" where
  "with_json ax of_body h = (\<lambda>caps rq s.
     case ax_json ax rq of
       Inl r \<Rightarrow> Some (r, s)
     | Inr v \<Rightarrow> (case of_body v of None \<Rightarrow> Some (ax_bad_body ax, s) | Some b \<Rightarrow> h b caps rq s))"

text \<open>\<open>TriggerBody\<close>: a missing or null \<open>input\<close> is \<open>None\<close>; \<open>SecretBody\<close>.\<close>

definition trigger_body :: "json \<Rightarrow> (int \<times> json option) option" where
  "trigger_body v =
     (case get_as as_i64 ''script_id'' v of
        None \<Rightarrow> None
      | Some sid \<Rightarrow> Some (sid, (case jget ''input'' v of Some JNull \<Rightarrow> None | x \<Rightarrow> x)))"

definition secret_body :: "json \<Rightarrow> (string \<times> string) option" where
  "secret_body v =
     (case (get_as as_str ''name'' v, get_as as_str ''value'' v) of
        (Some n, Some x) \<Rightarrow> Some (n, x) | _ \<Rightarrow> None)"

section \<open>The routers\<close>

text \<open>
  What the handlers share, beside the database: \<open>AppState\<close> with the surroundings of the process.
  \<open>he_mcp\<close> is the MCP service that rmcp runs over the tools; \<open>he_others\<close> what the rest of the system
  does while a handler sleeps, \<open>he_polls\<close> the databases a stream gets to see.
\<close>

record ('ip, 'c, 'z) http_env =
  he_exec :: exec_env
  he_trusted_keys :: "string set option"
  he_others :: "nat \<Rightarrow> db \<Rightarrow> db"
  he_polls :: "db \<Rightarrow> (db \<times> db) list"
  he_seal :: "string \<Rightarrow> string"
  he_rfc3339 :: "time \<Rightarrow> string"
  he_blob_created :: "string \<Rightarrow> time"
  he_lib :: "('c, 'z) cron_lib"
  he_lossy :: "string \<Rightarrow> string"
  he_show_ip :: "'ip \<Rightarrow> string"
  he_trusted_ips :: "'ip list"
  he_now_secs :: nat
  he_page :: string
  he_metrics :: string
  he_version :: string
  he_db_up :: bool
  he_mcp :: "'ip request \<Rightarrow> hook_state \<Rightarrow> (response \<times> hook_state) panics"

definition operator_router :: "'ip axum \<Rightarrow> ('ip, 'c, 'z) http_env \<Rightarrow> 'ip routes" where
  "operator_router ax he =
     [(Route ''/'', on_get ax (reading (\<lambda>d. HtmlResp (he_page he)))),
      (Route ''/metrics'', on_get ax (reading (\<lambda>d. TextResp 200 (he_metrics he)))),
      (Route ''/api/runs'', on_get_post ax
         (with_query ax ''limit'' (\<lambda>limit. reading (api_list_runs (he_rfc3339 he) limit)))
         (with_json ax trigger_body (\<lambda>(sid, input) caps rq. with_db (api_trigger_run (he_exec he) sid input)))),
      (Route ''/api/runs/{id}/cancel'', on_post ax
         (with_id ax (\<lambda>i caps rq. with_db (api_cancel_run (he_exec he) i)))),
      (Route ''/api/runs/{id}/logs'', on_get ax
         (with_id ax (\<lambda>i. with_query ax ''after'' (\<lambda>after. reading (api_run_logs i after))))),
      (Route ''/api/runs/{id}/stream'', on_get ax
         (with_id ax (\<lambda>i. reading (\<lambda>d. SseResp (with_cursors 0 (run_stream i (he_polls he d))))))),
      (Route ''/api/runs/{id}/receipt'', on_get ax (with_id ax (\<lambda>i. reading (api_run_receipt i)))),
      (Route ''/api/runs/{id}/verify'', on_get ax
         (with_id ax (\<lambda>i caps rq s.
            map_option (\<lambda>r. (r, s)) (api_verify_run (he_exec he) (he_trusted_keys he) i (hs_db s))))),
      (Route ''/api/runs/{id}/reproduce'', on_post ax
         (with_id ax (\<lambda>i caps rq s.
            map_option (\<lambda>(r, d). (r, s\<lparr>hs_db := d\<rparr>))
              (api_reproduce_run (he_exec he) (he_trusted_keys he) (he_others he) i (hs_db s))))),
      (Route ''/api/receipt/pubkey'', on_get ax (reading (\<lambda>d. receipt_pubkey (he_exec he)))),
      (Route ''/api/scripts'', on_get ax (with_query ax ''limit'' (\<lambda>limit. reading (api_list_scripts limit)))),
      (Route ''/api/blobs'', on_get ax
         (with_query ax ''limit'' (\<lambda>limit. reading (api_list_blobs (he_rfc3339 he) (he_blob_created he) limit)))),
      (Route ''/api/schedules'', on_get ax
         (reading (\<lambda>d. api_list_schedules (he_lib he) (he_rfc3339 he) (ee_clock (he_exec he) d) d))),
      (Route ''/api/secrets'', on_get_post ax (reading api_list_secrets)
         (with_json ax secret_body (\<lambda>(n, v) caps rq. with_db (api_set_secret (he_seal he) n v))))]"

definition hook_route :: pattern where "hook_route = Route ''/hook/{token}''"
definition health_route :: pattern where "health_route = Route ''/health''"

definition hook_handler :: "'ip axum \<Rightarrow> ('ip, 'c, 'z) http_env \<Rightarrow> 'ip handler" where
  "hook_handler ax he = (\<lambda>caps rq s.
     case caps of
       [tok] \<Rightarrow> Some (webhook_fire (he_show_ip he) (he_trusted_ips he) (he_exec he) (he_lossy he) (he_now_secs he)
                  \<lparr>hk_peer = rq_peer rq, hk_token = tok, hk_headers = rq_headers rq, hk_body = rq_body rq\<rparr> s)
     | _ \<Rightarrow> Some (ax_bad_path ax, s))"

definition webhook_router :: "'ip axum \<Rightarrow> ('ip, 'c, 'z) http_env \<Rightarrow> 'ip routes" where
  "webhook_router ax he = [(hook_route, on_post ax (hook_handler ax he))]"

definition health_router :: "'ip axum \<Rightarrow> ('ip, 'c, 'z) http_env \<Rightarrow> 'ip routes" where
  "health_router ax he = [(health_route, on_get ax (reading (\<lambda>d. health (he_version he) (he_db_up he))))]"

section \<open>The application\<close>

definition unauthorized :: response where
  "unauthorized = TextResp 401 ''unauthorized''"

definition auth :: "string option \<Rightarrow> 'ip handler \<Rightarrow> 'ip handler" where
  "auth token h = (\<lambda>caps rq s. auth_gate token (rq_headers rq) (Some (unauthorized, s)) (h caps rq s))"

definition protected_routes :: "'ip axum \<Rightarrow> ('ip, 'c, 'z) http_env \<Rightarrow> string option \<Rightarrow> 'ip routes" where
  "protected_routes ax he token =
     layer (auth token) ((Nest ''/mcp'', \<lambda>m caps. he_mcp he) # operator_router ax he)"

definition app_routes :: "'ip axum \<Rightarrow> ('ip, 'c, 'z) http_env \<Rightarrow> string option \<Rightarrow> 'ip routes" where
  "app_routes ax he token = webhook_router ax he @ health_router ax he @ protected_routes ax he token"

definition serve_http ::
    "'ip axum \<Rightarrow> ('ip, 'c, 'z) http_env \<Rightarrow> string option \<Rightarrow> 'ip request \<Rightarrow> hook_state
     \<Rightarrow> (response \<times> hook_state) panics" where
  "serve_http ax he token rq s = dispatch ax (app_routes ax he token) rq s"

section \<open>What the gate covers\<close>

abbreviation routed :: "'ip axum \<Rightarrow> 'ip routes \<Rightarrow> string \<Rightarrow> bool" where
  "routed ax rts path \<equiv> list_ex (\<lambda>(p, mr). ax_match ax p path \<noteq> None) rts"

lemma dispatch_append:
  "dispatch ax (r1 @ r2) rq s =
     (if routed ax r1 (rq_path rq) then dispatch ax r1 rq s else dispatch ax r2 rq s)"
  by (induction r1) (auto split: option.splits)

text \<open>A table behind the gate: refused as a whole, or as if the gate were not there.\<close>

lemma dispatch_layer_auth:
  "dispatch ax (layer (auth (Some t)) rts) rq s =
     (if bearer_matches (rq_headers rq ''authorization'') t then dispatch ax rts rq s
      else if routed ax rts (rq_path rq) then Some (unauthorized, s)
      else Some (ax_fallback ax rq, s))"
  by (induction rts) (auto simp: layer_def auth_def auth_gate_def split: option.splits)

lemma layer_open: "layer (auth None) rts = rts"
  by (induction rts) (auto simp: layer_def auth_def auth_gate_def)

definition behind_gate :: "'ip axum \<Rightarrow> ('ip, 'c, 'z) http_env \<Rightarrow> string \<Rightarrow> bool" where
  "behind_gate ax he path =
     (ax_match ax (Nest ''/mcp'') path \<noteq> None \<or> routed ax (operator_router ax he) path)"

text \<open>
  C21. With a token configured, a request that does not carry it reaches nothing but the webhook and the
  health probe: every route of the operator's API, the page, the metrics and the whole MCP service
  answer 401 and leave the state as it was.  A request that carries it is served as if no gate were
  there.
\<close>
theorem gate_covers_routes:
  "serve_http ax he (Some t) rq s =
     (if bearer_matches (rq_headers rq ''authorization'') t then serve_http ax he None rq s
      else case ax_match ax hook_route (rq_path rq) of
        Some caps \<Rightarrow> on_post ax (hook_handler ax he) (rq_method rq) caps rq s
      | None \<Rightarrow>
          if ax_match ax health_route (rq_path rq) \<noteq> None
          then Some (if rq_method rq = GET \<or> rq_method rq = HEAD then health (he_version he) (he_db_up he)
                     else ax_not_allowed ax, s)
          else if behind_gate ax he (rq_path rq) then Some (unauthorized, s)
          else Some (ax_fallback ax rq, s))"
proof (cases "ax_match ax hook_route (rq_path rq)")
  case None
  note no_hook = this
  show ?thesis
  proof (cases "ax_match ax health_route (rq_path rq)")
    case None
    have "routed ax ((Nest ''/mcp'', \<lambda>m caps. he_mcp he) # operator_router ax he) (rq_path rq) =
        behind_gate ax he (rq_path rq)"
      by (simp add: behind_gate_def)
    then show ?thesis using no_hook None
      by (simp add: serve_http_def app_routes_def webhook_router_def health_router_def protected_routes_def
          dispatch_layer_auth layer_open behind_gate_def)
  next
    case (Some caps)
    then show ?thesis using no_hook
      by (simp add: serve_http_def app_routes_def webhook_router_def health_router_def on_get_def reading_def
          refuse_def)
  qed
qed (simp add: serve_http_def app_routes_def webhook_router_def)

end
