(* ===== verification/Secrecy.thy ===== *)
theory Secrecy
  imports Tools Router Exec_Laws
begin

text \<open>
  Secrets are write-only: nothing an agent or an operator can ask the daemon depends on the value of a
  stored secret.  Stated as noninterference: two daemons whose databases differ in nothing but those
  values answer every sequence of tool calls and HTTP requests alike.

  \<open>erase\<close> blanks the values and keeps the names; \<open>write_only\<close> is the contract of an interface that
  cannot tell a database from its erasure.
\<close>

named_theorems blind \<open>a statement or handler does not see the values\<close>

section \<open>Erasing the values\<close>

definition erase :: "db \<Rightarrow> db" where
  "erase d =
     d\<lparr>secrets := map (\<lambda>x. (fst x, [])) (secrets d), agent_secrets := map (\<lambda>x. (fst x, [])) (agent_secrets d)\<rparr>"

lemma erase_select [simp]:
  "scripts (erase d) = scripts d" "runs (erase d) = runs d" "logs (erase d) = logs d"
  "schedules (erase d) = schedules d" "flows (erase d) = flows d" "flow_runs (erase d) = flow_runs d"
  "flow_steps (erase d) = flow_steps d" "triggers (erase d) = triggers d" "webhooks (erase d) = webhooks d"
  "blobs (erase d) = blobs d" "executors (erase d) = executors d"
  "secrets_generation (erase d) = secrets_generation d" "script_seq (erase d) = script_seq d"
  "run_seq (erase d) = run_seq d" "schedule_seq (erase d) = schedule_seq d" "flow_seq (erase d) = flow_seq d"
  "flow_run_seq (erase d) = flow_run_seq d" "trigger_seq (erase d) = trigger_seq d"
  "webhook_seq (erase d) = webhook_seq d"
  by (simp_all add: erase_def)

lemma erase_update [simp]:
  "erase (d\<lparr>scripts := a\<rparr>) = (erase d)\<lparr>scripts := a\<rparr>" "erase (d\<lparr>runs := b\<rparr>) = (erase d)\<lparr>runs := b\<rparr>"
  "erase (d\<lparr>logs := c\<rparr>) = (erase d)\<lparr>logs := c\<rparr>" "erase (d\<lparr>schedules := e\<rparr>) = (erase d)\<lparr>schedules := e\<rparr>"
  "erase (d\<lparr>flows := f\<rparr>) = (erase d)\<lparr>flows := f\<rparr>" "erase (d\<lparr>flow_runs := g\<rparr>) = (erase d)\<lparr>flow_runs := g\<rparr>"
  "erase (d\<lparr>flow_steps := h\<rparr>) = (erase d)\<lparr>flow_steps := h\<rparr>" "erase (d\<lparr>triggers := i\<rparr>) = (erase d)\<lparr>triggers := i\<rparr>"
  "erase (d\<lparr>webhooks := j\<rparr>) = (erase d)\<lparr>webhooks := j\<rparr>" "erase (d\<lparr>blobs := k\<rparr>) = (erase d)\<lparr>blobs := k\<rparr>"
  "erase (d\<lparr>secrets_generation := l\<rparr>) = (erase d)\<lparr>secrets_generation := l\<rparr>"
  "erase (d\<lparr>script_seq := m\<rparr>) = (erase d)\<lparr>script_seq := m\<rparr>" "erase (d\<lparr>run_seq := n\<rparr>) = (erase d)\<lparr>run_seq := n\<rparr>"
  "erase (d\<lparr>schedule_seq := q\<rparr>) = (erase d)\<lparr>schedule_seq := q\<rparr>" "erase (d\<lparr>flow_seq := r\<rparr>) = (erase d)\<lparr>flow_seq := r\<rparr>"
  "erase (d\<lparr>flow_run_seq := s\<rparr>) = (erase d)\<lparr>flow_run_seq := s\<rparr>"
  "erase (d\<lparr>trigger_seq := t\<rparr>) = (erase d)\<lparr>trigger_seq := t\<rparr>"
  "erase (d\<lparr>webhook_seq := u\<rparr>) = (erase d)\<lparr>webhook_seq := u\<rparr>"
  by (simp_all add: erase_def)

lemma erase_names [simp]:
  "map fst (secrets (erase d)) = map fst (secrets d)"
  "map fst (agent_secrets (erase d)) = map fst (agent_secrets d)"
  by (simp_all add: erase_def comp_def)

lemma erase_erase [simp]: "erase (erase d) = erase d"
  by (simp add: erase_def comp_def)

abbreviation erase2 :: "'a \<times> db \<Rightarrow> 'a \<times> db" where
  "erase2 \<equiv> apsnd erase"

abbreviation erase_res :: "'e + 'a \<times> db \<Rightarrow> 'e + 'a \<times> db" where
  "erase_res \<equiv> map_sum id erase2"

lemma case_erase_res [simp]:
  "(case erase_res x of Inl e \<Rightarrow> f e | Inr y \<Rightarrow> g y) = (case x of Inl e \<Rightarrow> f e | Inr y \<Rightarrow> g (erase2 y))"
  by (cases x) simp_all

lemma case_erase2 [simp]: "(case erase2 x of (a, d) \<Rightarrow> f a d) = (case x of (a, d) \<Rightarrow> f a (erase d))"
  by (cases x) simp

section \<open>Statements\<close>

lemma blind_keys [simp]: "get_script i (erase d) = get_script i d" "run_by_id i (erase d) = run_by_id i d"
  by (simp_all add: get_script_def run_by_id_def)

lemma blind_lookups [blind]:
  "get_run_status i (erase d) = get_run_status i d" "get_flow_spec i (erase d) = get_flow_spec i d"
  "run_receipt i (erase d) = run_receipt i d" "run_result i (erase d) = run_result i d"
  "run_output_blobs i (erase d) = run_output_blobs i d" "run_progress i (erase d) = run_progress i d"
  "read_logs_after i after m (erase d) = read_logs_after i after m d" "max_log_seq i (erase d) = max_log_seq i d"
  "status_or s i (erase d) = status_or s i d" "agent_running_count a (erase d) = agent_running_count a d"
  "agent_compute_seconds t a w (erase d) = agent_compute_seconds t a w d"
  "find_run_by_idempotency k (erase d) = find_run_by_idempotency k d"
  "find_flow_run_by_idempotency k (erase d) = find_flow_run_by_idempotency k d"
  "find_cached_run k (erase d) = find_cached_run k d" "find_script_by_name nm (erase d) = find_script_by_name nm d"
  "list_schedules (erase d) = list_schedules d" "list_runs st sid n (erase d) = list_runs st sid n d"
  "run_status_counts (erase d) = run_status_counts d" "blob_exists h (erase d) = blob_exists h d"
  "find_webhook_by_token tok (erase d) = find_webhook_by_token tok d"
  "run_reproduce_inputs i (erase d) = run_reproduce_inputs i d" "has_idem_key k (erase d) = has_idem_key k d"
  "get_schedule i (erase d) = get_schedule i d" "add_outputs i (erase d) j = add_outputs i d j"
  by (simp_all add: get_run_status_def get_flow_spec_def run_receipt_def run_result_def
      run_output_blobs_def run_progress_def read_logs_after_def max_log_seq_def status_or_def agent_running_count_def
      agent_compute_seconds_def find_run_by_idempotency_def find_flow_run_by_idempotency_def find_cached_run_def
      find_script_by_name_def list_schedules_def list_runs_def run_status_counts_def blob_exists_def
      find_webhook_by_token_def run_reproduce_inputs_def has_idem_key_def get_schedule_def
      add_outputs_def split: option.split)

lemma scoped_names:
  "map fst (map (\<lambda>((a, n), v). (n, v)) (filter (\<lambda>((a, n), v). a = aid) xs)) =
   map snd (filter (\<lambda>k. fst k = aid) (map fst xs))"
  by (induction xs) auto

lemma blind_names [blind]: "secret_names agent (erase d) = secret_names agent d"
proof -
  have "map fst (agent_scoped aid (erase d)) = map fst (agent_scoped aid d)" for aid
    unfolding agent_scoped_def scoped_names erase_names ..
  then show ?thesis unfolding secret_names_def Let_def erase_names(1) by (simp split: option.split)
qed

lemma blind_inserts [blind]:
  "insert_run_with_blobs now sid input agent inb cap (erase d) =
     erase_res (insert_run_with_blobs now sid input agent inb cap d)"
  "insert_run now sid input agent (erase d) = erase_res (insert_run now sid input agent d)"
  "insert_run_idempotent now sid input agent inb cap k (erase d) =
     erase_res (insert_run_idempotent now sid input agent inb cap k d)"
  by (simp_all add: insert_run_with_blobs_def insert_run_def insert_run_idempotent_def blind split: option.split)

lemma blind_insert_steps:
  "insert_steps ss (erase d) = map_sum id erase (insert_steps ss d)"
proof (induction ss arbitrary: d)
  case (Cons s ss)
  from Cons.IH [of "d\<lparr>flow_steps := flow_steps d @ [s]\<rparr>"] show ?case by (auto simp: has_step_def)
qed simp

lemma case_map_erase [simp]:
  "(case map_sum id erase x of Inl e \<Rightarrow> f e | Inr d \<Rightarrow> g d) = (case x of Inl e \<Rightarrow> f e | Inr d \<Rightarrow> g (erase d))"
  by (cases x) simp_all

lemma blind_ledger: "insert_ledger fid spec input key (erase d) = erase_res (insert_ledger fid spec input key d)"
proof -
  let ?d = "d\<lparr>flow_runs := flow_runs d @ [new_flow_run (flow_run_seq d) fid input key],
              flow_run_seq := flow_run_seq d + 1\<rparr>"
  have e: "(erase d)\<lparr>flow_runs := flow_runs d @ [new_flow_run (flow_run_seq d) fid input key],
              flow_run_seq := flow_run_seq d + 1\<rparr> = erase ?d" by simp
  show ?thesis
    unfolding insert_ledger_def by (simp add: blind Let_def e blind_insert_steps del: erase_update split: sum.split)
qed

lemma blind_flows [blind]:
  "insert_flow spec (erase d) = erase2 (insert_flow spec d)"
  "insert_flow_run fid spec input (erase d) = erase_res (insert_flow_run fid spec input d)"
  "insert_flow_run_idempotent fid spec input key (erase d) = erase_res (insert_flow_run_idempotent fid spec input key d)"
  by (auto simp: insert_flow_def insert_flow_run_def insert_flow_run_idempotent_def flow_run_of_key_def blind_ledger
      split: option.split sum.split)

lemma blind_run_writes [blind]:
  "cancel_run now i r (erase d) = erase2 (cancel_run now i r d)"
  "set_run_cache_key i k (erase d) = erase (set_run_cache_key i k d)"
  "enqueued i key (erase d) = erase2 (enqueued i key d)"
  by (simp_all add: cancel_run_def set_run_cache_key_def enqueued_def split: option.split)

lemma blind_blobs [blind]:
  "put_blob sha now bytes (erase d) = erase2 (put_blob sha now bytes d)"
  "get_blob now h (erase d) = erase2 (get_blob now h d)"
  by (simp_all add: put_blob_def get_blob_def blind split: option.split)

lemma blind_scripts [blind]:
  "insert_script nm rt src de cr net mem cpu fd tmo (erase d) = erase2 (insert_script nm rt src de cr net mem cpu fd tmo d)"
  "update_script i rt src de cr net mem cpu fd tmo (erase d) = erase_res (update_script i rt src de cr net mem cpu fd tmo d)"
  "update_script_meta i rt de cr net mem cpu fd tmo (erase d) = erase2 (update_script_meta i rt de cr net mem cpu fd tmo d)"
  "set_script_secrets i names (erase d) = erase (set_script_secrets i names d)"
  "delete_script i (erase d) = erase_res (delete_script i d)"
  by (simp_all add: insert_script_def update_script_def update_script_meta_def set_script_secrets_def
      delete_script_def Let_def split: option.split)

lemma blind_others [blind]:
  "insert_trigger s p t a (erase d) = erase_res (insert_trigger s p t a d)"
  "delete_trigger i (erase d) = erase2 (delete_trigger i d)"
  "insert_schedule sid cron input opts (erase d) = erase_res (insert_schedule sid cron input opts d)"
  "set_schedule_enabled i en (erase d) = erase2 (set_schedule_enabled i en d)"
  "insert_webhook tok kind tgt a (erase d) = erase_res (insert_webhook tok kind tgt a d)"
  "delete_webhook i (erase d) = erase2 (delete_webhook i d)"
  by (simp_all add: insert_trigger_def delete_trigger_def insert_schedule_def set_schedule_enabled_def
      insert_webhook_def delete_webhook_def)

lemma blind_checks [blind]:
  "quota_check now aid (erase d) = quota_check now aid d"
  "resolve_files files (erase d) = resolve_files files d"
proof -
  show "quota_check now aid (erase d) = quota_check now aid d" by (simp add: quota_check_def Let_def blind)
  have "resolve_entries fs m (erase d) = resolve_entries fs m d" for fs m
    by (induction fs arbitrary: m) (auto simp: blind)
  then show "resolve_files files (erase d) = resolve_files files d" by (simp add: resolve_files_def split: option.split)
qed

lemma erase_assoc:
  "map (\<lambda>x. (fst x, [])) (AList.update n v m) = AList.update n [] (map (\<lambda>x. (fst x, [])) m)"
  by (induction m) auto

text \<open>Setting a secret: the value goes in and the erasure forgets it.\<close>

lemma erase_upsert: "erase (upsert_secret seal n v agent (erase d)) = erase (upsert_secret seal n v agent d)"
  by (cases agent) (simp_all add: upsert_secret_def Let_def erase_def erase_assoc comp_def)

section \<open>Tools\<close>

lemma blind_reads [blind]:
  "list_scripts n (erase d) = list_scripts n d" "semantic_search mt n (erase d) = semantic_search mt n d"
  "search_scripts tm q n (erase d) = search_scripts tm q n d" "list_triggers (erase d) = list_triggers d"
  "list_executors t l (erase d) = list_executors t l d" "list_blobs c n (erase d) = list_blobs c n d"
  "list_webhooks f wc (erase d) = list_webhooks f wc d" "runs_with_status st sid n (erase d) = runs_with_status st sid n d"
  "run_item f (erase d) = run_item f d" "schedule_json lib f (erase d) t = schedule_json lib f d t"
  "flow_run_status fr (erase d) = flow_run_status fr d" "flow_top_step_count fr (erase d) = flow_top_step_count fr d"
  "flow_top_steps fr n k (erase d) = flow_top_steps fr n k d" "flow_map_counts fr (erase d) = flow_map_counts fr d"
  "flow_failed_child_idx b fr cap (erase d) = flow_failed_child_idx b fr cap d"
  by (simp_all add: list_scripts_def semantic_search_def search_scripts_def list_triggers_def list_executors_def
      list_blobs_def list_webhooks_def runs_with_status_def run_item_def schedule_json_def flow_run_status_def
      flow_run_by_id_def flow_top_step_count_def flow_top_steps_def flow_map_counts_def flow_failed_child_idx_def
      steps_of_def blind fun_eq_iff split: option.split)

text \<open>What surrounds the handlers may not see the values either: the clock, the image digests, and what
  the rest of the system does while a handler sleeps.\<close>

definition blind_host :: "exec_env \<Rightarrow> bool" where
  "blind_host env = (\<forall>d. ee_clock env (erase d) = ee_clock env d \<and> ee_digest env (erase d) = ee_digest env d)"

definition blind_rest :: "(nat \<Rightarrow> db \<Rightarrow> db) \<Rightarrow> bool" where
  "blind_rest others = (\<forall>n d. erase (others n (erase d)) = erase (others n d))"

lemma blind_host_simps:
  "blind_host env \<Longrightarrow> ee_clock env (erase d) = ee_clock env d"
  "blind_host env \<Longrightarrow> ee_digest env (erase d) = ee_digest env d"
  by (simp_all add: blind_host_def)

lemma blind_read_tools:
  "search_script emb tm q n (erase d) = search_script emb tm q n d" "mcp_list_scripts n (erase d) = mcp_list_scripts n d"
  "mcp_get_script f c i b (erase d) = mcp_get_script f c i b d"
  "mcp_list_executors f e t (erase d) = mcp_list_executors f e t d" "mcp_list_triggers (erase d) = mcp_list_triggers d"
  "mcp_list_blobs f bc n (erase d) = mcp_list_blobs f bc n d" "read_logs i a n (erase d) = read_logs i a n d"
  "mcp_list_runs f st n sid w (erase d) = mcp_list_runs f st n sid w d"
  "get_flow_run bi ce fr n a (erase d) = get_flow_run bi ce fr n a d"
  "mcp_list_schedules lib f t (erase d) = mcp_list_schedules lib f t d"
  "mcp_list_webhooks f c (erase d) = mcp_list_webhooks f c d" "get_receipt i (erase d) = get_receipt i d"
  "list_secrets agent (erase d) = list_secrets agent d" "mcp_verify env tr i (erase d) = mcp_verify env tr i d"
  by (simp_all add: search_script_def mcp_list_scripts_def mcp_get_script_def mcp_list_executors_def executor_rows_def
      mcp_list_triggers_def mcp_list_blobs_def read_logs_def mcp_list_runs_def get_flow_run_def
      mcp_list_schedules_def mcp_list_webhooks_def get_receipt_def list_secrets_def mcp_verify_def blind Let_def
      cong: option.case_cong)

lemma blind_whoami: "blind_host env \<Longrightarrow> whoami env agent (erase d) = whoami env agent d"
  by (simp add: whoami_def blind blind_host_simps split: option.split)

lemma blind_cron_remove: "cron_remove i cr (erase d) = apsnd (apsnd erase) (cron_remove i cr d)"
  by (simp add: cron_remove_def Let_def blind split_beta)

lemma blind_poll:
  assumes "blind_rest others" and "erase d = erase e"
  shows "erase2 (poll_status others k n rid st d) = erase2 (poll_status others k n rid st e)"
  using assms(2)
proof (induction n arbitrary: k st d e)
  case (Suc n)
  have st: "status_or ''unknown'' rid d = status_or ''unknown'' rid e"
    using Suc.prems by (metis blind_lookups(9))
  have "erase (others k d) = erase (others k e)" using assms(1) Suc.prems by (metis blind_rest_def)
  from Suc.IH [OF this] st Suc.prems show ?case by (simp add: Let_def)
qed simp

lemma blind_write_tools:
  "upload_script msg mx ua (erase d) = erase2 (upload_script msg mx ua d)"
  "on_result msg src p tgt agent (erase d) = erase2 (on_result msg src p tgt agent d)"
  "mcp_delete_trigger i (erase d) = erase2 (mcp_delete_trigger i d)"
  "compose_flow no ps spec (erase d) = erase2 (compose_flow no ps spec d)"
  "run_flow msg ps fid input (erase d) = erase2 (run_flow msg ps fid input d)"
  "create_webhook msg tok tgt' j agent (erase d) = erase2 (create_webhook msg tok tgt' j agent d)"
  "mcp_delete_webhook i (erase d) = erase2 (mcp_delete_webhook i d)"
  by (auto simp: upload_script_def upsert_script_def insert_upload_def set_allowlist_def on_result_def
      mcp_delete_trigger_def compose_flow_def run_flow_def create_webhook_def mcp_delete_webhook_def blind
      Let_def split_beta split: option.split sum.split prod.split)

lemma blind_host_tools:
  assumes "blind_host env"
  shows "mcp_cancel env i (erase d) = erase2 (mcp_cancel env i d)"
    and "upload_blob env data (erase d) = erase2 (upload_blob env data d)"
    and "download_blob env h (erase d) = erase2 (download_blob env h d)"
    and "run_script env a (erase d) = erase2 (run_script env a d)"
proof -
  note host = blind_host_simps [OF assms]
  show "mcp_cancel env i (erase d) = erase2 (mcp_cancel env i d)"
    by (simp add: mcp_cancel_def host blind split: prod.split)
  show "upload_blob env data (erase d) = erase2 (upload_blob env data d)"
    by (simp add: upload_blob_def host blind split: option.split sum.split prod.split)
  show "download_blob env h (erase d) = erase2 (download_blob env h d)"
    by (auto simp: download_blob_def host blind split: option.split prod.split)
  have enq: "enqueue_request env a input inb key (erase d) = erase2 (enqueue_request env a input inb key d)"
    for input inb key
    by (auto simp: enqueue_request_def host blind Let_def split: option.split sum.split prod.split)
  have key: "request_cache_key env sc input inb (erase d) = request_cache_key env sc input inb d" for sc input inb
    by (simp add: request_cache_key_def image_digest_def host cong: option.case_cong prod.case_cong)
  show "run_script env a (erase d) = erase2 (run_script env a d)"
    by (auto simp: run_script_def blind enq key Let_def split: option.split sum.split)
qed

text \<open>Two databases with the same erasure read alike.\<close>

lemma view_eq:
  assumes "erase d = erase e"
  shows "add_outputs i d = add_outputs i e" "max_log_seq i d = max_log_seq i e"
    "read_logs_after i a n d = read_logs_after i a n e" "run_receipt i d = run_receipt i e"
proof -
  show "add_outputs i d = add_outputs i e" by (rule ext) (metis assms blind_lookups(24))
  show "max_log_seq i d = max_log_seq i e" by (metis assms blind_lookups(8))
  show "read_logs_after i a n d = read_logs_after i a n e" by (metis assms blind_lookups(7))
  show "run_receipt i d = run_receipt i e" by (metis assms blind_lookups(3))
qed

lemma blind_wait:
  assumes "blind_rest others"
  shows "erase2 (wait_for others rid t (erase d)) = erase2 (wait_for others rid t d)"
proof -
  let ?n = "min (case t of Some t \<Rightarrow> t | None \<Rightarrow> 30) 120 * 2"
  obtain st d1 where p: "poll_status others 0 ?n rid ''unknown'' d = (st, d1)" by fastforce
  obtain st' d2 where q: "poll_status others 0 ?n rid ''unknown'' (erase d) = (st', d2)" by fastforce
  from blind_poll [OF assms, of "erase d" d 0 ?n rid "''unknown''"] p q
  have e: "st' = st" "erase d2 = erase d1" by simp_all
  show ?thesis using view_eq [OF e(2)] by (simp add: wait_for_def p q e Let_def)
qed

lemma blind_compare:
  assumes "blind_rest others"
  shows "erase2 (repro_compare others rid orig n rep (erase d)) = erase2 (repro_compare others rid orig n rep d)"
proof -
  obtain st d1 where p: "poll_status others 0 (n * 2) rep ''pending'' d = (st, d1)" by fastforce
  obtain st' d2 where q: "poll_status others 0 (n * 2) rep ''pending'' (erase d) = (st', d2)" by fastforce
  from blind_poll [OF assms, of "erase d" d 0 "n * 2" rep "''pending''"] p q
  have e: "st' = st" "erase d2 = erase d1" by simp_all
  have r: "run_receipt rep d2 = run_receipt rep d1" by (rule view_eq [OF e(2)])
  show ?thesis
    by (simp add: repro_compare_def p q e(1) r Let_def split: option.split) (simp add: e(2))
qed

lemma blind_reproduce_run:
  assumes "blind_host env" and "blind_rest others"
  shows "map_option (map_sum id erase2) (reproduce_run env tr others rid n agent (erase d)) =
    map_option (map_sum id erase2) (reproduce_run env tr others rid n agent d)"
  by (auto simp: reproduce_run_def Let_def blind blind_host_simps [OF assms(1)] blind_compare [OF assms(2)]
      split: option.split sum.split prod.split)

lemma blind_reproduce:
  assumes "blind_host env" and "blind_rest others"
  shows "map_option erase2 (reproduce env tr others rid t agent (erase d)) =
    map_option erase2 (reproduce env tr others rid t agent d)"
proof -
  let ?n = "min (case t of Some t \<Rightarrow> t | None \<Rightarrow> 120) 300"
  define g where "g = (\<lambda>r. case r of Inl e \<Rightarrow> (Inl (InternalError e) :: mcp_error + json, erase d)
    | Inr (v, d') \<Rightarrow> (Inr v, d'))"
  have "erase2 (case r of Inl e \<Rightarrow> (Inl (InternalError e), d0) | Inr (v, d') \<Rightarrow> (Inr v, d')) = g (map_sum id erase2 r)"
    if "erase d0 = erase d" for r d0
    using that by (cases r) (auto simp: g_def)
  then have "map_option erase2 (reproduce env tr others rid t agent d0) =
      map_option g (map_option (map_sum id erase2) (reproduce_run env tr others rid ?n agent d0))"
    if "erase d0 = erase d" for d0
    using that by (simp add: reproduce_def option.map_comp comp_def)
  then show ?thesis using blind_reproduce_run [OF assms, of tr rid ?n agent d] by simp
qed

abbreviation erase3 :: "'a \<times> 'b \<times> db \<Rightarrow> 'a \<times> 'b \<times> db" where
  "erase3 \<equiv> apsnd erase2"

lemma blind_scheduling:
  "schedule_script lib f msg ps now a cron (erase d) = erase3 (schedule_script lib f msg ps now a cron d)"
  "unschedule i cron (erase d) = erase3 (unschedule i cron d)"
proof -
  have inst: "install_schedule lib f msg now a opts input c tz cr (erase d) =
      erase3 (install_schedule lib f msg now a opts input c tz cr d)" for opts input c tz cr
    by (auto simp: install_schedule_def blind Let_def split: sum.split prod.split option.split)
  show "schedule_script lib f msg ps now a cron (erase d) = erase3 (schedule_script lib f msg ps now a cron d)"
    by (auto simp: schedule_script_def blind Let_def inst split: option.split sum.split prod.split)
  show "unschedule i cron (erase d) = erase3 (unschedule i cron d)"
    by (simp add: unschedule_def blind_cron_remove split: option.split prod.split)
qed

lemma blind_delete_script:
  "mcp_delete_script msg i cr (erase d) = erase3 (mcp_delete_script msg i cr d)"
proof -
  let ?f = "\<lambda>s (c, d). snd (cron_remove s c d)"
  have f: "fold ?f ss (c, erase d) = apsnd erase (fold ?f ss (c, d))" for ss c d
  proof (induction ss arbitrary: c d)
    case (Cons s ss)
    obtain c' d' where "snd (cron_remove s c d) = (c', d')" by fastforce
    with Cons.IH [of c' d'] show ?case by (simp add: blind_cron_remove)
  qed simp
  show ?thesis
    by (auto simp: mcp_delete_script_def blind Let_def f split: option.split sum.split prod.split delete_result.split)
qed

section \<open>The contract\<close>

text \<open>The answers to a sequence of requests; a handler that panics answers nothing and, in this
  program, has written nothing.\<close>

fun answers :: "('a \<Rightarrow> 's \<Rightarrow> ('r \<times> 's) panics) \<Rightarrow> 'a list \<Rightarrow> 's \<Rightarrow> 'r option list \<times> 's" where
  "answers op [] s = ([], s)"
| "answers op (a # as) s =
     (case op a s of
        None \<Rightarrow> (case answers op as s of (rs, t) \<Rightarrow> (None # rs, t))
      | Some (r, s') \<Rightarrow> (case answers op as s' of (rs, t) \<Rightarrow> (Some r # rs, t)))"

locale write_only =
  fixes op :: "'a \<Rightarrow> 's \<Rightarrow> ('r \<times> 's) panics" and er :: "'s \<Rightarrow> 's" and ok :: "'a \<Rightarrow> bool"
  assumes blind: "ok a \<Longrightarrow> map_option (apsnd er) (op a (er s)) = map_option (apsnd er) (op a s)"
begin

lemma same_view:
  assumes "ok a" and "er s = er t"
  shows "map_option (apsnd er) (op a s) = map_option (apsnd er) (op a t)"
  using blind [OF assms(1), of s] blind [OF assms(1), of t] assms(2) by simp

lemma alike:
  "list_all ok as \<Longrightarrow> er s = er t \<Longrightarrow>
   fst (answers op as s) = fst (answers op as t) \<and> er (snd (answers op as s)) = er (snd (answers op as t))"
proof (induction as arbitrary: s t)
  case (Cons a as)
  from Cons.prems have v: "map_option (apsnd er) (op a s) = map_option (apsnd er) (op a t)"
    by (intro same_view) simp_all
  show ?case
  proof (cases "op a s")
    case None
    with v have "op a t = None" by (cases "op a t") simp_all
    with None Cons.IH [of s t] Cons.prems show ?thesis by (simp add: split_beta)
  next
    case (Some x)
    obtain r s' where x: "x = (r, s')" by fastforce
    with Some v obtain t' where t: "op a t = Some (r, t')" "er s' = er t'"
      by (cases "op a t") auto
    with Some x Cons.IH [of s' t'] Cons.prems show ?thesis by (simp add: split_beta)
  qed
qed simp

end

section \<open>The tools\<close>

definition erase_ts :: "tool_state \<Rightarrow> tool_state" where
  "erase_ts s = s\<lparr>ts_db := erase (ts_db s)\<rparr>"

definition blind_tools :: "('c, 'z) tool_env \<Rightarrow> bool" where
  "blind_tools te = (blind_host (te_exec te) \<and> blind_rest (te_others te))"

lemma erase_ts_sel [simp]:
  "ts_db (erase_ts s) = erase (ts_db s)" "ts_cron (erase_ts s) = ts_cron s"
  "erase_ts (s\<lparr>ts_db := d\<rparr>) = s\<lparr>ts_db := erase d\<rparr>" "erase_ts \<lparr>ts_cron = cr, ts_db = d\<rparr> = \<lparr>ts_cron = cr, ts_db = erase d\<rparr>"
  "(erase_ts s)\<lparr>ts_db := d\<rparr> = s\<lparr>ts_db := d\<rparr>"
  by (simp_all add: erase_ts_def)

lemma looks_blind:
  "(\<And>d. f (erase d) = f d) \<Longrightarrow>
   map_option (apsnd erase_ts) (looks f (erase_ts s)) = map_option (apsnd erase_ts) (looks f s)"
  by (cases s) (simp add: looks_def)

lemma works_blind:
  assumes "\<And>d. erase2 (f (erase d)) = erase2 (f d)"
  shows "map_option (apsnd erase_ts) (works f (erase_ts s)) = map_option (apsnd erase_ts) (works f s)"
proof -
  obtain r d r' d' where f: "f (ts_db s) = (r, d)" "f (erase (ts_db s)) = (r', d')" by fastforce
  with assms [of "ts_db s"] have "r' = r" "erase d' = erase d" by simp_all
  with f show ?thesis by (simp add: works_def)
qed

lemma schedules_too_blind:
  assumes "\<And>cr d. erase3 (f cr (erase d)) = erase3 (f cr d)"
  shows "map_option (apsnd erase_ts) (schedules_too f (erase_ts s)) = map_option (apsnd erase_ts) (schedules_too f s)"
proof -
  obtain r cr d r' cr' d' where f: "f (ts_cron s) (ts_db s) = (r, cr, d)" "f (ts_cron s) (erase (ts_db s)) = (r', cr', d')"
    by (metis prod_cases3)
  with assms [of "ts_cron s" "ts_db s"] have "r' = r" "cr' = cr" "erase d' = erase d" by simp_all
  with f show ?thesis by (simp add: schedules_too_def)
qed

lemma erase2_idem [simp]: "erase2 (erase2 x) = erase2 x" "erase3 (erase3 y) = erase3 y"
  by (cases x, simp) (cases y, simp)

lemma blind_set_secret: "erase2 (set_secret seal n v agent (erase d)) = erase2 (set_secret seal n v agent d)"
  by (simp add: set_secret_def erase_upsert)

lemma blind_call:
  assumes "blind_tools te"
  shows "map_option (apsnd erase_ts) (call_tool te c (erase_ts s)) = map_option (apsnd erase_ts) (call_tool te c s)"
proof -
  from assms have host: "blind_host (te_exec te)" and rest: "blind_rest (te_others te)"
    by (simp_all add: blind_tools_def)
  show ?thesis
  proof (cases c)
    case (Reproduce a)
    have "map_option (apsnd erase_ts) (map_option (\<lambda>(r, d). (r, s\<lparr>ts_db := d\<rparr>)) x) =
        map_option (\<lambda>(r, d). (r, s\<lparr>ts_db := d\<rparr>)) (map_option erase2 x)" for x :: "((mcp_error + json) \<times> db) option"
      by (cases x) auto
    with blind_reproduce [OF host rest] Reproduce show ?thesis by simp
  next
    case (VerifyTool i)
    then show ?thesis by (simp add: blind_read_tools option.map_comp comp_def erase_ts_def)
  qed (auto simp: blind_read_tools blind_whoami [OF host] blind_write_tools blind_host_tools [OF host]
        blind_wait [OF rest] blind_set_secret blind_scheduling blind_delete_script blind_host_simps [OF host]
      intro!: looks_blind works_blind schedules_too_blind)
qed

interpretation tools: write_only "\<lambda>(te, c). call_tool te c" erase_ts "\<lambda>(te, c). blind_tools te"
  by unfold_locales (auto simp: blind_call)

section \<open>The HTTP surface\<close>

definition erase_hs :: "hook_state \<Rightarrow> hook_state" where
  "erase_hs s = s\<lparr>hs_db := erase (hs_db s)\<rparr>"

definition blind_polls :: "(db \<Rightarrow> (db \<times> db) list) \<Rightarrow> bool" where
  "blind_polls polls =
     (\<forall>d. map (map_prod erase erase) (polls (erase d)) = map (map_prod erase erase) (polls d))"

text \<open>The MCP service is held to the same contract; over the tools of this program it meets it.\<close>

definition blind_daemon :: "('ip, 'c, 'z) http_env \<Rightarrow> bool" where
  "blind_daemon he =
     (blind_host (he_exec he) \<and> blind_rest (he_others he) \<and> blind_polls (he_polls he) \<and>
      (\<forall>rq s. map_option (apsnd erase_hs) (he_mcp he rq (erase_hs s)) = map_option (apsnd erase_hs) (he_mcp he rq s)))"

lemma erase_hs_sel [simp]:
  "hs_db (erase_hs s) = erase (hs_db s)" "erase_hs (s\<lparr>hs_db := d\<rparr>) = s\<lparr>hs_db := erase d\<rparr>"
  "(erase_hs s)\<lparr>hs_db := d\<rparr> = s\<lparr>hs_db := d\<rparr>" "erase_hs (erase_hs s) = erase_hs s"
  "hs_ip_limiter (erase_hs s) = hs_ip_limiter s" "hs_token_limiter (erase_hs s) = hs_token_limiter s"
  "erase_hs (s\<lparr>hs_ip_limiter := l\<rparr>) = (erase_hs s)\<lparr>hs_ip_limiter := l\<rparr>"
  "erase_hs (s\<lparr>hs_token_limiter := l\<rparr>) = (erase_hs s)\<lparr>hs_token_limiter := l\<rparr>"
  by (simp_all add: erase_hs_def)

lemma blind_api_reads:
  "api_list_runs f n (erase d) = api_list_runs f n d" "api_run_logs i a (erase d) = api_run_logs i a d"
  "api_list_secrets (erase d) = api_list_secrets d" "api_list_schedules lib f t (erase d) = api_list_schedules lib f t d"
  "api_list_scripts n (erase d) = api_list_scripts n d" "api_list_blobs f bc n (erase d) = api_list_blobs f bc n d"
  "api_run_receipt i (erase d) = api_run_receipt i d" "api_verify_run env tr i (erase d) = api_verify_run env tr i d"
proof -
  have "api_run_item f (erase d) = api_run_item f d" for f
    by (simp add: fun_eq_iff api_run_item_def Let_def)
  then show "api_list_runs f n (erase d) = api_list_runs f n d" by (simp add: api_list_runs_def blind)
qed (simp_all add: api_run_logs_def api_list_secrets_def api_list_schedules_def api_list_scripts_def
      list_scripts_full_def api_list_blobs_def api_run_receipt_def api_verify_run_def blind Let_def)

lemma blind_api_writes:
  assumes "blind_host env"
  shows "api_cancel_run env i (erase d) = erase2 (api_cancel_run env i d)"
    and "api_trigger_run env sid input (erase d) = erase2 (api_trigger_run env sid input d)"
  using blind_host_simps [OF assms]
  by (auto simp: api_cancel_run_def api_trigger_run_def blind Let_def split_beta split: sum.split)

lemma blind_api_set_secret: "erase2 (api_set_secret seal n v (erase d)) = erase2 (api_set_secret seal n v d)"
  by (simp add: api_set_secret_def erase_upsert)

lemma blind_api_reproduce:
  assumes "blind_host env" and "blind_rest others"
  shows "map_option erase2 (api_reproduce_run env tr others i (erase d)) =
    map_option erase2 (api_reproduce_run env tr others i d)"
proof -
  define g where "g = (\<lambda>r. case r of Inr (v, d') \<Rightarrow> (JsonResp 200 v, d')
    | Inl e \<Rightarrow> (JsonResp 500 (mk_obj [(''error'', JStr e)]), erase d))"
  have "erase2 (case r of Inr (v, d') \<Rightarrow> (JsonResp 200 v, d') | Inl e \<Rightarrow> (JsonResp 500 (mk_obj [(''error'', JStr e)]), d0)) =
      g (map_sum id erase2 r)"
    if "erase d0 = erase d" for r d0
    using that by (cases r) (auto simp: g_def)
  then have "map_option erase2 (api_reproduce_run env tr others i d0) =
      map_option g (map_option (map_sum id erase2) (reproduce_run env tr others i 120 None d0))"
    if "erase d0 = erase d" for d0
    using that by (simp add: api_reproduce_run_def option.map_comp comp_def)
  then show ?thesis using blind_reproduce_run [OF assms, of tr i 120 None d] by simp
qed

lemma blind_stream:
  assumes "map (map_prod erase erase) ps = map (map_prod erase erase) qs"
  shows "stream_events i c ps = stream_events i c qs"
  using assms
proof (induction i c ps arbitrary: qs rule: stream_events.induct)
  case (2 rid cursor d1 d2 polls)
  then obtain e1 e2 qs' where qs: "qs = (e1, e2) # qs'" "erase d1 = erase e1" "erase d2 = erase e2"
    "map (map_prod erase erase) polls = map (map_prod erase erase) qs'"
    by (cases qs) auto
  have st: "status_or [] rid d2 = status_or [] rid e2" using qs(3) by (metis blind_lookups(9))
  from 2 qs view_eq(3) [OF qs(2)] show ?case by (auto simp: stream_event_def st Let_def)
qed simp

lemma blind_hook:
  assumes "blind_host env"
  shows "webhook_fire show trusted env lossy now rq (erase_hs s) = apsnd erase_hs (webhook_fire show trusted env lossy now rq s)"
  by (auto simp: webhook_fire_def fire_flow_def fire_script_def blind blind_host_simps [OF assms] Let_def
      split: prod.split option.split sum.split)

definition blind_handler :: "'ip handler \<Rightarrow> bool" where
  "blind_handler h =
     (\<forall>caps rq s. map_option (apsnd erase_hs) (h caps rq (erase_hs s)) = map_option (apsnd erase_hs) (h caps rq s))"

definition blind_routes :: "'ip routes \<Rightarrow> bool" where
  "blind_routes rts = list_all (\<lambda>(p, mr). \<forall>m. blind_handler (mr m)) rts"

lemma blind_refuse: "blind_handler (refuse r)"
  by (simp add: blind_handler_def refuse_def)

lemma blind_reading: "(\<And>d. f (erase d) = f d) \<Longrightarrow> blind_handler (reading f)"
  by (simp add: blind_handler_def reading_def)

lemma blind_with_db:
  "(\<And>d. erase2 (f (erase d)) = erase2 (f d)) \<Longrightarrow>
   map_option (apsnd erase_hs) (with_db f (erase_hs s)) = map_option (apsnd erase_hs) (with_db f s)"
proof -
  assume b: "\<And>d. erase2 (f (erase d)) = erase2 (f d)"
  obtain r d r' d' where f: "f (hs_db s) = (r, d)" "f (erase (hs_db s)) = (r', d')" by fastforce
  with b [of "hs_db s"] have "r' = r" "erase d' = erase d" by simp_all
  with f show ?thesis by (simp add: with_db_def)
qed

lemma blind_extractors:
  "(\<And>i. blind_handler (h i)) \<Longrightarrow> blind_handler (with_id ax h)"
  "(\<And>v. blind_handler (q v)) \<Longrightarrow> blind_handler (with_query ax field q)"
  "(\<And>b. blind_handler (j b)) \<Longrightarrow> blind_handler (with_json ax of_body j)"
  by (auto simp: blind_handler_def with_id_def with_query_def with_json_def split: option.split sum.split)

lemma blind_methods:
  "blind_handler g \<Longrightarrow> blind_handler (on_get ax g m)" "blind_handler p \<Longrightarrow> blind_handler (on_post ax p m)"
  "blind_handler g \<Longrightarrow> blind_handler p \<Longrightarrow> blind_handler (on_get_post ax g p m)"
  by (simp_all add: on_get_def on_post_def on_get_post_def blind_refuse)

lemma blind_auth: "blind_handler h \<Longrightarrow> blind_handler (auth token h)"
  by (auto simp: blind_handler_def auth_def auth_gate_def split: option.split)

lemma blind_dispatch:
  "blind_routes rts \<Longrightarrow>
   map_option (apsnd erase_hs) (dispatch ax rts rq (erase_hs s)) = map_option (apsnd erase_hs) (dispatch ax rts rq s)"
proof (induction rts)
  case (Cons x rts)
  then show ?case by (cases x) (auto simp: blind_routes_def blind_handler_def split: option.split)
qed simp

lemma blind_operator_router:
  assumes "blind_daemon he"
  shows "blind_routes (operator_router ax he)"
proof -
  from assms have host: "blind_host (he_exec he)" and rest: "blind_rest (he_others he)"
    and polls: "blind_polls (he_polls he)"
    by (simp_all add: blind_daemon_def)
  have trigger: "blind_handler ((\<lambda>(sid, input) caps rq. with_db (api_trigger_run (he_exec he) sid input)) b)" for b
    by (cases b) (simp add: blind_handler_def blind_with_db blind_api_writes [OF host])
  have secret: "blind_handler ((\<lambda>(n, v) caps rq. with_db (api_set_secret (he_seal he) n v)) b)" for b
    by (cases b) (simp add: blind_handler_def blind_with_db blind_api_set_secret)
  have cancel: "blind_handler (\<lambda>caps rq. with_db (api_cancel_run (he_exec he) i))" for i
    by (simp add: blind_handler_def blind_with_db blind_api_writes [OF host])
  have verify: "blind_handler (\<lambda>caps rq s. map_option (\<lambda>r. (r, s))
      (api_verify_run (he_exec he) (he_trusted_keys he) i (hs_db s)))" for i
    by (simp add: blind_handler_def blind_api_reads option.map_comp comp_def)
  have mo: "map_option (apsnd erase_hs) (map_option (\<lambda>(r, d). (r, s\<lparr>hs_db := d\<rparr>)) x) =
      map_option (\<lambda>(r, d). (r, s\<lparr>hs_db := d\<rparr>)) (map_option erase2 x)" for x :: "(response \<times> db) option" and s
    by (cases x) auto
  have rep: "blind_handler (\<lambda>caps rq s. map_option (\<lambda>(r, d). (r, s\<lparr>hs_db := d\<rparr>))
      (api_reproduce_run (he_exec he) (he_trusted_keys he) (he_others he) i (hs_db s)))" for i
    by (simp add: blind_handler_def mo blind_api_reproduce [OF host rest])
  have stream: "run_stream i (he_polls he (erase d)) = run_stream i (he_polls he d)" for i d
    unfolding run_stream_def by (rule blind_stream) (use polls in \<open>simp add: blind_polls_def\<close>)
  show ?thesis
    unfolding blind_routes_def operator_router_def list.pred_inject prod.case
    by (intro conjI allI TrueI blind_methods blind_extractors blind_reading trigger secret cancel verify rep)
      (simp_all add: blind_api_reads stream blind_host_simps [OF host])
qed

lemma blind_serve:
  assumes "blind_daemon he"
  shows "map_option (apsnd erase_hs) (serve_http ax he token rq (erase_hs s)) =
    map_option (apsnd erase_hs) (serve_http ax he token rq s)"
proof -
  have host: "blind_host (he_exec he)" using assms by (simp add: blind_daemon_def)
  have hook: "blind_handler (hook_handler ax he)"
    by (auto simp: blind_handler_def hook_handler_def blind_hook [OF host] apsnd_def map_prod_def
      split: list.split prod.split)
  have mcp: "blind_handler (\<lambda>caps. he_mcp he)" using assms by (simp add: blind_handler_def blind_daemon_def)
  have gate: "blind_routes (layer f rts)" if "\<And>h. blind_handler h \<Longrightarrow> blind_handler (f h)" "blind_routes rts"
    for f :: "'a handler \<Rightarrow> 'a handler" and rts
    using that by (auto simp: blind_routes_def layer_def list_all_iff)
  have "blind_routes (app_routes ax he token)"
    using gate [of "auth token", OF blind_auth, of "(Nest ''/mcp'', \<lambda>m caps. he_mcp he) # operator_router ax he"]
      blind_operator_router [OF assms, of ax] mcp blind_methods(2) [OF hook, of ax]
      blind_methods(1) [OF blind_reading, of "\<lambda>d. health (he_version he) (he_db_up he)" ax]
    by (simp add: blind_routes_def app_routes_def webhook_router_def health_router_def protected_routes_def)
  then show ?thesis unfolding serve_http_def by (rule blind_dispatch)
qed

section \<open>A client of both surfaces\<close>

record daemon_state =
  dm_cron :: "cron_state option"
  dm_http :: hook_state

datatype ('ip, 'c, 'z) client_op =
    ByTool "('c, 'z) tool_env" tool_call
  | ByHttp "'ip axum" "('ip, 'c, 'z) http_env" "string option" "'ip request"

datatype reply = ToolReply "mcp_error + json" | HttpReply response

fun client_step :: "('ip, 'c, 'z) client_op \<Rightarrow> daemon_state \<Rightarrow> (reply \<times> daemon_state) panics" where
  "client_step (ByTool te c) s =
     map_option (\<lambda>(r, t). (ToolReply r,
         s\<lparr>dm_cron := ts_cron t, dm_http := (dm_http s)\<lparr>hs_db := ts_db t\<rparr>\<rparr>))
       (call_tool te c \<lparr>ts_cron = dm_cron s, ts_db = hs_db (dm_http s)\<rparr>)"
| "client_step (ByHttp ax he token rq) s =
     map_option (\<lambda>(r, h). (HttpReply r, s\<lparr>dm_http := h\<rparr>)) (serve_http ax he token rq (dm_http s))"

fun blind_op :: "('ip, 'c, 'z) client_op \<Rightarrow> bool" where
  "blind_op (ByTool te c) = blind_tools te"
| "blind_op (ByHttp ax he token rq) = blind_daemon he"

definition erase_dm :: "daemon_state \<Rightarrow> daemon_state" where
  "erase_dm s = s\<lparr>dm_http := erase_hs (dm_http s)\<rparr>"

lemma blind_client_step:
  assumes "blind_op a"
  shows "map_option (apsnd erase_dm) (client_step a (erase_dm s)) = map_option (apsnd erase_dm) (client_step a s)"
proof (cases a)
  case (ByTool te c)
  let ?f = "\<lambda>(r, t). (ToolReply r, erase_dm (s\<lparr>dm_cron := ts_cron t, dm_http := (dm_http s)\<lparr>hs_db := ts_db t\<rparr>\<rparr>))"
  let ?t = "\<lparr>ts_cron = dm_cron s, ts_db = hs_db (dm_http s)\<rparr>"
  have f: "?f x = ?f (apsnd erase_ts x)" for x by (cases x) (simp add: erase_dm_def)
  have "map_option (apsnd erase_dm) (client_step a u) = map_option ?f (map_option (apsnd erase_ts) (call_tool te c v))"
    if "u = s \<and> v = ?t \<or> u = erase_dm s \<and> v = erase_ts ?t" for u v
    using that by (auto simp: ByTool option.map_comp comp_def split_beta erase_dm_def)
  from this [of s ?t] this [of "erase_dm s" "erase_ts ?t"] blind_call [of te c ?t] assms ByTool show ?thesis by simp
next
  case (ByHttp ax he token rq)
  let ?f = "\<lambda>(r, h). (HttpReply r, erase_dm (s\<lparr>dm_http := h\<rparr>))"
  have "map_option (apsnd erase_dm) (client_step a u) =
      map_option ?f (map_option (apsnd erase_hs) (serve_http ax he token rq (dm_http u)))"
    if "u = s \<or> u = erase_dm s" for u
    using that by (auto simp: ByHttp option.map_comp comp_def split_beta erase_dm_def)
  from this [of s] this [of "erase_dm s"] blind_serve [of he ax token rq "dm_http s"] assms ByHttp
  show ?thesis by (simp add: erase_dm_def)
qed

interpretation client: write_only client_step erase_dm blind_op
  by unfold_locales (rule blind_client_step)


definition toy_server :: "(unit, unit) tool_env" where
  "toy_server =
     \<lparr>te_exec = sample_host, te_trusted_keys = None, te_others = (\<lambda>n d. d), te_seal = (\<lambda>v. v),
      te_rfc3339 = (\<lambda>t. []), te_script_created = (\<lambda>i. 0), te_blob_created = (\<lambda>h. 0),
      te_webhook_created = (\<lambda>i. 0), te_executor_started = (\<lambda>e. 0),
      te_lib = \<lparr>cl_parse = (\<lambda>s. Inr ()), cl_zone = (\<lambda>z. None), cl_zone_name = (\<lambda>z. []),
                cl_next = (\<lambda>c z t. None), cl_job = (\<lambda>c. None)\<rparr>,
      te_embedder = None, te_text = \<lparr>tm_ilike = (\<lambda>a b. True), tm_similarity = (\<lambda>a b. 0)\<rparr>,
      te_node_order = (\<lambda>x. x), te_bigint = (\<lambda>s. None), te_cast_error = [], te_token = ''t''\<rparr>"

definition toy_daemon :: "string \<Rightarrow> daemon_state" where
  "toy_daemon v =
     \<lparr>dm_cron = None, dm_http = \<lparr>hs_ip_limiter = webhook_ip_limiter, hs_token_limiter = webhook_limiter,
        hs_db = empty_db\<lparr>secrets := [(''KEY'', v)]\<rparr>\<rparr>\<rparr>"

definition toy_calls :: "(unit, unit, unit) client_op list" where
  "toy_calls = [ByTool toy_server (Whoami None), ByTool toy_server (ListSecrets None)]"


end
