(* ===== verification/Histories.thy ===== *)
theory Histories
  imports Secrecy Flow_Laws Worker Entry_Laws Daemon
begin

text \<open>
  Everything the daemon does, seen from the run queue.  The laws of the queue speak of histories of
  statements; here every operation of the program - a tool call, an HTTP request, a schedule's tick, a
  turn of a worker, a turn of the flow engine, a housekeeping tick - is shown to be such a history, made
  of the statements its kind may use.  \<open>queue_client\<close> is the contract, with an interpretation per part.
\<close>

section \<open>Histories\<close>

definition becomes :: "(stmt \<Rightarrow> bool) \<Rightarrow> db \<Rightarrow> db \<Rightarrow> bool" where
  "becomes may d d' = (\<exists>ss. list_all may ss \<and> exec_stmts ss d = d')"

lemma exec_stmts_append [simp]: "exec_stmts (ss @ ts) d = exec_stmts ts (exec_stmts ss d)"
  by (simp add: exec_stmts_def)

lemma becomes_refl [simp]: "becomes may d d"
  unfolding becomes_def by (rule exI [of _ "[]"]) simp

lemma becomes_trans [trans]: "becomes may a b \<Longrightarrow> becomes may b c \<Longrightarrow> becomes may a c"
proof -
  assume "becomes may a b" and "becomes may b c"
  then obtain ss ts where "list_all may ss" "exec_stmts ss a = b" "list_all may ts" "exec_stmts ts b = c"
    unfolding becomes_def by blast
  then show ?thesis unfolding becomes_def by (intro exI [of _ "ss @ ts"]) simp
qed

lemma becomes_mono: "becomes may d d' \<Longrightarrow> (\<And>s. may s \<Longrightarrow> may' s) \<Longrightarrow> becomes may' d d'"
  unfolding becomes_def list_all_iff by blast

lemma becomes_stmt: "may s \<Longrightarrow> becomes may d (exec_stmt s d)"
  unfolding becomes_def by (rule exI [of _ "[s]"]) simp

lemma becomes_wf: "becomes may d d' \<Longrightarrow> runs_wf d \<Longrightarrow> runs_wf d'"
  unfolding becomes_def using exec_stmts_wf by blast

text \<open>A statement on another table is a step too.\<close>

lemma becomes_elsewhere: "same_queue d d' \<Longrightarrow> may (Elsewhere d') \<Longrightarrow> becomes may d d'"
proof -
  assume q: "same_queue d d'" and m: "may (Elsewhere d')"
  have "exec_stmt (Elsewhere d') d = d'" using q by (simp add: same_queue_def)
  with becomes_stmt [of may "Elsewhere d'" d] m show ?thesis by simp
qed

text \<open>A step that may fail, on its success.\<close>

lemma becomes_Inr: "res = Inr (x, d') \<Longrightarrow> exec_stmt s d = or_unchanged d res \<Longrightarrow> may s \<Longrightarrow> becomes may d d'"
  using becomes_stmt [of may s d] by (simp add: or_unchanged_def)

section \<open>Status along a history\<close>

lemma becomes_status:
  assumes b: "becomes may d d'" and wf: "runs_wf d" and st: "get_run_status i d = Some x"
    and st': "get_run_status i d' = Some y" and x: "x \<in> S"
    and closed: "\<And>s a b. may s \<Longrightarrow> a \<in> S \<Longrightarrow> moves s i a b \<Longrightarrow> b \<in> S"
  shows "y \<in> S"
proof -
  from b obtain ss where ss: "list_all may ss" "exec_stmts ss d = d'" unfolding becomes_def by blast
  have old: "i < run_seq d"
    using st wf by (auto simp: get_run_status_def runs_wf_def dest!: run_by_idD)
  from ss st wf x old show ?thesis
  proof (induction ss arbitrary: d x)
    case Nil
    with st' show ?case by simp
  next
    case (Cons s ss)
    let ?d = "exec_stmt s d"
    have wf': "runs_wf ?d" and seq: "i < run_seq ?d"
      using exec_stmt_wf [OF Cons.prems(4)] exec_stmt_seq [of d s] Cons.prems(6) by simp_all
    show ?case
    proof (cases "get_run_status i ?d")
      case None
      have "get_run_status i (exec_stmts ss ?d) = None" using None wf' seq
      proof (induction ss arbitrary: s d)
        case (Cons t ts)
        from gone_step [OF Cons.prems(2,1,3), of t] exec_stmt_wf [OF Cons.prems(2), of t]
          exec_stmt_seq [of "exec_stmt s d" t] Cons.prems(3)
        show ?case using Cons.IH [of t "exec_stmt s d"] by simp
      qed simp
      with Cons.prems(2) st' show ?thesis by simp
    next
      case (Some z)
      from status_step [OF Cons.prems(4,3) Some] closed [of s x z] Cons.prems(1,5) have "z \<in> S" by auto
      with Cons.IH [OF _ _ Some wf' _ seq] Cons.prems(1,2) show ?thesis by simp
    qed
  qed
qed

section \<open>The contract\<close>

locale queue_client =
  fixes act :: "'a \<Rightarrow> 's \<Rightarrow> 's" and q :: "'s \<Rightarrow> db" and may :: "'a \<Rightarrow> stmt \<Rightarrow> bool" and ok :: "'a \<Rightarrow> bool"
  assumes acts: "ok a \<Longrightarrow> runs_wf (q s) \<Longrightarrow> becomes (may a) (q s) (q (act a s))"
begin

lemma keeps_wf: "ok a \<Longrightarrow> runs_wf (q s) \<Longrightarrow> runs_wf (q (act a s))"
  using acts becomes_wf by blast

lemma sequence:
  "list_all ok as \<Longrightarrow> runs_wf (q s) \<Longrightarrow> becomes (\<lambda>st. \<exists>a\<in>set as. may a st) (q s) (q (fold act as s))"
proof (induction as arbitrary: s)
  case (Cons a as)
  from Cons.prems have a: "ok a" by simp
  from Cons.IH [of "act a s"] Cons.prems keeps_wf [OF a]
  have "becomes (\<lambda>st. \<exists>a\<in>set as. may a st) (q (act a s)) (q (fold act as (act a s)))" by simp
  then have rest: "becomes (\<lambda>st. \<exists>b\<in>set (a # as). may b st) (q (act a s)) (q (fold act (a # as) s))"
    by (auto elim!: becomes_mono)
  have "becomes (\<lambda>st. \<exists>b\<in>set (a # as). may b st) (q s) (q (act a s))"
    using becomes_mono [OF acts [OF a Cons.prems(2)]] by auto
  then show ?case using rest by (rule becomes_trans)
qed simp

lemma sequence_wf: "list_all ok as \<Longrightarrow> runs_wf (q s) \<Longrightarrow> runs_wf (q (fold act as s))"
  using sequence becomes_wf by blast

text \<open>The statuses an operation can take a run to.\<close>

lemma status:
  assumes "ok a" and "runs_wf (q s)" and "get_run_status i (q s) = Some x"
    and "get_run_status i (q (act a s)) = Some y" and "x \<in> S"
    and "\<And>st b c. may a st \<Longrightarrow> b \<in> S \<Longrightarrow> moves st i b c \<Longrightarrow> c \<in> S"
  shows "y \<in> S"
  using becomes_status [OF acts [OF assms(1,2)] assms(2-5)] assms(6) by blast

end

section \<open>Who may do what\<close>

fun tool_may :: "stmt \<Rightarrow> bool" where
  "tool_may (InsertRun now sid input agent inb cap) = True"
| "tool_may (InsertIdem now sid input agent inb cap k) = True"
| "tool_may (Cancel now i reason) = True"
| "tool_may (SetCacheKey i k) = True"
| "tool_may (InsertScript name rt src de cr net mem cpu fd tmo) = True"
| "tool_may (UpdateScript i rt src de cr net mem cpu fd tmo) = True"
| "tool_may (UpdateMeta i rt de cr net mem cpu fd tmo) = True"
| "tool_may (SetAllowlist i names) = True"
| "tool_may (DeleteScript i) = True"
| "tool_may (InsertTrigger src p tgt agent) = True"
| "tool_may (DeleteTrigger i) = True"
| "tool_may (Elsewhere e) = True"
| "tool_may _ = False"

text \<open>The operator and the webhooks: enqueue and cancel, nothing else.\<close>

fun http_may :: "stmt \<Rightarrow> bool" where
  "http_may (InsertRun now sid input agent inb cap) = True"
| "http_may (InsertIdem now sid input agent inb cap k) = True"
| "http_may (Cancel now i reason) = True"
| "http_may (Elsewhere e) = True"
| "http_may _ = False"

fun tick_may :: "stmt \<Rightarrow> bool" where
  "tick_may (InsertRun now sid input agent inb cap) = True"
| "tick_may (InsertIdem now sid input agent inb cap k) = True"
| "tick_may (InsertRefused now sid input agent reason k) = True"
| "tick_may _ = False"

fun exec_may :: "stmt \<Rightarrow> bool" where
  "exec_may (SetProgress i v) = True"
| "exec_may (FireTriggers c now i v) = True"
| "exec_may (Finish now i ok code err) = True"
| "exec_may (SetResult i v) = True"
| "exec_may (SetOutputBlobs i v) = True"
| "exec_may (SetReceipt i v) = True"
| "exec_may (Elsewhere e) = True"
| "exec_may _ = False"

fun work_may :: "stmt \<Rightarrow> bool" where
  "work_may (Claim now caps locked) = True"
| "work_may (Mark i) = True"
| "work_may (Requeue i) = True"
| "work_may s = exec_may s"

fun engine_may :: "stmt \<Rightarrow> bool" where
  "engine_may (InsertRun now sid input agent inb cap) = True"
| "engine_may (SetCacheKey i k) = True"
| "engine_may s = exec_may s"

fun upkeep_may :: "stmt \<Rightarrow> bool" where
  "upkeep_may (Reap now lease) = True"
| "upkeep_may (Touch now i) = True"
| "upkeep_may (FailStale now age) = True"
| "upkeep_may (GcOld now days) = True"
| "upkeep_may (Elsewhere e) = True"
| "upkeep_may _ = False"

lemma exec_kind: "executor_stmt k s \<Longrightarrow> exec_may s"
  by (cases s) simp_all

lemma exec_lifts: "exec_may s \<Longrightarrow> work_may s" "exec_may s \<Longrightarrow> engine_may s"
  by (cases s; simp)+

section \<open>The inserts\<close>

lemma insert_becomes:
  "insert_run_with_blobs now sid input agent inb cap d = Inr (i, d') \<Longrightarrow>
   may (InsertRun now sid input agent inb cap) \<Longrightarrow> becomes may d d'"
  by (erule becomes_Inr [where s = "InsertRun now sid input agent inb cap"]) simp_all

lemma insert_idem_becomes:
  "insert_run_idempotent now sid input agent inb cap k d = Inr (x, d') \<Longrightarrow>
   may (InsertIdem now sid input agent inb cap k) \<Longrightarrow> becomes may d d'"
  by (erule becomes_Inr [where s = "InsertIdem now sid input agent inb cap k"]) simp_all

lemma insert_trigger_becomes:
  "insert_trigger src p tgt agent d = Inr (i, d') \<Longrightarrow> may (InsertTrigger src p tgt agent) \<Longrightarrow> becomes may d d'"
  by (erule becomes_Inr [where s = "InsertTrigger src p tgt agent"]) simp_all

section \<open>Tools\<close>

lemma becomes_tools:
  "becomes tool_may d (snd (mcp_cancel env i d))" "becomes tool_may d (snd (mcp_delete_trigger i d))"
  "becomes tool_may d (snd (on_result msg src p tgt agent d))"
  "becomes tool_may d (set_allowlist a j d)" "becomes tool_may d (snd (enqueued i key d))"
proof -
  show "becomes tool_may d (snd (mcp_cancel env i d))"
    using becomes_stmt [of tool_may "Cancel (ee_clock env d) i ''canceled by operator''" d]
    by (simp add: mcp_cancel_def split_beta)
  show "becomes tool_may d (snd (mcp_delete_trigger i d))"
    using becomes_stmt [of tool_may "DeleteTrigger i" d] by (simp add: mcp_delete_trigger_def split_beta)
  show "becomes tool_may d (snd (on_result msg src p tgt agent d))"
    by (auto simp: on_result_def Let_def split: option.split sum.split
        elim!: insert_trigger_becomes)
  show "becomes tool_may d (set_allowlist a j d)"
    using becomes_stmt [of tool_may "SetAllowlist j n" d for n] by (simp add: set_allowlist_def split: option.split)
  show "becomes tool_may d (snd (enqueued i key d))"
    using becomes_stmt [of tool_may "SetCacheKey i k" d for k] by (simp add: enqueued_def split: option.split)
qed

lemma becomes_upload: "becomes tool_may d (snd (upload_script msg mx a d))"
proof -
  have ins: "becomes tool_may d (snd (insert_upload a d))"
  proof -
    obtain i v d1 where s: "insert_script (up_name a) (up_runtime a) (up_source a) (up_description a) (up_created_by a)
        (opt_true (up_network a)) (up_mem_limit_mb a) (up_cpu_limit a) (opt_true (up_feed_prev_result a))
        (up_timeout_secs a) d = ((i, v), d1)" by (metis prod_cases3 prod.collapse)
    have "becomes tool_may d d1"
      using becomes_stmt [of tool_may "InsertScript (up_name a) (up_runtime a) (up_source a) (up_description a)
        (up_created_by a) (opt_true (up_network a)) (up_mem_limit_mb a) (up_cpu_limit a)
        (opt_true (up_feed_prev_result a)) (up_timeout_secs a)" d] s by simp
    then show ?thesis using becomes_tools(4) [of d1 a i] by (auto simp: insert_upload_def Let_def s intro: becomes_trans)
  qed
  have ups: "becomes tool_may d (snd (upsert_script msg a prior d))" for prior
  proof -
    obtain i src v where p: "prior = (i, src, v)" by (metis prod_cases3)
    show ?thesis
    proof (cases "src = up_source a")
      case True
      obtain b d1 where m: "update_script_meta i (up_runtime a) (up_description a) (up_created_by a)
          (opt_true (up_network a)) (up_mem_limit_mb a) (up_cpu_limit a) (opt_true (up_feed_prev_result a))
          (up_timeout_secs a) d = (b, d1)" by fastforce
      have "becomes tool_may d d1"
        using becomes_stmt [of tool_may "UpdateMeta i (up_runtime a) (up_description a) (up_created_by a)
          (opt_true (up_network a)) (up_mem_limit_mb a) (up_cpu_limit a) (opt_true (up_feed_prev_result a))
          (up_timeout_secs a)" d] m by simp
      then show ?thesis using becomes_tools(4) [of d1 a i] True
        by (auto simp: upsert_script_def p m intro: becomes_trans)
    next
      case False
      show ?thesis
      proof (cases "update_script i (up_runtime a) (up_source a) (up_description a) (up_created_by a)
          (opt_true (up_network a)) (up_mem_limit_mb a) (up_cpu_limit a) (opt_true (up_feed_prev_result a))
          (up_timeout_secs a) d")
        case (Inr x)
        obtain v' d1 where x: "x = (v', d1)" by fastforce
        from Inr have "becomes tool_may d d1" unfolding x
          by (rule becomes_Inr [where s = "UpdateScript i (up_runtime a) (up_source a) (up_description a)
            (up_created_by a) (opt_true (up_network a)) (up_mem_limit_mb a) (up_cpu_limit a)
            (opt_true (up_feed_prev_result a)) (up_timeout_secs a)"]) simp_all
        then show ?thesis using becomes_tools(4) [of d1 a i] False Inr
          by (auto simp: upsert_script_def p x intro: becomes_trans)
      qed (use False in \<open>simp add: upsert_script_def p\<close>)
    qed
  qed
  show ?thesis using ins ups by (auto simp: upload_script_def split: sum.split option.split)
qed

text \<open>What leaves the rows of the queue alone.\<close>

lemma same_queue_tools:
  "same_queue d (snd (compose_flow no ps spec d))" "same_queue d (snd (run_flow msg ps fid input d))"
  "same_queue d (snd (create_webhook msg tok tgt j agent d))" "same_queue d (snd (mcp_delete_webhook i d))"
  "same_queue d (snd (set_secret seal n v agent d))" "same_queue d (snd (upload_blob env data d))"
  "same_queue d (snd (download_blob env h d))" "same_queue d (snd (snd (unschedule i cr d)))"
proof -
  have steps: "insert_steps ss a = Inr b \<Longrightarrow> same_queue a b" for ss a b
    by (induction ss arbitrary: a) (auto simp: same_queue_def split: if_splits)
  have ledger: "insert_ledger fid sp inp key d = Inr (x, d') \<Longrightarrow> same_queue d d'" for fid sp inp key x d'
    by (auto simp: insert_ledger_def Let_def same_queue_def split: if_splits sum.splits dest!: steps)
  show "same_queue d (snd (compose_flow no ps spec d))"
    by (simp add: compose_flow_def insert_flow_def Let_def same_queue_def split: sum.split)
  show "same_queue d (snd (run_flow msg ps fid input d))"
    by (auto simp: run_flow_def insert_flow_run_def split: option.split sum.split dest: ledger)
  show "same_queue d (snd (create_webhook msg tok tgt j agent d))"
    by (auto simp: create_webhook_def insert_webhook_def same_queue_def split: sum.split)
  show "same_queue d (snd (mcp_delete_webhook i d))"
    by (simp add: mcp_delete_webhook_def delete_webhook_def same_queue_def)
  show "same_queue d (snd (set_secret seal n v agent d))"
    by (auto simp: set_secret_def upsert_secret_def Let_def same_queue_def split: option.split)
  show "same_queue d (snd (upload_blob env data d))"
    by (auto simp: upload_blob_def put_blob_def same_queue_def split: option.split sum.split)
  show "same_queue d (snd (download_blob env h d))"
    by (auto simp: download_blob_def get_blob_def same_queue_def split: option.split prod.split)
  show "same_queue d (snd (snd (unschedule i cr d)))"
    by (auto simp: unschedule_def cron_remove_def set_schedule_enabled_def Let_def same_queue_def
        split: option.split)
qed

lemma same_queue_schedule: "same_queue d (snd (snd (schedule_script lib f msg ps now a cron d)))"
proof -
  have ins: "insert_schedule sid c inp opts d = Inr (i, d') \<Longrightarrow> same_queue d d'" for sid c inp opts i d'
    by (auto simp: insert_schedule_def same_queue_def split: if_splits)
  have "same_queue d (snd (snd (install_schedule lib f msg now a opts inp c tz cr d)))" for opts inp c tz cr
    by (auto simp: install_schedule_def set_schedule_enabled_def same_queue_def Let_def
        split: sum.split option.split dest!: ins)
  then have inst: "install_schedule lib f msg now a opts inp c tz cr d = (r, cr', d') \<Longrightarrow> same_queue d d'"
    for opts inp c tz cr r cr' d' by (metis snd_conv)
  show ?thesis
    by (auto simp: schedule_script_def Let_def split: option.split sum.split prod.split dest: inst)
qed

lemma becomes_delete_script: "becomes tool_may d (snd (snd (mcp_delete_script msg i cr d)))"
proof (cases "delete_script i d")
  case (Inr x)
  obtain res d1 where x: "x = (res, d1)" by fastforce
  from Inr have del: "becomes tool_may d d1" unfolding x
    by (rule becomes_Inr [where s = "DeleteScript i"]) simp_all
  let ?f = "\<lambda>s (c, d). snd (cron_remove s c d)"
  have f: "same_queue d (snd (fold ?f ss (c, d)))" for ss c d
  proof (induction ss arbitrary: c d)
    case (Cons s ss)
    obtain c' d' where s: "snd (cron_remove s c d) = (c', d')" by fastforce
    then have "same_queue d d'"
      by (auto simp: cron_remove_def set_schedule_enabled_def Let_def same_queue_def)
    from same_queue_trans [OF this Cons.IH [of d' c']] show ?case by (simp add: s)
  qed simp
  have tail: "becomes tool_may d d2" if "same_queue d1 d2" for d2
    by (rule becomes_trans [OF del becomes_elsewhere [OF that]]) simp
  show ?thesis
  proof (cases res)
    case (Deleted n scheds)
    show ?thesis
    proof (cases cr)
      case (Some c)
      obtain c' d2 where e: "fold ?f scheds (c, d1) = (c', d2)" by fastforce
      with f [of d1 scheds c] have "same_queue d1 d2" by simp
      then have "becomes tool_may d d2" by (rule tail)
      with e Some show ?thesis by (simp add: mcp_delete_script_def Inr x Deleted)
    qed (use del in \<open>simp add: mcp_delete_script_def Inr x Deleted\<close>)
  qed (use del in \<open>simp_all add: mcp_delete_script_def Inr x\<close>)
qed (simp add: mcp_delete_script_def)

lemma becomes_run_script: "becomes tool_may d (snd (run_script env a d))"
proof -
  have "becomes tool_may d (snd (enqueue_request env a input inb key d))" for input inb key
  proof -
    have e: "becomes tool_may d d1 \<Longrightarrow> becomes tool_may d (snd (enqueued i k d1))" for d1 i k
      by (rule becomes_trans [OF _ becomes_tools(5)])
    show ?thesis
      by (auto simp: enqueue_request_def Let_def split: option.split sum.split
          intro: insert_becomes insert_idem_becomes intro!: e)
  qed
  then show ?thesis by (auto simp: run_script_def Let_def split: option.split sum.split)
qed

text \<open>A tool that sleeps hands the database to the rest of the system, which acts by statements too.\<close>

definition by_statements :: "(nat \<Rightarrow> db \<Rightarrow> db) \<Rightarrow> bool" where
  "by_statements others = (\<forall>n d. runs_wf d \<longrightarrow> becomes (\<lambda>_. True) d (others n d))"

lemma poll_becomes:
  assumes "by_statements others" and "runs_wf d"
  shows "becomes (\<lambda>_. True) d (snd (poll_status others k n rid st d))"
  using assms(2)
proof (induction n arbitrary: k st d)
  case (Suc n)
  have o': "becomes (\<lambda>_. True) d (others k d)" using assms(1) Suc.prems by (simp add: by_statements_def)
  from Suc.IH [OF becomes_wf [OF this Suc.prems], of "Suc k"] show ?case
    by (auto simp: Let_def intro: becomes_trans [OF o'])
qed simp

lemma becomes_wait:
  assumes "by_statements others" and "runs_wf d"
  shows "becomes (\<lambda>_. True) d (snd (wait_for others rid t d))"
  using poll_becomes [OF assms] by (simp add: wait_for_def Let_def split_beta)

lemma becomes_reproduce:
  assumes "by_statements others" and wf: "runs_wf d" and "reproduce_run env tr others rid n agent d = Some (Inr (v, d'))"
  shows "becomes (\<lambda>_. True) d d'"
proof -
  have cmp: "becomes (\<lambda>_. True) a (snd (repro_compare others rid o' n r a))" if "runs_wf a" for a o' r
    using poll_becomes [OF assms(1) that, of 0 "n * 2" r "''pending''"]
    by (auto simp: repro_compare_def split_beta Let_def split: option.split)
  have step: "becomes (\<lambda>_. True) d e"
    if "insert_run_with_blobs now sid inp ag inb cap d = Inr (i, d1)" "repro_compare others rid o' n i d1 = (v, e)"
    for now sid inp ag inb cap i d1 o' e
  proof -
    have b: "becomes (\<lambda>_. True) d d1" using that(1) by (rule insert_becomes) simp
    with cmp [OF becomes_wf [OF b wf], of o' i] that(2) show ?thesis by (auto intro: becomes_trans)
  qed
  from assms(3) show ?thesis
    by (auto simp: reproduce_run_def Let_def split: option.splits if_splits sum.splits prod.splits dest: step)
qed

lemma becomes_reproduce_tool:
  assumes "by_statements others" and "runs_wf d" and "reproduce env tr others rid t agent d = Some x"
  shows "becomes (\<lambda>_. True) d (snd x)"
proof -
  from assms(3) obtain z where z: "reproduce_run env tr others rid (min (case t of Some t \<Rightarrow> t | None \<Rightarrow> 120) 300) agent d = Some z"
    and x: "x = (case z of Inl e \<Rightarrow> (Inl (InternalError e), d) | Inr (v, d') \<Rightarrow> (Inr v, d'))"
    unfolding reproduce_def by blast
  show ?thesis
  proof (cases z)
    case (Inr y)
    obtain v d' where "y = (v, d')" by fastforce
    with z x Inr becomes_reproduce [OF assms(1,2)] show ?thesis by auto
  qed (simp add: x)
qed

fun call_may :: "tool_call \<Rightarrow> stmt \<Rightarrow> bool" where
  "call_may (WaitFor a) s = True"
| "call_may (Reproduce a) s = True"
| "call_may c s = tool_may s"

definition after :: "('s \<Rightarrow> ('r \<times> 's) panics) \<Rightarrow> 's \<Rightarrow> 's" where
  "after op s = (case op s of None \<Rightarrow> s | Some (r, s') \<Rightarrow> s')"

lemma after_looks [simp]: "after (looks f) s = s"
  by (simp add: after_def looks_def)

lemma after_works [simp]: "ts_db (after (works f) s) = snd (f (ts_db s))"
  by (simp add: after_def works_def split_beta)

lemma after_schedules [simp]: "ts_db (after (schedules_too f) s) = snd (snd (f (ts_cron s) (ts_db s)))"
  by (simp add: after_def schedules_too_def split_beta)

lemma call_becomes:
  assumes o': "by_statements (te_others te)" and wf: "runs_wf (ts_db s)"
  shows "becomes (call_may c) (ts_db s) (ts_db (after (call_tool te c) s))"
proof -
  have m: "call_may b = tool_may" if "\<forall>a. b \<noteq> WaitFor a" "\<forall>a. b \<noteq> Reproduce a" for b
    using that by (intro ext) (cases b; simp)
  have any: "call_may (WaitFor a) = (\<lambda>_. True)" "call_may (Reproduce b) = (\<lambda>_. True)" for a b
    by (simp_all add: fun_eq_iff)
  note same = same_queue_tools [THEN becomes_elsewhere, of tool_may, simplified]
    same_queue_schedule [THEN becomes_elsewhere, of tool_may, simplified]
  show ?thesis
  proof (cases c)
    case (Reproduce a)
    show ?thesis
    proof (cases "reproduce (te_exec te) (te_trusted_keys te) (te_others te) (rp_run_id a) (rp_timeout a)
        (rp_agent_id a) (ts_db s)")
      case (Some x)
      then have "becomes (\<lambda>_. True) (ts_db s) (snd x)"
        by (rule becomes_reproduce_tool [OF o' wf])
      with Some Reproduce show ?thesis by (simp add: after_def any split_beta)
    qed (simp add: Reproduce after_def)
  next
    case (VerifyTool i)
    then show ?thesis
      by (cases "mcp_verify (te_exec te) (te_trusted_keys te) i (ts_db s)") (simp_all add: after_def)
  next
    case (ScheduleTool a)
    with same show ?thesis by (simp add: m after_def schedules_too_def split_beta)
  qed (simp_all add: m any becomes_tools becomes_upload becomes_delete_script becomes_run_script same
        becomes_wait [OF o' wf])
qed

interpretation tool_queue: queue_client "\<lambda>(te, c). after (call_tool te c)" ts_db "\<lambda>(te, c). call_may c"
    "\<lambda>(te, c). by_statements (te_others te)"
  by unfold_locales (auto simp: call_becomes)

section \<open>The HTTP surface\<close>

text \<open>The reproduce endpoint waits like the tool; what comes through \<open>/mcp\<close> is what the tools do.\<close>

definition http_ok :: "('ip, 'c, 'z) http_env \<Rightarrow> bool" where
  "http_ok he =
     (by_statements (he_others he) \<and>
      (\<forall>rq s r s'. runs_wf (hs_db s) \<longrightarrow> he_mcp he rq s = Some (r, s') \<longrightarrow>
         becomes (\<lambda>_. True) (hs_db s) (hs_db s')))"

definition direct :: "'ip axum \<Rightarrow> 'ip request \<Rightarrow> bool" where
  "direct ax rq =
     (ax_match ax (Nest ''/mcp'') (rq_path rq) = None \<and>
      ax_match ax (Route ''/api/runs/{id}/reproduce'') (rq_path rq) = None)"

definition request_may :: "'ip axum \<Rightarrow> 'ip request \<Rightarrow> stmt \<Rightarrow> bool" where
  "request_may ax rq s = (direct ax rq \<longrightarrow> http_may s)"

lemma becomes_api:
  "becomes http_may d (snd (api_cancel_run env i d))" "becomes http_may d (snd (api_trigger_run env sid input d))"
  "becomes http_may d (snd (api_set_secret seal n v d))"
proof -
  show "becomes http_may d (snd (api_cancel_run env i d))"
    using becomes_stmt [of http_may "Cancel (ee_clock env d) i ''canceled by operator''" d]
    by (simp add: api_cancel_run_def Let_def)
  show "becomes http_may d (snd (api_trigger_run env sid input d))"
    by (auto simp: api_trigger_run_def insert_run_def Let_def split: sum.split prod.split option.split
        elim: insert_becomes)
  have "same_queue d (upsert_secret seal n v None d)" by (simp add: upsert_secret_def same_queue_def)
  then show "becomes http_may d (snd (api_set_secret seal n v d))"
    by (auto simp: api_set_secret_def intro: becomes_elsewhere)
qed

lemma becomes_hook: "becomes http_may (hs_db s) (hs_db (snd (webhook_fire show tr env lossy now rq s)))"
proof -
  have flow: "becomes http_may d (snd (fire_flow tgt inp k d))" for tgt inp k d
  proof -
    have steps: "insert_steps ss a = Inr b \<Longrightarrow> same_queue a b" for ss a b
      by (induction ss arbitrary: a) (auto simp: same_queue_def split: if_splits)
    have "insert_flow_run_idempotent fid sp inp k d = Inr (x, d') \<Longrightarrow> same_queue d d'" for fid sp x d'
      by (auto simp: insert_flow_run_idempotent_def insert_ledger_def Let_def same_queue_def
          split: if_splits sum.splits option.splits dest!: steps)
    then show ?thesis
      by (auto simp: fire_flow_def split: option.split sum.split intro: becomes_elsewhere)
  qed
  have script: "becomes http_may d (snd (fire_script now' tgt inp ag k d))" for now' tgt inp ag k d
    by (auto simp: fire_script_def split: sum.split elim: insert_idem_becomes)
  have f: "x = (r, d') \<Longrightarrow> becomes http_may d (snd x) \<Longrightarrow> becomes http_may d d'" for x :: "response \<times> db" and r d d'
    by simp
  show ?thesis
    by (auto simp: webhook_fire_def Let_def split: prod.split option.split if_splits
        dest: f [OF _ flow] f [OF _ script])
qed

definition handles :: "(stmt \<Rightarrow> bool) \<Rightarrow> 'ip handler \<Rightarrow> bool" where
  "handles may h =
     (\<forall>caps rq s r s'. runs_wf (hs_db s) \<longrightarrow> h caps rq s = Some (r, s') \<longrightarrow> becomes may (hs_db s) (hs_db s'))"

lemma handles_after: "handles may h \<Longrightarrow> runs_wf (hs_db s) \<Longrightarrow> becomes may (hs_db s) (hs_db (after (h caps rq) s))"
  by (auto simp: handles_def after_def split: option.split)

lemma handles_mono: "handles may h \<Longrightarrow> (\<And>s. may s \<Longrightarrow> may' s) \<Longrightarrow> handles may' h"
  unfolding handles_def using becomes_mono by blast

lemma handles_refuse: "handles may (refuse r)"
  by (simp add: handles_def refuse_def)

lemma handles_reading: "handles may (reading f)"
  by (simp add: handles_def reading_def)

lemma handles_with_db: "(\<And>d. becomes may d (snd (f d))) \<Longrightarrow> handles may (\<lambda>caps rq. with_db f)"
  by (auto simp: handles_def with_db_def split: prod.splits) (metis snd_conv)

lemma handles_extractors:
  "(\<And>i. handles may (h i)) \<Longrightarrow> handles may (with_id ax h)"
  "(\<And>v. handles may (q v)) \<Longrightarrow> handles may (with_query ax field q)"
  "(\<And>b. handles may (j b)) \<Longrightarrow> handles may (with_json ax of_body j)"
  by (auto simp: handles_def with_id_def with_query_def with_json_def split: option.splits sum.splits)

lemma handles_methods:
  "handles may g \<Longrightarrow> handles may (on_get ax g m)" "handles may p \<Longrightarrow> handles may (on_post ax p m)"
  "handles may g \<Longrightarrow> handles may p \<Longrightarrow> handles may (on_get_post ax g p m)"
  by (simp_all add: on_get_def on_post_def on_get_post_def handles_refuse)

lemma handles_auth: "handles may h \<Longrightarrow> handles may (auth token h)"
  by (auto simp: handles_def auth_def auth_gate_def split: option.splits if_splits)

definition handled :: "(stmt \<Rightarrow> bool) \<Rightarrow> 'ip axum \<Rightarrow> string \<Rightarrow> 'ip routes \<Rightarrow> bool" where
  "handled may ax path rts = list_all (\<lambda>(p, mr). ax_match ax p path \<noteq> None \<longrightarrow> (\<forall>m. handles may (mr m))) rts"

lemma dispatch_becomes:
  "handled may ax (rq_path rq) rts \<Longrightarrow> runs_wf (hs_db s) \<Longrightarrow>
   becomes may (hs_db s) (hs_db (after (dispatch ax rts rq) s))"
proof (induction rts)
  case (Cons x rts)
  obtain p mr where x: "x = (p, mr)" by fastforce
  show ?case
  proof (cases "ax_match ax p (rq_path rq)")
    case None
    then have "after (dispatch ax (x # rts) rq) s = after (dispatch ax rts rq) s" by (simp add: after_def x)
    with Cons show ?thesis by (simp add: handled_def)
  next
    case (Some caps)
    then have "after (dispatch ax (x # rts) rq) s = after (mr (rq_method rq) caps rq) s" by (simp add: after_def x)
    with Cons Some x show ?thesis by (auto simp: handled_def intro: handles_after)
  qed
qed (simp add: after_def)

lemma handled_layer:
  "handled may ax path rts \<Longrightarrow> handled may ax path (layer (auth token) rts)"
  by (auto simp: handled_def layer_def list_all_iff handles_auth)

lemma handles_hook: "handles http_may (hook_handler ax he)"
proof -
  have "webhook_fire ipstr tr env lossy now rq s = (r, s') \<Longrightarrow> becomes http_may (hs_db s) (hs_db s')"
    for ipstr tr env lossy now rq s r s'
    using becomes_hook [of s ipstr tr env lossy now rq] by simp
  then show ?thesis by (auto simp: handles_def hook_handler_def split: list.splits)
qed

lemma handles_verify: "handles may (\<lambda>caps rq s. map_option (\<lambda>r. (r, s)) (f s))"
  by (auto simp: handles_def)

lemma api_reproduce_becomes:
  assumes "by_statements others"
  shows "handles (\<lambda>_. True) (\<lambda>caps rq s. map_option (\<lambda>(r, d). (r, s\<lparr>hs_db := d\<rparr>))
    (api_reproduce_run env tr others i (hs_db s)))"
proof -
  have "becomes (\<lambda>_. True) d (snd x)" if "runs_wf d" "api_reproduce_run env tr others i d = Some x" for d x
  proof -
    from that(2) obtain z where z: "reproduce_run env tr others i 120 None d = Some z"
      and x: "x = (case z of Inr (v, d') \<Rightarrow> (JsonResp 200 v, d') | Inl e \<Rightarrow> (JsonResp 500 (mk_obj [(''error'', JStr e)]), d))"
      unfolding api_reproduce_run_def by blast
    show ?thesis
    proof (cases z)
      case (Inr y)
      obtain v d' where "y = (v, d')" by fastforce
      with z x Inr becomes_reproduce [OF assms that(1)] show ?thesis by auto
    qed (simp add: x)
  qed
  then show ?thesis by (force simp: handles_def)
qed

lemma handled_operator:
  assumes "http_ok he" and "request_may ax rq = may"
  shows "handled may ax (rq_path rq) (operator_router ax he)"
proof -
  have o': "by_statements (he_others he)" using assms(1) by (simp add: http_ok_def)
  have m: "http_may s \<Longrightarrow> may s" for s unfolding assms(2) [symmetric] by (simp add: request_may_def)
  note api = becomes_mono [OF becomes_api(1) m] becomes_mono [OF becomes_api(2) m] becomes_mono [OF becomes_api(3) m]
  have trigger: "handles may ((\<lambda>(sid, input) caps rq. with_db (api_trigger_run (he_exec he) sid input)) b)" for b
    using handles_with_db [of may, OF api(2)] by (simp add: split_beta)
  have secret: "handles may ((\<lambda>(n, v) caps rq. with_db (api_set_secret (he_seal he) n v)) b)" for b
    using handles_with_db [of may, OF api(3)] by (simp add: split_beta)
  have cancel: "handles may (\<lambda>caps rq. with_db (api_cancel_run (he_exec he) i))" for i
    by (rule handles_with_db) (rule api(1))
  have rep: "handles may (\<lambda>caps rq s. map_option (\<lambda>(r, d). (r, s\<lparr>hs_db := d\<rparr>))
      (api_reproduce_run (he_exec he) (he_trusted_keys he) (he_others he) i (hs_db s)))"
    if "ax_match ax (Route ''/api/runs/{id}/reproduce'') (rq_path rq) \<noteq> None" for i
  proof -
    have "may = (\<lambda>_. True)" using that by (auto simp: fun_eq_iff request_may_def direct_def simp flip: assms(2))
    then show ?thesis using api_reproduce_becomes [OF o'] by simp
  qed
  show ?thesis
    unfolding handled_def operator_router_def list.pred_inject prod.case
    by (intro conjI allI TrueI impI handles_methods handles_extractors handles_reading handles_verify trigger secret
        cancel rep) simp_all
qed

lemma http_becomes:
  assumes ok: "http_ok he" and wf: "runs_wf (hs_db s)"
  shows "becomes (request_may ax rq) (hs_db s) (hs_db (after (serve_http ax he token rq) s))"
proof -
  let ?may = "request_may ax rq"
  have m: "http_may s \<Longrightarrow> ?may s" for s by (simp add: request_may_def)
  have hook: "handles ?may (hook_handler ax he)"
    by (rule handles_mono [OF handles_hook m])
  have mcp: "handles ?may (\<lambda>caps. he_mcp he)" if "ax_match ax (Nest ''/mcp'') (rq_path rq) \<noteq> None"
  proof -
    have "?may = (\<lambda>_. True)" using that by (auto simp: fun_eq_iff request_may_def direct_def)
    then show ?thesis using ok by (simp add: http_ok_def handles_def)
  qed
  have "handled ?may ax (rq_path rq) ((Nest ''/mcp'', \<lambda>m caps. he_mcp he) # operator_router ax he)"
    using handled_operator [OF ok, where ax = ax and rq = rq] mcp by (auto simp: handled_def)
  then have "handled ?may ax (rq_path rq) (app_routes ax he token)"
    using handled_layer [where ax = ax and path = "rq_path rq" and token = token] handles_methods(2) [OF hook, where ax = ax]
      handles_methods(1) [OF handles_reading, where ax = ax]
    by (simp add: handled_def app_routes_def webhook_router_def health_router_def protected_routes_def)
  from dispatch_becomes [OF this wf] show ?thesis by (simp add: after_def serve_http_def)
qed

interpretation http_queue: queue_client "\<lambda>(ax, he, token, rq). after (serve_http ax he token rq)" hs_db
    "\<lambda>(ax, he, token, rq). request_may ax rq" "\<lambda>(ax, he, token, rq). http_ok he"
  by unfold_locales (auto simp: http_becomes)

end
