(* ===== verification/Daemon_Laws.thy ===== *)
theory Daemon_Laws
  imports Histories Flow_Laws
begin

text \<open>
  The parts of the daemon that act on their own - the scheduler's ticks, the workers, the flow engine,
  the housekeeping loops - meet the contract of \<open>Histories\<close>; with the tools and the HTTP surface they
  make the whole daemon, any interleaving of whose operations is a history of the queue.
\<close>

section \<open>The scheduler\<close>

type_synonym tick = "time \<times> schedule \<times> int"

lemma refused_becomes:
  "insert_refused_run now sid input agent reason k d = Inr (x, d') \<Longrightarrow> becomes tick_may d d'"
  by (erule becomes_Inr [where s = "InsertRefused now sid input agent reason k"]) simp_all

lemma tick_becomes: "becomes tick_may d (snd (enqueue_tick now s epoch d))"
  by (auto simp: enqueue_tick_def Let_def split: option.split sum.split
      intro: refused_becomes insert_becomes insert_idem_becomes)

interpretation tick_queue: queue_client "\<lambda>(now, s, epoch) d. snd (enqueue_tick now s epoch d)" "\<lambda>d. d"
    "\<lambda>a. tick_may" "\<lambda>a. True"
  by unfold_locales (auto simp: tick_becomes)

section \<open>The executor and the workers\<close>

lemma history_becomes:
  assumes "history k d d'" shows "becomes exec_may d d'"
proof -
  from assms obtain ss where ss: "list_all (executor_stmt k) ss" "same_queue (exec_stmts ss d) d'"
    unfolding history_def by blast
  from ss(1) have "list_all exec_may ss" by (auto simp: list_all_iff intro: exec_kind)
  then have "becomes exec_may d (exec_stmts ss d)" unfolding becomes_def by blast
  also have "becomes exec_may (exec_stmts ss d) d'" by (rule becomes_elsewhere [OF ss(2)]) simp
  finally show ?thesis .
qed

lemma exec_becomes:
  "run_by_id (ra_run_id a) d = Some r \<Longrightarrow> becomes exec_may d (exec_run env a d)"
  using exec_run_ends(1) [of a d r env] by (auto simp: evolved_def intro: history_becomes)

lemma process_becomes:
  assumes r: "run_by_id (cj_run_id job) d = Some r"
  shows "becomes work_may d (process_job env job d)"
proof -
  from mark_lookup [OF r] obtain d1 where m: "mark_attempt (cj_run_id job) d = Inr (r_attempts r + 1, d1)"
    and l: "\<And>i. run_by_id i d1 =
       map_option (\<lambda>q. if r_id q = cj_run_id job then q\<lparr>r_attempts := r_attempts q + 1\<rparr> else q) (run_by_id i d)"
    by blast
  let ?a = "job_args job (job_input job d1)"
  have "becomes work_may d d1"
    by (rule becomes_Inr [OF m, where s = "Mark (cj_run_id job)"]) (simp_all add: m)
  also obtain r1 where "run_by_id (ra_run_id ?a) d1 = Some r1" using l r by simp
  then have "becomes work_may d1 (exec_run env ?a d1)"
    by (rule becomes_mono [OF exec_becomes exec_lifts(1)])
  finally have b: "becomes work_may d (exec_run env ?a d1)" .
  have q: "becomes work_may x (requeue (cj_run_id job) x)" for x
    using becomes_stmt [of work_may "Requeue (cj_run_id job)" x] by simp
  show ?thesis using b becomes_trans [OF b q] by (simp add: process_job_def m Let_def)
qed

lemma work_becomes:
  assumes wf: "runs_wf d" shows "becomes work_may d (work_once env caps locked d)"
proof -
  obtain jo d' where c: "claim_run (ee_clock env d) caps locked d = (jo, d')" by fastforce
  have b: "becomes work_may d d'"
    using becomes_stmt [of work_may "Claim (ee_clock env d) caps locked" d] c by simp
  show ?thesis
  proof (cases jo)
    case (Some job)
    from claim_lookup [OF wf] c Some obtain r where "run_by_id (cj_run_id job) d' = Some r" by blast
    from becomes_trans [OF b process_becomes [OF this]] c Some show ?thesis by (simp add: work_once_def)
  qed (use b c in \<open>simp add: work_once_def\<close>)
qed

interpretation worker_queue: queue_client "\<lambda>(env, caps, locked). work_once env caps locked" "\<lambda>d. d"
    "\<lambda>a. work_may" "\<lambda>a. True"
  by unfold_locales (auto simp: work_becomes)

section \<open>The flow engine\<close>

text \<open>The ledger is another table; the runs of the steps go through the queue.\<close>

lemma ledger_steps:
  "same_queue d (upd_step fr sid f d)" "same_queue d (finish_step now fr sid st out d)"
  "same_queue d (mark_step_skipped now fr sid d)" "same_queue d (mark_step_compensated fr sid d)"
  "same_queue d (set_step_running fr sid rid d)" "same_queue d (touch_flow_run now fr d)"
  "same_queue d (finish_flow_run now fr st2 d)" "same_queue d (snd (claim_flow_run now locked d))"
  by (simp_all add: same_queue_def upd_step_def finish_step_def mark_step_skipped_def mark_step_compensated_def
      set_step_running_def touch_flow_run_def finish_flow_run_def claim_flow_run_def split: option.split)

lemma insert_children_queue: "insert_children ss d = Inr d' \<Longrightarrow> same_queue d d'"
  by (induction ss d rule: insert_children.induct) (auto simp: same_queue_def split: if_splits)

lemma expand_map_queue: "expand_map_step fr parent cs cache d = Inr d' \<Longrightarrow> same_queue d d'"
  by (auto simp: expand_map_step_def split: sum.splits
      intro: same_queue_trans [OF insert_children_queue ledger_steps(1)])

lemma expand_queue: "same_queue d (expand env fr step input deps m d)"
  by (auto simp: expand_def Let_def ledger_steps split: option.split json.split sum.split
      dest: expand_map_queue)

lemma aggregate_queue: "same_queue d (snd (aggregate_parents env fr steps ps d))"
  by (induction env fr steps ps d rule: aggregate_parents.induct)
    (auto split: option.split agg.split intro: same_queue_trans [OF ledger_steps(2)])

lemma resolve_queue: "same_queue d (snd (snd (resolve_pending env fr input outs skipped ss d)))"
proof (induction ss arbitrary: d)
  case (Cons s ss)
  from same_queue_trans [OF ledger_steps(3) Cons] same_queue_trans [OF expand_queue Cons] Cons show ?case
    by (simp add: split_beta split: decision.split)
qed simp

lemma engine_elsewhere: "same_queue d d' \<Longrightarrow> becomes engine_may d d'"
  by (rule becomes_elsewhere) simp_all

text \<open>A run of the engine's own: inserted and executed.\<close>

lemma own_run:
  assumes ins: "insert_run now sid input None d = Inr (rid, d1)"
    and q: "becomes engine_may d1 d2" and row: "runs d2 = runs d1 \<or> (\<exists>k. runs d2 = runs (set_run_cache_key rid k d1))"
    and a: "ra_run_id a = rid"
  shows "becomes engine_may d (exec_run env a d2)"
proof -
  have "becomes engine_may d d1" using ins by (simp add: insert_run_def insert_becomes)
  also note q
  also from insert_run_flow(2) [OF ins] obtain r where "run_by_id rid d1 = Some r" by blast
  then have "\<exists>r. run_by_id (ra_run_id a) d2 = Some r"
    using row a by (auto simp: run_by_id_def set_run_cache_key_def find_update_where [where key = r_id])
  then have "becomes engine_may d2 (exec_run env a d2)"
    by (auto intro: becomes_mono [OF exec_becomes exec_lifts(2)])
  finally show ?thesis .
qed

lemma attempts_becomes: "becomes engine_may d (run_attempts env fr step sc key input n d)"
proof (induction n arbitrary: d)
  case (Suc n)
  show ?case
  proof (cases "insert_run (ee_clock env d) (fs_script_id step) input None d")
    case (Inr x)
    obtain rid d1 where x: "x = (rid, d1)" by fastforce
    let ?d2 = "case key of Some k \<Rightarrow> set_run_cache_key rid k d1 | None \<Rightarrow> d1"
    let ?d3 = "set_step_running fr (fs_step_id step) rid ?d2"
    let ?d4 = "exec_run env (script_args sc rid input ?d3) ?d3"
    have "becomes engine_may d1 ?d2"
      using becomes_stmt [of engine_may "SetCacheKey rid k" d1 for k] by (simp split: option.split)
    also have "becomes engine_may ?d2 ?d3" by (rule engine_elsewhere [OF ledger_steps(5)])
    finally have q: "becomes engine_may d1 ?d3" .
    have rows: "runs ?d3 = runs d1 \<or> (\<exists>k. runs ?d3 = runs (set_run_cache_key rid k d1))"
      by (cases key) (auto simp: set_step_running_def upd_step_def)
    from Inr x q rows have b: "becomes engine_may d ?d4" by (intro own_run) simp_all
    from becomes_trans [OF b Suc] becomes_trans [OF b engine_elsewhere [OF ledger_steps(2)]]
    show ?thesis by (simp add: Inr x Let_def)
  qed (simp add: engine_elsewhere ledger_steps)
qed (simp add: engine_elsewhere ledger_steps)

lemma step_becomes: "becomes engine_may d (run_step env fr input step deps d)"
  by (auto simp: run_step_def Let_def engine_elsewhere ledger_steps attempts_becomes
      split: option.split)

lemma batch_becomes: "becomes engine_may d (run_batch env sched fr input batch d)"
proof -
  have "becomes engine_may d (fold (\<lambda>(s, deps) d. run_step env fr input s deps d) b d)" for b
  proof (induction b arbitrary: d)
    case (Cons x b)
    obtain s deps where x: "x = (s, deps)" by fastforce
    from becomes_trans [OF step_becomes Cons] show ?case by (simp add: x)
  qed simp
  then show ?thesis by (simp add: run_batch_def)
qed

lemma compensate_becomes: "becomes engine_may d (snd (compensate env fr input steps d))"
proof -
  have one: "becomes engine_may d (snd (compensate_one env fr input s (n, d)))" for s n d
  proof -
    let ?i = "case fs_compensate s of Some i \<Rightarrow> i | None \<Rightarrow> 0"
    have "becomes engine_may d (mark_step_compensated fr (fs_step_id s)
        (exec_run env (script_args sc rid (comp_input input s) d1) d1))"
      if "insert_run (ee_clock env d) ?i (comp_input input s) None d = Inr (rid, d1)" for sc rid d1
      by (rule becomes_trans [OF own_run [OF that] engine_elsewhere [OF ledger_steps(4)]]) simp_all
    then show ?thesis
      by (auto simp: compensate_one_def Let_def split: option.split sum.split)
  qed
  have "becomes engine_may d (snd (fold (compensate_one env fr input) ss (n, d)))" for ss n
  proof (induction ss arbitrary: n d)
    case (Cons s ss)
    obtain n1 d1 where "compensate_one env fr input s (n, d) = (n1, d1)" by fastforce
    with one [of d s n] becomes_trans [of engine_may d d1] Cons.IH [of d1 n1] show ?case by simp
  qed simp
  then show ?thesis by (simp add: compensate_def)
qed

fun pass_db :: "pass \<Rightarrow> db" where
  "pass_db (Done d) = d" | "pass_db (Again d) = d" | "pass_db (Idle d) = d"

lemma pass_becomes: "becomes engine_may d (pass_db (drive_pass env sched fr input d))"
proof -
  note el = engine_elsewhere [OF ledger_steps(6)] engine_elsewhere [OF ledger_steps(7)]
    engine_elsewhere [OF aggregate_queue] engine_elsewhere [OF resolve_queue]
  let ?d0 = "touch_flow_run (ee_clock env d) fr d"
  let ?steps = "steps_of fr ?d0"
  obtain n dc where c: "compensate env fr input ?steps ?d0 = (n, dc)" by fastforce
  obtain p da where a: "aggregate_parents env fr ?steps (filter (\<lambda>s. fs_status s = SExpanded) ?steps) ?d0 = (p, da)"
    by fastforce
  obtain p' to_run dr where r: "resolve_pending env fr input (step_outputs ?steps) (skipped_steps ?steps)
      (filter (\<lambda>s. fs_status s = SPending) ?steps) da = (p', to_run, dr)" by (metis prod_cases3)
  have bc: "becomes engine_may d dc" using becomes_trans [OF el(1) compensate_becomes] c by (metis snd_conv)
  have ba: "becomes engine_may d da" using becomes_trans [OF el(1) el(3)] a by (metis snd_conv)
  have br: "becomes engine_may d dr" using becomes_trans [OF ba el(4)] r by (metis snd_conv)
  show ?thesis
    using becomes_trans [OF bc el(2)] ba br becomes_trans [OF br batch_becomes] becomes_trans [OF el(1) el(2)]
    by (simp add: drive_pass_def Let_def c a r)
qed

text \<open>The engine's loop, cut where other processes get their turns: a claim, or a pass over a flow.\<close>

datatype engine_op =
    ClaimFlow time "int list"
  | Pass exec_env sched int json

fun engine_step :: "engine_op \<Rightarrow> db \<Rightarrow> db" where
  "engine_step (ClaimFlow now locked) d = snd (claim_flow_run now locked d)"
| "engine_step (Pass env sched fr input) d = pass_db (drive_pass env sched fr input d)"

lemma engine_becomes: "becomes engine_may d (engine_step op d)"
  by (cases op) (simp_all add: pass_becomes engine_elsewhere ledger_steps)

interpretation engine_queue: queue_client engine_step "\<lambda>d. d" "\<lambda>a. engine_may" "\<lambda>a. True"
  by unfold_locales (rule engine_becomes)

section \<open>Housekeeping\<close>

datatype upkeep =
    Reaper time time
  | Sweep rat time
  | LogSweep rat rat time
  | Beat time int
  | FlowBeat time int
  | ExecutorBeat time string string string

fun upkeep_step :: "upkeep \<Rightarrow> db \<Rightarrow> db" where
  "upkeep_step (Reaper pending_to now) d = reaper_tick pending_to now d"
| "upkeep_step (Sweep days now) d = retention_tick days now d"
| "upkeep_step (LogSweep ldays days now) d = log_tick ldays days now d"
| "upkeep_step (Beat now rid) d = touch_run now rid d"
| "upkeep_step (FlowBeat now fr) d = touch_flow_run now fr d"
| "upkeep_step (ExecutorBeat now i host caps) d = executor_heartbeat now i host caps d"

text \<open>The statements a tick is made of.\<close>

lemma upkeep_made_of:
  assumes el: "\<And>e. may (Elsewhere e)"
    and reaper: "\<And>p now. u = Reaper p now \<Longrightarrow> may (FailStale now p) \<and> may (Reap now (secs run_lease_secs))"
    and sweep: "\<And>days now. u = Sweep days now \<Longrightarrow> may (GcOld now days)"
    and beat: "\<And>now i. u = Beat now i \<Longrightarrow> may (Touch now i)"
  shows "becomes may d (upkeep_step u d)"
proof -
  have el: "same_queue a b \<Longrightarrow> becomes may a b" for a b by (rule becomes_elsewhere) (simp_all add: el)
  show ?thesis
  proof (cases u)
    case (Reaper pending_to now)
    let ?d1 = "if 0 < pending_to then snd (fail_stale_pending now pending_to d) else d"
    let ?d2 = "snd (reap_orphan_runs now (secs run_lease_secs) ?d1)"
    have "becomes may d ?d1"
      using becomes_stmt [of may "FailStale now pending_to" d] reaper [OF Reaper] by simp
    also have "becomes may ?d1 ?d2"
      using becomes_stmt [of may "Reap now (secs run_lease_secs)" ?d1] reaper [OF Reaper] by simp
    also have "becomes may ?d2 (snd (reap_orphan_flow_runs now (secs run_lease_secs) ?d2))"
      by (rule el) (simp add: same_queue_def reap_orphan_flow_runs_def Let_def)
    finally show ?thesis by (simp add: Reaper reaper_tick_def Let_def)
  next
    case (Sweep days now)
    have "becomes may d (snd (gc_old now days d))"
      using becomes_stmt [of may "GcOld now days" d] sweep [OF Sweep] by simp
    also have "becomes may \<dots> (retention_sweep now days d)"
      by (rule el) (simp add: retention_sweep_def gc_blobs_def same_queue_def Let_def)
    finally show ?thesis by (simp add: Sweep retention_tick_def)
  next
    case (LogSweep ldays days now)
    show ?thesis by (simp add: LogSweep log_tick_def Let_def) (simp add: el gc_logs_def same_queue_def Let_def)
  next
    case (Beat now rid)
    then show ?thesis using becomes_stmt [of may "Touch now rid" d] beat [OF Beat] by simp
  next
    case (FlowBeat now fr)
    then show ?thesis by (simp add: el ledger_steps)
  next
    case (ExecutorBeat now i host caps)
    then show ?thesis by (simp add: executor_heartbeat_def) (simp add: el same_queue_def)
  qed
qed

lemma upkeep_becomes: "becomes upkeep_may d (upkeep_step op d)"
  by (rule upkeep_made_of) simp_all

interpretation upkeep_queue: queue_client upkeep_step "\<lambda>d. d" "\<lambda>a. upkeep_may" "\<lambda>a. True"
  by unfold_locales (rule upkeep_becomes)

section \<open>The daemon\<close>

text \<open>
  Its operations on one state: a client's call or request, a schedule's tick, a worker's turn, a turn of
  the flow engine, a housekeeping tick.  A handler that panics takes nothing with it.
\<close>

datatype ('ip, 'c, 'z) daemon_op =
    Serve "('ip, 'c, 'z) client_op"
  | Fire time schedule int
  | Work exec_env "string list" "int list"
  | Engine engine_op
  | Upkeep upkeep

abbreviation dm_db :: "daemon_state \<Rightarrow> db" where
  "dm_db s \<equiv> hs_db (dm_http s)"

definition on_db :: "(db \<Rightarrow> db) \<Rightarrow> daemon_state \<Rightarrow> daemon_state" where
  "on_db f s = s\<lparr>dm_http := (dm_http s)\<lparr>hs_db := f (dm_db s)\<rparr>\<rparr>"

fun daemon_step :: "('ip, 'c, 'z) daemon_op \<Rightarrow> daemon_state \<Rightarrow> daemon_state" where
  "daemon_step (Serve c) s = after (client_step c) s"
| "daemon_step (Fire now sch epoch) s = on_db (\<lambda>d. snd (enqueue_tick now sch epoch d)) s"
| "daemon_step (Work env caps locked) s = on_db (work_once env caps locked) s"
| "daemon_step (Engine e) s = on_db (engine_step e) s"
| "daemon_step (Upkeep u) s = on_db (upkeep_step u) s"

text \<open>What a handler that sleeps, or the endpoint that carries the tools, hands over to acts by statements.\<close>

fun daemon_ok :: "('ip, 'c, 'z) daemon_op \<Rightarrow> bool" where
  "daemon_ok (Serve (ByTool te c)) = by_statements (te_others te)"
| "daemon_ok (Serve (ByHttp ax he token rq)) = http_ok he"
| "daemon_ok _ = True"

fun daemon_may :: "('ip, 'c, 'z) daemon_op \<Rightarrow> stmt \<Rightarrow> bool" where
  "daemon_may (Serve (ByTool te c)) = call_may c"
| "daemon_may (Serve (ByHttp ax he token rq)) = request_may ax rq"
| "daemon_may (Fire now sch epoch) = tick_may"
| "daemon_may (Work env caps locked) = work_may"
| "daemon_may (Engine e) = engine_may"
| "daemon_may (Upkeep u) = upkeep_may"

lemma dm_db_on_db [simp]: "dm_db (on_db f s) = f (dm_db s)"
  by (simp add: on_db_def)

lemma after_client [simp]:
  "dm_db (after (client_step (ByTool te c)) s) =
     ts_db (after (call_tool te c) \<lparr>ts_cron = dm_cron s, ts_db = dm_db s\<rparr>)"
  "dm_http (after (client_step (ByHttp ax he token rq)) s) = after (serve_http ax he token rq) (dm_http s)"
  by (auto simp: after_def split: option.split)

lemma daemon_becomes:
  assumes "daemon_ok op" and wf: "runs_wf (dm_db s)"
  shows "becomes (daemon_may op) (dm_db s) (dm_db (daemon_step op s))"
proof (cases op)
  case (Serve c)
  show ?thesis
  proof (cases c)
    case (ByTool te c)
    with assms Serve call_becomes [of te "\<lparr>ts_cron = dm_cron s, ts_db = dm_db s\<rparr>" c] show ?thesis by simp
  next
    case (ByHttp ax he token rq)
    with assms Serve show ?thesis by (simp add: http_becomes)
  qed
qed (simp_all add: tick_becomes work_becomes [OF wf] engine_becomes upkeep_becomes)

interpretation daemon_queue: queue_client daemon_step dm_db daemon_may daemon_ok
  by unfold_locales (rule daemon_becomes)

text \<open>
  The daemon refines the queue: whatever its parts do, in whatever order - tool calls and HTTP
  requests, ticks, workers' turns, passes of the flow engine, housekeeping - the database is the result
  of a history of the queue's statements, each one that some part may use, so what holds of every
  history of statements holds of the daemon; in particular its run table stays well formed.
\<close>
theorem daemon_is_history:
  assumes "list_all daemon_ok ops" and "runs_wf (dm_db s)"
  shows "(\<exists>ss. (\<forall>st\<in>set ss. \<exists>op\<in>set ops. daemon_may op st) \<and>
            exec_stmts ss (dm_db s) = dm_db (fold daemon_step ops s)) \<and>
         runs_wf (dm_db (fold daemon_step ops s))"
  using daemon_queue.sequence [OF assms] daemon_queue.sequence_wf [OF assms]
  by (simp add: becomes_def list_all_iff)

definition toy_ops :: "(unit, unit, unit) daemon_op list" where
  "toy_ops = [Serve (ByTool toy_server (CancelTool 1)), Work sample_host [''bash''] [], Upkeep (Reaper 0 0)]"

lemma toy_ops_ok: "list_all daemon_ok toy_ops"
  by (simp add: toy_ops_def toy_server_def by_statements_def)

lemma toy_daemon_wf: "runs_wf (dm_db (toy_daemon v))"
  by (rule runs_wf_cong [OF _ _ _ _ _ empty_db_wf]) (simp_all add: toy_daemon_def)

theorem daemon_is_history_witness:
  "runs_wf (dm_db (fold daemon_step toy_ops (toy_daemon ''x'')))"
  using daemon_is_history [OF toy_ops_ok toy_daemon_wf] by blast

section \<open>Who decides what becomes of a run\<close>

text \<open>A client that waits, through \<open>wait_for\<close> or \<open>reproduce\<close>, sees what the others do meanwhile.\<close>

fun waits :: "('ip, 'c, 'z) client_op \<Rightarrow> bool" where
  "waits (ByTool te (WaitFor a)) = True"
| "waits (ByTool te (Reproduce a)) = True"
| "waits (ByTool te c) = False"
| "waits (ByHttp ax he token rq) = (\<not> direct ax rq)"

fun may_turn :: "('ip, 'c, 'z) daemon_op \<Rightarrow> run_status \<Rightarrow> run_status \<Rightarrow> bool" where
  "may_turn (Serve c) a b = (waits c \<or> a \<noteq> Succeeded \<and> b = Canceled)"
| "may_turn (Fire now sch epoch) a b = False"
| "may_turn (Work env caps locked) a b = (b \<noteq> Canceled)"
| "may_turn (Engine e) a b = (a \<noteq> Canceled \<and> b \<in> {Succeeded, Failed})"
| "may_turn (Upkeep u) a b = (a \<in> {Pending, Running} \<and> b \<in> {Pending, Failed})"

lemma tool_waits: "waits (ByTool te c) \<or> call_may c = tool_may"
  by (cases c) (auto simp: fun_eq_iff)

lemma client_moves:
  "tool_may st \<Longrightarrow> moves st i a b \<Longrightarrow> a \<noteq> Succeeded \<and> b = Canceled"
  "http_may st \<Longrightarrow> moves st i a b \<Longrightarrow> a \<noteq> Succeeded \<and> b = Canceled"
  "tick_may st \<Longrightarrow> \<not> moves st i a b"
  "work_may st \<Longrightarrow> moves st i a b \<Longrightarrow> b \<noteq> Canceled"
  "engine_may st \<Longrightarrow> moves st i a b \<Longrightarrow> a \<noteq> Canceled \<and> b \<in> {Succeeded, Failed}"
  "upkeep_may st \<Longrightarrow> moves st i a b \<Longrightarrow> a \<in> {Pending, Running} \<and> b \<in> {Pending, Failed}"
  by (cases st; force split: if_splits)+

lemma may_turn_closed:
  assumes "daemon_may op st" and "b = a \<or> may_turn op a b" and "moves st i b c"
  shows "c = a \<or> may_turn op a c"
proof (cases op)
  case (Serve cl)
  then show ?thesis
  proof (cases cl)
    case (ByTool te call)
    with assms Serve tool_waits [of te call] client_moves(1) [of st i b c] show ?thesis by auto
  next
    case (ByHttp ax he token rq)
    with assms Serve client_moves(2) [of st i b c] show ?thesis by (auto simp: request_may_def)
  qed
qed (use assms client_moves(3-6) [of st i b c] in auto)

text \<open>
  C8. Authority over a run's status, across the whole daemon: the calls and requests of clients can only
  cancel, and never a run that succeeded; ticks change no existing run; only the workers' turns put a run
  to work, and neither they nor the engine cancel; the engine does not bring a canceled run back; and
  housekeeping only requeues or fails what has not ended.
\<close>
theorem status_authority:
  assumes "daemon_ok op" and "runs_wf (dm_db s)" and "get_run_status i (dm_db s) = Some a"
    and "get_run_status i (dm_db (daemon_step op s)) = Some b"
  shows "b = a \<or> may_turn op a b"
  using daemon_queue.status [OF assms, of "{x. x = a \<or> may_turn op a x}"] may_turn_closed [of op]
  by simp

definition toy_queue :: daemon_state where
  "toy_queue = toy_daemon []\<lparr>dm_http := (dm_http (toy_daemon []))\<lparr>hs_db := sample_db\<rparr>\<rparr>"

theorem status_authority_witness:
  "let op = Serve (ByTool toy_server (CancelTool 1)) :: (unit, unit, unit) daemon_op in
   get_run_status 1 (dm_db (daemon_step op toy_queue)) = Some Canceled \<and> may_turn op Pending Canceled"
proof -
  let ?op = "Serve (ByTool toy_server (CancelTool 1)) :: (unit, unit, unit) daemon_op"
  have db: "dm_db toy_queue = sample_db" by (simp add: toy_queue_def)
  have b: "get_run_status 1 (dm_db (daemon_step ?op toy_queue)) = Some Canceled"
    by (simp add: db mcp_cancel_def) (simp add: sample_simps)
  have a: "get_run_status 1 (dm_db toy_queue) = Some Pending" by (simp add: db) (simp add: sample_simps)
  have ok: "daemon_ok ?op" by (simp add: toy_server_def by_statements_def)
  have wf: "runs_wf (dm_db toy_queue)" by (simp add: db sample_wf)
  from status_authority [OF ok wf a b] b show ?thesis by simp
qed

section \<open>The engine's runs are in the queue\<close>

text \<open>
  The run of a flow step is inserted as pending and executed by the engine without being claimed.  A
  worker of the script's runtime with nothing older to claim gets the same run while the engine executes
  it: its script starts twice.  (Nor does the heartbeat or the lease concern a run that is not running,
  while the pending timeout does.)
\<close>
theorem step_run_claimed_too:
  assumes sc: "get_script sid d = Some sc" and rt: "sc_runtime sc \<in> set caps"
    and ins: "insert_run now sid input None d = Inr (rid, d1)" and free: "rid \<notin> set locked"
    and oldest: "\<forall>r\<in>set (runs d). \<not> claimable caps locked d r"
  shows "\<exists>job d'. claim_run now' caps locked (set_step_running fr s rid d1) = (Some job, d') \<and>
    cj_run_id job = rid \<and> cj_source job = sc_source sc \<and> cj_input job = input"
proof -
  let ?r = "(new_run (run_seq d) sid input None now)\<lparr>r_input_blobs := None, r_capture_output := False\<rparr>"
  let ?d = "set_step_running fr s rid d1"
  from ins have rid: "rid = run_seq d" and rows: "runs ?d = runs d @ [?r]" and scr: "scripts ?d = scripts d"
    by (auto simp: insert_run_def insert_run_with_blobs_def set_step_running_def upd_step_def split: if_splits)
  have get: "get_script i ?d = get_script i d" for i by (simp add: get_script_def scr)
  have cl: "claimable caps locked ?d = claimable caps locked d"
    by (simp add: fun_eq_iff claimable_def get)
  have this_one: "claimable caps locked d ?r" using sc rt free rid by (simp add: claimable_def new_run_def)
  obtain r where sel: "select_first r_id (claimable caps locked ?d) (runs ?d) = Some r"
    using this_one select_first_None [of r_id "claimable caps locked ?d" "runs ?d"]
    by (cases "select_first r_id (claimable caps locked ?d) (runs ?d)") (auto simp: cl rows)
  then have "r = ?r" using select_first_Some(1,2) [OF sel] oldest by (auto simp: cl rows)
  with sel have "select_first r_id (claimable caps locked ?d) (runs ?d) = Some ?r" by simp
  moreover have "get_script sid ?d = Some sc" using sc by (simp add: get)
  ultimately show ?thesis by (simp add: claim_run_def job_of_def new_run_def rid)
qed

theorem step_run_claimed_too_witness:
  "case insert_run 3 1 (JObj []) None (snd (cancel_run 2 1 ''no'' sample_db)) of Inl e \<Rightarrow> False
   | Inr (rid, d1) \<Rightarrow> map_option cj_run_id (fst (claim_run 5 [''python''] [] (set_step_running 1 ''a'' rid d1))) = Some rid"
proof -
  let ?d = "snd (cancel_run 2 1 ''no'' sample_db)"
  obtain sc where sc: "get_script 1 ?d = Some sc" "sc_runtime sc = ''python''" by (simp add: sample_simps)
  obtain rid d1 where ins: "insert_run 3 1 (JObj []) None ?d = Inr (rid, d1)"
    by (simp add: insert_run_def sample_simps)
  have old: "\<forall>r\<in>set (runs ?d). \<not> claimable [''python''] [] ?d r" by (simp add: sample_simps)
  from step_run_claimed_too [OF sc(1) _ ins _ old, of 5 1 "''a''"] sc(2) ins
  show ?thesis by auto
qed

end
