(* ===== verification/Executor_Table.thy ===== *)
theory Executor_Table
  imports Exec_Laws
begin

text \<open>
  What the executor of \<open>src/exec.rs\<close> keeps and sends beside the database: the \<open>active\<close> table through
  which a cancel finds the container to kill, and the report \<open>finalize\<close> posts to the relay.
\<close>

section \<open>The table of active containers\<close>

text \<open>
  \<open>ks_jobs\<close> and \<open>ks_used\<close> are not in the source: the container each run executes in, from the
  acquisition to the discard, and every container handed out so far.
\<close>

record kill_state =
  ks_active :: "int \<rightharpoonup> string"
  ks_killed :: "string list"
  ks_jobs :: "int \<rightharpoonup> string"
  ks_used :: "string set"

definition register :: "int \<Rightarrow> string \<Rightarrow> kill_state \<Rightarrow> kill_state" where
  "register run cid s = s\<lparr>ks_active := (ks_active s)(run \<mapsto> cid)\<rparr>"

definition unregister :: "int \<Rightarrow> kill_state \<Rightarrow> kill_state" where
  "unregister run s = s\<lparr>ks_active := (ks_active s)(run := None)\<rparr>"

definition executor_cancel :: "int \<Rightarrow> kill_state \<Rightarrow> kill_state" where
  "executor_cancel run s =
     (case ks_active s run of Some cid \<Rightarrow> s\<lparr>ks_killed := cid # ks_killed s\<rparr> | None \<Rightarrow> s)"

text \<open>
  The steps of \<open>run_inner\<close> and \<open>run\<close> on the table, and a cancel at any moment.  The pool hands out no
  container twice; that a run is not executed twice at once is what the claims are for.
\<close>

inductive table_step :: "kill_state \<Rightarrow> kill_state \<Rightarrow> bool" where
  acquired: "ks_jobs s run = None \<Longrightarrow> cid \<notin> ks_used s \<Longrightarrow>
    table_step s (register run cid (s\<lparr>ks_jobs := (ks_jobs s)(run \<mapsto> cid), ks_used := insert cid (ks_used s)\<rparr>))"
| discarded: "ks_jobs s run = Some cid \<Longrightarrow> table_step s (s\<lparr>ks_jobs := (ks_jobs s)(run := None)\<rparr>)"
| ended: "ks_jobs s run = None \<Longrightarrow> table_step s (unregister run s)"
| canceled: "table_step s (executor_cancel run s)"

definition idle_executor :: kill_state where
  "idle_executor = \<lparr>ks_active = Map.empty, ks_killed = [], ks_jobs = Map.empty, ks_used = {}\<rparr>"

inductive table_reachable :: "kill_state \<Rightarrow> bool" where
  start: "table_reachable idle_executor"
| step: "table_reachable s \<Longrightarrow> table_step s s' \<Longrightarrow> table_reachable s'"

definition table_ok :: "kill_state \<Rightarrow> bool" where
  "table_ok s =
     (ks_jobs s \<subseteq>\<^sub>m ks_active s \<and> ran (ks_active s) \<subseteq> ks_used s \<and>
      (\<forall>i j c. ks_active s i = Some c \<longrightarrow> ks_active s j = Some c \<longrightarrow> i = j))"

lemma table_step_ok: "table_step s s' \<Longrightarrow> table_ok s \<Longrightarrow> table_ok s'"
proof (induction rule: table_step.induct)
  case (acquired s run cid)
  then show ?case
    by (fastforce simp: table_ok_def register_def map_le_def ran_def)
next
  case (discarded s run cid)
  then show ?case by (auto simp: table_ok_def map_le_def)
next
  case (ended s run)
  then show ?case by (auto simp: table_ok_def unregister_def map_le_def ran_def)
next
  case (canceled s run)
  then show ?case by (simp add: table_ok_def executor_cancel_def split: option.split)
qed

lemma table_reachable_ok: "table_reachable s \<Longrightarrow> table_ok s"
proof (induction rule: table_reachable.induct)
  case start
  show ?case by (simp add: idle_executor_def table_ok_def)
next
  case (step s s')
  then show ?case by (blast intro: table_step_ok)
qed

text \<open>
  A cancel kills the container its run executes in, when there is one, and never one in which another
  run executes: whatever it kills was this run's own.
\<close>
theorem cancel_kills_own:
  assumes "table_reachable s"
  shows "(\<forall>cid. ks_jobs s run = Some cid \<longrightarrow> ks_killed (executor_cancel run s) = cid # ks_killed s) \<and>
    (\<forall>other cid. other \<noteq> run \<longrightarrow> ks_jobs s other = Some cid \<longrightarrow>
       count_list (ks_killed (executor_cancel run s)) cid = count_list (ks_killed s) cid)"
proof -
  have le: "ks_jobs s i = Some c \<Longrightarrow> ks_active s i = Some c" for i c
    using table_reachable_ok [OF assms] by (auto simp: table_ok_def map_le_def dom_def)
  have inj: "ks_active s i = Some c \<Longrightarrow> ks_active s j = Some c \<Longrightarrow> i = j" for i j c
    using table_reachable_ok [OF assms] by (simp add: table_ok_def)
  show ?thesis using le inj by (auto simp: executor_cancel_def split: option.split)
qed

theorem cancel_kills_own_witness:
  "ks_killed (executor_cancel 1 (register 2 ''b'' (register 1 ''a'' idle_executor))) = [''a'']"
proof -
  let ?s1 = "register 1 ''a'' (idle_executor\<lparr>ks_jobs := (ks_jobs idle_executor)(1 \<mapsto> ''a''),
    ks_used := insert ''a'' (ks_used idle_executor)\<rparr>)"
  let ?s2 = "register 2 ''b'' (?s1\<lparr>ks_jobs := (ks_jobs ?s1)(2 \<mapsto> ''b''), ks_used := insert ''b'' (ks_used ?s1)\<rparr>)"
  have "table_reachable ?s1"
    by (rule table_reachable.step [OF table_reachable.start table_step.acquired]) (simp_all add: idle_executor_def)
  then have "table_reachable ?s2"
    by (rule table_reachable.step [OF _ table_step.acquired]) (simp_all add: idle_executor_def register_def)
  from cancel_kills_own [OF this, of 1] have "ks_killed (executor_cancel 1 ?s2) = [''a'']"
    by (simp add: idle_executor_def register_def)
  moreover have "ks_active ?s2 = ks_active (register 2 ''b'' (register 1 ''a'' idle_executor))"
    "ks_killed ?s2 = ks_killed (register 2 ''b'' (register 1 ''a'' idle_executor))" by (simp_all add: register_def)
  ultimately show ?thesis by (simp add: executor_cancel_def split: option.splits)
qed

text \<open>
  A run that executes twice - the run of a flow step that a worker claims too - leaves the table with one
  entry: the first execution to end removes it, and a cancel then kills nothing.
\<close>
lemma second_execution_unreachable:
  "ks_killed (executor_cancel run (unregister run (register run c2 (register run c1 s)))) = ks_killed s"
  by (simp add: executor_cancel_def unregister_def register_def)

section \<open>The relay\<close>

text \<open>The body of the post; what the report says of a run: its status, exit code and result.\<close>

type_synonym report = "string \<times> int option \<times> json option"

definition finalize :: "int \<Rightarrow> report \<Rightarrow> json" where
  "finalize run rep =
     (case rep of (status, code, result) \<Rightarrow>
        mk_obj [(''run_id'', JInt run), (''status'', JStr status), (''exit_code'', jopt JInt code),
                (''result'', jopt id result)])"

text \<open>Each of the following goes along with the function it is named after; \<open>None\<close> is an error of dokan's own.\<close>

definition report_after_logs :: "exec_env \<Rightarrow> run_args \<Rightarrow> string \<Rightarrow> string option \<Rightarrow> db \<Rightarrow> report option" where
  "report_after_logs env a exec_id raw d =
     (case ee_inspect_exec env d exec_id of
        Inr code \<Rightarrow>
          (let c = (case code of Some c \<Rightarrow> c | None \<Rightarrow> 0)
           in if ee_write_error env WFinish d \<noteq> None then None
              else Some (if c = 0 then ''succeeded'' else ''failed'', Some (as_i32 c), parse_result env raw))
      | Inl (ServerError code msg) \<Rightarrow>
          if code = 404 then
            (case append_stderr env (ra_run_id a)
                    ''dokan: container vanished before exit code; marking failed'' d of
               Inl e \<Rightarrow> None
             | Inr d' \<Rightarrow>
                 if ee_write_error env WFinish d' \<noteq> None then None
                 else Some (''failed'', None, parse_result env raw))
          else None
      | Inl (DockerError msg) \<Rightarrow> None)"

definition report_timed_out :: "exec_env \<Rightarrow> run_args \<Rightarrow> int \<Rightarrow> db \<Rightarrow> report option" where
  "report_timed_out env a limit d =
     (case append_stderr env (ra_run_id a)
             (''dokan: timeout after '' @ int_str limit @ '' s, container killed'') d of
        Inl e \<Rightarrow> None
      | Inr d' \<Rightarrow> if ee_write_error env WFinish d' \<noteq> None then None else Some (''failed'', None, None))"

definition report_exec_job ::
    "exec_env \<Rightarrow> run_args \<Rightarrow> string \<Rightarrow> string \<Rightarrow> int \<Rightarrow> db \<Rightarrow> report option" where
  "report_exec_job env a cid interp limit d =
     (let rid = ra_run_id a; vis = visible_secrets env rid (ra_agent_id a) d;
          svals = redaction_values vis in
      case ee_create_exec env d cid (bootstrap interp)
             (job_env env rid (ra_source a) (ra_input a) vis) of
        Inl e \<Rightarrow> None
      | Inr exec_id \<Rightarrow>
          (case ee_start_exec env d exec_id of
             Inr (Some items) \<Rightarrow>
               (case ee_deadline env d exec_id limit of
                  Some n \<Rightarrow>
                    (case pump_stream rid svals (take n items) (pump_start rid d, d) of
                       Inl _ \<Rightarrow> None
                     | Inr (st, d') \<Rightarrow> report_timed_out env a limit d')
                | None \<Rightarrow>
                    (case pump_logs rid svals items d of
                       Inl _ \<Rightarrow> None
                     | Inr ((last_seq, raw), d') \<Rightarrow> report_after_logs env a exec_id raw d'))
           | _ \<Rightarrow> None))"

definition report_run_inner :: "exec_env \<Rightarrow> run_args \<Rightarrow> int \<Rightarrow> db \<Rightarrow> report option" where
  "report_run_inner env a limit d =
     (case runtime_spec (ra_runtime a) of
        None \<Rightarrow> None
      | Some (img, interp) \<Rightarrow>
          (case materialize_input env (ra_run_id a) (ra_input_blobs a) d of
             Inl e \<Rightarrow> None
           | Inr (inp, d1) \<Rightarrow>
               (case (if ra_capture_output a
                      then (case prepare_output_dir env (ra_run_id a) d1 of
                              Inl e \<Rightarrow> None | Inr (dir, d2) \<Rightarrow> Some (Some dir, d2))
                      else Some (None, d1)) of
                  None \<Rightarrow> None
                | Some (outp, d2) \<Rightarrow>
                    (case ee_acquire env d2 (pool_request_for env a img inp outp) of
                       Inl msg \<Rightarrow> None
                     | Inr cid \<Rightarrow> report_exec_job env a cid interp limit d2))))"

text \<open>What \<open>Executor::run\<close> posts, once, if a relay is configured.\<close>

definition relay_post :: "string option \<Rightarrow> exec_env \<Rightarrow> run_args \<Rightarrow> db \<Rightarrow> (string \<times> json) option" where
  "relay_post relay env a d =
     map_option (\<lambda>url. (url, finalize (ra_run_id a)
       (case report_run_inner env a (effective_timeout_secs (ra_timeout_secs a) (ee_max_timeout env)) d of
          Some rep \<Rightarrow> rep | None \<Rightarrow> (''failed'', None, None)))) relay"

text \<open>
  The relay is told how the job ended, whatever became of the run: a run that was canceled before its job
  ended is reported as succeeded.
\<close>
lemma relay_of_canceled:
  "let d = snd (cancel_run 5 1 ''no'' pump_db); a = sample_args\<lparr>ra_input_blobs := None\<rparr> in
   relay_post (Some ''u'') sample_host a d =
     Some (''u'', finalize 1 (''succeeded'', Some 0, None)) \<and>
   get_run_status 1 (exec_run sample_host a d) = Some Canceled"
proof -
  let ?d = "snd (cancel_run 5 1 ''no'' pump_db)" and ?a = "sample_args\<lparr>ra_input_blobs := None\<rparr>"
  have "relay_post (Some ''u'') sample_host ?a ?d = Some (''u'', finalize 1 (''succeeded'', Some 0, None))"
    by code_simp
  moreover obtain r where r: "run_by_id (ra_run_id ?a) ?d = Some r" "r_status r = Canceled"
    by (simp add: cancel_run_def pump_db_def sample_args_def run_by_id_def new_run_def)
  from exec_run_ends(2) [OF r(1), of sample_host] r(2)
  have "get_run_status 1 (exec_run sample_host ?a ?d) = Some Canceled"
    by (auto simp: get_run_status_def sample_args_def infra_failed_def executed_def finished_row_def ended_def)
  ultimately show ?thesis by (simp add: Let_def)
qed

end
