(* ===== verification/Fleet.thy ===== *)
theory Fleet
  imports Worker Scale
begin

text \<open>
  The worker loop of \<open>src/worker.rs\<close> in the pieces between which everything else runs: take a slot, try
  to claim, and for a claimed run count the attempt, execute it, decide on the retry and give the slot
  back.  Several workers share the database; each has its own slots (\<open>src/scale.rs\<close>), which the flow
  engine of its process shares and the autoscaler resizes.
\<close>

section \<open>The loop\<close>

datatype loop_phase = WantsSlot | HasSlot | Resting

datatype job_phase = Claimed | Marked int | Ran int

record fleet =
  fl_db :: db
  fl_slots :: "nat \<Rightarrow> concurrency"
  fl_phase :: "nat \<Rightarrow> loop_phase"
  fl_jobs :: "(nat \<times> claimed_job \<times> job_phase) list"
  fl_engine :: "nat \<Rightarrow> nat"  \<comment> \<open>the steps the process' flow engine executes\<close>

text \<open>
  \<open>Outside\<close> is a statement of anybody else, \<open>ClaimFails\<close> a database error of the claim, \<open>Wake\<close> the end of
  the wait for a notification, \<open>StepJob n\<close> the next piece of the task of the \<open>n\<close>th job in flight.
\<close>

datatype fleet_op =
    TakeSlot nat
  | TryClaim nat exec_env "string list" "int list"
  | ClaimFails nat
  | Wake nat
  | StepJob nat exec_env
  | EngineTakes nat
  | EngineReturns nat
  | Resize nat nat
  | Outside stmt

definition slots_of :: "nat \<Rightarrow> (concurrency \<Rightarrow> concurrency) \<Rightarrow> fleet \<Rightarrow> fleet" where
  "slots_of w f s = s\<lparr>fl_slots := (fl_slots s)(w := f (fl_slots s w))\<rparr>"

definition remove_nth :: "nat \<Rightarrow> 'a list \<Rightarrow> 'a list" where
  "remove_nth n xs = take n xs @ drop (Suc n) xs"

definition take_slot :: "nat \<Rightarrow> fleet \<Rightarrow> fleet" where
  "take_slot w s =
     (case conc_acquire (fl_slots s w) of
        None \<Rightarrow> s
      | Some c \<Rightarrow> s\<lparr>fl_slots := (fl_slots s)(w := c), fl_phase := (fl_phase s)(w := HasSlot)\<rparr>)"

definition give_back :: "nat \<Rightarrow> fleet \<Rightarrow> fleet" where
  "give_back w s = slots_of w conc_release (s\<lparr>fl_phase := (fl_phase s)(w := Resting)\<rparr>)"

definition try_claim :: "nat \<Rightarrow> exec_env \<Rightarrow> string list \<Rightarrow> int list \<Rightarrow> fleet \<Rightarrow> fleet" where
  "try_claim w env caps locked s =
     (case claim_run (ee_clock env (fl_db s)) caps locked (fl_db s) of
        (Some job, d) \<Rightarrow> s\<lparr>fl_db := d, fl_jobs := fl_jobs s @ [(w, job, Claimed)],
                           fl_phase := (fl_phase s)(w := WantsSlot)\<rparr>
      | (None, d) \<Rightarrow> give_back w (s\<lparr>fl_db := d\<rparr>))"

definition step_job :: "nat \<Rightarrow> exec_env \<Rightarrow> fleet \<Rightarrow> fleet" where
  "step_job n env s =
     (case fl_jobs s ! n of
        (w, job, Claimed) \<Rightarrow>
          (case (case mark_attempt (cj_run_id job) (fl_db s) of Inl _ \<Rightarrow> (1, fl_db s) | Inr x \<Rightarrow> x) of
             (attempt, d) \<Rightarrow> s\<lparr>fl_db := d, fl_jobs := (fl_jobs s)[n := (w, job, Marked attempt)]\<rparr>)
      | (w, job, Marked attempt) \<Rightarrow>
          s\<lparr>fl_db := exec_run env (job_args job (job_input job (fl_db s))) (fl_db s),
            fl_jobs := (fl_jobs s)[n := (w, job, Ran attempt)]\<rparr>
      | (w, job, Ran attempt) \<Rightarrow>
          slots_of w conc_release
            (s\<lparr>fl_db := (if may_retry job attempt (fl_db s) then requeue (cj_run_id job) (fl_db s) else fl_db s),
               fl_jobs := remove_nth n (fl_jobs s)\<rparr>))"

fun fleet_step :: "fleet_op \<Rightarrow> fleet \<Rightarrow> fleet" where
  "fleet_step (TakeSlot w) s = (if fl_phase s w = WantsSlot then take_slot w s else s)"
| "fleet_step (TryClaim w env caps locked) s =
     (if fl_phase s w = HasSlot then try_claim w env caps locked s else s)"
| "fleet_step (ClaimFails w) s = (if fl_phase s w = HasSlot then give_back w s else s)"
| "fleet_step (Wake w) s = (if fl_phase s w = Resting then s\<lparr>fl_phase := (fl_phase s)(w := WantsSlot)\<rparr> else s)"
| "fleet_step (StepJob n env) s = (if n < length (fl_jobs s) then step_job n env s else s)"
| "fleet_step (EngineTakes w) s =
     (case conc_acquire (fl_slots s w) of
        None \<Rightarrow> s
      | Some c \<Rightarrow> s\<lparr>fl_slots := (fl_slots s)(w := c), fl_engine := (fl_engine s)(w := fl_engine s w + 1)\<rparr>)"
| "fleet_step (EngineReturns w) s =
     (if 0 < fl_engine s w
      then slots_of w conc_release (s\<lparr>fl_engine := (fl_engine s)(w := fl_engine s w - 1)\<rparr>) else s)"
| "fleet_step (Resize w n) s = slots_of w (\<lambda>c. snd (conc_set n c)) s"
| "fleet_step (Outside st) s = s\<lparr>fl_db := exec_stmt st (fl_db s)\<rparr>"

definition fleet_start :: "(nat \<Rightarrow> nat) \<Rightarrow> (nat \<Rightarrow> nat) \<Rightarrow> db \<Rightarrow> fleet" where
  "fleet_start lo hi d =
     \<lparr>fl_db = d, fl_slots = (\<lambda>w. conc_new (lo w) (hi w)), fl_phase = (\<lambda>w. WantsSlot), fl_jobs = [],
      fl_engine = (\<lambda>w. 0)\<rparr>"

section \<open>A turn without interruption\<close>

text \<open>The pieces one after the other are the turn \<open>work_once\<close> of the coarser model.\<close>

theorem turn_refines:
  assumes "fl_phase s w = HasSlot" and "fl_jobs s = []"
  shows "fl_db (fold fleet_step [TryClaim w env caps locked, StepJob 0 env, StepJob 0 env, StepJob 0 env] s) =
    work_once env caps locked (fl_db s)"
proof -
  obtain jo d where c: "claim_run (ee_clock env (fl_db s)) caps locked (fl_db s) = (jo, d)" by fastforce
  show ?thesis
  proof (cases jo)
    case None
    with assms c show ?thesis by (simp add: try_claim_def give_back_def slots_of_def work_once_def)
  next
    case (Some job)
    show ?thesis
    proof (cases "mark_attempt (cj_run_id job) d")
      case (Inl e)
      with assms c Some show ?thesis
        by (simp add: try_claim_def step_job_def slots_of_def work_once_def process_job_def Let_def)
    next
      case (Inr x)
      with assms c Some show ?thesis
        by (cases x) (simp add: try_claim_def step_job_def slots_of_def work_once_def process_job_def Let_def)
    qed
  qed
qed

section \<open>Slots\<close>

definition jobs_of :: "nat \<Rightarrow> fleet \<Rightarrow> nat" where
  "jobs_of w s = length (filter (\<lambda>j. fst j = w) (fl_jobs s))"

definition slots_ok :: "(nat \<Rightarrow> nat) \<Rightarrow> fleet \<Rightarrow> bool" where
  "slots_ok m s =
     (\<forall>w. conc_ok (fl_slots s w) \<and> cn_max (fl_slots s w) = m w \<and>
        cn_held (fl_slots s w) = jobs_of w s + (if fl_phase s w = HasSlot then 1 else 0) + fl_engine s w)"

lemma filter_remove_nth:
  "n < length xs \<Longrightarrow> length (filter P (remove_nth n xs)) = length (filter P xs) - (if P (xs ! n) then 1 else 0)"
  unfolding remove_nth_def by (subst (3) id_take_nth_drop) auto

lemma filter_update_fst:
  "n < length xs \<Longrightarrow> fst y = fst (xs ! n) \<Longrightarrow>
   length (filter (\<lambda>j. fst j = w) (xs[n := y])) = length (filter (\<lambda>j. fst j = w) xs)"
  by (subst (2) id_take_nth_drop, assumption) (simp add: upd_conv_take_nth_drop)

lemma conc_set_held [simp]: "cn_held (snd (conc_set n c)) = cn_held c"
  by (simp add: conc_set_def Let_def)

lemma conc_release_ok: "conc_ok c \<Longrightarrow> 0 < cn_held c \<Longrightarrow> conc_ok (conc_release c)"
  using conc_step_ok [of c CRelease] by simp

lemma conc_acquire_ok:
  "conc_ok c \<Longrightarrow> conc_acquire c = Some c' \<Longrightarrow> conc_ok c' \<and> cn_max c' = cn_max c \<and> cn_held c' = cn_held c + 1"
  by (auto simp: conc_ok_def conc_acquire_def split: if_splits)

lemma conc_release_fields [simp]: "cn_held (conc_release c) = cn_held c - 1" "cn_max (conc_release c) = cn_max c"
  by (simp_all add: conc_release_def)

lemma job_counted: "n < length (fl_jobs s) \<Longrightarrow> 0 < jobs_of (fst (fl_jobs s ! n)) s"
  unfolding jobs_of_def by (subst id_take_nth_drop, assumption) simp

lemma slots_step: "slots_ok m s \<Longrightarrow> slots_ok m (fleet_step op s)"
proof (cases op)
  case (StepJob n env)
  assume ok: "slots_ok m s"
  show ?thesis
  proof (cases "n < length (fl_jobs s)")
    case True
    obtain w job ph where j: "fl_jobs s ! n = (w, job, ph)" by (metis prod_cases3)
    obtain k where c: "jobs_of w s = Suc k" using job_counted [OF True] j by (auto simp: gr0_conv_Suc)
    show ?thesis
    proof (cases ph)
      case (Ran attempt)
      have "jobs_of v (s\<lparr>fl_db := d, fl_jobs := remove_nth n (fl_jobs s)\<rparr>) = jobs_of v s - (if v = w then 1 else 0)" for v d
        using filter_remove_nth [OF True] j by (simp add: jobs_of_def)
      then have jobs: "jobs_of v (fleet_step op s) = jobs_of v s - (if v = w then 1 else 0)" for v
        using True j Ran by (simp add: StepJob step_job_def slots_of_def jobs_of_def)
      show ?thesis unfolding slots_ok_def jobs using ok c True j Ran
        by (auto simp: StepJob slots_ok_def step_job_def slots_of_def intro!: conc_release_ok)
    qed (use ok j True filter_update_fst [OF True] in
        \<open>auto simp: StepJob slots_ok_def step_job_def jobs_of_def split: prod.split\<close>)
  qed (use ok in \<open>simp add: StepJob\<close>)
next
  case (Resize w n)
  assume "slots_ok m s"
  with Resize conc_step_ok [of "fl_slots s w" "CSet n"] show ?thesis
    by (auto simp: slots_ok_def slots_of_def jobs_of_def)
next
  case (EngineReturns w)
  assume "slots_ok m s"
  with EngineReturns show ?thesis
    by (auto simp: slots_ok_def slots_of_def jobs_of_def intro!: conc_release_ok)
next
  case (TakeSlot w)
  assume ok: "slots_ok m s"
  show ?thesis
  proof (cases "conc_acquire (fl_slots s w)")
    case (Some c)
    with ok TakeSlot conc_acquire_ok [of "fl_slots s w" c] show ?thesis
      by (simp add: slots_ok_def jobs_of_def take_slot_def)
  qed (use ok TakeSlot in \<open>simp add: take_slot_def\<close>)
next
  case (EngineTakes w)
  assume ok: "slots_ok m s"
  show ?thesis
  proof (cases "conc_acquire (fl_slots s w)")
    case (Some c)
    with ok EngineTakes conc_acquire_ok [of "fl_slots s w" c] show ?thesis by (simp add: slots_ok_def jobs_of_def)
  qed (use ok EngineTakes in simp)
qed (auto simp: slots_ok_def slots_of_def jobs_of_def try_claim_def give_back_def
      split: option.split prod.split intro!: conc_release_ok)

text \<open>
  C10. However the workers' loops, their jobs, the flow engine and the autoscaler interleave, a process never
  executes more jobs and flow steps at once than its \<open>--max-concurrency\<close> (at least one).
\<close>
theorem slots_bound:
  "jobs_of w (fold fleet_step ops (fleet_start lo hi d)) + fl_engine (fold fleet_step ops (fleet_start lo hi d)) w
     \<le> max (hi w) 1"
proof -
  have start: "slots_ok (\<lambda>w. max (hi w) 1) (fleet_start lo hi d)"
    by (auto simp: slots_ok_def fleet_start_def jobs_of_def conc_new_ok) (auto simp: conc_new_def Let_def)
  have "slots_ok m s \<Longrightarrow> slots_ok m (fold fleet_step ops s)" for m s
    by (induction ops arbitrary: s) (simp_all add: slots_step)
  from this [OF start] show ?thesis by (auto simp: slots_ok_def conc_ok_def dest!: spec [of _ w])
qed

section \<open>Execution without the row\<close>

text \<open>
  A run may be deleted while its job executes: the execution is a history of the queue's statements then
  too.
\<close>

lemma step_evolves_kept:
  assumes "kept d0 d" and "step_evolves rid d x" shows "step_evolves rid d0 x"
proof (cases x)
  case (Inl y)
  then show ?thesis using assms kept_trans by (cases y) auto
next
  case (Inr y)
  then show ?thesis using assms evolved_trans [OF evolved_kept [OF assms(1)]] by (cases y) auto
qed

lemma finish_failed_evolves:
  "kept d d' \<Longrightarrow> evolved rid d (finish_run now rid Failed None msg d')"
  by (rule evolved_trans [OF evolved_kept evolved_finish]) simp_all

lemma finish_or_err_evolves:
  "kept d d' \<Longrightarrow> step_evolves rid d (finish_or_err env rid Failed None msg d')"
  by (cases rule: finish_or_err_cases [of env rid Failed None msg d']) (simp_all add: finish_failed_evolves)

lemma after_logs_evolves: "step_evolves (ra_run_id a) d (after_logs env a img out_dir exec_id raw d)"
  by (auto simp: after_logs_def finish_job_evolves finish_or_err_evolves kept_stderr
      split: sum.split docker_error.split)

lemma timed_out_evolves: "step_evolves (ra_run_id a) d (timed_out env a limit d)"
  by (auto simp: timed_out_def finish_or_err_evolves kept_stderr split: sum.split)

lemma exec_job_evolves: "step_evolves (ra_run_id a) d (exec_job env a cid img interp out_dir limit d)"
proof -
  have pump: "pump_logs rid sv items d = Inl (e, d') \<Longrightarrow> kept d d'"
    "pump_logs rid sv items d = Inr (x, d') \<Longrightarrow> kept d d'"
    "pump_stream rid sv items (pump_start rid d, d) = Inl (e, d') \<Longrightarrow> kept d d'"
    "pump_stream rid sv items (pump_start rid d, d) = Inr (st, d') \<Longrightarrow> kept d d'" for rid sv items e x st d'
    using kept_pump [of d rid sv items] kept_stream [of "(pump_start rid d, d)" rid sv items] by simp_all
  show ?thesis
    by (auto simp: exec_job_def Let_def split: sum.split option.split
        intro: pump step_evolves_kept [OF _ after_logs_evolves] step_evolves_kept [OF _ timed_out_evolves])
qed

lemma run_inner_evolves: "step_evolves (ra_run_id a) d (run_inner env a limit d)"
proof (cases "materialize_input env (ra_run_id a) (ra_input_blobs a) d")
  case (Inl y)
  have "kept d (snd y)" using kept_materialize [of d env "ra_run_id a" "ra_input_blobs a"] Inl by (cases y) simp
  then show ?thesis using Inl by (cases y) (simp add: run_inner_def split: option.split prod.split)
next
  case (Inr y)
  obtain inp d1 where y: "y = (inp, d1)" by fastforce
  have k1: "kept d d1" using kept_materialize [of d env "ra_run_id a" "ra_input_blobs a"] Inr y by simp
  note job = step_evolves_kept [OF k1 exec_job_evolves]
  have prep: "\<exists>e. prepare_output_dir env rid d1 = Inl (e, d1) \<or> prepare_output_dir env rid d1 = Inr (e, d1)" for rid
    by (auto simp: prepare_output_dir_def split: option.split)
  from prep [of "ra_run_id a"] show ?thesis
    by (auto simp: run_inner_def Inr y job k1 split: option.split sum.split prod.split)
qed

lemma exec_run_evolves: "evolved (ra_run_id a) d (exec_run env a d)"
proof -
  let ?x = "run_inner env a (effective_timeout_secs (ra_timeout_secs a) (ee_max_timeout env)) d"
  note st = run_inner_evolves [of a d env "effective_timeout_secs (ra_timeout_secs a) (ee_max_timeout env)"]
  show ?thesis
  proof (cases ?x)
    case (Inl y)
    obtain msg d1 where y: "y = (msg, d1)" by fastforce
    have k: "kept d d1" using st by (simp add: Inl y)
    have log: "append_log rid n s m d1 = Inr d2 \<Longrightarrow> kept d d2" for rid n s m d2
      using kept_trans [OF k kept_append_log] by blast
    show ?thesis
      by (auto simp: exec_run_def Inl y Let_def k intro: log finish_failed_evolves split: sum.split)
  next
    case (Inr y)
    with st show ?thesis by (cases y) (simp add: exec_run_def)
  qed
qed

section \<open>One execution at a time\<close>

text \<open>What puts a run back into the queue behind its worker's back.\<close>

fun puts_back :: "stmt \<Rightarrow> bool" where
  "puts_back (Reap now lease) = True"
| "puts_back (Requeue i) = True"
| "puts_back st = False"

fun undisturbed :: "fleet_op \<Rightarrow> bool" where
  "undisturbed (Outside st) = (\<not> puts_back st)"
| "undisturbed op = True"

text \<open>Runs that are out of the queue stay out of it.\<close>

definition stays :: "db \<Rightarrow> db \<Rightarrow> bool" where
  "stays d d' =
     (runs_wf d' \<and> run_seq d \<le> run_seq d' \<and>
      (\<forall>i < run_seq d. get_run_status i d \<noteq> Some Pending \<longrightarrow> get_run_status i d' \<noteq> Some Pending))"

lemma stays_refl: "runs_wf d \<Longrightarrow> stays d d"
  by (simp add: stays_def)

lemma stays_trans: "stays a b \<Longrightarrow> stays b c \<Longrightarrow> stays a c"
  by (force simp: stays_def)

lemma stays_stmt:
  assumes wf: "runs_wf d" and s: "\<not> puts_back s" shows "stays d (exec_stmt s d)"
  unfolding stays_def
proof (intro conjI allI impI exec_stmt_wf [OF wf] exec_stmt_seq)
  fix i assume i: "i < run_seq d" and np: "get_run_status i d \<noteq> Some Pending"
  show "get_run_status i (exec_stmt s d) \<noteq> Some Pending"
  proof (cases "get_run_status i d")
    case None
    from gone_step [OF wf this i, of s] show ?thesis by simp
  next
    case (Some x)
    have no: "\<not> moves s i x Pending" using s by (cases s) (auto split: if_splits)
    from status_step [OF wf Some, of s Pending] no np Some show ?thesis by auto
  qed
qed

lemma stays_stmts: "runs_wf d \<Longrightarrow> list_all (\<lambda>s. \<not> puts_back s) ss \<Longrightarrow> stays d (exec_stmts ss d)"
proof (induction ss arbitrary: d)
  case (Cons s ss)
  from Cons.prems stays_stmt [of d s] Cons.IH [of "exec_stmt s d"] exec_stmt_wf [of d s]
  show ?case by (auto intro: stays_trans)
qed (simp add: stays_refl)

lemma stays_exec: assumes wf: "runs_wf d" shows "stays d (exec_run env a d)"
proof -
  from exec_run_evolves [of a d env] obtain ss where
    ss: "list_all (executor_stmt (Some (ra_run_id a))) ss" "same_queue (exec_stmts ss d) (exec_run env a d)"
    unfolding evolved_def history_def by blast
  have "executor_stmt k s \<Longrightarrow> \<not> puts_back s" for k s by (cases s) simp_all
  with ss(1) have "list_all (\<lambda>s. \<not> puts_back s) ss" by (auto simp: list_all_iff)
  note st = stays_stmts [OF wf this]
  have "runs_wf (exec_run env a d)"
    using st ss(2) by (intro runs_wf_cong [of "exec_run env a d" "exec_stmts ss d"]) (simp_all add: stays_def same_queue_def)
  moreover have "get_run_status i (exec_run env a d) = get_run_status i (exec_stmts ss d)"
    "run_seq (exec_run env a d) = run_seq (exec_stmts ss d)" for i
    using ss(2) by (simp_all add: same_queue_def get_run_status_def run_by_id_def)
  ultimately show ?thesis using st by (simp add: stays_def)
qed

lemma stays_claim:
  assumes wf: "runs_wf d" and c: "claim_run now caps locked d = (jo, d')"
  shows "stays d d'"
    and "jo = Some job \<Longrightarrow> cj_run_id job < run_seq d' \<and> get_run_status (cj_run_id job) d = Some Pending \<and>
      get_run_status (cj_run_id job) d' = Some Running"
proof -
  show "stays d d'" using stays_stmt [OF wf, of "Claim now caps locked"] c by simp
  assume "jo = Some job"
  from claim_lookup [OF wf c [unfolded this]] obtain r where r: "run_by_id (cj_run_id job) d = Some r"
    "r_status r = Pending" "run_by_id (cj_run_id job) d' = Some (start_run now r)" by blast
  moreover have "runs_wf d'" using claim_run_wf [OF wf, of now caps locked] c by simp
  ultimately show "cj_run_id job < run_seq d' \<and> get_run_status (cj_run_id job) d = Some Pending \<and>
      get_run_status (cj_run_id job) d' = Some Running"
    by (force simp: get_run_status_def start_run_def runs_wf_def dest: run_by_idD)
qed

text \<open>The jobs in flight are of different runs, and none of these is in the queue.\<close>

definition jobs_apart :: "fleet \<Rightarrow> bool" where
  "jobs_apart s =
     (runs_wf (fl_db s) \<and> distinct (map (\<lambda>(w, job, ph). cj_run_id job) (fl_jobs s)) \<and>
      (\<forall>(w, job, ph)\<in>set (fl_jobs s). cj_run_id job < run_seq (fl_db s) \<and>
         get_run_status (cj_run_id job) (fl_db s) \<noteq> Some Pending))"

lemma jobs_apart_db:
  "jobs_apart s \<Longrightarrow> stays (fl_db s) d \<Longrightarrow> fl_jobs s' = fl_jobs s \<Longrightarrow> fl_db s' = d \<Longrightarrow> jobs_apart s'"
  by (fastforce simp: jobs_apart_def stays_def)

lemma jobs_apart_phase:
  assumes ok: "jobs_apart s" and st: "stays (fl_db s) d" and j: "fl_jobs s ! n = (w, job, ph)"
    and n: "n < length (fl_jobs s)"
  shows "jobs_apart (s\<lparr>fl_db := d, fl_jobs := (fl_jobs s)[n := (w, job, ph')]\<rparr>)"
proof -
  have ids: "map (\<lambda>(w, job, ph). cj_run_id job) ((fl_jobs s)[n := (w, job, ph')]) =
      map (\<lambda>(w, job, ph). cj_run_id job) (fl_jobs s)"
    using j n by (auto simp: map_update intro!: list_update_same_conv [THEN iffD2])
  have "(w, job, ph) \<in> set (fl_jobs s)" using nth_mem [OF n] j by simp
  then have old: "\<exists>p'. (v, i, p') \<in> set (fl_jobs s)" if "(v, i, p) \<in> set ((fl_jobs s)[n := (w, job, ph')])" for v i p
    using that set_update_subset_insert [of "fl_jobs s" n "(w, job, ph')"] by auto
  from jobs_apart_db [OF ok st, of "s\<lparr>fl_db := d\<rparr>"] ids old show ?thesis
    by (fastforce simp: jobs_apart_def)
qed

lemma jobs_apart_make:
  assumes "runs_wf d" and "distinct (map (\<lambda>(w, job, ph). cj_run_id job) js)"
    and "\<And>w job ph. (w, job, ph) \<in> set js \<Longrightarrow>
      cj_run_id job < run_seq d \<and> get_run_status (cj_run_id job) d \<noteq> Some Pending"
  shows "jobs_apart (s\<lparr>fl_db := d, fl_jobs := js\<rparr>)"
  using assms by (auto simp: jobs_apart_def)

lemma jobs_apart_done:
  assumes ok: "jobs_apart s" and j: "fl_jobs s ! n = (w, job, ph)" and n: "n < length (fl_jobs s)"
  shows "jobs_apart (s\<lparr>fl_db := (if back then requeue (cj_run_id job) (fl_db s) else fl_db s),
    fl_jobs := remove_nth n (fl_jobs s)\<rparr>)"
proof -
  let ?id = "\<lambda>(w, job, ph). cj_run_id job"
  have split: "fl_jobs s = take n (fl_jobs s) @ (w, job, ph) # drop (Suc n) (fl_jobs s)"
    using id_take_nth_drop [OF n] j by simp
  have d: "distinct (map ?id (take n (fl_jobs s) @ (w, job, ph) # drop (Suc n) (fl_jobs s)))"
    using ok split by (simp add: jobs_apart_def)
  then have d': "distinct (map ?id (remove_nth n (fl_jobs s)))" by (auto simp: remove_nth_def)
  have new: "cj_run_id job \<notin> ?id ` set (remove_nth n (fl_jobs s))"
    using d unfolding remove_nth_def by (simp add: image_Un)
  have sub: "set (remove_nth n (fl_jobs s)) \<subseteq> set (fl_jobs s)"
    unfolding remove_nth_def using set_take_subset [of n "fl_jobs s"] set_drop_subset [of "Suc n" "fl_jobs s"] by simp
  have req: "get_run_status i (requeue k d) = get_run_status i d" if "i \<noteq> k" for i k d
    using that by (cases "run_by_id i d") (auto simp: get_run_status_def requeue_lookup dest: run_by_idD)
  let ?d = "if back then requeue (cj_run_id job) (fl_db s) else fl_db s"
  have wf: "runs_wf ?d" using ok by (simp add: jobs_apart_def requeue_wf)
  have seq: "run_seq ?d = run_seq (fl_db s)" by (simp add: requeue_def)
  have kept: "cj_run_id i < run_seq ?d \<and> get_run_status (cj_run_id i) ?d \<noteq> Some Pending"
    if "(v, i, p) \<in> set (remove_nth n (fl_jobs s))" for v i p
  proof -
    have "cj_run_id i \<in> ?id ` set (remove_nth n (fl_jobs s))" using that by force
    with new have "cj_run_id i \<noteq> cj_run_id job" by metis
    moreover have "cj_run_id i < run_seq (fl_db s) \<and> get_run_status (cj_run_id i) (fl_db s) \<noteq> Some Pending"
      using ok subsetD [OF sub that] unfolding jobs_apart_def by blast
    ultimately show ?thesis using seq by (simp add: req)
  qed
  show ?thesis by (rule jobs_apart_make [OF wf d' kept])
qed

lemma apart_step:
  assumes ok: "jobs_apart s" and u: "undisturbed op" shows "jobs_apart (fleet_step op s)"
proof -
  have wf: "runs_wf (fl_db s)" using ok by (simp add: jobs_apart_def)
  have same: "jobs_apart s'" if "fl_jobs s' = fl_jobs s" "fl_db s' = fl_db s" for s'
    using jobs_apart_db [OF ok stays_refl [OF wf] that(1,2)] .
  show ?thesis
  proof (cases op)
    case (TryClaim w env caps locked)
    obtain jo d where c: "claim_run (ee_clock env (fl_db s)) caps locked (fl_db s) = (jo, d)" by fastforce
    note st = stays_claim [OF wf c]
    have d: "jobs_apart (s\<lparr>fl_db := d\<rparr>)" by (rule jobs_apart_db [OF ok st(1)]) simp_all
    show ?thesis
    proof (cases jo)
      case None
      with c d ok show ?thesis
        by (simp add: TryClaim try_claim_def give_back_def slots_of_def jobs_apart_def)
    next
      case (Some job)
      have "cj_run_id job \<notin> (\<lambda>(w, job, ph). cj_run_id job) ` set (fl_jobs s)"
        using ok st(2) [OF Some] by (fastforce simp: jobs_apart_def)
      with d st(2) [OF Some] c Some ok show ?thesis
        by (auto simp: TryClaim try_claim_def jobs_apart_def)
    qed
  next
    case (StepJob n env)
    show ?thesis
    proof (cases "n < length (fl_jobs s)")
      case True
      obtain w job ph where j: "fl_jobs s ! n = (w, job, ph)" by (metis prod_cases3)
      show ?thesis
      proof (cases ph)
        case Claimed
        obtain a d where m: "(case mark_attempt (cj_run_id job) (fl_db s) of Inl _ \<Rightarrow> (1, fl_db s) | Inr x \<Rightarrow> x) = (a, d)"
          by fastforce
        then have "d = exec_stmt (Mark (cj_run_id job)) (fl_db s)"
          by (cases "mark_attempt (cj_run_id job) (fl_db s)") (auto simp: or_unchanged_def)
        then have "stays (fl_db s) d" using stays_stmt [OF wf, of "Mark (cj_run_id job)"] by simp
        from jobs_apart_phase [OF ok this j True] True j Claimed m show ?thesis
          by (simp add: StepJob step_job_def)
      next
        case (Marked attempt)
        from jobs_apart_phase [OF ok stays_exec [OF wf] j True] True j Marked show ?thesis
          by (simp add: StepJob step_job_def)
      next
        case (Ran attempt)
        from jobs_apart_done [OF ok j True, of "may_retry job attempt (fl_db s)"] True j Ran show ?thesis
          by (simp add: StepJob step_job_def slots_of_def jobs_apart_def)
      qed
    qed (simp add: StepJob ok)
  next
    case (Outside st)
    show ?thesis unfolding Outside fleet_step.simps
      by (rule jobs_apart_db [OF ok stays_stmt [OF wf]]) (use u Outside in simp_all)
  qed (auto simp: take_slot_def give_back_def slots_of_def ok split: option.split intro!: same)
qed

text \<open>
  However many workers share the queue, and however their loops, jobs, retries and other clients
  interleave, no run is executed by two workers' jobs at once - as long as neither the reaper nor another
  requeue puts a run back while its job is alive.
\<close>
theorem workers_exclude:
  assumes "runs_wf d" and "list_all undisturbed ops"
  shows "distinct (map (\<lambda>(w, job, ph). cj_run_id job) (fl_jobs (fold fleet_step ops (fleet_start lo hi d))))"
proof -
  have "jobs_apart s \<Longrightarrow> list_all undisturbed os \<Longrightarrow> jobs_apart (fold fleet_step os s)" for s os
    by (induction os arbitrary: s) (simp_all add: apart_step)
  from this [OF _ assms(2), of "fleet_start lo hi d"] assms(1) show ?thesis
    by (simp add: jobs_apart_def fleet_start_def)
qed

theorem workers_exclude_witness:
  "distinct (map (\<lambda>(w, job, ph). cj_run_id job) (fl_jobs (fold fleet_step
     [TakeSlot 0, TakeSlot 1, TryClaim 0 sample_host [''python''] [], TryClaim 1 sample_host [''python''] []]
     (fleet_start (\<lambda>w. 1) (\<lambda>w. 1) sample_db))))"
  by (rule workers_exclude [OF sample_wf]) simp

end
