(* ===== verification/Leases.thy ===== *)
theory Leases
  imports Daemon Worker
begin

text \<open>
  The lease of a run over a history of the queue: a running row carries the time of its claim or of its
  last beat, and the reaper of \<open>main.rs\<close> leaves it alone as long as the lease has not passed since.
\<close>

section \<open>Beats\<close>

text \<open>The clock of the statements that write a beat.\<close>

fun beat_clock :: "stmt \<Rightarrow> time option" where
  "beat_clock (Claim now caps locked) = Some now"
| "beat_clock (Touch now i) = Some now"
| "beat_clock st = None"

text \<open>A run that is running has beaten at \<open>t\<close> or later.\<close>

definition beaten_since :: "time \<Rightarrow> int \<Rightarrow> db \<Rightarrow> bool" where
  "beaten_since t i d =
     (\<forall>r\<in>set (runs d). r_id r = i \<longrightarrow> r_status r = Running \<longrightarrow> (\<exists>u. r_heartbeat_at r = Some u \<and> t \<le> u))"

definition beat_from :: "stmt \<Rightarrow> db \<Rightarrow> run \<Rightarrow> bool" where
  "beat_from s d r' =
     (r_status r' = Running \<longrightarrow>
        (\<exists>u. beat_clock s = Some u \<and> r_heartbeat_at r' = Some u) \<or>
        (\<exists>r\<in>set (runs d). r_id r = r_id r' \<and> r_status r = Running \<and> r_heartbeat_at r = r_heartbeat_at r'))"

lemma beat_from_old: "r \<in> set (runs d) \<Longrightarrow> beat_from s d r"
  by (auto simp: beat_from_def)

lemma beat_from_idle: "r_status r \<noteq> Running \<Longrightarrow> beat_from s d r"
  by (simp add: beat_from_def)

lemma beat_from_now: "beat_clock s = Some u \<Longrightarrow> r_heartbeat_at r = Some u \<Longrightarrow> beat_from s d r"
  by (simp add: beat_from_def)

lemma beat_from_update:
  assumes "r' \<in> set (update_where P f (runs d))"
    and "\<And>r. r \<in> set (runs d) \<Longrightarrow> P r \<Longrightarrow> beat_from s d (f r)"
  shows "beat_from s d r'"
  using assms unfolding set_update_where by (auto intro: beat_from_old)

lemma beat_from_quiet:
  assumes "r' \<in> set (update_where P f (runs d))"
    and "\<And>r. P r \<Longrightarrow> r_status (f r) \<noteq> Running \<or>
      r_id (f r) = r_id r \<and> r_status (f r) = r_status r \<and> r_heartbeat_at (f r) = r_heartbeat_at r"
  shows "beat_from s d r'"
proof (rule beat_from_update [OF assms(1)])
  fix r assume "r \<in> set (runs d)" and "P r"
  with assms(2) [of r] show "beat_from s d (f r)" by (auto simp: beat_from_def)
qed

lemma new_rows:
  "insert_run_with_blobs now sid input agent inb cap d = Inr (i, d') \<Longrightarrow>
     set (runs d') \<subseteq> set (runs d) \<union> {r. r_status r \<noteq> Running}"
  "insert_run_idempotent now sid input agent inb cap k d = Inr (x, d') \<Longrightarrow>
     set (runs d') \<subseteq> set (runs d) \<union> {r. r_status r \<noteq> Running}"
  "insert_refused_run now sid input agent reason ko d = Inr (y, d') \<Longrightarrow>
     set (runs d') \<subseteq> set (runs d) \<union> {r. r_status r \<noteq> Running}"
  by (auto simp: insert_run_with_blobs_def insert_run_idempotent_def insert_refused_run_def
      new_run_def split: if_splits option.splits)

lemma fired_rows:
  "set (runs (snd (enqueue_targets now input ts d))) \<subseteq> set (runs d) \<union> {r. r_status r \<noteq> Running}"
proof (induction ts arbitrary: d)
  case (Cons t ts)
  let ?d = "d\<lparr>runs := runs d @ [new_run (run_seq d) (tg_target t) input (tg_agent_id t) now],
              run_seq := run_seq d + 1\<rparr>"
  show ?case using Cons.IH [of ?d] by (auto simp: split_beta Let_def new_run_def)
qed simp

lemma beats_come_from: "r' \<in> set (runs (exec_stmt s d)) \<Longrightarrow> beat_from s d r'"
proof (cases s)
  case (Claim now caps locked)
  assume "r' \<in> set (runs (exec_stmt s d))"
  with Claim show ?thesis
    by (auto simp: claim_run_def start_run_def split: option.splits
        intro: beat_from_old elim!: beat_from_update intro: beat_from_now)
next
  case (FireTriggers contains now rid v)
  let ?in = "mk_obj [(''trigger_result'', v), (''source_run_id'', JInt rid)]"
  assume "r' \<in> set (runs (exec_stmt s d))"
  then have "r' \<in> set (runs (snd (enqueue_targets now ?in (filter (trigger_fires contains rid v d) (triggers d)) d)))"
    by (simp add: FireTriggers fire_triggers_def)
  from subsetD [OF fired_rows this] show ?thesis by (auto intro: beat_from_old beat_from_idle)
next
  case (GcOld now days)
  assume "r' \<in> set (runs (exec_stmt s d))"
  with GcOld show ?thesis using gc_old_rows(1) by (auto intro!: beat_from_old)
next
  case (DeleteScript i)
  assume "r' \<in> set (runs (exec_stmt s d))"
  with DeleteScript show ?thesis
    by (auto simp: or_unchanged_def split: sum.splits dest!: delete_script_rows intro!: beat_from_old)
next
  case (InsertRun x1 x2 x3 x4 x5 x6)
  assume "r' \<in> set (runs (exec_stmt s d))"
  with InsertRun show ?thesis
    by (auto simp: or_unchanged_def split: sum.splits dest!: new_rows intro: beat_from_old beat_from_idle)
next
  case (InsertIdem x1 x2 x3 x4 x5 x6 x7)
  assume "r' \<in> set (runs (exec_stmt s d))"
  with InsertIdem show ?thesis
    by (auto simp: or_unchanged_def split: sum.splits dest!: new_rows intro: beat_from_old beat_from_idle)
next
  case (InsertRefused x1 x2 x3 x4 x5 x6)
  assume "r' \<in> set (runs (exec_stmt s d))"
  with InsertRefused show ?thesis
    by (auto simp: or_unchanged_def split: sum.splits dest!: new_rows intro: beat_from_old beat_from_idle)
next
  case (Mark i)
  assume "r' \<in> set (runs (exec_stmt s d))"
  then show ?thesis
  proof (cases "run_by_id i d")
    case (Some r)
    assume "r' \<in> set (runs (exec_stmt s d))"
    with Some Mark have "r' \<in> set (update_where (\<lambda>q. r_id q = i) (\<lambda>q. q\<lparr>r_attempts := r_attempts q + 1\<rparr>) (runs d))"
      by (simp add: mark_attempt_def or_unchanged_def)
    then show ?thesis by (rule beat_from_quiet) simp
  qed (simp add: Mark mark_attempt_def or_unchanged_def beat_from_old)
next
  case (InsertTrigger x1 x2 x3 x4)
  assume "r' \<in> set (runs (exec_stmt s d))"
  with InsertTrigger show ?thesis
    by (auto simp: or_unchanged_def insert_trigger_def split: sum.splits if_splits intro: beat_from_old)
next
  case (UpdateScript x1 x2 x3 x4 x5 x6 x7 x8 x9 x10)
  assume "r' \<in> set (runs (exec_stmt s d))"
  with UpdateScript show ?thesis
    by (auto simp: or_unchanged_def update_script_def split: sum.splits option.splits if_splits intro: beat_from_old)
next
  case (Touch now i)
  assume "r' \<in> set (runs (exec_stmt s d))"
  with Touch show ?thesis by (auto simp: touch_run_def elim!: beat_from_update intro!: beat_from_now)
qed (auto simp: finish_run_def cancel_run_def requeue_def back_to_pending_def
       reap_orphan_runs_def Let_def fail_stale_pending_def set_run_result_def
       set_run_output_blobs_def set_run_receipt_def update_run_progress_def set_run_cache_key_def
       delete_trigger_def insert_script_def intro: beat_from_old
       elim!: beat_from_quiet split: if_splits)

lemma beaten_stmt:
  assumes b: "beaten_since t i d" and c: "\<And>u. beat_clock s = Some u \<Longrightarrow> t \<le> u"
  shows "beaten_since t i (exec_stmt s d)"
  unfolding beaten_since_def
proof (intro ballI impI)
  fix r assume r: "r \<in> set (runs (exec_stmt s d))" "r_id r = i" "r_status r = Running"
  from beats_come_from [OF r(1)] r(3) consider
    (now) u where "beat_clock s = Some u" "r_heartbeat_at r = Some u"
    | (old) q where "q \<in> set (runs d)" "r_id q = i" "r_status q = Running" "r_heartbeat_at q = r_heartbeat_at r"
    using r(2) by (auto simp: beat_from_def)
  then show "\<exists>u. r_heartbeat_at r = Some u \<and> t \<le> u"
  proof cases
    case old
    have "\<exists>u. r_heartbeat_at q = Some u \<and> t \<le> u" using b old(1-3) unfolding beaten_since_def by blast
    with old(4) show ?thesis by simp
  qed (use c in simp)
qed

lemma beaten_stmts:
  "beaten_since t i d \<Longrightarrow> list_all (\<lambda>s. case beat_clock s of Some u \<Rightarrow> t \<le> u | None \<Rightarrow> True) ss \<Longrightarrow>
   beaten_since t i (exec_stmts ss d)"
proof (induction ss arbitrary: d)
  case (Cons s ss)
  have c: "beat_clock s = Some u \<Longrightarrow> t \<le> u" for u using Cons.prems(2) by simp
  have rest: "list_all (\<lambda>s. case beat_clock s of Some u \<Rightarrow> t \<le> u | None \<Rightarrow> True) ss"
    using Cons.prems(2) by simp
  show ?case unfolding exec_stmts_simps by (rule Cons.IH [OF beaten_stmt [OF Cons.prems(1) c] rest])
qed simp

lemma beaten_beat: "beaten_since now i (touch_run now i d)"
  unfolding beaten_since_def
proof (intro ballI impI)
  fix r assume m: "r \<in> set (runs (touch_run now i d))" and r: "r_id r = i" "r_status r = Running"
  from m have "r \<in> set (update_where (\<lambda>q. r_id q = i \<and> r_status q = Running)
      (\<lambda>q. q\<lparr>r_heartbeat_at := Some now\<rparr>) (runs d))" by (simp add: touch_run_def)
  then obtain q where q: "r = (if r_id q = i \<and> r_status q = Running then q\<lparr>r_heartbeat_at := Some now\<rparr> else q)"
    unfolding set_update_where by blast
  show "\<exists>u. r_heartbeat_at r = Some u \<and> now \<le> u"
    by (cases "r_id q = i \<and> r_status q = Running") (use q r in auto)
qed

lemma beaten_claim:
  assumes c: "claim_run now caps locked d = (Some job, d')" and wf: "runs_wf d"
  shows "beaten_since now (cj_run_id job) d'"
proof -
  from claim_lookup [OF wf c] obtain r where r: "run_by_id (cj_run_id job) d' = Some (start_run now r)" by blast
  have "runs_wf d'" using claim_run_wf [OF wf, of now caps locked] c by simp
  then have row: "q = start_run now r" if "q \<in> set (runs d')" "r_id q = cj_run_id job" for q
    using run_by_id_in [OF _ that(1)] that(2) r by simp
  have "r_heartbeat_at q = Some now" if "q \<in> set (runs d')" "r_id q = cj_run_id job" for q
  proof -
    from that have "q = start_run now r" by (rule row)
    then show ?thesis by (simp add: start_run_def)
  qed
  then show ?thesis by (simp add: beaten_since_def)
qed

section \<open>The reaper\<close>

lemma beaten_spared:
  assumes "beaten_since t i d" and "now - t \<le> secs run_lease_secs"
    and "get_run_status i (reaper_tick pending_to now d) = Some Pending"
  shows "get_run_status i d = Some Pending"
proof -
  from assms(3) obtain r where r: "run_by_id i d = Some r" "r_status (reaped_row pending_to now r) = Pending"
    by (auto simp: get_run_status_def reaper_tick_lookup)
  have "\<not> lease_expired now (secs run_lease_secs) r" if "r_status r = Running"
    using assms(1,2) run_by_idD [OF r(1)] that by (auto simp: beaten_since_def lease_expired_def)
  with r show ?thesis by (auto simp: reaped_row_def get_run_status_def split: if_splits)
qed

text \<open>
  The heartbeat holds the lease: once a running run has beaten at \<open>t\<close>, a tick of the reaper within
  the lease does not put it back, whatever statements anybody executed in between, on any clocks that
  have not gone back behind \<open>t\<close>.
\<close>
theorem beat_holds_lease:
  assumes "list_all (\<lambda>s. case beat_clock s of Some u \<Rightarrow> t \<le> u | None \<Rightarrow> True) ss"
    and "now - t \<le> secs run_lease_secs"
    and "get_run_status i (exec_stmts ss (touch_run t i d)) = Some Running"
  shows "get_run_status i (reaper_tick pending_to now (exec_stmts ss (touch_run t i d))) = Some Running"
proof -
  let ?d = "exec_stmts ss (touch_run t i d)"
  from beaten_stmts [OF beaten_beat assms(1)] have "beaten_since t i ?d" .
  from beaten_spared [OF this assms(2), of pending_to] assms(3)
  have np: "get_run_status i (reaper_tick pending_to now ?d) \<noteq> Some Pending" by auto
  obtain r where r: "run_by_id i ?d = Some r" "r_status r = Running"
    using assms(3) by (auto simp: get_run_status_def)
  then have "r_status (reaped_row pending_to now r) \<in> {Pending, Running}"
    by (simp add: reaped_row_def stale_row_def back_to_pending_def)
  with np r(1) show ?thesis by (simp add: get_run_status_def reaper_tick_lookup)
qed

theorem beat_holds_lease_witness:
  "get_run_status 1 (reaper_tick 0 (secs 610) (exec_stmts [Mark 1]
     (touch_run (secs 15) 1 (snd (claim_run 0 [''python''] [] sample_db))))) = Some Running"
  by (rule beat_holds_lease)
    (simp_all add: sample_simps mark_attempt_def secs_def run_lease_secs_def default_timeout_secs_def)

end
