(* ===== verification/Daemon_Fleet.thy ===== *)
theory Daemon_Fleet
  imports Fleet Daemon_Laws Leases
begin

text \<open>
  The worker loops, cut into their pieces, beside the rest of the daemon: one database, on which clients,
  scheduler, flow engine and housekeeping act between any two pieces.
\<close>

section \<open>The pieces of the loops as clients of the queue\<close>

fun fleet_may :: "fleet_op \<Rightarrow> stmt \<Rightarrow> bool" where
  "fleet_may (Outside st) s = (s = st)"
| "fleet_may op s = work_may s"

fun job_may :: "stmt \<Rightarrow> bool" where
  "job_may (Mark i) = True"
| "job_may (Requeue i) = True"
| "job_may s = exec_may s"

lemma job_kind: "exec_may s \<Longrightarrow> job_may s" "job_may s \<Longrightarrow> work_may s" "job_may s \<Longrightarrow> beat_clock s = None"
  by (cases s; simp)+

lemma execution_becomes: "becomes job_may d (exec_run env a d)"
  using exec_run_evolves [of a d env]
  by (auto simp: evolved_def intro: becomes_mono [OF history_becomes job_kind(1)])

lemma mark_becomes: "mark_attempt i d = Inr (n, d') \<Longrightarrow> becomes job_may d d'"
  by (rule becomes_Inr [where s = "Mark i"]) simp_all

lemma job_becomes: "becomes job_may (fl_db s) (fl_db (step_job n env s))"
proof -
  obtain w job ph where j: "fl_jobs s ! n = (w, job, ph)" by (metis prod_cases3)
  have rq: "becomes job_may x (requeue i x)" for i x
    using becomes_stmt [of job_may "Requeue i" x] by simp
  show ?thesis
    by (cases ph) (auto simp: step_job_def j slots_of_def execution_becomes rq
        split: sum.split prod.split dest: mark_becomes)
qed

lemma claim_becomes: "becomes work_may (fl_db s) (fl_db (try_claim w env caps locked s))"
proof -
  obtain jo d where c: "claim_run (ee_clock env (fl_db s)) caps locked (fl_db s) = (jo, d)" by fastforce
  from becomes_stmt [of work_may "Claim (ee_clock env (fl_db s)) caps locked" "fl_db s"] c show ?thesis
    by (cases jo) (simp_all add: try_claim_def give_back_def slots_of_def)
qed

lemma fleet_becomes: "becomes (fleet_may op) (fl_db s) (fl_db (fleet_step op s))"
proof -
  have m: "fleet_may op = work_may" if "\<forall>st. op \<noteq> Outside st"
    using that by (cases op) (auto simp: fun_eq_iff)
  show ?thesis
  proof (cases op)
    case (Outside st)
    have "becomes (\<lambda>s. s = st) d (exec_stmt st d)" for d by (rule becomes_stmt) simp
    then show ?thesis by (simp add: Outside fleet_may.simps(1) [abs_def])
  qed (use m in \<open>auto simp: claim_becomes becomes_mono [OF job_becomes job_kind(2)] take_slot_def give_back_def slots_of_def split: option.split\<close>)
qed

interpretation fleet_queue: queue_client fleet_step fl_db fleet_may "\<lambda>_. True"
  by unfold_locales (rule fleet_becomes)

section \<open>Loops and daemon together\<close>

record system =
  sy_daemon :: daemon_state
  sy_fleet :: fleet

datatype ('ip, 'c, 'z) system_op = Loop fleet_op | Part "('ip, 'c, 'z) daemon_op"

text \<open>The loops work on the daemon's database.\<close>

definition fleet_of :: "system \<Rightarrow> fleet" where
  "fleet_of s = (sy_fleet s)\<lparr>fl_db := dm_db (sy_daemon s)\<rparr>"

fun system_step :: "('ip, 'c, 'z) system_op \<Rightarrow> system \<Rightarrow> system" where
  "system_step (Loop op) s =
     (let f = fleet_step op (fleet_of s) in
      s\<lparr>sy_fleet := f, sy_daemon := on_db (\<lambda>_. fl_db f) (sy_daemon s)\<rparr>)"
| "system_step (Part op) s = s\<lparr>sy_daemon := daemon_step op (sy_daemon s)\<rparr>"

definition system_start :: "(nat \<Rightarrow> nat) \<Rightarrow> (nat \<Rightarrow> nat) \<Rightarrow> daemon_state \<Rightarrow> system" where
  "system_start lo hi d = \<lparr>sy_daemon = d, sy_fleet = fleet_start lo hi (dm_db d)\<rparr>"

abbreviation sy_db :: "system \<Rightarrow> db" where
  "sy_db s \<equiv> dm_db (sy_daemon s)"

fun system_ok :: "('ip, 'c, 'z) system_op \<Rightarrow> bool" where
  "system_ok (Loop op) = True"
| "system_ok (Part op) = daemon_ok op"

fun system_may :: "('ip, 'c, 'z) system_op \<Rightarrow> stmt \<Rightarrow> bool" where
  "system_may (Loop op) = fleet_may op"
| "system_may (Part op) = daemon_may op"

lemma fleet_of_db [simp]: "fl_db (fleet_of s) = sy_db s"
  by (simp add: fleet_of_def)

lemma fleet_of_step:
  "fleet_of (system_step (Loop op) s) = fleet_step op (fleet_of s)"
  "fleet_of (system_step (Part p) s) = (fleet_of s)\<lparr>fl_db := dm_db (daemon_step p (sy_daemon s))\<rparr>"
  by (simp_all add: fleet_of_def Let_def)

lemma system_becomes:
  assumes "system_ok op" and "runs_wf (sy_db s)"
  shows "becomes (system_may op) (sy_db s) (sy_db (system_step op s))"
proof (cases op)
  case (Loop l)
  from fleet_becomes [of l "fleet_of s"] show ?thesis by (simp add: Loop Let_def)
next
  case (Part p)
  from daemon_becomes [OF _ assms(2), of p] assms(1) show ?thesis by (simp add: Part)
qed

interpretation system_queue: queue_client system_step sy_db system_may system_ok
  by unfold_locales (rule system_becomes)

text \<open>
  C7. The daemon refines the queue: whatever its parts do, in whatever order - tool calls and HTTP
  requests, ticks, the pieces of any number of workers' loops, passes of the flow engine, housekeeping -
  the database is the result of a history of the queue's statements, each one that some part may use, so
  what holds of every history of statements holds of the daemon; in particular its run table stays well
  formed.
\<close>
theorem system_is_history:
  assumes "list_all system_ok ops" and "runs_wf (sy_db s)"
  shows "(\<exists>ss. (\<forall>st\<in>set ss. \<exists>op\<in>set ops. system_may op st) \<and>
            exec_stmts ss (sy_db s) = sy_db (fold system_step ops s)) \<and>
         runs_wf (sy_db (fold system_step ops s))"
  using system_queue.sequence [OF assms] system_queue.sequence_wf [OF assms]
  by (simp add: becomes_def list_all_iff)

definition toy_system :: "(unit, unit, unit) system_op list" where
  "toy_system = [Loop (TakeSlot 0), Loop (TryClaim 0 sample_host [''bash''] []), Part (hd toy_ops),
     Loop (StepJob 0 sample_host), Part (Upkeep (Reaper 0 0))]"

lemma toy_system_ok: "list_all system_ok toy_system"
  by (simp add: toy_system_def toy_ops_def toy_server_def by_statements_def)

theorem system_is_history_witness:
  "runs_wf (sy_db (fold system_step toy_system (system_start (\<lambda>w. 1) (\<lambda>w. 2) (toy_daemon ''x''))))"
  using system_is_history [OF toy_system_ok, of "system_start (\<lambda>w. 1) (\<lambda>w. 2) (toy_daemon ''x'')"]
  by (simp add: system_start_def toy_daemon_wf)

section \<open>One execution at a time\<close>

text \<open>
  Whoever leaves the runs of others and their beats alone: every part but a worker outside the loops.  A
  handler that waits stands for what the others do meanwhile, which are operations of their own here.
\<close>

definition silent :: "stmt \<Rightarrow> bool" where
  "silent st = (\<not> puts_back st \<and> beat_clock st = None)"

fun calm :: "('ip, 'c, 'z) system_op \<Rightarrow> bool" where
  "calm (Loop (Outside st)) = silent st"
| "calm (Part (Serve c)) = (\<not> waits c)"
| "calm (Part (Work env caps locked)) = False"
| "calm op = True"

lemma silent_kinds:
  "tool_may st \<Longrightarrow> silent st" "http_may st \<Longrightarrow> silent st" "tick_may st \<Longrightarrow> silent st" "engine_may st \<Longrightarrow> silent st"
  by (cases st; simp add: silent_def)+

lemma upkeep_silent:
  "\<forall>p now. u \<noteq> Reaper p now \<Longrightarrow> \<forall>now i. u \<noteq> Beat now i \<Longrightarrow> becomes silent d (upkeep_step u d)"
  by (rule upkeep_made_of) (simp_all add: silent_def)

lemma part_silent:
  assumes c: "calm (Part op)" and ok: "daemon_ok op" and wf: "runs_wf (dm_db s)"
    and r: "\<forall>p now. op \<noteq> Upkeep (Reaper p now)" and b: "\<forall>now i. op \<noteq> Upkeep (Beat now i)"
  shows "becomes silent (dm_db s) (dm_db (daemon_step op s))"
proof (cases op)
  case (Upkeep u)
  with upkeep_silent [of u] r b show ?thesis by (simp add: Upkeep)
next
  case (Serve cl)
  have nb: "daemon_may op st \<Longrightarrow> silent st" for st
  proof (cases cl)
    case (ByTool te t)
    with c Serve have "call_may t = tool_may" by (cases t) (auto simp: fun_eq_iff)
    then show "daemon_may op st \<Longrightarrow> silent st" using ByTool Serve silent_kinds(1) by simp
  next
    case (ByHttp ax he token rq)
    then show "daemon_may op st \<Longrightarrow> silent st" using c Serve silent_kinds(2) by (simp add: request_may_def)
  qed
  show ?thesis by (rule becomes_mono [OF daemon_becomes [OF ok wf]]) (rule nb)
next
  case (Fire now sch epoch)
  show ?thesis by (rule becomes_mono [OF daemon_becomes [OF ok wf]]) (use Fire silent_kinds(3) in simp)
next
  case (Engine e)
  show ?thesis by (rule becomes_mono [OF daemon_becomes [OF ok wf]]) (use Engine silent_kinds(4) in simp)
qed (use c in simp)

text \<open>
  The clock of an operation that writes a beat, and the beats a bystander has seen: the claims of the
  loops and the heartbeats of the jobs.
\<close>

fun op_clock :: "('ip, 'c, 'z) system_op \<Rightarrow> system \<Rightarrow> time option" where
  "op_clock (Loop (TryClaim w env caps locked)) s = Some (ee_clock env (sy_db s))"
| "op_clock (Part (Upkeep (Beat now i))) s = Some now"
| "op_clock op s = None"

fun seen :: "('ip, 'c, 'z) system_op \<Rightarrow> system \<Rightarrow> (int \<Rightarrow> time option) \<Rightarrow> int \<Rightarrow> time option" where
  "seen (Loop (TryClaim w env caps locked)) s b =
     (if fl_phase (sy_fleet s) w = HasSlot
      then (case claim_run (ee_clock env (sy_db s)) caps locked (sy_db s) of
              (Some job, d) \<Rightarrow> b(cj_run_id job \<mapsto> ee_clock env (sy_db s)) | (None, d) \<Rightarrow> b)
      else b)"
| "seen (Part (Upkeep (Beat now i))) s b = b(i \<mapsto> now)"
| "seen op s b = b"

text \<open>
  When the reaper ticks, every job in flight whose run is still running has been seen to beat within the
  lease.
\<close>

definition all_beating :: "time \<Rightarrow> (int \<Rightarrow> time option) \<Rightarrow> system \<Rightarrow> bool" where
  "all_beating now b s =
     (\<forall>(w, job, ph)\<in>set (fl_jobs (sy_fleet s)).
        get_run_status (cj_run_id job) (sy_db s) = Some Running \<longrightarrow>
        (case b (cj_run_id job) of Some t \<Rightarrow> now - t \<le> secs run_lease_secs | None \<Rightarrow> False))"

fun reaper_waits :: "('ip, 'c, 'z) system_op \<Rightarrow> (int \<Rightarrow> time option) \<Rightarrow> system \<Rightarrow> bool" where
  "reaper_waits (Part (Upkeep (Reaper p now))) b s = all_beating now b s"
| "reaper_waits op b s = True"

text \<open>A history in which clocks do not go back and the jobs in flight beat within the lease.\<close>

fun on_time :: "('ip, 'c, 'z) system_op list \<Rightarrow> time \<Rightarrow> (int \<Rightarrow> time option) \<Rightarrow> system \<Rightarrow> bool" where
  "on_time [] clk b s = True"
| "on_time (op # ops) clk b s =
     (calm op \<and> reaper_waits op b s \<and>
      (case op_clock op s of
         Some u \<Rightarrow> clk \<le> u \<and> on_time ops u (seen op s b) (system_step op s)
       | None \<Rightarrow> on_time ops clk (seen op s b) (system_step op s)))"

definition watched :: "time \<Rightarrow> (int \<Rightarrow> time option) \<Rightarrow> db \<Rightarrow> bool" where
  "watched clk b d = (\<forall>i t. b i = Some t \<longrightarrow> t \<le> clk \<and> beaten_since t i d)"

lemma watched_stmt:
  "watched clk b d \<Longrightarrow> (\<And>u. beat_clock st = Some u \<Longrightarrow> clk \<le> u) \<Longrightarrow> watched clk b (exec_stmt st d)"
  unfolding watched_def by (fastforce intro!: beaten_stmt)

lemma watched_later: "watched clk b d \<Longrightarrow> clk \<le> u \<Longrightarrow> watched u b d"
  unfolding watched_def by fastforce

lemma watched_sees: "watched u b d \<Longrightarrow> beaten_since u i d \<Longrightarrow> watched u (b(i \<mapsto> u)) d"
  by (simp add: watched_def)

lemma watched_quiet:
  assumes "watched clk b d" and "becomes may d d'" and "\<And>st. may st \<Longrightarrow> beat_clock st = None"
  shows "watched clk b d'"
proof -
  from assms(2) obtain ss where ss: "list_all may ss" "exec_stmts ss d = d'" unfolding becomes_def by blast
  from ss(1) assms(1) have "watched clk b (exec_stmts ss d)"
  proof (induction ss arbitrary: d)
    case (Cons st ss)
    have "watched clk b (exec_stmt st d)"
      by (rule watched_stmt [OF Cons.prems(2)]) (use assms(3) [of st] Cons.prems(1) in simp)
    with Cons.IH [of "exec_stmt st d"] Cons.prems(1) show ?case by simp
  qed simp
  with ss(2) show ?thesis by simp
qed

text \<open>One operation: the jobs in flight stay apart, and what was seen stays true.\<close>

lemma reaper_apart:
  assumes ap: "jobs_apart (fleet_of s)" and w: "watched clk b (sy_db s)" and beat: "all_beating now b s"
  shows "jobs_apart (fleet_of (system_step (Part (Upkeep (Reaper p now))) s))"
proof -
  let ?d = "reaper_tick p now (sy_db s)"
  have wf: "runs_wf ?d"
    using becomes_wf [OF upkeep_becomes [of "sy_db s" "Reaper p now"]] ap by (simp add: jobs_apart_def)
  have seq: "run_seq ?d = run_seq (sy_db s)"
    by (simp add: reaper_tick_def Let_def fail_stale_pending_def reap_orphan_runs_def reap_orphan_flow_runs_def)
  have out: "get_run_status (cj_run_id job) ?d \<noteq> Some Pending" if j: "(v, job, ph) \<in> set (fl_jobs (sy_fleet s))" for v job ph
  proof
    assume pend: "get_run_status (cj_run_id job) ?d = Some Pending"
    then obtain r where r: "run_by_id (cj_run_id job) (sy_db s) = Some r" "r_status (reaped_row p now r) = Pending"
      by (auto simp: get_run_status_def reaper_tick_lookup)
    have np: "r_status r \<noteq> Pending" using ap j r(1) by (fastforce simp: jobs_apart_def fleet_of_def get_run_status_def)
    then have "r_status r = Running" using r(2) by (auto simp: reaped_row_def split: if_splits)
    then obtain t where t: "b (cj_run_id job) = Some t" "now - t \<le> secs run_lease_secs"
      using beat j r(1) by (fastforce simp: all_beating_def get_run_status_def split: option.splits)
    from w t(1) have "beaten_since t (cj_run_id job) (sy_db s)" by (simp add: watched_def)
    from beaten_spared [OF this t(2) pend] np r(1) show False by (simp add: get_run_status_def)
  qed
  show ?thesis unfolding fleet_of_step using ap wf seq out by (fastforce simp: jobs_apart_def fleet_of_def)
qed

lemma part_apart:
  assumes ap: "jobs_apart (fleet_of s)" and b: "becomes (\<lambda>st. \<not> puts_back st) (sy_db s) (dm_db (daemon_step p (sy_daemon s)))"
  shows "jobs_apart (fleet_of (system_step (Part p) s))"
proof -
  have wf: "runs_wf (sy_db s)" using ap by (simp add: jobs_apart_def)
  from b obtain ss where "list_all (\<lambda>st. \<not> puts_back st) ss"
      "exec_stmts ss (sy_db s) = dm_db (daemon_step p (sy_daemon s))"
    unfolding becomes_def by blast
  with stays_stmts [OF wf] have "stays (sy_db s) (dm_db (daemon_step p (sy_daemon s)))" by metis
  with jobs_apart_db [OF ap] show ?thesis by (simp only: fleet_of_step fleet_of_db) simp
qed

lemma part_on_time:
  assumes ap: "jobs_apart (fleet_of s)" and w: "watched clk b (sy_db s)" and c: "calm (Part p)" and ok: "daemon_ok p"
    and wait: "reaper_waits (Part p) b s" and clk: "\<And>u. op_clock (Part p) s = Some u \<Longrightarrow> clk \<le> u"
  shows "jobs_apart (fleet_of (system_step (Part p) s))"
    and "watched (case op_clock (Part p) s of Some u \<Rightarrow> u | None \<Rightarrow> clk) (seen (Part p) s b) (sy_db (system_step (Part p) s))"
proof -
  have wf: "runs_wf (sy_db s)" using ap by (simp add: jobs_apart_def)
  consider (reaper) q now where "p = Upkeep (Reaper q now)" | (beat) now i where "p = Upkeep (Beat now i)"
    | (other) "\<forall>q now. p \<noteq> Upkeep (Reaper q now)" "\<forall>now i. p \<noteq> Upkeep (Beat now i)" by blast
  then have "jobs_apart (fleet_of (system_step (Part p) s)) \<and>
    watched (case op_clock (Part p) s of Some u \<Rightarrow> u | None \<Rightarrow> clk) (seen (Part p) s b) (sy_db (system_step (Part p) s))"
  proof cases
    case reaper
    have "becomes (\<lambda>st. beat_clock st = None) (sy_db s) (reaper_tick q now (sy_db s))"
      using upkeep_made_of [of "\<lambda>st. beat_clock st = None" "Reaper q now" "sy_db s"] by simp
    from watched_quiet [OF w this] reaper_apart [OF ap w] wait reaper show ?thesis by simp
  next
    case beat
    have "becomes (\<lambda>st. \<not> puts_back st) (sy_db s) (touch_run now i (sy_db s))"
      using becomes_stmt [of "\<lambda>st. \<not> puts_back st" "Touch now i" "sy_db s"] by simp
    with part_apart [OF ap, of p] beat have "jobs_apart (fleet_of (system_step (Part p) s))" by simp
    moreover have "watched now b (touch_run now i (sy_db s))"
      using watched_stmt [OF watched_later [OF w], of now "Touch now i"] clk beat by simp
    ultimately show ?thesis using watched_sees beaten_beat beat by simp
  next
    case other
    note q = part_silent [OF c ok wf other]
    have same: "seen (Part p) s b = b" "op_clock (Part p) s = None"
      using other by (cases "(Part p, s)" rule: op_clock.cases; simp)+
    have "jobs_apart (fleet_of (system_step (Part p) s))"
      by (rule part_apart [OF ap becomes_mono [OF q]]) (simp add: silent_def)
    moreover have "watched clk b (dm_db (daemon_step p (sy_daemon s)))"
      by (rule watched_quiet [OF w q]) (simp add: silent_def)
    ultimately show ?thesis by (simp add: same)
  qed
  then show "jobs_apart (fleet_of (system_step (Part p) s))"
    and "watched (case op_clock (Part p) s of Some u \<Rightarrow> u | None \<Rightarrow> clk) (seen (Part p) s b) (sy_db (system_step (Part p) s))"
    by simp_all
qed

lemma loop_on_time:
  assumes ap: "jobs_apart (fleet_of s)" and w: "watched clk b (sy_db s)" and c: "calm (Loop l)"
    and clk: "\<And>u. op_clock (Loop l) s = Some u \<Longrightarrow> clk \<le> u"
  shows "jobs_apart (fleet_of (system_step (Loop l) s))"
    and "watched (case op_clock (Loop l) s of Some u \<Rightarrow> u | None \<Rightarrow> clk) (seen (Loop l) s b) (sy_db (system_step (Loop l) s))"
proof -
  have "undisturbed l" using c by (cases l) (simp_all add: silent_def)
  from apart_step [OF ap this] show "jobs_apart (fleet_of (system_step (Loop l) s))"
    by (simp only: fleet_of_step)
  have wf: "runs_wf (sy_db s)" using ap by (simp add: jobs_apart_def)
  have ph: "fl_phase (fleet_of s) = fl_phase (sy_fleet s)" by (simp add: fleet_of_def)
  show "watched (case op_clock (Loop l) s of Some u \<Rightarrow> u | None \<Rightarrow> clk) (seen (Loop l) s b) (sy_db (system_step (Loop l) s))"
  proof (cases l)
    case (TryClaim n env caps locked)
    let ?u = "ee_clock env (sy_db s)"
    obtain jo d where cl: "claim_run ?u caps locked (sy_db s) = (jo, d)" by fastforce
    from clk TryClaim have u: "clk \<le> ?u" by simp
    have d: "watched ?u b d"
      using watched_stmt [OF watched_later [OF w u], of "Claim ?u caps locked"] cl by simp
    show ?thesis
    proof (cases "fl_phase (sy_fleet s) n = HasSlot")
      case True
      show ?thesis
      proof (cases jo)
        case None
        with True d cl show ?thesis
          by (simp add: TryClaim Let_def ph try_claim_def give_back_def slots_of_def)
      next
        case (Some job)
        with True watched_sees [OF d beaten_claim [OF _ wf]] cl show ?thesis
          by (simp add: TryClaim Let_def ph try_claim_def)
      qed
    qed (use watched_later [OF w u] in \<open>simp add: TryClaim Let_def ph\<close>)
  next
    case (StepJob n env)
    have "watched clk b (fl_db (step_job n env (fleet_of s)))"
      by (rule watched_quiet [OF w _ job_kind(3)]) (use job_becomes [of "fleet_of s" n env] in simp_all)
    with w show ?thesis by (simp add: StepJob Let_def)
  next
    case (Outside st)
    have "watched clk b (exec_stmt st (sy_db s))"
      by (rule watched_stmt [OF w]) (use c Outside in \<open>simp add: silent_def\<close>)
    then show ?thesis by (simp add: Outside Let_def)
  qed (use w in \<open>auto simp: Let_def take_slot_def give_back_def slots_of_def split: option.split\<close>)
qed

lemma system_on_time:
  assumes "jobs_apart (fleet_of s)" and "watched clk b (sy_db s)" and "list_all system_ok ops" and "on_time ops clk b s"
  shows "jobs_apart (fleet_of (fold system_step ops s))"
  using assms
proof (induction ops arbitrary: s clk b)
  case (Cons op ops)
  let ?clk = "case op_clock op s of Some u \<Rightarrow> u | None \<Rightarrow> clk"
  have t: "calm op" "reaper_waits op b s" "\<And>u. op_clock op s = Some u \<Longrightarrow> clk \<le> u"
    and rest: "on_time ops ?clk (seen op s b) (system_step op s)"
    using Cons.prems(4) by (auto split: option.splits)
  have "jobs_apart (fleet_of (system_step op s)) \<and> watched ?clk (seen op s b) (sy_db (system_step op s))"
  proof (cases op)
    case (Loop l)
    with loop_on_time [OF Cons.prems(1,2), of l] t show ?thesis by blast
  next
    case (Part p)
    with part_on_time [OF Cons.prems(1,2), of p] t Cons.prems(3) show ?thesis by force
  qed
  with Cons.IH [OF _ _ _ rest] Cons.prems(3) show ?case by simp
qed simp

text \<open>
  C9. However many workers share the queue, and however their loops, jobs and retries interleave with
  tool calls, HTTP requests, ticks, the flow engine and all housekeeping, no run is executed by two
  workers' jobs at once - as long as clocks do not go back and, whenever the reaper ticks, the jobs in
  flight have been seen to beat within the lease.
\<close>
theorem daemon_workers_exclude:
  assumes "list_all system_ok ops" and "runs_wf (dm_db d)"
    and "on_time ops clk (\<lambda>i. None) (system_start lo hi d)"
  shows "distinct (map (\<lambda>(w, job, ph). cj_run_id job)
     (fl_jobs (fleet_of (fold system_step ops (system_start lo hi d)))))"
proof -
  let ?s = "system_start lo hi d"
  have "jobs_apart (fleet_of ?s)" using assms(2)
    by (simp add: jobs_apart_def system_start_def fleet_start_def fleet_of_def)
  moreover have "watched clk (\<lambda>i. None) (sy_db ?s)" by (simp add: watched_def)
  ultimately have "jobs_apart (fleet_of (fold system_step ops ?s))" by (rule system_on_time [OF _ _ assms(1,3)])
  then show ?thesis by (simp add: jobs_apart_def)
qed

text \<open>
  Two workers want the only run; the one that has it beats after 15 seconds and is left alone by the
  reaper almost ten minutes later.
\<close>

definition busy_ops :: "(unit, unit, unit) system_op list" where
  "busy_ops = [Loop (TakeSlot 0), Loop (TakeSlot 1), Loop (TryClaim 0 sample_host [''python''] []),
     Loop (TryClaim 1 sample_host [''python''] []), Part (Upkeep (Beat (secs 15) 1)),
     Part (Upkeep (Reaper 0 (secs 610)))]"

definition busy_start :: system where
  "busy_start = system_start (\<lambda>w. 1) (\<lambda>w. 1) (on_db (\<lambda>_. sample_db) (toy_daemon ''x''))"

lemma busy_on_time: "on_time busy_ops 0 (\<lambda>i. None) busy_start"
  by (simp add: busy_ops_def busy_start_def system_start_def fleet_start_def fleet_of_def take_slot_def
      conc_acquire_def conc_new_def all_beating_def sample_host_def sample_simps try_claim_def give_back_def
      slots_of_def conc_release_def on_db_def toy_daemon_def secs_def run_lease_secs_def default_timeout_secs_def)

theorem daemon_workers_exclude_witness:
  "distinct (map (\<lambda>(w, job, ph). cj_run_id job) (fl_jobs (fleet_of (fold system_step busy_ops busy_start))))"
  unfolding busy_start_def
proof (rule daemon_workers_exclude)
  show "list_all system_ok busy_ops" by (simp add: busy_ops_def)
  show "runs_wf (dm_db (on_db (\<lambda>_. sample_db) (toy_daemon ''x'')))" by (simp add: sample_wf)
  show "on_time busy_ops 0 (\<lambda>i. None) (system_start (\<lambda>w. 1) (\<lambda>w. 1) (on_db (\<lambda>_. sample_db) (toy_daemon ''x'')))"
    using busy_on_time by (simp add: busy_start_def)
qed

end
