(* ===== verification/Digests.thy ===== *)
theory Digests
  imports Pool Mcp_Laws Daemon
begin

text \<open>
  The table of image digests (\<open>src/pool.rs\<close>), from which the executor (\<open>src/exec.rs\<close>) answers what an
  image's digest is, in the pieces between which the tasks of a process run: a task that does not find
  the image asks Docker, and stores the answer later.  The digest goes into the cache key of a run.
\<close>

section \<open>The table in pieces\<close>

record digest_table =
  dt_known :: "(string \<times> string) list"
  dt_asked :: "(string \<times> string) list"  \<comment> \<open>answers not yet stored\<close>

text \<open>\<open>Look\<close> is a task with what Docker answers it, \<open>Store n\<close> the insertion of the \<open>n\<close>th answer.\<close>

datatype digest_op = Look string "image_info option" | Store nat

definition look_digest :: "string \<Rightarrow> image_info option \<Rightarrow> digest_table \<Rightarrow> digest_table" where
  "look_digest img answer s =
     (if map_of (dt_known s) img \<noteq> None then s
      else (case answer of
              None \<Rightarrow> s
            | Some im \<Rightarrow>
                if image_digest_of im = [] then s
                else s\<lparr>dt_asked := dt_asked s @ [(img, image_digest_of im)]\<rparr>))"

definition store_digest :: "nat \<Rightarrow> digest_table \<Rightarrow> digest_table" where
  "store_digest n s =
     (if n < length (dt_asked s)
      then s\<lparr>dt_known := AList.update (fst (dt_asked s ! n)) (snd (dt_asked s ! n)) (dt_known s),
             dt_asked := take n (dt_asked s) @ drop (Suc n) (dt_asked s)\<rparr>
      else s)"

fun digest_step :: "digest_op \<Rightarrow> digest_table \<Rightarrow> digest_table" where
  "digest_step (Look img answer) s = look_digest img answer s"
| "digest_step (Store n) s = store_digest n s"

text \<open>One after the other, the pieces are the \<open>resolve_digest\<close> of the pool's model.\<close>

lemma look_then_store:
  "po_digests (resolve_digest dk img p w) =
   dt_known (fold digest_step [Look img (dk_inspect dk img w), Store 0] \<lparr>dt_known = po_digests p, dt_asked = []\<rparr>)"
  by (simp add: resolve_digest_def look_digest_def store_digest_def pool_digest_def split: option.split)

section \<open>A known digest stays\<close>

definition pinned :: "string \<Rightarrow> string \<Rightarrow> digest_table \<Rightarrow> bool" where
  "pinned img g s = (map_of (dt_known s) img = Some g \<and> img \<notin> fst ` set (dt_asked s))"

lemma pinned_step: "pinned img g s \<Longrightarrow> pinned img g (digest_step op s)"
proof (cases op)
  case (Look img' answer)
  then show "pinned img g s \<Longrightarrow> ?thesis"
    by (auto simp: pinned_def look_digest_def split: option.split)
next
  case (Store n)
  assume p: "pinned img g s"
  show ?thesis
  proof (cases "n < length (dt_asked s)")
    case True
    then have "fst (dt_asked s ! n) \<noteq> img" using p nth_mem [OF True] by (force simp: pinned_def)
    with p True Store show ?thesis
      by (auto simp: pinned_def store_digest_def update_conv' dest: in_set_takeD in_set_dropD)
  qed (use p Store in \<open>simp add: store_digest_def\<close>)
qed

lemma pinned_steps: "pinned img g s \<Longrightarrow> pinned img g (fold digest_step ops s)"
  by (induction ops arbitrary: s) (simp_all add: pinned_step)

section \<open>Boot\<close>

text \<open>The images of \<open>Executor::resolve_digests\<close>, and the ones it warms.\<close>

definition runtime_images :: "string list" where
  "runtime_images = [''python:3.12-slim'', ''node:22-slim'', ''alpine:3.20'']"

definition warm_runtimes :: "pool \<Rightarrow> pool" where
  "warm_runtimes p = prewarm runtime_images p"

definition boot_resolve :: "(string \<Rightarrow> image_info option) \<Rightarrow> digest_op list" where
  "boot_resolve answer = concat (map (\<lambda>img. [Look img (answer img), Store 0]) runtime_images)"

text \<open>
  Only a process with a runtime to execute resolves digests at boot and creates containers later; in
  the others the table stays as it was made.
\<close>

definition process_digests :: "string list \<Rightarrow> digest_op list \<Rightarrow> digest_table" where
  "process_digests caps ops =
     (if is_executor caps then fold digest_step ops \<lparr>dt_known = [], dt_asked = []\<rparr>
      else \<lparr>dt_known = [], dt_asked = []\<rparr>)"

lemma runtime_image_known: "runtime_spec r = Some (img, prog) \<Longrightarrow> img \<in> set runtime_images"
  by (auto simp: runtime_spec_def runtime_images_def split: if_splits)

lemma boot_pins:
  assumes "is_executor caps" and "runtime_spec r = Some (img, prog)"
    and "\<And>i. i \<in> set runtime_images \<Longrightarrow> \<exists>im. answer i = Some im \<and> image_digest_of im \<noteq> []"
  shows "\<exists>im. answer img = Some im \<and> pinned img (image_digest_of im) (process_digests caps (boot_resolve answer))"
proof -
  obtain p n a where i: "answer ''python:3.12-slim'' = Some p" "image_digest_of p \<noteq> []"
      "answer ''node:22-slim'' = Some n" "image_digest_of n \<noteq> []"
      "answer ''alpine:3.20'' = Some a" "image_digest_of a \<noteq> []"
    using assms(3) [of "''python:3.12-slim''"] assms(3) [of "''node:22-slim''"] assms(3) [of "''alpine:3.20''"]
    unfolding runtime_images_def by force
  from runtime_image_known [OF assms(2)] assms(1) i show ?thesis
    by (auto simp: process_digests_def boot_resolve_def runtime_images_def look_digest_def store_digest_def pinned_def)
qed

section \<open>The digest in the cache key\<close>

text \<open>A host whose digests are those of the table.\<close>

definition digest_host :: "exec_env \<Rightarrow> digest_table \<Rightarrow> exec_env" where
  "digest_host env s = env\<lparr>ee_digest := (\<lambda>_ img. map_of (dt_known s) img)\<rparr>"

lemma key_over_table:
  assumes "runtime_spec (sc_runtime sc) = Some (img, prog)"
  shows "request_cache_key (digest_host env s) sc input inb d =
    run_cache_key (sha256_hex (ee_crypto env)) (c_print (ee_crypto env)) (sc_runtime sc)
      (case map_of (dt_known s) img of Some g \<Rightarrow> g | None \<Rightarrow> []) (sc_source sc) input (secrets_generation d) inb"
  using assms by (simp add: request_cache_key_def image_digest_def digest_host_def)

text \<open>
  C28. The image enters the cache key of a run as the process first learned it.  In an executor that has
  resolved the image and has no other answer for it in flight, the key keeps that digest whatever Docker
  answers later, an updated image included; a process that executes nothing leaves the image out.
\<close>

theorem cache_key_image:
  assumes "runtime_spec (sc_runtime sc) = Some (img, prog)"
    and "is_executor caps \<Longrightarrow> pinned img g (process_digests caps ops)"
  shows "request_cache_key (digest_host env (process_digests caps (ops @ later))) sc input inb d =
    run_cache_key (sha256_hex (ee_crypto env)) (c_print (ee_crypto env)) (sc_runtime sc)
      (if is_executor caps then g else []) (sc_source sc) input (secrets_generation d) inb"
proof (cases "is_executor caps")
  case True
  with assms(2) have "pinned img g (process_digests caps (ops @ later))"
    by (simp add: process_digests_def pinned_steps)
  with True show ?thesis by (simp add: key_over_table [OF assms(1)] pinned_def)
next
  case False
  then show ?thesis by (simp add: key_over_table [OF assms(1)] process_digests_def)
qed

text \<open>An executor that found the image \<open>old\<close> at boot, and Docker answering \<open>new\<close> ever since.\<close>

definition answers :: "string \<Rightarrow> string \<Rightarrow> image_info option" where
  "answers g img = Some \<lparr>im_repo_digests = Some [g], im_id = None\<rparr>"

theorem cache_key_image_witness:
  "request_cache_key (digest_host sample_host (process_digests [''python'']
      (boot_resolve (answers ''old'') @ [Look ''python:3.12-slim'' (answers ''new'' []), Store 0])))
      (hd (scripts one_script)) (JObj []) None one_script =
    run_cache_key (sha256_hex (ee_crypto sample_host)) (c_print (ee_crypto sample_host)) ''python''
      ''old'' ''print(1)'' (JObj []) (secrets_generation one_script) None"
proof -
  have e: "is_executor [''python'']" by code_simp
  have s: "sc_runtime (hd (scripts one_script)) = ''python''" "sc_source (hd (scripts one_script)) = ''print(1)''"
    by (simp_all add: one_script_def empty_db_def insert_script_def)
  have r: "runtime_spec (sc_runtime (hd (scripts one_script))) = Some (''python:3.12-slim'', ''python'')"
    by (simp add: s runtime_spec_def)
  have p: "pinned ''python:3.12-slim'' ''old'' (process_digests [''python''] (boot_resolve (answers ''old'')))"
    using boot_pins [OF e r, of "answers ''old''"] by (simp add: answers_def image_digest_of_def)
  from cache_key_image [OF r p, where later = "[Look ''python:3.12-slim'' (answers ''new'' []), Store 0]"] e s
  show ?thesis by simp
qed

end
