(* ===== verification/Side_Assets.thy ===== *)
theory Side_Assets
  imports Update "HOL-Library.AList"
begin

text \<open>
  What follows a finished self update (\<open>src/update.rs\<close>): the copy of the operator skill into the home
  directory and the restart under launchd.  Neither can fail the update.  The file system is a tree of
  named entries; the commands \<open>id\<close> and \<open>launchctl\<close> are parameters.
\<close>

section \<open>The skill directory\<close>

datatype node = FileNode string | DirNode "(string \<times> node) list"

type_synonym entries = "(string \<times> node) list"

text \<open>
  \<open>copy_dir\<close> into the entries of an existing directory; \<open>fails\<close> holds at the paths the system refuses.
  A failure leaves what was copied before it.
\<close>

definition subdir :: "string \<Rightarrow> entries \<Rightarrow> entries option" where
  "subdir name dst =
     (case map_of dst name of None \<Rightarrow> Some [] | Some (DirNode t) \<Rightarrow> Some t | Some (FileNode b) \<Rightarrow> None)"

fun copy_entry :: "(string list \<Rightarrow> bool) \<Rightarrow> string list \<Rightarrow> string \<Rightarrow> node \<Rightarrow> entries \<Rightarrow> bool \<times> entries"
and copy_dir :: "(string list \<Rightarrow> bool) \<Rightarrow> string list \<Rightarrow> entries \<Rightarrow> entries \<Rightarrow> bool \<times> entries" where
  "copy_entry fails path name (FileNode bytes) dst =
     (if fails (path @ [name]) \<or> (\<exists>t. map_of dst name = Some (DirNode t)) then (False, dst)
      else (True, AList.update name (FileNode bytes) dst))"
| "copy_entry fails path name (DirNode sub) dst =
     (if fails (path @ [name]) then (False, dst)
      else case subdir name dst of
        None \<Rightarrow> (False, dst)
      | Some t \<Rightarrow>
          (case copy_dir fails (path @ [name]) sub t of
             (done, t') \<Rightarrow> (done, AList.update name (DirNode t') dst)))"
| "copy_dir fails path [] dst = (True, dst)"
| "copy_dir fails path ((name, n) # src) dst =
     (case copy_entry fails path name n dst of
        (True, dst') \<Rightarrow> copy_dir fails path src dst'
      | (False, dst') \<Rightarrow> (False, dst'))"

fun file_in :: "string list \<Rightarrow> node option \<Rightarrow> string option" where
  "file_in [] (Some (FileNode b)) = Some b"
| "file_in (name # path) (Some (DirNode t)) = file_in path (map_of t name)"
| "file_in path n = None"

abbreviation file_at :: "string list \<Rightarrow> entries \<Rightarrow> string option" where
  "file_at path t \<equiv> file_in path (Some (DirNode t))"

text \<open>No directory lists a name twice.\<close>

fun tree_ok :: "node \<Rightarrow> bool" where
  "tree_ok (FileNode b) = True"
| "tree_ok (DirNode t) = (distinct (map fst t) \<and> (\<forall>n\<in>set (map snd t). tree_ok n))"

record side_env =
  sd_skill :: "entries option"  \<comment> \<open>\<open>.claude/skills/dokan\<close> below the working directory\<close>
  sd_home :: "string option"
  sd_fails :: "string list \<Rightarrow> bool"
  sd_id :: "(bool \<times> string) option"  \<comment> \<open>\<open>id -u\<close>: success and output, if it starts\<close>
  sd_utf8 :: "string \<Rightarrow> bool"
  sd_loaded :: "string \<Rightarrow> bool option"  \<comment> \<open>\<open>launchctl print\<close> of a target\<close>

definition copy_skill :: "side_env \<Rightarrow> entries \<Rightarrow> bool \<times> entries" where
  "copy_skill se installed =
     (case sd_skill se of
        None \<Rightarrow> (True, installed)
      | Some src \<Rightarrow>
          (case sd_home se of
             None \<Rightarrow> (False, installed)
           | Some home \<Rightarrow> if sd_fails se [] then (False, installed) else copy_dir (sd_fails se) [] src installed))"

text \<open>Errors are logged and swallowed.\<close>

definition refresh_side_assets :: "side_env \<Rightarrow> entries \<Rightarrow> entries" where
  "refresh_side_assets se installed = snd (copy_skill se installed)"

section \<open>Restart\<close>

definition launchd_label :: string where "launchd_label = ''com.tsukumo.dokan''"

definition uid :: "side_env \<Rightarrow> string option" where
  "uid se =
     (case sd_id se of
        None \<Rightarrow> None
      | Some (success, out) \<Rightarrow>
          if \<not> success \<or> \<not> sd_utf8 se out \<or> trim out = [] then None else Some (trim out))"

text \<open>The target \<open>launchctl kickstart -k\<close> is called on, if it is called.\<close>

definition restart_if_launchd :: "side_env \<Rightarrow> string option" where
  "restart_if_launchd se =
     (case uid se of
        None \<Rightarrow> None
      | Some u \<Rightarrow>
          let target = ''gui/'' @ u @ ''/'' @ launchd_label
          in if sd_loaded se target = Some True then Some target else None)"

section \<open>The whole command\<close>

text \<open>\<open>run\<close> with what it does beside the binary: the skill files and the restart.\<close>

definition update_with_assets ::
    "('v::linorder) update_env \<Rightarrow> side_env \<Rightarrow> bool \<Rightarrow> bool \<Rightarrow> install_state \<Rightarrow> entries
     \<Rightarrow> nat \<times> install_state \<times> entries \<times> string option" where
  "update_with_assets ue se force check s skill =
     (case ue_current ue of
        None \<Rightarrow> (1, s, skill, None)
      | Some cur \<Rightarrow>
          (case ue_latest ue of
             Inl e \<Rightarrow> (1, s, skill, None)
           | Inr rel \<Rightarrow>
               (case parse_tag (ue_parse ue) (rl_tag rel) of
                  None \<Rightarrow> (1, s, skill, None)
                | Some latest \<Rightarrow>
                    if check then (0, s, skill, None)
                    else (case update_gate cur latest force (ue_debug ue) of
                            GoUpdate \<Rightarrow>
                              (case update_install ue rel latest s of
                                 (Inr _, s') \<Rightarrow> (0, s', refresh_side_assets se skill, restart_if_launchd se)
                               | (Inl _, s') \<Rightarrow> (1, s', skill, None))
                          | _ \<Rightarrow> (0, s, skill, None)))))"

lemma update_ignores_assets:
  "(case update_with_assets ue se force check s skill of (code, s', rest) \<Rightarrow> (code, s')) = update_run ue force check s"
  by (auto simp: update_with_assets_def update_run_def split: option.split sum.split prod.split gate.split)

section \<open>A copy is complete and adds nothing\<close>

text \<open>The entry's files as they are in the source, the rest as it was.\<close>

definition overlay :: "string option \<Rightarrow> string option \<Rightarrow> string option" where
  "overlay new old = (case new of Some b \<Rightarrow> Some b | None \<Rightarrow> old)"

lemma overlay_simps [simp]: "overlay None x = x" "overlay (Some b) x = Some b"
  by (simp_all add: overlay_def)

lemma copy_spec:
  "copy_entry fails path name n dst = (True, dst') \<Longrightarrow> tree_ok n \<Longrightarrow>
     file_at (m # p) dst' = (if m = name then overlay (file_in p (Some n)) (file_at (m # p) dst)
                             else file_at (m # p) dst)"
  "copy_dir fails path src dst = (True, dst') \<Longrightarrow> tree_ok (DirNode src) \<Longrightarrow>
     file_at q dst' = overlay (file_at q src) (file_at q dst)"
proof (induction fails path name n dst and fails path src dst arbitrary: m p dst' and q dst'
    rule: copy_entry_copy_dir.induct)
  case (1 fails path name bytes dst)
  have not_dir: "file_in (x # xs) (map_of dst name) = None" if "\<nexists>t. map_of dst name = Some (DirNode t)" for x xs
    using that by (cases "map_of dst name"; cases "the (map_of dst name)") auto
  show ?case
    using 1(1) not_dir by (cases p) (auto simp: update_conv split: if_splits)
next
  case (2 fails path name sub dst)
  obtain t t' where t: "subdir name dst = Some t" "copy_dir fails (path @ [name]) sub t = (True, t')"
    and d: "dst' = AList.update name (DirNode t') dst" and ok: "\<not> fails (path @ [name])"
    using 2(2) by (auto split: if_splits option.splits prod.splits)
  have old: "file_at p t = file_in p (map_of dst name)"
    using t(1) by (cases p) (auto simp: subdir_def split: option.splits node.splits)
  have "file_at p t' = overlay (file_at p sub) (file_at p t)" using 2(1) [OF ok t 2(3)] .
  with old show ?case by (simp add: d update_conv)
next
  case (3 fails path dst)
  then show ?case by (cases q) simp_all
next
  case (4 fails path name n src dst)
  obtain d1 where d1: "copy_entry fails path name n dst = (True, d1)" "copy_dir fails path src d1 = (True, dst')"
    using 4(3) by (auto split: prod.splits bool.splits)
  have ok: "tree_ok n" "tree_ok (DirNode src)" and new: "map_of src name = None"
    using 4(4) by (auto simp: map_of_eq_None_iff)
  note e = 4(1) [OF d1(1) ok(1)] and r = 4(2) [OF d1(1) [symmetric] refl d1(2) ok(2)]
  show ?case
  proof (cases q)
    case (Cons m p)
    show ?thesis using r [of "m # p"] e [of m p] new by (auto simp: Cons)
  qed (use r [of "[]"] in simp)
qed

text \<open>
  A refresh that meets no error leaves every file of the skill in place with its content, and no other
  installed file changed; and whatever it meets, the exit code and the binary are those of the update.
\<close>
theorem skill_copy_complete:
  assumes "copy_skill se installed = (True, installed')" and "sd_skill se = Some src" and "tree_ok (DirNode src)"
  shows "file_at path installed' =
    (case file_at path src of Some b \<Rightarrow> Some b | None \<Rightarrow> file_at path installed)"
  using assms copy_spec(2) [of "sd_fails se" "[]" src installed installed' path]
  by (auto simp: copy_skill_def overlay_def split: option.splits if_splits)

theorem skill_copy_complete_witness:
  "file_at [''a'', ''b''] (snd (copy_skill
     \<lparr>sd_skill = Some [(''a'', DirNode [(''b'', FileNode ''x'')])], sd_home = Some ''/h'', sd_fails = (\<lambda>p. False),
      sd_id = None, sd_utf8 = (\<lambda>s. True), sd_loaded = (\<lambda>t. None)\<rparr> [(''c'', FileNode ''y'')])) = Some ''x''"
proof -
  let ?se = "\<lparr>sd_skill = Some [(''a'', DirNode [(''b'', FileNode ''x'')])], sd_home = Some ''/h'',
    sd_fails = (\<lambda>p. False), sd_id = None, sd_utf8 = (\<lambda>s. True), sd_loaded = (\<lambda>t. None)\<rparr>"
  obtain new where "copy_skill ?se [(''c'', FileNode ''y'')] = (True, new)"
    by (simp add: copy_skill_def subdir_def)
  from skill_copy_complete [OF this, of "[(''a'', DirNode [(''b'', FileNode ''x'')])]" "[''a'', ''b'']"] this
  show ?thesis by simp
qed

end
